(* ===== verification/Prelude.thy ===== *)
theory Prelude
  imports Main "HOL-Library.Word"
begin

text \<open>
  Shared vocabulary of the development: the machine types of the C code, the
  status codes that the protocol modules share by value, the byte-string
  literals, and the word and list lemmas that several components use.

  Wire integers keep their width (\<open>u64\<close> for \<^verbatim>\<open>uint64_t\<close> and so on). A
  \<^verbatim>\<open>size_t\<close> that measures a buffer held in memory is a \<open>nat\<close>: a buffer is a
  list, and its length and every offset into it are bounded by the address
  space. A pointer/length pair \<^verbatim>\<open>(src + off, len - off)\<close> is \<open>drop off src\<close>.
\<close>

unbundle bit_operations_syntax

type_synonym byte = "8 word"
type_synonym u16 = "16 word"
type_synonym u32 = "32 word"
type_synonym u64 = "64 word"
type_synonym bytes = "byte list"

text \<open>
  The statuses other than success. The modules \<^verbatim>\<open>varint\<close>, \<^verbatim>\<open>h3_frame\<close>,
  \<^verbatim>\<open>preamble\<close>, \<^verbatim>\<open>capsule\<close> and \<^verbatim>\<open>h3_settings\<close> share the first three values (their
  \<^verbatim>\<open>#define\<close>s alias the varint enum) and each adds its own \<open>-3\<close>. A function that
  can fail returns \<open>Inl status\<close> or \<open>Inr outputs\<close>.
\<close>

datatype wtq_status =
    NEED_MORE      \<comment> \<open>valid prefix, feed more bytes\<close>
  | BUFFER         \<comment> \<open>destination too small\<close>
  | RANGE          \<comment> \<open>value out of range\<close>
  | MALFORMED      \<comment> \<open>capsule, QPACK: invalid shape\<close>
  | ERR_SETTING    \<comment> \<open>SETTINGS: duplicate, reserved or invalid value\<close>
  | FAULT          \<comment> \<open>no C status: a read outside an array (undefined behaviour)\<close>

text \<open>
  What a call whose status the C code discards (\<^verbatim>\<open>(void)encode(...)\<close>) has put into
  the destination: nothing when it failed (the out length stays 0).
\<close>

definition written :: "wtq_status + bytes \<Rightarrow> bytes" where
  "written r = (case r of Inl _ \<Rightarrow> [] | Inr bs \<Rightarrow> bs)"

lemma written_simps [simp]: "written (Inl e) = []" "written (Inr bs) = bs"
  by (simp_all add: written_def)

named_theorems word_nat \<open>reading word operations as natural-number arithmetic\<close>
named_theorems decoder_simps \<open>unfolding equations of the incremental decoders\<close>

text \<open>A C string literal: the bytes of its characters.\<close>

definition str :: "string \<Rightarrow> bytes" where
  "str s = map of_char s"

lemma length_str [simp]: "length (str s) = length s"
  by (simp add: str_def)

section \<open>Words as numbers\<close>

lemma unat_byte_less [simp]: "unat (b :: byte) < 256"
  using unsigned_less [of b] by simp

lemma unat_byte_le [simp]: "unat (b :: byte) \<le> 255"
  using unat_byte_less [of b] by linarith

lemma unat_u64_less [simp]: "unat (v :: u64) < 18446744073709551616"
  using unsigned_less [of v] by simp

lemma unat_u32_less [simp]: "unat (v :: u32) < 4294967296"
  using unsigned_less [of v] by simp

lemma unat_ucast_byte_u64 [simp]: "unat (ucast (b :: byte) :: u64) = unat b"
  by (simp add: unsigned_ucast_eq take_bit_nat_eq_self_iff
        less_trans [OF unat_byte_less [of b]])

lemma unat_ucast_byte_u32 [simp]: "unat (ucast (b :: byte) :: u32) = unat b"
  by (simp add: unsigned_ucast_eq take_bit_nat_eq_self_iff
        less_trans [OF unat_byte_less [of b]])

lemma unat_ucast_u32_u64 [simp]: "unat (ucast (v :: u32) :: u64) = unat v"
  by (simp add: unsigned_ucast_eq take_bit_nat_eq_self_iff
        less_trans [OF unat_u32_less [of v]])

lemma unat_ucast_u64_byte [word_nat]: "unat (ucast (v :: u64) :: byte) = unat v mod 256"
  by (simp add: unsigned_ucast_eq take_bit_eq_mod)

lemma unat_drop_bit [word_nat]: "unat (drop_bit n w) = unat w div 2 ^ n"
  unfolding unat_drop_bit_eq by (simp add: drop_bit_eq_div)

lemma unat_and_mask [word_nat]: "unat (w AND mask n) = unat w mod 2 ^ n"
  unfolding take_bit_eq_mask [symmetric] unsigned_take_bit_eq by (simp add: take_bit_eq_mod)

lemma byte_and_3f [word_nat]: "unat ((b :: byte) AND 0x3f) = unat b mod 64"
  using unat_and_mask [of b 6] by (simp add: mask_eq_exp_minus_1)

lemma shl8_or_add: "push_bit 8 (v :: u64) OR ucast (b :: byte) = push_bit 8 v + ucast b"
  by (rule disjunctive_add [symmetric]) (auto simp: bit_simps dest: bit_imp_le_length)

text \<open>The accumulation step of every big-endian reader: shift left by a byte and or one in.\<close>

lemma unat_shl8_or [word_nat]:
  assumes "unat (v :: u64) < 2 ^ 56"
  shows "unat (push_bit 8 v OR ucast (b :: byte)) = unat v * 256 + unat b"
proof -
  have "unat (push_bit 8 v) = unat v * 256"
    unfolding unsigned_push_bit_eq using assms by (simp add: take_bit_eq_mod push_bit_eq_mult)
  moreover have "unat v * 256 + unat b < 18446744073709551616"
    using assms [simplified] unat_byte_less [of b] by linarith
  ultimately show ?thesis by (simp add: shl8_or_add unat_word_ariths)
qed

lemma unat_of_nat_u64 [word_nat]: "n < 2 ^ 64 \<Longrightarrow> unat (of_nat n :: u64) = n"
  by (simp add: unsigned_of_nat take_bit_nat_eq_self_iff)

lemma unat_minus_of_nat [word_nat]:
  assumes "n \<le> unat (v :: u64)"
  shows "unat (v - of_nat n) = unat v - n"
proof -
  have n: "unat (of_nat n :: u64) = n"
    using le_less_trans [OF assms unat_u64_less [of v]] by (intro unat_of_nat_u64) simp
  with assms have "of_nat n \<le> v" by (simp add: word_le_nat_alt)
  then show ?thesis using n unat_sub [of "of_nat n" v] by simp
qed

section \<open>String literals\<close>

lemma unat_of_char: "unat (of_char c :: byte) = of_char c"
proof -
  have "unat (of_nat (of_char c) :: byte) = (of_char c :: nat)"
    by (simp add: unsigned_of_nat take_bit_nat_eq_self_iff)
  then show ?thesis by (simp only: of_nat_of_char)
qed

lemma of_char_byte_inj: "(of_char c :: byte) = of_char d \<longleftrightarrow> c = d"
proof
  assume "(of_char c :: byte) = of_char d"
  then have "(of_char c :: nat) = of_char d" by (metis unat_of_char)
  then show "c = d" by (rule of_char_eqI)
qed simp

lemma str_eq_iff [simp]: "str s = str t \<longleftrightarrow> s = t"
  unfolding str_def by (rule inj_map_eq_map) (auto intro: injI simp: of_char_byte_inj)

section \<open>Big-endian byte strings\<close>

definition be_nat :: "bytes \<Rightarrow> nat" where
  "be_nat bs = foldl (\<lambda>a b. a * 256 + unat b) 0 bs"

lemma foldl_be: "foldl (\<lambda>a b. a * 256 + unat b) a bs = a * 256 ^ length bs + be_nat bs"
proof (induction bs arbitrary: a)
  case Nil
  show ?case by (simp add: be_nat_def)
next
  case (Cons b bs)
  have "be_nat (b # bs) = foldl (\<lambda>a b. a * 256 + unat b) (unat b) bs"
    by (simp add: be_nat_def)
  then show ?case using Cons [of "a * 256 + unat b"] Cons [of "unat b"]
    by (simp add: algebra_simps)
qed

lemma be_nat_Nil [simp]: "be_nat [] = 0"
  by (simp add: be_nat_def)

lemma be_nat_Cons [simp]: "be_nat (b # bs) = unat b * 256 ^ length bs + be_nat bs"
  using foldl_be [of "unat b" bs] by (simp add: be_nat_def)

lemma be_nat_less: "be_nat bs < 256 ^ length bs"
proof (induction bs)
  case (Cons b bs)
  have "unat b * 256 ^ length bs + be_nat bs < (unat b + 1) * 256 ^ length bs"
    using Cons by simp
  also have "\<dots> \<le> 256 * 256 ^ length bs"
    using unat_byte_less [of b] by (intro mult_le_mono1) linarith
  finally show ?case by simp
qed simp

text \<open>The bytes that a shift loop \<^verbatim>\<open>dst[i] = value >> 8 * (n - 1 - i)\<close> writes.\<close>

definition be_bytes :: "nat \<Rightarrow> u64 \<Rightarrow> bytes" where
  "be_bytes n v = map (\<lambda>i. ucast (drop_bit (8 * (n - 1 - i)) v)) [0..<n]"

lemma length_be_bytes [simp]: "length (be_bytes n v) = n"
  by (simp add: be_bytes_def)

lemma be_bytes_0 [simp]: "be_bytes 0 v = []"
  by (simp add: be_bytes_def)

lemma be_bytes_Suc: "be_bytes (Suc n) v = ucast (drop_bit (8 * n) v) # be_bytes n v"
proof -
  have "be_bytes (Suc n) v
      = ucast (drop_bit (8 * n) v)
        # map (\<lambda>i. ucast (drop_bit (8 * (n - i)) v)) [Suc 0..<Suc n]"
    by (simp add: be_bytes_def upt_conv_Cons del: upt_Suc)
  also have "map (\<lambda>i. ucast (drop_bit (8 * (n - i)) v) :: byte) [Suc 0..<Suc n]
      = map (\<lambda>i. ucast (drop_bit (8 * (n - Suc i)) v)) [0..<n]"
    by (simp add: map_Suc_upt [symmetric] comp_def del: upt_Suc)
  finally show ?thesis by (simp add: be_bytes_def)
qed

lemma be_nat_be_bytes: "be_nat (be_bytes n v) = unat v mod 256 ^ n"
proof (induction n)
  case (Suc n)
  have "unat (ucast (drop_bit (8 * n) v) :: byte) = (unat v div 256 ^ n) mod 256"
    by (simp add: word_nat power_mult)
  then show ?case
    using Suc mod_mult2_eq [of "unat v" "256 ^ n" 256]
    by (simp add: be_bytes_Suc mult.commute)
qed simp

section \<open>Lists\<close>

lemma drop_append_exact [simp]: "length xs = n \<Longrightarrow> drop n (xs @ ys) = ys"
  by simp

lemma take_append_exact: "length xs = n \<Longrightarrow> take n (xs @ ys) = xs"
  by simp

end
