(* ===== verification/Qpack_Tables.thy ===== *)
theory Qpack_Tables
  imports Prelude
begin

text \<open>
  The tables of \<^verbatim>\<open>src/proto/qpack_tables.inc\<close>: the QPACK static table (RFC 9204
  Appendix A) and the canonical Huffman decode tables (RFC 7541 Appendix B). The
  length columns of the C table are the lengths of the strings.
\<close>

definition wtq_qpack_static_table :: "(bytes \<times> bytes) list" where
  "wtq_qpack_static_table =
     [(str '':authority'', str ''''),
      (str '':path'', str ''/''),
      (str ''age'', str ''0''),
      (str ''content-disposition'', str ''''),
      (str ''content-length'', str ''0''),
      (str ''cookie'', str ''''),
      (str ''date'', str ''''),
      (str ''etag'', str ''''),
      (str ''if-modified-since'', str ''''),
      (str ''if-none-match'', str ''''),
      (str ''last-modified'', str ''''),
      (str ''link'', str ''''),
      (str ''location'', str ''''),
      (str ''referer'', str ''''),
      (str ''set-cookie'', str ''''),
      (str '':method'', str ''CONNECT''),
      (str '':method'', str ''DELETE''),
      (str '':method'', str ''GET''),
      (str '':method'', str ''HEAD''),
      (str '':method'', str ''OPTIONS''),
      (str '':method'', str ''POST''),
      (str '':method'', str ''PUT''),
      (str '':scheme'', str ''http''),
      (str '':scheme'', str ''https''),
      (str '':status'', str ''103''),
      (str '':status'', str ''200''),
      (str '':status'', str ''304''),
      (str '':status'', str ''404''),
      (str '':status'', str ''503''),
      (str ''accept'', str ''*/*''),
      (str ''accept'', str ''application/dns-message''),
      (str ''accept-encoding'', str ''gzip, deflate, br''),
      (str ''accept-ranges'', str ''bytes''),
      (str ''access-control-allow-headers'', str ''cache-control''),
      (str ''access-control-allow-headers'', str ''content-type''),
      (str ''access-control-allow-origin'', str ''*''),
      (str ''cache-control'', str ''max-age=0''),
      (str ''cache-control'', str ''max-age=2592000''),
      (str ''cache-control'', str ''max-age=604800''),
      (str ''cache-control'', str ''no-cache''),
      (str ''cache-control'', str ''no-store''),
      (str ''cache-control'', str ''public, max-age=31536000''),
      (str ''content-encoding'', str ''br''),
      (str ''content-encoding'', str ''gzip''),
      (str ''content-type'', str ''application/dns-message''),
      (str ''content-type'', str ''application/javascript''),
      (str ''content-type'', str ''application/json''),
      (str ''content-type'', str ''application/x-www-form-urlencoded''),
      (str ''content-type'', str ''image/gif''),
      (str ''content-type'', str ''image/jpeg''),
      (str ''content-type'', str ''image/png''),
      (str ''content-type'', str ''text/css''),
      (str ''content-type'', str ''text/html; charset=utf-8''),
      (str ''content-type'', str ''text/plain''),
      (str ''content-type'', str ''text/plain;charset=utf-8''),
      (str ''range'', str ''bytes=0-''),
      (str ''strict-transport-security'', str ''max-age=31536000''),
      (str ''strict-transport-security'', str ''max-age=31536000; includesubdomains''),
      (str ''strict-transport-security'', str ''max-age=31536000; includesubdomains; preload''),
      (str ''vary'', str ''accept-encoding''),
      (str ''vary'', str ''origin''),
      (str ''x-content-type-options'', str ''nosniff''),
      (str ''x-xss-protection'', str ''1; mode=block''),
      (str '':status'', str ''100''),
      (str '':status'', str ''204''),
      (str '':status'', str ''206''),
      (str '':status'', str ''302''),
      (str '':status'', str ''400''),
      (str '':status'', str ''403''),
      (str '':status'', str ''421''),
      (str '':status'', str ''425''),
      (str '':status'', str ''500''),
      (str ''accept-language'', str ''''),
      (str ''access-control-allow-credentials'', str ''FALSE''),
      (str ''access-control-allow-credentials'', str ''TRUE''),
      (str ''access-control-allow-headers'', str ''*''),
      (str ''access-control-allow-methods'', str ''get''),
      (str ''access-control-allow-methods'', str ''get, post, options''),
      (str ''access-control-allow-methods'', str ''options''),
      (str ''access-control-expose-headers'', str ''content-length''),
      (str ''access-control-request-headers'', str ''content-type''),
      (str ''access-control-request-method'', str ''get''),
      (str ''access-control-request-method'', str ''post''),
      (str ''alt-svc'', str ''clear''),
      (str ''authorization'', str ''''),
      (str ''content-security-policy'', (str ''script-src '' @ [0x27] @ str ''none'' @ [0x27] @ str ''; object-src '' @ [0x27] @ str ''none'' @ [0x27] @ str ''; base-uri '' @ [0x27] @ str ''none'' @ [0x27] @ str '''')),
      (str ''early-data'', str ''1''),
      (str ''expect-ct'', str ''''),
      (str ''forwarded'', str ''''),
      (str ''if-range'', str ''''),
      (str ''origin'', str ''''),
      (str ''purpose'', str ''prefetch''),
      (str ''server'', str ''''),
      (str ''timing-allow-origin'', str ''*''),
      (str ''upgrade-insecure-requests'', str ''1''),
      (str ''user-agent'', str ''''),
      (str ''x-forwarded-for'', str ''''),
      (str ''x-frame-options'', str ''deny''),
      (str ''x-frame-options'', str ''sameorigin'')]"

definition wtq_huff_symbols :: "byte list" where
  "wtq_huff_symbols =
     [0x30, 0x31, 0x32, 0x61, 0x63, 0x65, 0x69, 0x6f, 0x73, 0x74, 0x20, 0x25,
      0x2d, 0x2e, 0x2f, 0x33, 0x34, 0x35, 0x36, 0x37, 0x38, 0x39, 0x3d, 0x41,
      0x5f, 0x62, 0x64, 0x66, 0x67, 0x68, 0x6c, 0x6d, 0x6e, 0x70, 0x72, 0x75,
      0x3a, 0x42, 0x43, 0x44, 0x45, 0x46, 0x47, 0x48, 0x49, 0x4a, 0x4b, 0x4c,
      0x4d, 0x4e, 0x4f, 0x50, 0x51, 0x52, 0x53, 0x54, 0x55, 0x56, 0x57, 0x59,
      0x6a, 0x6b, 0x71, 0x76, 0x77, 0x78, 0x79, 0x7a, 0x26, 0x2a, 0x2c, 0x3b,
      0x58, 0x5a, 0x21, 0x22, 0x28, 0x29, 0x3f, 0x27, 0x2b, 0x7c, 0x23, 0x3e,
      0x00, 0x24, 0x40, 0x5b, 0x5d, 0x7e, 0x5e, 0x7d, 0x3c, 0x60, 0x7b, 0x5c,
      0xc3, 0xd0, 0x80, 0x82, 0x83, 0xa2, 0xb8, 0xc2, 0xe0, 0xe2, 0x99, 0xa1,
      0xa7, 0xac, 0xb0, 0xb1, 0xb3, 0xd1, 0xd8, 0xd9, 0xe3, 0xe5, 0xe6, 0x81,
      0x84, 0x85, 0x86, 0x88, 0x92, 0x9a, 0x9c, 0xa0, 0xa3, 0xa4, 0xa9, 0xaa,
      0xad, 0xb2, 0xb5, 0xb9, 0xba, 0xbb, 0xbd, 0xbe, 0xc4, 0xc6, 0xe4, 0xe8,
      0xe9, 0x01, 0x87, 0x89, 0x8a, 0x8b, 0x8c, 0x8d, 0x8f, 0x93, 0x95, 0x96,
      0x97, 0x98, 0x9b, 0x9d, 0x9e, 0xa5, 0xa6, 0xa8, 0xae, 0xaf, 0xb4, 0xb6,
      0xb7, 0xbc, 0xbf, 0xc5, 0xe7, 0xef, 0x09, 0x8e, 0x90, 0x91, 0x94, 0x9f,
      0xab, 0xce, 0xd7, 0xe1, 0xec, 0xed, 0xc7, 0xcf, 0xea, 0xeb, 0xc0, 0xc1,
      0xc8, 0xc9, 0xca, 0xcd, 0xd2, 0xd5, 0xda, 0xdb, 0xee, 0xf0, 0xf2, 0xf3,
      0xff, 0xcb, 0xcc, 0xd3, 0xd4, 0xd6, 0xdd, 0xde, 0xdf, 0xf1, 0xf4, 0xf5,
      0xf6, 0xf7, 0xf8, 0xfa, 0xfb, 0xfc, 0xfd, 0xfe, 0x02, 0x03, 0x04, 0x05,
      0x06, 0x07, 0x08, 0x0b, 0x0c, 0x0e, 0x0f, 0x10, 0x11, 0x12, 0x13, 0x14,
      0x15, 0x17, 0x18, 0x19, 0x1a, 0x1b, 0x1c, 0x1d, 0x1e, 0x1f, 0x7f, 0xdc,
      0xf9, 0x0a, 0x0d, 0x16]"

record huff_row =
  hr_bits :: nat
  hr_first_code :: u32
  hr_first_index :: nat
  hr_count :: u32

definition huff_row_of :: "nat \<times> u32 \<times> nat \<times> u32 \<Rightarrow> huff_row" where
  "huff_row_of = (\<lambda>(bits, first_code, first_index, count).
     \<lparr>hr_bits = bits, hr_first_code = first_code, hr_first_index = first_index, hr_count = count\<rparr>)"

definition wtq_huff_lengths :: "huff_row list" where
  "wtq_huff_lengths = map huff_row_of
     [(5, 0x00000000, 0, 10),
      (6, 0x00000014, 10, 26),
      (7, 0x0000005c, 36, 32),
      (8, 0x000000f8, 68, 6),
      (10, 0x000003f8, 74, 5),
      (11, 0x000007fa, 79, 3),
      (12, 0x00000ffa, 82, 2),
      (13, 0x00001ff8, 84, 6),
      (14, 0x00003ffc, 90, 2),
      (15, 0x00007ffc, 92, 3),
      (19, 0x0007fff0, 95, 3),
      (20, 0x000fffe6, 98, 8),
      (21, 0x001fffdc, 106, 13),
      (22, 0x003fffd2, 119, 26),
      (23, 0x007fffd8, 145, 29),
      (24, 0x00ffffea, 174, 12),
      (25, 0x01ffffec, 186, 4),
      (26, 0x03ffffe0, 190, 15),
      (27, 0x07ffffde, 205, 19),
      (28, 0x0fffffe2, 224, 29),
      (30, 0x3ffffffc, 253, 3)]"

definition WTQ_HUFF_EOS_BITS :: nat where "WTQ_HUFF_EOS_BITS = 30"

definition WTQ_QPACK_STATIC_COUNT :: nat where "WTQ_QPACK_STATIC_COUNT = 99"

lemma static_table_count: "length wtq_qpack_static_table = WTQ_QPACK_STATIC_COUNT"
  by (simp add: wtq_qpack_static_table_def WTQ_QPACK_STATIC_COUNT_def)

lemma huff_symbols_count: "length wtq_huff_symbols = 256"
  by (simp add: wtq_huff_symbols_def)

end
