(* ===== verification/Chunked_Decoder.thy ===== *)
theory Chunked_Decoder
  imports Prelude
begin

text \<open>
  The contract that every incremental decoder of the protocol layer documents:
  bytes may arrive in any chunking and ``chunking never changes the result''
  (\<^verbatim>\<open>varint.h\<close>, \<^verbatim>\<open>h3_frame.h\<close>, \<^verbatim>\<open>preamble.h\<close>, \<^verbatim>\<open>capsule.h\<close>).

  A decoder is a feed operation: from a state and a chunk it gives the next
  state, \<open>Inl status\<close> or \<open>Inr output\<close>, and the number of bytes eaten from this
  chunk. The locale states its laws on the states that satisfy the decoder's
  invariant; the interpretations are in the theories of the four decoders.
\<close>

type_synonym ('d, 'o) feed = "'d \<Rightarrow> bytes \<Rightarrow> 'd \<times> (wtq_status + 'o) \<times> nat"

text \<open>
  The caller's loop: hand over chunk after chunk until the decoder reports
  something other than \<open>NEED_MORE\<close>; count the bytes eaten over all calls.
\<close>

fun feed_chunks :: "('d, 'o) feed \<Rightarrow> 'd \<Rightarrow> bytes list \<Rightarrow> 'd \<times> (wtq_status + 'o) \<times> nat" where
  "feed_chunks feed d [] = (d, Inl NEED_MORE, 0)"
| "feed_chunks feed d (c # cs) =
     (case feed d c of
        (d', Inl NEED_MORE, n) \<Rightarrow>
          (case feed_chunks feed d' cs of (d'', r, m) \<Rightarrow> (d'', r, n + m))
      | other \<Rightarrow> other)"

locale chunked_decoder =
  fixes feed :: "('d, 'o) feed"
    and inv :: "'d \<Rightarrow> bool"
  assumes inv_feed: "inv d \<Longrightarrow> feed d xs = (d', r, n) \<Longrightarrow> inv d'"
    and feed_bound: "inv d \<Longrightarrow> feed d xs = (d', r, n) \<Longrightarrow> n \<le> length xs"
    and feed_more: "inv d \<Longrightarrow> feed d xs = (d', Inl NEED_MORE, n) \<Longrightarrow> n = length xs"
    and feed_split: "inv d \<Longrightarrow> feed d xs = (d', Inl NEED_MORE, n) \<Longrightarrow>
        feed d (xs @ ys) = (case feed d' ys of (d'', r, m) \<Rightarrow> (d'', r, length xs + m))"
    and feed_done: "inv d \<Longrightarrow> feed d xs = (d', r, n) \<Longrightarrow> r \<noteq> Inl NEED_MORE \<Longrightarrow>
        feed d (xs @ ys) = (d', r, n)"
begin

lemma inv_feed_chunks: "inv d \<Longrightarrow> feed_chunks feed d cs = (d', r, n) \<Longrightarrow> inv d'"
proof (induction cs arbitrary: d d' r n)
  case (Cons c cs)
  obtain d1 r1 n1 where f: "feed d c = (d1, r1, n1)" by (metis prod_cases3)
  with Cons.prems(1) have "inv d1" by (rule inv_feed)
  with Cons f show ?case
    by (auto split: prod.splits sum.splits wtq_status.splits)
qed simp

text \<open>Feeding the chunks one by one is feeding their concatenation at once.\<close>

theorem feed_chunks_concat:
  assumes "inv d" "cs \<noteq> []"
  shows "feed_chunks feed d cs = feed d (concat cs)"
  using assms
proof (induction cs arbitrary: d)
  case (Cons c cs)
  obtain d1 r1 n1 where f: "feed d c = (d1, r1, n1)" by (metis prod_cases3)
  show ?case
  proof (cases "r1 = Inl NEED_MORE")
    case True
    with f Cons.prems have more: "feed d c = (d1, Inl NEED_MORE, length c)"
      using feed_more by blast
    have inv1: "inv d1" using Cons.prems(1) more by (rule inv_feed)
    show ?thesis
    proof (cases "cs = []")
      case True
      then show ?thesis using more by simp
    next
      case False
      with Cons.IH inv1 have "feed_chunks feed d1 cs = feed d1 (concat cs)" by blast
      with more feed_split [OF Cons.prems(1) more, of "concat cs"] show ?thesis by simp
    qed
  next
    case False
    with f have "feed_chunks feed d (c # cs) = (d1, r1, n1)"
      by (auto split: sum.splits wtq_status.splits)
    with feed_done [OF Cons.prems(1) f False, of "concat cs"] show ?thesis by simp
  qed
qed simp

text \<open>One byte, then the rest.\<close>

lemma feed_byte:
  assumes "inv d"
  shows "feed d (b # bs) =
    (case feed d [b] of
       (d', Inl NEED_MORE, n) \<Rightarrow> (case feed d' bs of (d'', r, m) \<Rightarrow> (d'', r, Suc m))
     | other \<Rightarrow> other)"
proof -
  obtain d1 r n where f: "feed d [b] = (d1, r, n)" by (metis prod_cases3)
  show ?thesis
  proof (cases "r = Inl NEED_MORE")
    case True
    then show ?thesis using feed_split [OF assms f [unfolded True], of bs] f by simp
  next
    case False
    then show ?thesis
      using feed_done [OF assms f False, of bs] f by (auto split: sum.splits wtq_status.splits)
  qed
qed

lemma byte_cases:
  assumes "inv d"
  obtains (more) d' where "inv d'" "feed d [b] = (d', Inl NEED_MORE, 1)"
      "\<And>bs. feed d (b # bs) = (case feed d' bs of (d'', r, m) \<Rightarrow> (d'', r, Suc m))"
  | (final) d' r n where "r \<noteq> Inl NEED_MORE" "n \<le> 1" "inv d'" "\<And>bs. feed d (b # bs) = (d', r, n)"
proof -
  obtain d' r n where f: "feed d [b] = (d', r, n)" by (metis prod_cases3)
  have inv': "inv d'" using assms f by (rule inv_feed)
  show ?thesis
  proof (cases "r = Inl NEED_MORE")
    case True
    note f' = f [unfolded True]
    have one: "feed d [b] = (d', Inl NEED_MORE, 1)" using f' feed_more [OF assms f'] by simp
    show ?thesis
      by (rule more [OF inv' one]) (use feed_split [OF assms f'] in simp)
  next
    case False
    have "n \<le> 1" using feed_bound [OF assms f] by simp
    then show ?thesis
      using inv' feed_done [OF assms f False] by (intro final [OF False, of n d']) simp_all
  qed
qed

corollary feed_chunks_invariant:
  assumes "inv d" "cs \<noteq> []" "ds \<noteq> []" "concat cs = concat ds"
  shows "feed_chunks feed d cs = feed_chunks feed d ds"
  using assms by (simp add: feed_chunks_concat)

end

text \<open>
  A decoder that behaves byte by byte is a chunked decoder. The laws are those
  of one byte at a time; a state may be latched, and then it answers every feed
  with the same result and eats nothing.
\<close>

locale byte_decoder =
  fixes feed :: "('d, 'o) feed"
    and inv :: "'d \<Rightarrow> bool"
  assumes inv_byte: "inv d \<Longrightarrow> feed d [b] = (d', r, n) \<Longrightarrow> inv d'"
    and feed_Nil: "inv d \<Longrightarrow>
        feed d [] = (d, Inl NEED_MORE, 0)
        \<or> (\<exists>r. r \<noteq> Inl NEED_MORE \<and> (\<forall>xs. feed d xs = (d, r, 0)))"
    and feed_Cons: "inv d \<Longrightarrow>
        feed d (b # bs) =
          (case feed d [b] of
             (d', Inl NEED_MORE, n) \<Rightarrow> (case feed d' bs of (d'', r, m) \<Rightarrow> (d'', r, Suc m))
           | other \<Rightarrow> other)"
    and byte_bound: "inv d \<Longrightarrow> feed d [b] = (d', r, n) \<Longrightarrow> n \<le> 1"
begin

lemma Cons_more:
  assumes "inv d" "feed d [b] = (d1, Inl NEED_MORE, n)"
  shows "feed d (b # bs) = (case feed d1 bs of (d'', r, m) \<Rightarrow> (d'', r, Suc m))"
  using feed_Cons [OF assms(1), of b bs] assms(2) by simp

lemma Cons_done:
  assumes "inv d" "feed d [b] = (d1, r, n)" "r \<noteq> Inl NEED_MORE"
  shows "feed d (b # bs) = (d1, r, n)"
  using feed_Cons [OF assms(1), of b bs] assms(2,3)
  by (auto split: sum.splits wtq_status.splits)

lemma byte_inv: "inv d \<Longrightarrow> feed d xs = (d', r, n) \<Longrightarrow> inv d'"
proof (induction xs arbitrary: d n)
  case Nil
  then show ?case using feed_Nil [OF Nil.prems(1)] by auto
next
  case (Cons b bs)
  obtain d1 r1 n1 where f: "feed d [b] = (d1, r1, n1)" by (metis prod_cases3)
  with Cons.prems(1) have "inv d1" by (rule inv_byte)
  then show ?case
    using Cons f Cons_more [OF Cons.prems(1), of b d1 n1 bs] Cons_done [OF Cons.prems(1) f, of bs]
    by (cases "r1 = Inl NEED_MORE") (auto split: prod.splits)
qed

lemma byte_feed_bound: "inv d \<Longrightarrow> feed d xs = (d', r, n) \<Longrightarrow> n \<le> length xs"
proof (induction xs arbitrary: d n)
  case Nil
  then show ?case using feed_Nil [OF Nil.prems(1)] by auto
next
  case (Cons b bs)
  obtain d1 r1 n1 where f: "feed d [b] = (d1, r1, n1)" by (metis prod_cases3)
  have "inv d1" using Cons.prems(1) f by (rule inv_byte)
  moreover have "n1 \<le> 1" using Cons.prems(1) f by (rule byte_bound)
  ultimately show ?case
    using Cons f Cons_more [OF Cons.prems(1), of b d1 n1 bs] Cons_done [OF Cons.prems(1) f, of bs]
    by (cases "r1 = Inl NEED_MORE") (fastforce split: prod.splits)+
qed

lemma byte_feed_more: "inv d \<Longrightarrow> feed d xs = (d', Inl NEED_MORE, n) \<Longrightarrow> n = length xs"
proof (induction xs arbitrary: d n)
  case Nil
  then show ?case using feed_Nil [OF Nil.prems(1)] by auto
next
  case (Cons b bs)
  obtain d1 r1 n1 where f: "feed d [b] = (d1, r1, n1)" by (metis prod_cases3)
  have "inv d1" using Cons.prems(1) f by (rule inv_byte)
  then show ?case
    using Cons f Cons_more [OF Cons.prems(1), of b d1 n1 bs] Cons_done [OF Cons.prems(1) f, of bs]
    by (cases "r1 = Inl NEED_MORE") (fastforce split: prod.splits)+
qed

lemma byte_feed_split:
  "inv d \<Longrightarrow> feed d xs = (d', Inl NEED_MORE, n) \<Longrightarrow>
   feed d (xs @ ys) = (case feed d' ys of (d'', r, m) \<Rightarrow> (d'', r, length xs + m))"
proof (induction xs arbitrary: d n)
  case Nil
  then show ?case using feed_Nil [OF Nil.prems(1)] by (auto split: prod.splits)
next
  case (Cons b bs)
  obtain d1 r1 n1 where f: "feed d [b] = (d1, r1, n1)" by (metis prod_cases3)
  have inv1: "inv d1" using Cons.prems(1) f by (rule inv_byte)
  have more: "r1 = Inl NEED_MORE"
    using Cons.prems(2) Cons_done [OF Cons.prems(1) f, of bs] by auto
  note step = Cons_more [OF Cons.prems(1) f [unfolded more]]
  obtain m where "feed d1 bs = (d', Inl NEED_MORE, m)"
    using Cons.prems(2) step [of bs] by (auto split: prod.splits)
  then show ?case using Cons.IH [OF inv1] step [of "bs @ ys"] by (simp split: prod.splits)
qed

lemma byte_feed_done:
  "inv d \<Longrightarrow> feed d xs = (d', r, n) \<Longrightarrow> r \<noteq> Inl NEED_MORE \<Longrightarrow> feed d (xs @ ys) = (d', r, n)"
proof (induction xs arbitrary: d n)
  case Nil
  then show ?case using feed_Nil [OF Nil.prems(1)] by auto
next
  case (Cons b bs)
  obtain d1 r1 n1 where f: "feed d [b] = (d1, r1, n1)" by (metis prod_cases3)
  have inv1: "inv d1" using Cons.prems(1) f by (rule inv_byte)
  show ?case
  proof (cases "r1 = Inl NEED_MORE")
    case True
    note step = Cons_more [OF Cons.prems(1) f [unfolded True]]
    obtain m where "feed d1 bs = (d', r, m)" "n = Suc m"
      using Cons.prems(2) step [of bs] by (auto split: prod.splits)
    then show ?thesis using Cons.IH [OF inv1 _ Cons.prems(3)] step [of "bs @ ys"] by simp
  next
    case False
    then show ?thesis using Cons_done [OF Cons.prems(1) f False] Cons.prems(2) by simp
  qed
qed

end

sublocale byte_decoder \<subseteq> chunked_decoder
  by unfold_locales (fact byte_inv byte_feed_bound byte_feed_more byte_feed_split byte_feed_done)+

end
