(* ===== verification/Varint.thy ===== *)
theory Varint
  imports Chunked_Decoder
begin

text \<open>
  QUIC variable-length integers: \<^verbatim>\<open>src/proto/varint.c\<close> and \<^verbatim>\<open>varint.h\<close>. The
  encoder, the one-shot decoder and the incremental decoder, with the round
  trip, minimality of the encoding, and the agreement of the two decoders.
\<close>

definition WTQ_VARINT_MAX :: u64 where
  "WTQ_VARINT_MAX = push_bit 62 1 - 1"

definition wtq_varint_len :: "u64 \<Rightarrow> nat" where
  "wtq_varint_len value =
     (if value < push_bit 6 1 then 1
      else if value < push_bit 14 1 then 2
      else if value < push_bit 30 1 then 4
      else if value \<le> WTQ_VARINT_MAX then 8
      else 0)"

definition wtq_varint_len_from_first :: "byte \<Rightarrow> nat" where
  "wtq_varint_len_from_first first_byte = 2 ^ unat (drop_bit 6 first_byte)"

definition wtq_varint_is_minimal :: "u64 \<Rightarrow> nat \<Rightarrow> bool" where
  "wtq_varint_is_minimal value encoded_len \<longleftrightarrow> wtq_varint_len value = encoded_len"

definition varint_tag :: "nat \<Rightarrow> byte" where
  "varint_tag need = (if need = 1 then 0 else if need = 2 then 1 else if need = 4 then 2 else 3)"

definition wtq_varint_encode :: "u64 \<Rightarrow> nat \<Rightarrow> wtq_status + bytes" where
  "wtq_varint_encode value cap =
     (let need = wtq_varint_len value in
      if need = 0 then Inl RANGE
      else if cap < need then Inl BUFFER
      else let dst = be_bytes need value
           in Inr (dst[0 := (dst ! 0 AND 0x3f) OR push_bit 6 (varint_tag need)]))"

definition varint_acc :: "u64 \<Rightarrow> bytes \<Rightarrow> u64" where
  "varint_acc v bs = foldl (\<lambda>v b. push_bit 8 v OR ucast b) v bs"

definition wtq_varint_decode :: "bytes \<Rightarrow> wtq_status + (u64 \<times> nat)" where
  "wtq_varint_decode src =
     (case src of
        [] \<Rightarrow> Inl NEED_MORE
      | b # rest \<Rightarrow>
          let need = wtq_varint_len_from_first b in
          if length src < need then Inl NEED_MORE
          else Inr (varint_acc (ucast (b AND 0x3f)) (take (need - 1) rest), need))"

record wtq_varint_dec =
  vd_acc :: u64   \<comment> \<open>accumulated payload bits\<close>
  vd_need :: nat  \<comment> \<open>total encoded length once the first byte is seen; 0 = fresh\<close>
  vd_have :: nat \<comment> \<open>bytes consumed so far (the C field \<^verbatim>\<open>have\<close>)\<close>

definition wtq_varint_dec_init :: wtq_varint_dec where
  "wtq_varint_dec_init = \<lparr>vd_acc = 0, vd_need = 0, vd_have = 0\<rparr>"

text \<open>The accumulation loop of the feed: the state and the count of bytes eaten.\<close>

fun varint_feed_loop :: "wtq_varint_dec \<Rightarrow> bytes \<Rightarrow> nat \<Rightarrow> wtq_varint_dec \<times> nat" where
  "varint_feed_loop dec [] eaten = (dec, eaten)"
| "varint_feed_loop dec (b # bs) eaten =
     (if vd_have dec < vd_need dec
      then varint_feed_loop
             (dec\<lparr>vd_acc := push_bit 8 (vd_acc dec) OR ucast b, vd_have := vd_have dec + 1\<rparr>) bs (eaten + 1)
      else (dec, eaten))"

definition varint_feed_finish ::
  "wtq_varint_dec \<times> nat \<Rightarrow> wtq_varint_dec \<times> (wtq_status + u64) \<times> nat" where
  "varint_feed_finish = (\<lambda>(dec, eaten).
     if vd_have dec < vd_need dec then (dec, Inl NEED_MORE, eaten)
     else (wtq_varint_dec_init, Inr (vd_acc dec), eaten))"

definition wtq_varint_dec_feed ::
  "wtq_varint_dec \<Rightarrow> bytes \<Rightarrow> wtq_varint_dec \<times> (wtq_status + u64) \<times> nat" where
  "wtq_varint_dec_feed dec src =
     (if vd_need dec = 0 then
        (case src of
           [] \<Rightarrow> (dec, Inl NEED_MORE, 0)
         | b # rest \<Rightarrow>
             varint_feed_finish
               (varint_feed_loop
                  (dec\<lparr>vd_need := wtq_varint_len_from_first b, vd_acc := ucast (b AND 0x3f), vd_have := 1\<rparr>)
                  rest 1))
      else varint_feed_finish (varint_feed_loop dec src 0))"

section \<open>Lengths and tags\<close>

lemma varint_max_unat: "unat WTQ_VARINT_MAX = 4611686018427387903"
  by (simp add: WTQ_VARINT_MAX_def push_bit_eq_mult)

lemma wtq_varint_len_nat:
  "wtq_varint_len v =
     (if unat v < 64 then 1 else if unat v < 16384 then 2
      else if unat v < 1073741824 then 4 else if unat v \<le> 4611686018427387903 then 8 else 0)"
  by (simp add: wtq_varint_len_def word_less_nat_alt word_le_nat_alt varint_max_unat push_bit_eq_mult)

lemma wtq_varint_len_cases: "wtq_varint_len v \<in> {0, 1, 2, 4, 8}"
  by (simp add: wtq_varint_len_def)

lemma wtq_varint_len_eq_0: "wtq_varint_len v = 0 \<longleftrightarrow> WTQ_VARINT_MAX < v"
  by (auto simp: wtq_varint_len_nat word_less_nat_alt varint_max_unat)

lemma wtq_varint_len_pos [simp]: "v \<le> WTQ_VARINT_MAX \<Longrightarrow> 0 < wtq_varint_len v"
  using wtq_varint_len_eq_0 [of v] by (auto simp: not_less)

lemma wtq_varint_len_le_8: "wtq_varint_len v \<le> 8"
  by (simp add: wtq_varint_len_def)

lemma drop6_less_4: "unat (drop_bit 6 (b :: byte)) < 4"
  by (simp add: unat_drop_bit less_mult_imp_div_less)

lemma len_from_first_cases: "wtq_varint_len_from_first b \<in> {1, 2, 4, 8}"
proof -
  have "unat (drop_bit 6 b) \<in> {0, 1, 2, 3}" using drop6_less_4 [of b] by auto
  then show ?thesis by (auto simp: wtq_varint_len_from_first_def)
qed

lemma len_from_first_pos [simp]: "0 < wtq_varint_len_from_first b"
  by (simp add: wtq_varint_len_from_first_def)

section \<open>What the decoder computes\<close>

lemma varint_acc_Nil [simp]: "varint_acc v [] = v"
  by (simp add: varint_acc_def)

lemma varint_acc_Cons [simp]: "varint_acc v (b # bs) = varint_acc (push_bit 8 v OR ucast b) bs"
  by (simp add: varint_acc_def)

lemma varint_acc_append: "varint_acc v (xs @ ys) = varint_acc (varint_acc v xs) ys"
  by (simp add: varint_acc_def)

lemma unat_varint_acc:
  "(unat v + 1) * 256 ^ length bs \<le> 2 ^ 64 \<Longrightarrow>
   unat (varint_acc v bs) = unat v * 256 ^ length bs + be_nat bs"
proof (induction bs arbitrary: v)
  case (Cons b bs)
  have "(unat v + 1) * 256 \<le> (unat v + 1) * 256 ^ length (b # bs)"
    by (intro mult_le_mono2) simp
  with Cons.prems have v: "unat v < 2 ^ 56" by simp
  let ?v' = "push_bit 8 v OR ucast b"
  have v': "unat ?v' = unat v * 256 + unat b" using v by (rule unat_shl8_or)
  then have "unat ?v' + 1 \<le> (unat v + 1) * 256" by simp
  then have "(unat ?v' + 1) * 256 ^ length bs \<le> (unat v + 1) * 256 * 256 ^ length bs"
    by (rule mult_le_mono1)
  also have "\<dots> = (unat v + 1) * 256 ^ length (b # bs)" by (simp add: algebra_simps)
  also note Cons.prems
  finally have "(unat ?v' + 1) * 256 ^ length bs \<le> 2 ^ 64" .
  then have "unat (varint_acc ?v' bs) = unat ?v' * 256 ^ length bs + be_nat bs" by (rule Cons.IH)
  with v' show ?case by (simp add: algebra_simps)
qed simp

lemma unat_and_3f_u64 [simp]: "unat (ucast ((b :: byte) AND 0x3f) :: u64) = unat b mod 64"
  by (simp add: byte_and_3f)

text \<open>The value read from a tag byte and the bytes after it, as a number.\<close>

lemma unat_varint_payload:
  fixes b :: byte
  assumes "length bs \<le> 7"
  shows "unat (varint_acc (ucast (b AND 0x3f)) bs) = unat b mod 64 * 256 ^ length bs + be_nat bs"
proof (rule unat_varint_acc [of "ucast (b AND 0x3f)" bs, unfolded unat_and_3f_u64])
  have "(256::nat) ^ length bs \<le> 256 ^ 7" using assms by (intro power_increasing) auto
  moreover have "unat b mod 64 + 1 \<le> 64" by (simp add: Suc_leI)
  ultimately have "(unat b mod 64 + 1) * 256 ^ length bs \<le> 64 * 256 ^ 7" by (intro mult_le_mono)
  then show "(unat b mod 64 + 1) * 256 ^ length bs \<le> 2 ^ 64" by simp
qed

lemma varint_payload_bound:
  fixes b :: byte
  assumes "length bs \<le> 7"
  shows "unat (varint_acc (ucast (b AND 0x3f)) bs) < 64 * 256 ^ length bs"
proof -
  have "unat b mod 64 * 256 ^ length bs + be_nat bs < (unat b mod 64 + 1) * 256 ^ length bs"
    using be_nat_less [of bs] by simp
  also have "\<dots> \<le> 64 * 256 ^ length bs" by (intro mult_le_mono1) (simp add: Suc_leI)
  finally show ?thesis using assms by (simp add: unat_varint_payload)
qed

lemma wtq_varint_decode_Cons:
  "wtq_varint_decode (b # rest) =
     (let need = wtq_varint_len_from_first b in
      if Suc (length rest) < need then Inl NEED_MORE
      else Inr (varint_acc (ucast (b AND 0x3f)) (take (need - 1) rest), need))"
  by (simp add: wtq_varint_decode_def)

lemma wtq_varint_decode_Nil [simp]: "wtq_varint_decode [] = Inl NEED_MORE"
  by (simp add: wtq_varint_decode_def)

text \<open>Decoding fails in one way only, and a success names a length within the input.\<close>

lemma wtq_varint_decode_Inl: "wtq_varint_decode src = Inl e \<Longrightarrow> e = NEED_MORE"
  by (cases src) (auto simp: wtq_varint_decode_Cons Let_def split: if_splits)

lemma wtq_varint_decode_OK:
  assumes "wtq_varint_decode src = Inr (v, n)"
  shows "n \<in> {1, 2, 4, 8}" "n \<le> length src" "unat v < 64 * 256 ^ (n - 1)"
proof -
  obtain b rest where src: "src = b # rest" using assms by (cases src) auto
  let ?need = "wtq_varint_len_from_first b"
  have need: "?need \<in> {1, 2, 4, 8}" by (rule len_from_first_cases)
  from assms src have n: "n = ?need" and len: "?need \<le> length src"
    and v: "v = varint_acc (ucast (b AND 0x3f)) (take (?need - 1) rest)"
    by (auto simp: wtq_varint_decode_Cons Let_def split: if_splits)
  have tl: "length (take (?need - 1) rest) = ?need - 1" using len src by simp
  then have "length (take (?need - 1) rest) \<le> 7" using need by auto
  then have "unat v < 64 * 256 ^ (?need - 1)" using tl v varint_payload_bound by metis
  then show "n \<in> {1, 2, 4, 8}" "n \<le> length src" "unat v < 64 * 256 ^ (n - 1)"
    using n need len by auto
qed

lemma wtq_varint_decode_max: "wtq_varint_decode src = Inr (v, n) \<Longrightarrow> v \<le> WTQ_VARINT_MAX"
  using wtq_varint_decode_OK [of src v n] by (auto simp: word_le_nat_alt varint_max_unat)

text \<open>Only the announced bytes matter, and a prefix never decodes to something else.\<close>

lemma wtq_varint_decode_append:
  "wtq_varint_decode xs = Inr (v, n) \<Longrightarrow> wtq_varint_decode (xs @ ys) = Inr (v, n)"
  by (cases xs) (auto simp: wtq_varint_decode_Cons Let_def split: if_splits)

section \<open>The encoder against the decoder\<close>

lemma len_value_bound:
  assumes "v \<le> WTQ_VARINT_MAX"
  shows "unat v < 64 * 256 ^ (wtq_varint_len v - 1)"
  using assms by (auto simp: wtq_varint_len_nat word_le_nat_alt varint_max_unat)

lemma varint_tag_len:
  "n \<in> {1, 2, 4, 8} \<Longrightarrow> (2::nat) ^ unat (varint_tag n) = n \<and> unat (varint_tag n) < 4"
  by (auto simp: varint_tag_def)

lemma tagged_byte:
  assumes "unat (t :: byte) < 4"
  shows "unat (drop_bit 6 ((b AND 0x3f) OR push_bit 6 t)) = unat t"
    and "((b AND 0x3f) OR push_bit 6 t) AND 0x3f = b AND 0x3f"
proof -
  have m: "(0x3f :: byte) = mask 6" by (simp add: mask_eq_exp_minus_1)
  have t: "take_bit 2 t = t"
    unfolding word_unat_eq_iff unsigned_take_bit_eq using assms by (simp add: take_bit_eq_mod)
  have "drop_bit 6 ((b AND 0x3f) OR push_bit 6 t) = take_bit 2 t"
    unfolding m by (rule bit_eqI) (auto simp: bit_simps)
  then show "unat (drop_bit 6 ((b AND 0x3f) OR push_bit 6 t)) = unat t" using t by simp
  show "((b AND 0x3f) OR push_bit 6 t) AND 0x3f = b AND 0x3f"
    unfolding m by (rule bit_eqI) (auto simp: bit_simps)
qed

lemma wtq_varint_encode_OK:
  assumes "v \<le> WTQ_VARINT_MAX" "wtq_varint_len v \<le> cap"
  obtains b bs where "wtq_varint_encode v cap = Inr (b # bs)"
    and "be_bytes (wtq_varint_len v) v = ucast (drop_bit (8 * (wtq_varint_len v - 1)) v) # bs"
    and "length bs = wtq_varint_len v - 1"
    and "b = (ucast (drop_bit (8 * (wtq_varint_len v - 1)) v) AND 0x3f)
             OR push_bit 6 (varint_tag (wtq_varint_len v))"
proof -
  obtain m where m: "wtq_varint_len v = Suc m"
    using assms(1) wtq_varint_len_pos [of v] by (metis gr0_conv_Suc)
  show ?thesis
    by (rule that [of "(ucast (drop_bit (8 * m) v) AND 0x3f) OR push_bit 6 (varint_tag (Suc m))"
          "be_bytes m v"])
      (use assms m in \<open>auto simp: wtq_varint_encode_def be_bytes_Suc Let_def\<close>)
qed

lemma varint_encode_ok:
  assumes "v \<le> WTQ_VARINT_MAX" "wtq_varint_len v \<le> cap"
  shows "\<exists>enc. wtq_varint_encode v cap = Inr enc \<and> length enc = wtq_varint_len v
           \<and> wtq_varint_decode (enc @ rest) = Inr (v, wtq_varint_len v)"
proof -
  let ?n = "wtq_varint_len v"
  let ?h = "ucast (drop_bit (8 * (?n - 1)) v) :: byte"
  obtain b bs where enc: "wtq_varint_encode v cap = Inr (b # bs)"
    and be: "be_bytes ?n v = ?h # bs" and len: "length bs = ?n - 1"
    and b: "b = (?h AND 0x3f) OR push_bit 6 (varint_tag ?n)"
    using wtq_varint_encode_OK [OF assms] by metis
  have n: "?n \<in> {1, 2, 4, 8}"
    using wtq_varint_len_cases [of v] wtq_varint_len_pos [OF assms(1)] by auto
  note tag = varint_tag_len [OF n]
  have first: "wtq_varint_len_from_first b = ?n"
    unfolding wtq_varint_len_from_first_def b tagged_byte(1) [OF tag [THEN conjunct2]]
    using tag by simp
  have payload: "b AND 0x3f = ?h AND 0x3f"
    unfolding b by (rule tagged_byte(2) [OF tag [THEN conjunct2]])
  have n': "?n = Suc (length bs)" using n len by auto
  have val: "be_nat (be_bytes ?n v) = unat v"
    using len_value_bound [OF assms(1)] by (simp add: be_nat_be_bytes n')
  have "unat ?h * 256 ^ length bs + be_nat bs = unat v" using val be by simp
  then have "unat ?h * 256 ^ length bs \<le> unat v" by linarith
  also have "\<dots> < 64 * 256 ^ length bs" using len_value_bound [OF assms(1)] len by simp
  finally have "unat ?h < 64" by simp
  then have "unat ?h mod 64 = unat ?h" by simp
  then have "unat (varint_acc (ucast (b AND 0x3f)) bs) = unat v"
    using val be n len by (subst unat_varint_payload) (auto simp: payload byte_and_3f [symmetric])
  then have "varint_acc (ucast (b AND 0x3f)) bs = v" by (simp add: word_unat_eq_iff)
  then have "wtq_varint_decode ((b # bs) @ rest) = Inr (v, ?n)"
    using n' by (simp add: wtq_varint_decode_Cons first)
  with enc n' show ?thesis by auto
qed

lemma varint_encode_decode:
  "v \<le> WTQ_VARINT_MAX \<Longrightarrow> wtq_varint_encode v cap = Inr enc \<Longrightarrow>
   wtq_varint_decode (enc @ rest) = Inr (v, length enc) \<and> length enc = wtq_varint_len v"
proof -
  assume v: "v \<le> WTQ_VARINT_MAX" and e: "wtq_varint_encode v cap = Inr enc"
  then have "wtq_varint_len v \<le> cap"
    by (auto simp: wtq_varint_encode_def Let_def split: if_splits)
  with v e show ?thesis using varint_encode_ok [of v cap rest] by auto
qed

text \<open>
  C37. Round trip: every value up to \<^verbatim>\<open>WTQ_VARINT_MAX\<close> whose minimal encoding
  fits the destination is encoded in exactly \<^verbatim>\<open>wtq_varint_len\<close> bytes, and
  decoding those bytes, whatever follows them, gives the value back and
  consumes exactly the encoding.
\<close>

theorem varint_roundtrip:
  assumes "v \<le> WTQ_VARINT_MAX" "wtq_varint_len v \<le> cap"
  shows "\<exists>enc. wtq_varint_encode v cap = Inr enc \<and> length enc = wtq_varint_len v
           \<and> wtq_varint_decode (enc @ rest) = Inr (v, wtq_varint_len v)"
  using assms by (rule varint_encode_ok)

theorem varint_roundtrip_witness:
  "\<exists>enc. wtq_varint_encode 494878333 8 = Inr enc \<and> length enc = wtq_varint_len 494878333
     \<and> wtq_varint_decode (enc @ [7, 7]) = Inr (494878333, wtq_varint_len 494878333)"
proof -
  have "(494878333 :: u64) \<le> WTQ_VARINT_MAX" by (simp add: WTQ_VARINT_MAX_def)
  moreover have "wtq_varint_len 494878333 \<le> 8" by (rule wtq_varint_len_le_8)
  ultimately show ?thesis by (rule varint_roundtrip)
qed

text \<open>
  The encoder is total on its contract and minimal: it fails with \<open>RANGE\<close>
  exactly above \<^verbatim>\<open>WTQ_VARINT_MAX\<close> and with \<open>BUFFER\<close> exactly when the minimal length
  does not fit, and no byte string that decodes to the same value is shorter than
  the minimal length.
\<close>

theorem varint_encode_errors_and_minimality:
  "(wtq_varint_encode v cap = Inl RANGE \<longleftrightarrow> WTQ_VARINT_MAX < v)
   \<and> (wtq_varint_encode v cap = Inl BUFFER \<longleftrightarrow> v \<le> WTQ_VARINT_MAX \<and> cap < wtq_varint_len v)
   \<and> wtq_varint_encode v cap \<notin> {Inl NEED_MORE, Inl MALFORMED, Inl ERR_SETTING, Inl FAULT}
   \<and> (\<forall>src n. wtq_varint_decode src = Inr (v, n) \<longrightarrow>
          wtq_varint_len v \<le> n \<and> (wtq_varint_is_minimal v n \<longleftrightarrow> n \<le> wtq_varint_len v))"
proof -
  have min: "wtq_varint_len v \<le> n" if "wtq_varint_decode src = Inr (v, n)" for src n
    using wtq_varint_decode_OK [OF that] by (auto simp: wtq_varint_len_nat)
  have "wtq_varint_len v = 0 \<longleftrightarrow> WTQ_VARINT_MAX < v" by (rule wtq_varint_len_eq_0)
  with min show ?thesis
    by (auto simp: wtq_varint_encode_def wtq_varint_is_minimal_def Let_def not_less
        intro: le_antisym)
qed

theorem varint_encode_errors_and_minimality_witness:
  "wtq_varint_decode [0x40, 0x25] = Inr (37, 2) \<and> wtq_varint_len 37 \<le> 2
   \<and> \<not> wtq_varint_is_minimal 37 2"
proof -
  have d: "wtq_varint_decode [0x40, 0x25] = Inr (37, 2)" by code_simp
  with varint_encode_errors_and_minimality [of 37 8] have "wtq_varint_len 37 \<le> 2" by blast
  with d show ?thesis by (simp add: wtq_varint_is_minimal_def wtq_varint_len_def)
qed

section \<open>The incremental decoder\<close>

definition varint_dec_inv :: "wtq_varint_dec \<Rightarrow> bool" where
  "varint_dec_inv d \<longleftrightarrow>
     d = wtq_varint_dec_init \<or> (vd_need d \<in> {2, 4, 8} \<and> 0 < vd_have d \<and> vd_have d < vd_need d)"

lemma varint_dec_init_simps [simp]:
  "vd_acc wtq_varint_dec_init = 0" "vd_need wtq_varint_dec_init = 0" "vd_have wtq_varint_dec_init = 0"
  by (simp_all add: wtq_varint_dec_init_def)

lemma varint_dec_inv_init [simp]: "varint_dec_inv wtq_varint_dec_init"
  by (simp add: varint_dec_inv_def)

text \<open>The loop in closed form: it eats what is missing, or all there is.\<close>

lemma varint_feed_loop_eq:
  "varint_feed_loop d bs e =
     (let k = min (vd_need d - vd_have d) (length bs)
      in (d\<lparr>vd_acc := varint_acc (vd_acc d) (take k bs), vd_have := vd_have d + k\<rparr>, e + k))"
proof (induction bs arbitrary: d e)
  case (Cons b bs)
  show ?case
  proof (cases "vd_have d < vd_need d")
    case True
    then obtain k where "vd_need d - vd_have d = Suc k" by (metis Suc_diff_Suc)
    then have "vd_need d - Suc (vd_have d) = k" by simp
    with True Cons show ?thesis
      by (simp add: Let_def \<open>vd_need d - vd_have d = Suc k\<close> min_def)
  qed (simp add: Let_def)
qed (simp add: Let_def)

lemma varint_feed_loop_split:
  assumes "varint_feed_loop d xs e = (d1, e1)" "vd_have d1 < vd_need d1"
  shows "varint_feed_loop d (xs @ ys) e = varint_feed_loop d1 ys e1" "e1 = e + length xs"
proof -
  have "varint_feed_loop d (xs @ ys) e = varint_feed_loop d1 ys e1 \<and> e1 = e + length xs"
    using assms
  proof (induction d xs e rule: varint_feed_loop.induct)
    case (2 d b bs e)
    then show ?case by (auto split: if_splits)
  qed simp
  then show "varint_feed_loop d (xs @ ys) e = varint_feed_loop d1 ys e1" "e1 = e + length xs"
    by auto
qed

lemma varint_feed_loop_done:
  assumes "varint_feed_loop d xs e = (d1, e1)" "\<not> vd_have d1 < vd_need d1"
  shows "varint_feed_loop d (xs @ ys) e = (d1, e1)"
  using assms
proof (induction d xs e rule: varint_feed_loop.induct)
  case (1 d e)
  then show ?case by (cases ys) auto
next
  case (2 d b bs e)
  then show ?case by (auto split: if_splits)
qed

lemma varint_feed_loop_bound: "varint_feed_loop d xs e = (d1, e1) \<Longrightarrow> e1 \<le> e + length xs"
  by (auto simp: varint_feed_loop_eq Let_def)

lemma varint_feed_loop_need:
  "varint_feed_loop d xs e = (d1, e1) \<Longrightarrow> vd_need d1 = vd_need d"
  by (auto simp: varint_feed_loop_eq Let_def)

lemma varint_feed_fresh:
  "wtq_varint_dec_feed wtq_varint_dec_init (b # rest) =
     varint_feed_finish (varint_feed_loop
       \<lparr>vd_acc = ucast (b AND 0x3f), vd_need = wtq_varint_len_from_first b, vd_have = 1\<rparr> rest 1)"
  by (simp add: wtq_varint_dec_feed_def wtq_varint_dec_init_def)

lemma varint_feed_busy:
  "0 < vd_need d \<Longrightarrow>
   wtq_varint_dec_feed d src = varint_feed_finish (varint_feed_loop d src 0)"
  by (simp add: wtq_varint_dec_feed_def)

lemma varint_feed_fresh_Nil [simp]:
  "wtq_varint_dec_feed wtq_varint_dec_init [] = (wtq_varint_dec_init, Inl NEED_MORE, 0)"
  by (simp add: wtq_varint_dec_feed_def wtq_varint_dec_init_def)

text \<open>The two phases of a feed, loop and result, on a chunk that is cut in two.\<close>

lemma varint_finish_more:
  assumes "varint_feed_finish (varint_feed_loop d xs e) = (d', Inl NEED_MORE, n)"
  shows "n = e + length xs" "vd_have d' < vd_need d'" "vd_need d' = vd_need d"
    and "vd_have d \<le> vd_have d'"
    and "varint_feed_finish (varint_feed_loop d (xs @ ys) e) =
         varint_feed_finish (varint_feed_loop d' ys n)"
proof -
  have loop: "varint_feed_loop d xs e = (d', n)" and lt: "vd_have d' < vd_need d'"
    using assms by (auto simp: varint_feed_finish_def split: prod.splits if_splits)
  show "n = e + length xs" "vd_have d' < vd_need d'" "vd_need d' = vd_need d"
    "vd_have d \<le> vd_have d'"
    using varint_feed_loop_split(2) [OF loop lt] lt loop
    by (auto simp: varint_feed_loop_eq Let_def)
  show "varint_feed_finish (varint_feed_loop d (xs @ ys) e) =
        varint_feed_finish (varint_feed_loop d' ys n)"
    using varint_feed_loop_split(1) [OF loop lt] by simp
qed

lemma varint_finish_done:
  assumes "varint_feed_finish (varint_feed_loop d xs e) = (d', r, n)" "r \<noteq> Inl NEED_MORE"
  shows "n \<le> e + length xs" "d' = wtq_varint_dec_init"
    and "varint_feed_finish (varint_feed_loop d (xs @ ys) e) = (d', r, n)"
proof -
  obtain d1 where loop: "varint_feed_loop d xs e = (d1, n)" and ge: "\<not> vd_have d1 < vd_need d1"
    and res: "d' = wtq_varint_dec_init" "r = Inr (vd_acc d1)"
    using assms by (auto simp: varint_feed_finish_def split: prod.splits if_splits)
  show "n \<le> e + length xs" "d' = wtq_varint_dec_init" using varint_feed_loop_bound [OF loop] res by auto
  show "varint_feed_finish (varint_feed_loop d (xs @ ys) e) = (d', r, n)"
    using varint_feed_loop_done [OF loop ge, of ys] ge res by (simp add: varint_feed_finish_def)
qed

lemma varint_finish_shift:
  "varint_feed_finish (varint_feed_loop d ys e) =
     (case varint_feed_finish (varint_feed_loop d ys 0) of (d', r, m) \<Rightarrow> (d', r, e + m))"
  by (auto simp: varint_feed_loop_eq varint_feed_finish_def Let_def min_def)

text \<open>
  Every feed that has a byte to work on is the loop from some start state; the
  empty feed of a fresh decoder does nothing.
\<close>

lemma varint_feed_as_loop:
  assumes "varint_dec_inv d" "xs \<noteq> [] \<or> d \<noteq> wtq_varint_dec_init"
  obtains d0 skip e where "vd_need d0 \<in> {1, 2, 4, 8}" "0 < vd_have d0" "skip = e" "e \<le> length xs"
    and "\<And>ys. wtq_varint_dec_feed d (xs @ ys) =
           varint_feed_finish (varint_feed_loop d0 (drop skip (xs @ ys)) e)"
proof (cases "d = wtq_varint_dec_init")
  case True
  with assms obtain b rest where xs: "xs = b # rest" by (cases xs) auto
  show ?thesis
    by (rule that [of "\<lparr>vd_acc = ucast (b AND 0x3f), vd_need = wtq_varint_len_from_first b,
            vd_have = 1\<rparr>" 1 1])
      (use len_from_first_cases [of b] in \<open>auto simp: True xs varint_feed_fresh\<close>)
next
  case False
  with assms have "vd_need d \<in> {2, 4, 8}" "0 < vd_have d" by (auto simp: varint_dec_inv_def)
  then show ?thesis by (intro that [of d 0 0]) (auto simp: varint_feed_busy)
qed

interpretation varint: chunked_decoder wtq_varint_dec_feed varint_dec_inv
proof (unfold_locales, goal_cases)
  case (1 d xs d' r n)
  show ?case
  proof (cases "xs = [] \<and> d = wtq_varint_dec_init")
    case False
    then obtain d0 skip e where d0: "vd_need d0 \<in> {1, 2, 4, 8}" "0 < vd_have d0"
      and f: "\<And>ys. wtq_varint_dec_feed d (xs @ ys) =
             varint_feed_finish (varint_feed_loop d0 (drop skip (xs @ ys)) e)"
      using varint_feed_as_loop [OF 1(1)] by metis
    have fin: "varint_feed_finish (varint_feed_loop d0 (drop skip xs) e) = (d', r, n)"
      using f [of "[]"] 1(2) by simp
    show ?thesis
    proof (cases "r = Inl NEED_MORE")
      case True
      with fin varint_finish_more(2-4) [of d0 "drop skip xs" e d' n] d0 show ?thesis
        by (auto simp: varint_dec_inv_def)
    next
      case False
      with fin varint_finish_done(2) show ?thesis by (auto simp: varint_dec_inv_def)
    qed
  qed (use 1 in auto)
next
  case (2 d xs d' r n)
  then show ?case
    by (cases xs)
      (auto simp: wtq_varint_dec_feed_def varint_feed_finish_def varint_feed_loop_eq Let_def
        split: if_splits)
next
  case (3 d xs d' n)
  then show ?case
    by (auto simp: wtq_varint_dec_feed_def dest: varint_finish_more(1)
        split: if_splits list.splits)
next
  case (4 d xs d' n ys)
  show ?case
  proof (cases "xs = []")
    case True
    then have "d' = d"
      using 4 by (auto simp: wtq_varint_dec_feed_def varint_feed_finish_def split: if_splits)
    with True show ?thesis by (auto split: prod.splits)
  next
    case False
    then obtain d0 skip e where d0: "vd_need d0 \<in> {1, 2, 4, 8}" and e: "skip = e" "e \<le> length xs"
      and f: "\<And>ys. wtq_varint_dec_feed d (xs @ ys) =
             varint_feed_finish (varint_feed_loop d0 (drop skip (xs @ ys)) e)"
      using varint_feed_as_loop [OF 4(1)] by metis
    have fin: "varint_feed_finish (varint_feed_loop d0 (drop skip xs) e) = (d', Inl NEED_MORE, n)"
      using f [of "[]"] 4(2) by simp
    note more = varint_finish_more [OF fin]
    have "0 < vd_need d'" using more(3) d0 by auto
    then show ?thesis
      using more(1) more(5) [of ys] f [of ys] e varint_finish_shift [of d' ys n]
      by (simp add: varint_feed_busy)
  qed
next
  case (5 d xs d' r n ys)
  show ?case
  proof (cases "xs = [] \<and> d = wtq_varint_dec_init")
    case False
    then obtain d0 skip e where e: "skip = e" "e \<le> length xs"
      and f: "\<And>ys. wtq_varint_dec_feed d (xs @ ys) =
             varint_feed_finish (varint_feed_loop d0 (drop skip (xs @ ys)) e)"
      using varint_feed_as_loop [OF 5(1)] by metis
    have fin: "varint_feed_finish (varint_feed_loop d0 (drop skip xs) e) = (d', r, n)"
      using f [of "[]"] 5(2) by simp
    show ?thesis using varint_finish_done(3) [OF fin 5(3), of ys] f [of ys] e by simp
  qed (use 5 in auto)
qed

lemma varint_feed_decode:
  "case wtq_varint_decode xs of
     Inr (v, n) \<Rightarrow> wtq_varint_dec_feed wtq_varint_dec_init xs = (wtq_varint_dec_init, Inr v, n)
   | Inl e \<Rightarrow> \<exists>d. wtq_varint_dec_feed wtq_varint_dec_init xs = (d, Inl NEED_MORE, length xs)"
proof (cases xs)
  case (Cons b rest)
  have "0 < wtq_varint_len_from_first b" by simp
  then show ?thesis
    unfolding Cons varint_feed_fresh
    by (auto simp: wtq_varint_decode_Cons varint_feed_loop_eq varint_feed_finish_def Let_def)
qed simp

text \<open>
  C32. Chunking never changes the result of the incremental varint decoder, and
  it agrees with the one-shot decoder: from a fresh decoder, over any sequence
  of chunks, it reports the value and the consumed length that
  \<^verbatim>\<open>wtq_varint_decode\<close> reports on the concatenation and is fresh again, or it has
  eaten everything and still needs more.
\<close>

theorem varint_chunked_decode:
  "case wtq_varint_decode (concat cs) of
     Inr (v, n) \<Rightarrow>
       feed_chunks wtq_varint_dec_feed wtq_varint_dec_init cs = (wtq_varint_dec_init, Inr v, n)
   | Inl e \<Rightarrow>
       \<exists>d. feed_chunks wtq_varint_dec_feed wtq_varint_dec_init cs
             = (d, Inl NEED_MORE, length (concat cs))"
proof (cases "cs = []")
  case False
  have eq: "feed_chunks wtq_varint_dec_feed wtq_varint_dec_init cs
      = wtq_varint_dec_feed wtq_varint_dec_init (concat cs)"
    using varint_dec_inv_init False by (rule varint.feed_chunks_concat)
  show ?thesis unfolding eq by (rule varint_feed_decode)
qed simp

end
