(* ===== verification/Qpack.thy ===== *)
theory Qpack
  imports Qpack_Tables Varint
begin

text \<open>
  Static-only QPACK: \<^verbatim>\<open>src/proto/qpack_static.c\<close>. Prefixed integers, the static
  table, the canonical Huffman decoder, and the encoder and decoder of a field
  section. A field is a name, a value and the never-index bit; the caller's
  scratch buffer is its capacity and the bytes used so far.
\<close>

definition WTQ_QPACK_MAX_INT :: u64 where
  "WTQ_QPACK_MAX_INT = push_bit 62 1 - 1"

section \<open>Prefixed integers\<close>

lemma unat_drop7_less: "0 < drop_bit 7 (v :: u64) \<Longrightarrow> unat (drop_bit 7 v) < unat v"
  by (simp add: unat_drop_bit word_less_nat_alt)

text \<open>The do-while loop that counts the continuation bytes.\<close>

function int_len_loop :: "u64 \<Rightarrow> nat \<Rightarrow> nat" where
  "int_len_loop value n =
     (let n = n + 1; value = drop_bit 7 value
      in if value > 0 then int_len_loop value n else n)"
  by auto

termination
  by (relation "measure (\<lambda>(value, n). unat value)") (auto intro: unat_drop7_less)

definition int_encoded_len :: "u64 \<Rightarrow> nat \<Rightarrow> nat" where
  "int_encoded_len value prefix_bits =
     (let max_prefix = push_bit prefix_bits 1 - 1
      in if value < max_prefix then 1 else int_len_loop (value - max_prefix) 1)"

function int_encode_tail :: "u64 \<Rightarrow> bytes" where
  "int_encode_tail value =
     (if value \<ge> 0x80 then ucast (0x80 OR (value AND 0x7f)) # int_encode_tail (drop_bit 7 value)
      else [ucast value])"
  by auto

termination
proof (relation "measure unat", simp)
  fix v :: u64
  assume "0x80 \<le> v"
  then have "128 \<le> unat v" by (simp add: word_le_nat_alt)
  then show "(drop_bit 7 v, v) \<in> measure unat" by (simp add: unat_drop_bit)
qed

declare int_len_loop.simps [simp del] int_encode_tail.simps [simp del]

definition wtq_qpack_int_encode :: "u64 \<Rightarrow> byte \<Rightarrow> nat \<Rightarrow> nat \<Rightarrow> wtq_status + bytes" where
  "wtq_qpack_int_encode value first_byte_flags prefix_bits cap =
     (if prefix_bits < 3 \<or> prefix_bits > 8 \<or> value > WTQ_QPACK_MAX_INT then Inl RANGE
      else
        let max_prefix = push_bit prefix_bits 1 - 1 in
        if cap < int_encoded_len value prefix_bits then Inl BUFFER
        else if value < max_prefix then Inr [ucast (ucast first_byte_flags OR value)]
        else Inr (ucast (ucast first_byte_flags OR max_prefix) # int_encode_tail (value - max_prefix)))"

fun int_decode_loop :: "bytes \<Rightarrow> nat \<Rightarrow> u64 \<Rightarrow> nat \<Rightarrow> wtq_status + (u64 \<times> nat)" where
  "int_decode_loop [] shift v i = Inl NEED_MORE"
| "int_decode_loop (b # rest) shift v i =
     (let chunk = ucast (b AND 0x7f) in
      if shift > 62 \<or> (shift > 0 \<and> chunk > drop_bit shift WTQ_QPACK_MAX_INT) then Inl MALFORMED
      else
        let v = v + push_bit shift chunk in
        if v > WTQ_QPACK_MAX_INT then Inl MALFORMED
        else if b AND 0x80 = 0 then Inr (v, i + 1)
        else int_decode_loop rest (shift + 7) v (i + 1))"

definition wtq_qpack_int_decode :: "bytes \<Rightarrow> nat \<Rightarrow> wtq_status + (u64 \<times> nat)" where
  "wtq_qpack_int_decode src prefix_bits =
     (if prefix_bits < 3 \<or> prefix_bits > 8 then Inl MALFORMED
      else (case src of
              [] \<Rightarrow> Inl NEED_MORE
            | b # rest \<Rightarrow>
                let max_prefix = push_bit prefix_bits 1 - 1;
                    v = ucast b AND max_prefix
                in if v = max_prefix then int_decode_loop rest 0 v 1 else Inr (v, 1)))"

section \<open>Static table\<close>

definition wtq_qpack_static_get :: "u64 \<Rightarrow> (bytes \<times> bytes) option" where
  "wtq_qpack_static_get index =
     (if unat index \<ge> WTQ_QPACK_STATIC_COUNT then None
      else Some (wtq_qpack_static_table ! unat index))"

fun static_find_loop :: "(bytes \<times> bytes \<Rightarrow> bool) \<Rightarrow> (bytes \<times> bytes) list \<Rightarrow> nat \<Rightarrow> nat option" where
  "static_find_loop P [] i = None"
| "static_find_loop P (e # es) i = (if P e then Some i else static_find_loop P es (i + 1))"

text \<open>\<open>None\<close> is the result -1.\<close>

definition wtq_qpack_static_find :: "bytes \<Rightarrow> bytes \<Rightarrow> nat option" where
  "wtq_qpack_static_find name val =
     static_find_loop (\<lambda>(n, v). n = name \<and> v = val) wtq_qpack_static_table 0"

definition wtq_qpack_static_find_name :: "bytes \<Rightarrow> nat option" where
  "wtq_qpack_static_find_name name =
     static_find_loop (\<lambda>(n, v). n = name) wtq_qpack_static_table 0"

section \<open>Huffman decoder\<close>

text \<open>The bits of a byte in the order of the inner loop: 7 down to 0.\<close>

definition byte_bits :: "byte \<Rightarrow> bool list" where
  "byte_bits b = map (\<lambda>n. bit b n) [7, 6, 5, 4, 3, 2, 1, 0]"

text \<open>
  One iteration per bit. The row cursor is the rest of the length table; \<open>out\<close> is
  what has been written. The symbol index is computed in 32 bits as in C; an index
  outside the symbol array is \<open>FAULT\<close>. At the end the padding rules apply.
\<close>

definition huff_symbol :: "huff_row \<Rightarrow> u32 \<Rightarrow> byte option" where
  "huff_symbol r code =
     (let i = hr_first_index r + unat (code - hr_first_code r)
      in if i < length wtq_huff_symbols then Some (wtq_huff_symbols ! i) else None)"

primrec huffman_loop :: "bool list \<Rightarrow> nat \<Rightarrow> u32 \<Rightarrow> nat \<Rightarrow> huff_row list \<Rightarrow> bytes \<Rightarrow> wtq_status + bytes" where
  "huffman_loop [] cap code nbits rows out =
     (if nbits > 7 then Inl MALFORMED
      else if nbits > 0 \<and> code \<noteq> push_bit nbits 1 - 1 then Inl MALFORMED
      else Inr out)"
| "huffman_loop (b # bs) cap code nbits rows out =
     (let code = push_bit 1 code OR of_bool b;
          nbits = nbits + 1;
          rows = dropWhile (\<lambda>r. hr_bits r < nbits) rows
      in if rows \<noteq> [] \<and> hr_bits (hd rows) = nbits
            \<and> code < hr_first_code (hd rows) + hr_count (hd rows) then
           (if length out \<ge> cap then Inl BUFFER
            else (case huff_symbol (hd rows) code of
                    None \<Rightarrow> Inl FAULT
                  | Some s \<Rightarrow> huffman_loop bs cap 0 0 wtq_huff_lengths (out @ [s])))
         else if nbits \<ge> WTQ_HUFF_EOS_BITS then Inl MALFORMED
         else huffman_loop bs cap code nbits rows out)"

definition huffman_decode :: "bytes \<Rightarrow> nat \<Rightarrow> wtq_status + bytes" where
  "huffman_decode src cap = huffman_loop (concat (map byte_bits src)) cap 0 0 wtq_huff_lengths []"

section \<open>Field sections\<close>

record wtq_qpack_field =
  qf_name :: bytes
  qf_value :: bytes
  qf_never_index :: bool

text \<open>
  A string literal: the value, the rest of the input and the new scratch offset.
\<close>

definition decode_string ::
  "bytes \<Rightarrow> nat \<Rightarrow> nat \<Rightarrow> nat \<Rightarrow> wtq_status + (bytes \<times> bytes \<times> nat)" where
  "decode_string src prefix_bits scratch_cap scratch_off =
     (case src of
        [] \<Rightarrow> Inl MALFORMED
      | b # _ \<Rightarrow>
          let huffman = bit b prefix_bits in
          (case wtq_qpack_int_decode src prefix_bits of
             Inl _ \<Rightarrow> Inl MALFORMED
           | Inr (slen, c) \<Rightarrow>
               let body = drop c src in
               if unat slen > length body then Inl MALFORMED
               else
                 let dcap = scratch_cap - scratch_off;
                     s = take (unat slen) body;
                     rest = drop (unat slen) body
                 in if huffman then
                      (case huffman_decode s dcap of
                         Inl st \<Rightarrow> Inl st
                       | Inr out \<Rightarrow> Inr (out, rest, scratch_off + length out))
                    else if unat slen > dcap then Inl BUFFER
                    else Inr (s, rest, scratch_off + unat slen)))"

text \<open>One field line: the body of the loop up to the append.\<close>

definition decode_field_line ::
  "bytes \<Rightarrow> nat \<Rightarrow> nat \<Rightarrow> wtq_status + (wtq_qpack_field \<times> bytes \<times> nat)" where
  "decode_field_line src scratch_cap scratch_off =
     (let b = hd src in
      if bit b 7 then
        (if \<not> bit b 6 then Inl MALFORMED
         else (case wtq_qpack_int_decode src 6 of
                 Inl _ \<Rightarrow> Inl MALFORMED
               | Inr (idx, c) \<Rightarrow>
                   (case wtq_qpack_static_get idx of
                      None \<Rightarrow> Inl MALFORMED
                    | Some (n, v) \<Rightarrow>
                        Inr (\<lparr>qf_name = n, qf_value = v, qf_never_index = False\<rparr>,
                             drop c src, scratch_off))))
      else if bit b 6 then
        (if \<not> bit b 4 then Inl MALFORMED
         else (case wtq_qpack_int_decode src 4 of
                 Inl _ \<Rightarrow> Inl MALFORMED
               | Inr (idx, c) \<Rightarrow>
                   (case wtq_qpack_static_get idx of
                      None \<Rightarrow> Inl MALFORMED
                    | Some (n, _) \<Rightarrow>
                        (case decode_string (drop c src) 7 scratch_cap scratch_off of
                           Inl st \<Rightarrow> Inl st
                         | Inr (v, rest, scratch_off) \<Rightarrow>
                             Inr (\<lparr>qf_name = n, qf_value = v, qf_never_index = bit b 5\<rparr>,
                                  rest, scratch_off)))))
      else if bit b 5 then
        (case decode_string src 3 scratch_cap scratch_off of
           Inl st \<Rightarrow> Inl st
         | Inr (n, rest, scratch_off) \<Rightarrow>
             (case decode_string rest 7 scratch_cap scratch_off of
                Inl st \<Rightarrow> Inl st
              | Inr (v, rest, scratch_off) \<Rightarrow>
                  Inr (\<lparr>qf_name = n, qf_value = v, qf_never_index = bit b 4\<rparr>,
                       rest, scratch_off)))
      else Inl MALFORMED)"

lemma int_decode_consumed:
  "wtq_qpack_int_decode src p = Inr (v, c) \<Longrightarrow> 0 < c \<and> c \<le> length src"
proof -
  have loop: "i < c \<and> c \<le> i + length bs" if "int_decode_loop bs shift w i = Inr (v, c)" for bs shift w i
    using that
    by (induction bs shift w i rule: int_decode_loop.induct) (fastforce simp: Let_def split: if_splits)+
  show "0 < c \<and> c \<le> length src" if "wtq_qpack_int_decode src p = Inr (v, c)"
    using that by (auto simp: wtq_qpack_int_decode_def Let_def split: list.splits if_splits dest!: loop)
qed

lemma decode_string_shorter:
  "decode_string src p cap off = Inr (s, rest, off') \<Longrightarrow> length rest < length src"
  by (auto simp: decode_string_def Let_def dest!: int_decode_consumed
      split: list.splits sum.splits if_splits)

lemma decode_field_line_shorter:
  assumes "decode_field_line src cap off = Inr (f, rest, off')" "src \<noteq> []"
  shows "length rest < length src"
proof -
  have drop: "length (drop c src) < length src" if "wtq_qpack_int_decode src p = Inr (i, c)" for p i c
    using int_decode_consumed [OF that] assms(2) by simp
  show ?thesis
    using assms(1) drop unfolding decode_field_line_def Let_def
    by (fastforce dest: decode_string_shorter less_trans
        split: if_split_asm sum.split_asm option.split_asm prod.split_asm)
qed

function decode_section_loop ::
  "bytes \<Rightarrow> nat \<Rightarrow> nat \<Rightarrow> nat \<Rightarrow> wtq_qpack_field list
     \<Rightarrow> wtq_status + (wtq_qpack_field list \<times> nat)" where
  "decode_section_loop src max_fields scratch_cap scratch_off flds =
     (if src = [] then Inr (flds, scratch_off)
      else (case decode_field_line src scratch_cap scratch_off of
              Inl st \<Rightarrow> Inl st
            | Inr (f, rest, scratch_off) \<Rightarrow>
                if length flds \<ge> max_fields then Inl BUFFER
                else decode_section_loop rest max_fields scratch_cap scratch_off (flds @ [f])))"
  by auto

termination
  by (relation "measure (\<lambda>(src, _). length src)") (auto dest: decode_field_line_shorter)

declare decode_section_loop.simps [simp del]

text \<open>
  The result is the fields and how much of the scratch buffer their literals
  occupy (in C the caller reads that off the spans).
\<close>

definition wtq_qpack_decode_section ::
  "bytes \<Rightarrow> nat \<Rightarrow> nat \<Rightarrow> wtq_status + (wtq_qpack_field list \<times> nat)" where
  "wtq_qpack_decode_section src max_fields scratch_cap =
     (case wtq_qpack_int_decode src 8 of
        Inl _ \<Rightarrow> Inl MALFORMED
      | Inr (ric, c) \<Rightarrow>
          if ric \<noteq> 0 then Inl MALFORMED
          else
            (case drop c src of
               [] \<Rightarrow> Inl MALFORMED
             | b # rest \<Rightarrow>
                 let negative = bit b 7 in
                 (case wtq_qpack_int_decode (b # rest) 7 of
                    Inl _ \<Rightarrow> Inl MALFORMED
                  | Inr (delta_base, c) \<Rightarrow>
                      if negative \<and> ric \<le> delta_base then Inl MALFORMED
                      else decode_section_loop (drop c (b # rest)) max_fields scratch_cap 0 [])))"

section \<open>Field-section encoder\<close>

definition field_encoded_len :: "wtq_qpack_field \<Rightarrow> nat" where
  "field_encoded_len f =
     (case wtq_qpack_static_find (qf_name f) (qf_value f) of
        Some idx \<Rightarrow> int_encoded_len (of_nat idx) 6
      | None \<Rightarrow>
          (case wtq_qpack_static_find_name (qf_name f) of
             Some nidx \<Rightarrow>
               int_encoded_len (of_nat nidx) 4 + int_encoded_len (of_nat (length (qf_value f))) 7
               + length (qf_value f)
           | None \<Rightarrow>
               int_encoded_len (of_nat (length (qf_name f))) 3 + length (qf_name f)
               + int_encoded_len (of_nat (length (qf_value f))) 7 + length (qf_value f)))"

text \<open>The body of the write loop, with \<open>o\<close> bytes behind it.\<close>

definition encode_field :: "wtq_qpack_field \<Rightarrow> nat \<Rightarrow> nat \<Rightarrow> bytes" where
  "encode_field f cap off =
     (case wtq_qpack_static_find (qf_name f) (qf_value f) of
        Some idx \<Rightarrow> written (wtq_qpack_int_encode (of_nat idx) 0xc0 6 (cap - off))
      | None \<Rightarrow>
          (case wtq_qpack_static_find_name (qf_name f) of
             Some nidx \<Rightarrow>
               let flags = 0x40 OR (if qf_never_index f then 0x20 else 0) OR 0x10;
                   a = written (wtq_qpack_int_encode (of_nat nidx) flags 4 (cap - off));
                   b = written (wtq_qpack_int_encode (of_nat (length (qf_value f))) 0x00 7
                                  (cap - (off + length a)))
               in a @ b @ qf_value f
           | None \<Rightarrow>
               let flags = 0x20 OR (if qf_never_index f then 0x10 else 0);
                   a = written (wtq_qpack_int_encode (of_nat (length (qf_name f))) flags 3 (cap - off));
                   a = a @ qf_name f;
                   b = written (wtq_qpack_int_encode (of_nat (length (qf_value f))) 0x00 7
                                  (cap - (off + length a)))
               in a @ b @ qf_value f))"

fun encode_section_loop :: "wtq_qpack_field list \<Rightarrow> nat \<Rightarrow> bytes \<Rightarrow> bytes" where
  "encode_section_loop [] cap dst = dst"
| "encode_section_loop (f # fs) cap dst =
     encode_section_loop fs cap (dst @ encode_field f cap (length dst))"

definition wtq_qpack_encode_section :: "wtq_qpack_field list \<Rightarrow> nat \<Rightarrow> wtq_status + bytes" where
  "wtq_qpack_encode_section flds cap =
     (if list_ex (\<lambda>f. length (qf_name f) > unat WTQ_QPACK_MAX_INT
                      \<or> length (qf_value f) > unat WTQ_QPACK_MAX_INT) flds
      then Inl RANGE
      else if cap < 2 + sum_list (map field_encoded_len flds) then Inl BUFFER
      else Inr (encode_section_loop flds cap [0x00, 0x00]))"

section \<open>Prefixed integers round trip\<close>

lemma qpack_max_int_nat: "unat WTQ_QPACK_MAX_INT = 4611686018427387903"
  by (simp add: WTQ_QPACK_MAX_INT_def)

lemma unat_byte_and_7f: "unat ((b :: byte) AND 0x7f) = unat b mod 128"
  using unat_and_mask [of b 7] by (simp add: mask_eq_exp_minus_1)

lemma byte_bit_7: "bit (b :: byte) 7 \<longleftrightarrow> 128 \<le> unat b"
proof -
  have "bit b 7 \<longleftrightarrow> bit (unat b) 7" by (simp add: bit_simps)
  also have "\<dots> \<longleftrightarrow> odd (unat b div 128)" by (simp add: bit_iff_odd)
  also have "\<dots> \<longleftrightarrow> 128 \<le> unat b"
    using unat_byte_less [of b] by (cases "unat b < 128") (simp_all add: div_nat_eqI [of _ 1])
  finally show ?thesis .
qed

lemma byte_and_80: "(b :: byte) AND 0x80 = 0 \<longleftrightarrow> unat b < 128"
  using bit_iff_and_push_bit_not_eq_0 [of b 7] byte_bit_7 [of b] by (auto simp: push_bit_eq_mult)

text \<open>One byte of the tail, and the step of the decoder on it.\<close>

lemma tail_byte:
  "unat (ucast (0x80 OR ((w :: u64) AND 0x7f)) :: byte) = 128 + unat w mod 128"
proof -
  have k: "(0x80 :: u64) = push_bit 7 1" "(0x7f :: u64) = mask 7"
    by (simp_all add: push_bit_eq_mult mask_eq_exp_minus_1)
  have bit80: "bit (0x80 :: u64) n \<longleftrightarrow> n = 7" for n
    unfolding k(1) by (subst bit_push_bit_iff) (auto simp: bit_1_iff)
  have "(0x80 :: u64) OR (w AND 0x7f) = 0x80 + (w AND 0x7f)"
  proof (rule disjunctive_add [symmetric])
    show "\<not> bit (0x80 :: u64) n \<or> \<not> bit (w AND 0x7f) n" for n
      by (simp only: bit80 k(2) bit_and_iff bit_mask_iff) auto
  qed
  moreover have "unat (w AND 0x7f) = unat w mod 128"
    using unat_and_mask [of w 7] by (simp add: mask_eq_exp_minus_1)
  ultimately show ?thesis
    by (simp add: word_nat unat_word_ariths)
qed

lemma unat_push_bit_small:
  "unat (w :: u64) * 2 ^ s < 2 ^ 64 \<Longrightarrow> unat (push_bit s w) = unat w * 2 ^ s"
  unfolding unsigned_push_bit_eq by (simp add: take_bit_eq_mod push_bit_eq_mult)

lemma int_decode_loop_step:
  assumes "unat b mod 128 * 2 ^ shift + unat v \<le> 4611686018427387903" "shift \<le> 62"
  shows "int_decode_loop (b # rest) shift v i =
    (let v = v + push_bit shift (ucast (b AND 0x7f)) in
     if unat b < 128 then Inr (v, i + 1) else int_decode_loop rest (shift + 7) v (i + 1))"
    and "unat (v + push_bit shift (ucast (b AND 0x7f))) = unat v + unat b mod 128 * 2 ^ shift"
proof -
  let ?c = "ucast (b AND 0x7f) :: u64"
  have c: "unat ?c = unat b mod 128" by (simp add: unat_byte_and_7f)
  have p: "unat (push_bit shift ?c) = unat b mod 128 * 2 ^ shift"
    using assms(1) unat_push_bit_small [of ?c shift] c by simp
  show s: "unat (v + push_bit shift ?c) = unat v + unat b mod 128 * 2 ^ shift"
    using assms(1) by (simp add: unat_word_ariths p)
  have "unat b mod 128 \<le> 4611686018427387903 div 2 ^ shift"
    using assms(1) by (simp add: less_eq_div_iff_mult_less_eq)
  then have "\<not> (shift > 0 \<and> ?c > drop_bit shift WTQ_QPACK_MAX_INT)"
    by (simp add: word_less_nat_alt word_nat qpack_max_int_nat unat_byte_and_7f)
  moreover have "\<not> v + push_bit shift ?c > WTQ_QPACK_MAX_INT"
    using assms(1) by (simp add: word_less_nat_alt s qpack_max_int_nat)
  ultimately show "int_decode_loop (b # rest) shift v i =
    (let v = v + push_bit shift ?c in
     if unat b < 128 then Inr (v, i + 1) else int_decode_loop rest (shift + 7) v (i + 1))"
    using assms(2) by (auto simp: Let_def byte_and_80)
qed

lemma int_tail_decode:
  "unat v + unat w * 2 ^ shift \<le> 4611686018427387903 \<Longrightarrow> shift = 0 \<or> 0 < unat w \<Longrightarrow>
   int_decode_loop (int_encode_tail w @ rest) shift v i
     = Inr (v + push_bit shift w, i + length (int_encode_tail w))"
proof (induction w arbitrary: shift v i rule: int_encode_tail.induct)
  case (1 w)
  have shift: "shift \<le> 62"
  proof (rule ccontr)
    assume "\<not> shift \<le> 62"
    then have "(2 :: nat) ^ 63 \<le> 2 ^ shift" by (intro power_increasing) auto
    moreover have "2 ^ shift \<le> unat w * 2 ^ shift" using 1(3) \<open>\<not> shift \<le> 62\<close> by simp
    ultimately show False using 1(2) by simp
  qed
  have div: "unat (drop_bit 7 w) = unat w div 128" by (simp add: word_nat)
  have split: "unat w * 2 ^ shift = unat w mod 128 * 2 ^ shift + unat w div 128 * 2 ^ (shift + 7)"
  proof -
    have "unat w * 2 ^ shift = (unat w mod 128 + unat w div 128 * 128) * 2 ^ shift" by simp
    then show ?thesis by (simp only: distrib_right power_add mult.assoc) simp
  qed
  show ?case
  proof (cases "0x80 \<le> w")
    case True
    let ?b = "ucast (0x80 OR (w AND 0x7f)) :: byte"
    let ?v = "v + push_bit shift (ucast (?b AND 0x7f))"
    have b: "unat ?b = 128 + unat w mod 128" by (rule tail_byte)
    have bm: "unat ?b mod 128 = unat w mod 128" unfolding b by simp
    have step: "unat ?b mod 128 * 2 ^ shift + unat v \<le> 4611686018427387903"
      unfolding bm using 1(2) split by linarith
    note S = int_decode_loop_step [OF step shift]
    have pos: "0 < unat (drop_bit 7 w)" using True div by (simp add: word_le_nat_alt div_greater_zero_iff)
    have IH: "int_decode_loop (int_encode_tail (drop_bit 7 w) @ rest) (shift + 7) ?v (i + 1)
        = Inr (?v + push_bit (shift + 7) (drop_bit 7 w), i + 1 + length (int_encode_tail (drop_bit 7 w)))"
      using 1(1) [OF True, of ?v "shift + 7" "i + 1"] S(2) bm split 1(2) pos div by simp
    have eq: "?v + push_bit (shift + 7) (drop_bit 7 w) = v + push_bit shift w"
    proof -
      have "ucast (?b AND 0x7f) = w AND 0x7f"
      proof (rule word_unat_eq_iff [THEN iffD2])
        have "unat (w AND 0x7f) = unat w mod 128"
          using unat_and_mask [of w 7] by (simp add: mask_eq_exp_minus_1)
        then show "unat (ucast (?b AND 0x7f) :: u64) = unat (w AND 0x7f)"
          using unat_byte_and_7f [of ?b] bm by simp
      qed
      moreover have "push_bit shift (w AND 0x7f) + push_bit (shift + 7) (drop_bit 7 w) = push_bit shift w"
      proof -
        have "w = (w AND mask 7) + push_bit 7 (drop_bit 7 w)"
          by (metis bits_ident add.commute take_bit_eq_mask)
        then have "push_bit shift w = push_bit shift (w AND mask 7) + push_bit shift (push_bit 7 (drop_bit 7 w))"
          by (metis push_bit_add)
        then show ?thesis by (simp add: mask_eq_exp_minus_1 push_bit_push_bit)
      qed
      ultimately show ?thesis by (simp add: add.assoc)
    qed
    have "int_decode_loop (?b # int_encode_tail (drop_bit 7 w) @ rest) shift v i
        = Inr (v + push_bit shift w, i + 1 + length (int_encode_tail (drop_bit 7 w)))"
      using S(1) [of "int_encode_tail (drop_bit 7 w) @ rest" i] IH eq b by (simp add: Let_def)
    then show ?thesis using True by (simp add: int_encode_tail.simps [of w])
  next
    case False
    let ?b = "ucast w :: byte"
    have w: "unat w < 128" using False by (simp add: word_le_nat_alt)
    then have b: "unat ?b = unat w" by (simp add: word_nat)
    have step: "unat ?b mod 128 * 2 ^ shift + unat v \<le> 4611686018427387903"
      using 1(2) w b by simp
    have "ucast (?b AND 0x7f) = w"
      by (rule word_unat_eq_iff [THEN iffD2]) (use unat_byte_and_7f [of ?b] b w in simp)
    then show ?thesis
      using int_decode_loop_step(1) [OF step shift, of rest i] False b w
      by (simp add: int_encode_tail.simps [of w] Let_def)
  qed
qed

lemma int_len_loop_eq: "int_len_loop w n = n + length (int_encode_tail w)"
proof (induction w n rule: int_len_loop.induct)
  case (1 w n)
  have "0 < drop_bit 7 w \<longleftrightarrow> 0x80 \<le> w"
    by (simp add: word_less_nat_alt word_le_nat_alt word_nat div_greater_zero_iff)
  with 1 show ?case
    by (simp add: int_len_loop.simps [of w] int_encode_tail.simps [of w] Let_def)
qed

lemma max_prefix_mask: "push_bit p 1 - 1 = (mask p :: u64)"
  by (simp add: mask_eq_exp_minus_1 push_bit_eq_mult)

text \<open>The first byte carries the flags above the prefix and the value in it.\<close>

lemma first_byte:
  fixes flags :: byte and x :: u64
  assumes "p \<le> 8" "take_bit p x = x" "\<And>n. n < p \<Longrightarrow> \<not> bit flags n"
  defines "fb \<equiv> ucast (ucast flags OR x) :: byte"
  shows "ucast fb AND mask p = x" "\<And>n. p \<le> n \<Longrightarrow> bit fb n = bit flags n"
proof -
  have x: "bit x n \<Longrightarrow> n < p" for n by (metis assms(2) bit_take_bit_iff)
  have fb: "bit fb n \<longleftrightarrow> n < 8 \<and> (bit flags n \<or> bit x n)" for n
    by (auto simp: fb_def bit_simps)
  show "ucast fb AND mask p = x"
  proof (rule bit_word_eqI)
    fix n assume "n < LENGTH(64)"
    then show "bit (ucast fb AND mask p :: u64) n = bit x n"
      using fb [of n] x [of n] assms(1,3) by (auto simp: bit_simps)
  qed
  show "bit fb n = bit flags n" if "p \<le> n" for n
    using fb [of n] x [of n] that by (auto dest: bit_imp_le_length)
qed

lemma qpack_int_ok:
  assumes "3 \<le> p" "p \<le> 8" "v \<le> WTQ_QPACK_MAX_INT" "\<And>n. n < p \<Longrightarrow> \<not> bit flags n"
    and "int_encoded_len v p \<le> cap"
  shows "\<exists>enc. wtq_qpack_int_encode v flags p cap = Inr enc \<and> length enc = int_encoded_len v p
    \<and> enc \<noteq> [] \<and> (\<forall>n \<ge> p. bit (hd enc) n = bit flags n)
    \<and> (\<forall>rest. wtq_qpack_int_decode (enc @ rest) p = Inr (v, length enc))"
proof (cases "v < mask p")
  case True
  have "p = 3 \<or> p = 4 \<or> p = 5 \<or> p = 6 \<or> p = 7 \<or> p = 8" using assms(1,2) by linarith
  then have "unat v < 2 ^ p"
    using True by (auto simp: word_less_nat_alt mask_eq_exp_minus_1)
  then have tb: "take_bit p v = v"
    by (intro word_unat_eq_iff [THEN iffD2])
      (simp add: unsigned_take_bit_eq take_bit_nat_eq_self_iff)
  note fb = first_byte [OF assms(2) tb assms(4)]
  show ?thesis
    using assms True fb less_imp_neq [OF True]
    unfolding wtq_qpack_int_encode_def wtq_qpack_int_decode_def int_encoded_len_def max_prefix_mask
    by (simp add: Let_def not_less)
next
  case False
  let ?w = "v - mask p"
  have le: "mask p \<le> v" using False by simp
  have tb: "take_bit p (mask p :: u64) = mask p" by (simp add: take_bit_of_mask)
  note fb = first_byte [OF assms(2) tb assms(4)]
  have "unat (mask p :: u64) + unat ?w = unat v"
    using unat_sub [OF le] le by (simp add: word_le_nat_alt)
  then have bound: "unat (mask p :: u64) + unat ?w * 2 ^ 0 \<le> 4611686018427387903"
    using assms(3) by (simp add: word_le_nat_alt qpack_max_int_nat)
  have "int_decode_loop (int_encode_tail ?w @ rest) 0 (mask p) 1 = Inr (v, 1 + length (int_encode_tail ?w))" for rest
    using int_tail_decode [OF bound] by simp
  then show ?thesis
    using assms False fb
    unfolding wtq_qpack_int_encode_def wtq_qpack_int_decode_def int_encoded_len_def max_prefix_mask
    by (auto simp: Let_def int_len_loop_eq not_less)
qed

text \<open>
  Round trip of QPACK prefixed integers: every value up to 2^62-1, with any
  prefix width from 3 to 8 and flags above the prefix, encodes to the announced
  length with the flags in the first byte, and decoding gives the value back and
  consumes exactly the encoding.
\<close>

theorem qpack_int_roundtrip:
  assumes "3 \<le> p" "p \<le> 8" "v \<le> WTQ_QPACK_MAX_INT" "\<And>n. n < p \<Longrightarrow> \<not> bit flags n"
    and "int_encoded_len v p \<le> cap"
  shows "\<exists>enc. wtq_qpack_int_encode v flags p cap = Inr enc \<and> length enc = int_encoded_len v p
    \<and> enc \<noteq> [] \<and> (\<forall>n \<ge> p. bit (hd enc) n = bit flags n)
    \<and> (\<forall>rest. wtq_qpack_int_decode (enc @ rest) p = Inr (v, length enc))"
  using assms by (rule qpack_int_ok)

theorem qpack_int_roundtrip_witness:
  "\<exists>enc. wtq_qpack_int_encode 1337 0xc0 6 16 = Inr enc \<and> length enc = int_encoded_len 1337 6
    \<and> enc \<noteq> [] \<and> (\<forall>n \<ge> 6. bit (hd enc) n = bit (0xc0 :: byte) n)
    \<and> (\<forall>rest. wtq_qpack_int_decode (enc @ rest) 6 = Inr (1337, length enc))"
proof (rule qpack_int_roundtrip)
  show "int_encoded_len 1337 6 \<le> 16"
    by (simp add: int_encoded_len_def int_len_loop.simps Let_def)
  have "(0xc0 :: byte) = push_bit 6 3" by (simp add: push_bit_eq_mult)
  then show "\<not> bit (0xc0 :: byte) n" if "n < 6" for n
    using that by (simp only: bit_push_bit_iff) simp
qed (simp_all add: WTQ_QPACK_MAX_INT_def)

section \<open>Field sections round trip\<close>

lemma static_find_loop_Some:
  "static_find_loop P es i = Some k \<Longrightarrow> i \<le> k \<and> k < i + length es \<and> P (es ! (k - i))"
proof (induction P es i rule: static_find_loop.induct)
  case (2 P e es i)
  then show ?case by (cases "P e") (auto simp: nth_Cons' Suc_diff_le)
qed simp

lemma static_get_of_nat:
  assumes "k < length wtq_qpack_static_table"
  shows "wtq_qpack_static_get (of_nat k) = Some (wtq_qpack_static_table ! k)"
    and "of_nat k \<le> WTQ_QPACK_MAX_INT"
proof -
  have "k < 99" using assms by (simp add: static_table_count WTQ_QPACK_STATIC_COUNT_def)
  then have "unat (of_nat k :: u64) = k" by (intro unat_of_nat_u64) simp
  with \<open>k < 99\<close> show "wtq_qpack_static_get (of_nat k) = Some (wtq_qpack_static_table ! k)"
      "of_nat k \<le> WTQ_QPACK_MAX_INT"
    by (simp_all add: wtq_qpack_static_get_def WTQ_QPACK_STATIC_COUNT_def word_le_nat_alt qpack_max_int_nat)
qed

lemma static_find_get:
  assumes "wtq_qpack_static_find n v = Some k"
  shows "wtq_qpack_static_get (of_nat k) = Some (n, v)" "of_nat k \<le> WTQ_QPACK_MAX_INT"
  using static_find_loop_Some [OF assms [unfolded wtq_qpack_static_find_def]] static_get_of_nat [of k]
  by (auto split: prod.splits)

lemma static_find_name_get:
  assumes "wtq_qpack_static_find_name n = Some k"
  shows "\<exists>v. wtq_qpack_static_get (of_nat k) = Some (n, v)" "of_nat k \<le> WTQ_QPACK_MAX_INT"
  using static_find_loop_Some [OF assms [unfolded wtq_qpack_static_find_name_def]] static_get_of_nat [of k]
  by (auto split: prod.splits)

lemma low_bits_clear: "take_bit p (b :: byte) = 0 \<Longrightarrow> n < p \<Longrightarrow> \<not> bit b n"
  by (metis bit_take_bit_iff bit_0_eq bot_apply bot_bool_def)

lemma flag_bits:
  "\<forall>n < 6. \<not> bit (0xc0 :: byte) n" "bit (0xc0 :: byte) 7" "bit (0xc0 :: byte) 6"
  "\<forall>n < 4. \<not> bit (0x40 OR (if ni then 0x20 else 0) OR 0x10 :: byte) n"
  "\<not> bit (0x40 OR (if ni then 0x20 else 0) OR 0x10 :: byte) 7"
  "bit (0x40 OR (if ni then 0x20 else 0) OR 0x10 :: byte) 6"
  "bit (0x40 OR (if ni then 0x20 else 0) OR 0x10 :: byte) 5 = ni"
  "bit (0x40 OR (if ni then 0x20 else 0) OR 0x10 :: byte) 4"
  "\<forall>n < 4. \<not> bit (0x20 OR (if ni then 0x10 else 0) :: byte) n"
  "\<not> bit (0x20 OR (if ni then 0x10 else 0) :: byte) 7"
  "\<not> bit (0x20 OR (if ni then 0x10 else 0) :: byte) 6"
  "bit (0x20 OR (if ni then 0x10 else 0) :: byte) 5"
  "bit (0x20 OR (if ni then 0x10 else 0) :: byte) 4 = ni"
proof -
  show "\<forall>n < 6. \<not> bit (0xc0 :: byte) n" by (intro allI impI low_bits_clear [of 6]) simp_all
  show "\<forall>n < 4. \<not> bit (0x40 OR (if ni then 0x20 else 0) OR 0x10 :: byte) n"
    by (intro allI impI low_bits_clear [of 4]) (cases ni; simp)+
  show "\<forall>n < 4. \<not> bit (0x20 OR (if ni then 0x10 else 0) :: byte) n"
    by (intro allI impI low_bits_clear [of 4]) (cases ni; simp)+
qed (cases ni; simp)+

text \<open>Every length within memory is encodable; the C code checks the same bound.\<close>

definition qlen_ok :: "bytes \<Rightarrow> bool" where
  "qlen_ok s \<longleftrightarrow> length s \<le> unat WTQ_QPACK_MAX_INT"

lemma qlen_ok_of_nat:
  assumes "qlen_ok s"
  shows "of_nat (length s) \<le> WTQ_QPACK_MAX_INT" "unat (of_nat (length s) :: u64) = length s"
proof -
  show u: "unat (of_nat (length s) :: u64) = length s"
    using assms by (intro unat_of_nat_u64) (simp add: qlen_ok_def qpack_max_int_nat)
  show "of_nat (length s) \<le> WTQ_QPACK_MAX_INT"
    using assms u by (simp add: word_le_nat_alt qlen_ok_def)
qed

text \<open>A plain literal: the length with a clear Huffman bit, then the bytes.\<close>

lemma plain_string_ok:
  assumes "3 \<le> p" "p \<le> 7" "\<forall>n \<le> p. \<not> bit flags n" "qlen_ok s"
    and "int_encoded_len (of_nat (length s)) p \<le> cap"
  shows "\<exists>a. wtq_qpack_int_encode (of_nat (length s)) flags p cap = Inr a
    \<and> length a = int_encoded_len (of_nat (length s)) p
    \<and> a \<noteq> [] \<and> (\<forall>n \<ge> p. bit (hd a) n = bit flags n)
    \<and> (\<forall>rest scap soff. soff + length s \<le> scap \<longrightarrow>
         decode_string (a @ s @ rest) p scap soff = Inr (s, rest, soff + length s))"
proof -
  obtain a where a: "wtq_qpack_int_encode (of_nat (length s)) flags p cap = Inr a"
      "length a = int_encoded_len (of_nat (length s)) p" "a \<noteq> []"
      "\<forall>n \<ge> p. bit (hd a) n = bit flags n"
      "\<And>rest. wtq_qpack_int_decode (a @ rest) p = Inr (of_nat (length s), length a)"
    using qpack_int_ok [OF assms(1) _ qlen_ok_of_nat(1) [OF assms(4)] _ assms(5), of flags] assms(2,3)
    by auto
  obtain b bs where b: "a = b # bs" using a(3) by (cases a) auto
  have "\<not> bit b p" using a(4) assms(3) b by simp
  then have "decode_string (a @ s @ rest) p scap soff = Inr (s, rest, soff + length s)"
    if "soff + length s \<le> scap" for rest scap soff
    using a(5) [of "s @ rest"] that qlen_ok_of_nat(2) [OF assms(4)]
    by (simp add: decode_string_def b)
  with a show ?thesis by blast
qed

definition field_scratch :: "wtq_qpack_field \<Rightarrow> nat" where
  "field_scratch f =
     (if wtq_qpack_static_find (qf_name f) (qf_value f) \<noteq> None then 0
      else if wtq_qpack_static_find_name (qf_name f) \<noteq> None then length (qf_value f)
      else length (qf_name f) + length (qf_value f))"

text \<open>What arrives: an indexed field line has no never-index bit.\<close>

definition field_sent :: "wtq_qpack_field \<Rightarrow> wtq_qpack_field" where
  "field_sent f =
     f\<lparr>qf_never_index := qf_never_index f \<and> wtq_qpack_static_find (qf_name f) (qf_value f) = None\<rparr>"

lemma encode_field_ok:
  assumes "qlen_ok (qf_name f)" "qlen_ok (qf_value f)" "off + field_encoded_len f \<le> cap"
    and "soff + field_scratch f \<le> scap"
  shows "encode_field f cap off \<noteq> []" "length (encode_field f cap off) = field_encoded_len f"
    and "decode_field_line (encode_field f cap off @ rest) scap soff
      = Inr (field_sent f, rest, soff + field_scratch f)"
proof -
  let ?n = "qf_name f" and ?v = "qf_value f" and ?ni = "qf_never_index f"
  have "encode_field f cap off \<noteq> [] \<and> length (encode_field f cap off) = field_encoded_len f
    \<and> decode_field_line (encode_field f cap off @ rest) scap soff
      = Inr (field_sent f, rest, soff + field_scratch f)"
  proof (cases "wtq_qpack_static_find ?n ?v")
    case (Some k)
    have cap: "int_encoded_len (of_nat k) 6 \<le> cap - off"
      using assms(3) Some by (simp add: field_encoded_len_def)
    obtain a where a: "wtq_qpack_int_encode (of_nat k) 0xc0 6 (cap - off) = Inr a"
        "length a = int_encoded_len (of_nat k) 6" "a \<noteq> []"
        "\<forall>n \<ge> 6. bit (hd a) n = bit (0xc0 :: byte) n"
        "wtq_qpack_int_decode (a @ rest) 6 = Inr (of_nat k, length a)"
      using qpack_int_ok [OF _ _ static_find_get(2) [OF Some] _ cap, of "0xc0"] flag_bits(1) by auto
    have "bit (hd a) 7" "bit (hd a) 6" using a(4) flag_bits(2,3) by auto
    then show ?thesis
      using a Some static_find_get(1) [OF Some]
      by (auto simp: encode_field_def field_encoded_len_def decode_field_line_def field_sent_def
          field_scratch_def)
  next
    case none: None
    show ?thesis
    proof (cases "wtq_qpack_static_find_name ?n")
      case (Some k)
      let ?fl = "0x40 OR (if ?ni then 0x20 else 0) OR 0x10 :: byte"
      have cap: "int_encoded_len (of_nat k) 4 \<le> cap - off"
        using assms(3) none Some by (simp add: field_encoded_len_def)
      obtain a where a: "wtq_qpack_int_encode (of_nat k) ?fl 4 (cap - off) = Inr a"
          "length a = int_encoded_len (of_nat k) 4" "a \<noteq> []"
          "\<forall>n \<ge> 4. bit (hd a) n = bit ?fl n"
          "\<And>rest. wtq_qpack_int_decode (a @ rest) 4 = Inr (of_nat k, length a)"
        using qpack_int_ok [OF _ _ static_find_name_get(2) [OF Some] _ cap, of ?fl] flag_bits(4) by auto
      have capv: "int_encoded_len (of_nat (length ?v)) 7 \<le> cap - (off + length a)"
        using assms(3) none Some a(2) by (simp add: field_encoded_len_def)
      obtain b where b: "wtq_qpack_int_encode (of_nat (length ?v)) 0 7 (cap - (off + length a)) = Inr b"
          "length b = int_encoded_len (of_nat (length ?v)) 7"
          "\<And>rest scap soff. soff + length ?v \<le> scap \<Longrightarrow>
             decode_string (b @ ?v @ rest) 7 scap soff = Inr (?v, rest, soff + length ?v)"
        using plain_string_ok [OF _ _ _ assms(2) capv, of 0] by auto
      obtain sv where sv: "wtq_qpack_static_get (of_nat k) = Some (?n, sv)"
        using static_find_name_get(1) [OF Some] by blast
      have hd: "\<not> bit (hd a) 7" "bit (hd a) 6" "bit (hd a) 5 = ?ni" "bit (hd a) 4"
        using a(4) flag_bits(5-8) [of ?ni] by auto
      show ?thesis
        using a(1-3) a(5) [of "b @ ?v @ rest"] b none Some sv hd assms(4)
        by (auto simp: encode_field_def field_encoded_len_def decode_field_line_def field_sent_def
            field_scratch_def Let_def)
    next
      case None
      let ?fl = "0x20 OR (if ?ni then 0x10 else 0) :: byte"
      have cap: "int_encoded_len (of_nat (length ?n)) 3 \<le> cap - off"
        using assms(3) none None by (simp add: field_encoded_len_def)
      obtain a where a: "wtq_qpack_int_encode (of_nat (length ?n)) ?fl 3 (cap - off) = Inr a"
          "length a = int_encoded_len (of_nat (length ?n)) 3" "a \<noteq> []"
          "\<forall>n \<ge> 3. bit (hd a) n = bit ?fl n"
          "\<And>rest scap soff. soff + length ?n \<le> scap \<Longrightarrow>
             decode_string (a @ ?n @ rest) 3 scap soff = Inr (?n, rest, soff + length ?n)"
        using plain_string_ok [OF _ _ _ assms(1) cap, of ?fl] flag_bits(9) [of ?ni] by auto
      have capv: "int_encoded_len (of_nat (length ?v)) 7 \<le> cap - (off + length (a @ ?n))"
        using assms(3) none None a(2) by (simp add: field_encoded_len_def)
      obtain b where b: "wtq_qpack_int_encode (of_nat (length ?v)) 0 7 (cap - (off + length (a @ ?n))) = Inr b"
          "length b = int_encoded_len (of_nat (length ?v)) 7"
          "\<And>rest scap soff. soff + length ?v \<le> scap \<Longrightarrow>
             decode_string (b @ ?v @ rest) 7 scap soff = Inr (?v, rest, soff + length ?v)"
        using plain_string_ok [OF _ _ _ assms(2) capv, of 0] by auto
      have hd: "\<not> bit (hd a) 7" "\<not> bit (hd a) 6" "bit (hd a) 5" "bit (hd a) 4 = ?ni"
        using a(4) flag_bits(10-13) [of ?ni] by auto
      show ?thesis
        using a(1-3) a(5) [of soff scap "b @ ?v @ rest"] b none None hd assms(4)
        by (auto simp: encode_field_def field_encoded_len_def decode_field_line_def field_sent_def
            field_scratch_def Let_def)
    qed
  qed
  then show "encode_field f cap off \<noteq> []" "length (encode_field f cap off) = field_encoded_len f"
    "decode_field_line (encode_field f cap off @ rest) scap soff
      = Inr (field_sent f, rest, soff + field_scratch f)" by blast+
qed

lemma encode_section_loop_ok:
  assumes "list_all (\<lambda>f. qlen_ok (qf_name f) \<and> qlen_ok (qf_value f)) fs"
    and "length dst + sum_list (map field_encoded_len fs) \<le> cap"
  shows "\<exists>w. encode_section_loop fs cap dst = dst @ w
    \<and> length w = sum_list (map field_encoded_len fs)
    \<and> (\<forall>soff acc. soff + sum_list (map field_scratch fs) \<le> scap \<longrightarrow> length acc + length fs \<le> mx \<longrightarrow>
         decode_section_loop w mx scap soff acc
           = Inr (acc @ map field_sent fs, soff + sum_list (map field_scratch fs)))"
  using assms
proof (induction fs arbitrary: dst)
  case Nil
  then show ?case by (simp add: decode_section_loop.simps)
next
  case (Cons f fs)
  let ?e = "encode_field f cap (length dst)"
  have pre: "qlen_ok (qf_name f)" "qlen_ok (qf_value f)" "length dst + field_encoded_len f \<le> cap"
    using Cons.prems by simp_all
  note len = encode_field_ok(1,2) [OF pre, of 0 "field_scratch f", simplified]
  obtain w where w: "encode_section_loop fs cap (dst @ ?e) = (dst @ ?e) @ w"
      "length w = sum_list (map field_encoded_len fs)"
      "\<And>soff acc. soff + sum_list (map field_scratch fs) \<le> scap \<Longrightarrow> length acc + length fs \<le> mx \<Longrightarrow>
         decode_section_loop w mx scap soff acc
           = Inr (acc @ map field_sent fs, soff + sum_list (map field_scratch fs))"
    using Cons.IH [of "dst @ ?e"] Cons.prems len by auto
  have "decode_section_loop (?e @ w) mx scap soff acc
      = Inr (acc @ map field_sent (f # fs), soff + sum_list (map field_scratch (f # fs)))"
    if "soff + sum_list (map field_scratch (f # fs)) \<le> scap" "length acc + length (f # fs) \<le> mx" for soff acc
  proof -
    have "soff + field_scratch f \<le> scap" using that by simp
    from encode_field_ok(3) [OF pre this, of w]
    show ?thesis using that len w(3) [of "soff + field_scratch f" "acc @ [field_sent f]"]
      by (subst decode_section_loop.simps) simp
  qed
  then show ?case using w(1,2) len by (intro exI [of _ "?e @ w"]) simp
qed

lemma section_prefix:
  "wtq_qpack_decode_section (0 # 0 # w) mx scap = decode_section_loop w mx scap 0 []"
  by (simp add: wtq_qpack_decode_section_def wtq_qpack_int_decode_def Let_def)

lemma qpack_section_ok:
  assumes "list_all (\<lambda>f. qlen_ok (qf_name f) \<and> qlen_ok (qf_value f)) fs"
    and "2 + sum_list (map field_encoded_len fs) \<le> cap"
    and "sum_list (map field_scratch fs) \<le> scap" "length fs \<le> mx"
  shows "\<exists>enc. wtq_qpack_encode_section fs cap = Inr enc
    \<and> length enc = 2 + sum_list (map field_encoded_len fs)
    \<and> wtq_qpack_decode_section enc mx scap
        = Inr (map field_sent fs, sum_list (map field_scratch fs))"
proof -
  have "\<not> list_ex (\<lambda>f. length (qf_name f) > unat WTQ_QPACK_MAX_INT
      \<or> length (qf_value f) > unat WTQ_QPACK_MAX_INT) fs"
    using assms(1) by (auto simp: list_ex_iff list_all_iff qlen_ok_def not_less)
  moreover obtain w where "encode_section_loop fs cap [0, 0] = [0, 0] @ w"
      "length w = sum_list (map field_encoded_len fs)"
      "decode_section_loop w mx scap 0 [] = Inr (map field_sent fs, sum_list (map field_scratch fs))"
    using encode_section_loop_ok [OF assms(1), of "[0, 0]" cap scap mx] assms(2-4) by auto
  ultimately show ?thesis
    using assms(2) by (simp add: wtq_qpack_encode_section_def section_prefix)
qed

text \<open>
  C30. Round trip of field sections: any list of fields encodes, in a buffer of
  the computed size, to a section that decodes to the same names and values in the
  same order, when the field array and the scratch buffer have room, using exactly
  the scratch its literals need. The never-index bit survives except on a fully indexed line, which has none.
\<close>

theorem qpack_section_roundtrip:
  assumes "list_all (\<lambda>f. qlen_ok (qf_name f) \<and> qlen_ok (qf_value f)) fs"
    and "2 + sum_list (map field_encoded_len fs) \<le> cap"
    and "sum_list (map field_scratch fs) \<le> scap" "length fs \<le> mx"
  shows "\<exists>enc. wtq_qpack_encode_section fs cap = Inr enc
    \<and> length enc = 2 + sum_list (map field_encoded_len fs)
    \<and> wtq_qpack_decode_section enc mx scap
        = Inr (map field_sent fs, sum_list (map field_scratch fs))"
  using assms by (rule qpack_section_ok)

theorem qpack_section_roundtrip_witness:
  "\<exists>enc. wtq_qpack_encode_section
      [\<lparr>qf_name = str '':path'', qf_value = str ''/'', qf_never_index = False\<rparr>,
       \<lparr>qf_name = str ''ab'', qf_value = str ''c'', qf_never_index = True\<rparr>] 64 = Inr enc
    \<and> length enc = 2 + sum_list (map field_encoded_len
        [\<lparr>qf_name = str '':path'', qf_value = str ''/'', qf_never_index = False\<rparr>,
         \<lparr>qf_name = str ''ab'', qf_value = str ''c'', qf_never_index = True\<rparr>])
    \<and> wtq_qpack_decode_section enc 4 16
        = Inr (map field_sent
            [\<lparr>qf_name = str '':path'', qf_value = str ''/'', qf_never_index = False\<rparr>,
             \<lparr>qf_name = str ''ab'', qf_value = str ''c'', qf_never_index = True\<rparr>],
           sum_list (map field_scratch
            [\<lparr>qf_name = str '':path'', qf_value = str ''/'', qf_never_index = False\<rparr>,
             \<lparr>qf_name = str ''ab'', qf_value = str ''c'', qf_never_index = True\<rparr>]))"
proof (rule qpack_section_roundtrip)
  have "wtq_qpack_static_find_name (str ''ab'') = None"
    "wtq_qpack_static_find (str ''ab'') (str ''c'') = None"
    "wtq_qpack_static_find (str '':path'') (str ''/'') = Some 1"
    by (simp_all add: wtq_qpack_static_find_def wtq_qpack_static_find_name_def wtq_qpack_static_table_def)
  then show "2 + sum_list (map field_encoded_len
        [\<lparr>qf_name = str '':path'', qf_value = str ''/'', qf_never_index = False\<rparr>,
         \<lparr>qf_name = str ''ab'', qf_value = str ''c'', qf_never_index = True\<rparr>]) \<le> 64"
    "sum_list (map field_scratch
        [\<lparr>qf_name = str '':path'', qf_value = str ''/'', qf_never_index = False\<rparr>,
         \<lparr>qf_name = str ''ab'', qf_value = str ''c'', qf_never_index = True\<rparr>]) \<le> 16"
    by (simp_all add: field_encoded_len_def field_scratch_def int_encoded_len_def)
qed (simp_all add: qlen_ok_def qpack_max_int_nat)

section \<open>The Huffman decoder stays inside its tables\<close>

text \<open>
  The length table is canonical: the first code of a row is the first unused code
  of the row before, extended to the new length, and the symbols of a row are
  inside the symbol array.
\<close>

definition row_ok :: "huff_row \<Rightarrow> bool" where
  "row_ok r \<longleftrightarrow> unat (hr_first_code r) + unat (hr_count r) \<le> 2 ^ hr_bits r \<and> hr_bits r \<le> 30
     \<and> hr_first_index r + unat (hr_count r) \<le> 256"

fun rows_canonical :: "huff_row list \<Rightarrow> bool" where
  "rows_canonical [] = True"
| "rows_canonical [r] = row_ok r"
| "rows_canonical (r # s # rs) =
     (row_ok r \<and> hr_bits r < hr_bits s
      \<and> unat (hr_first_code s) = (unat (hr_first_code r) + unat (hr_count r)) * 2 ^ (hr_bits s - hr_bits r)
      \<and> rows_canonical (s # rs))"

lemma huff_lengths_canonical: "rows_canonical wtq_huff_lengths"
  by (simp add: wtq_huff_lengths_def huff_row_of_def row_ok_def)

text \<open>
  The state between two bits: every code of the lengths seen so far has been
  passed, so the code, extended to the length of the next row, is not below it.
\<close>

definition huff_inv :: "u32 \<Rightarrow> nat \<Rightarrow> huff_row list \<Rightarrow> bool" where
  "huff_inv code nbits rows \<longleftrightarrow>
     rows_canonical rows \<and> nbits < 30 \<and> unat code < 2 ^ nbits
     \<and> (case rows of
          [] \<Rightarrow> True
        | r # _ \<Rightarrow> nbits \<le> hr_bits r
            \<and> unat (hr_first_code r) \<le> unat code * 2 ^ (hr_bits r - nbits)
            \<and> (hr_bits r = nbits \<longrightarrow> unat (hr_first_code r) + unat (hr_count r) \<le> unat code))"

lemma huff_inv_start: "huff_inv 0 0 wtq_huff_lengths"
  using huff_lengths_canonical
  by (simp add: huff_inv_def) (simp add: wtq_huff_lengths_def huff_row_of_def)

lemma unat_shift_in_bit:
  assumes "unat (code :: u32) < 2 ^ n" "n < 31"
  shows "unat (push_bit 1 code OR of_bool b) = 2 * unat code + of_bool b"
proof -
  have lt: "unat code < 2147483648"
    using assms power_strict_increasing [of n 31 "2 :: nat"] by simp
  have "push_bit 1 code OR of_bool b = push_bit 1 code + of_bool b"
  proof (rule disjunctive_add [symmetric])
    show "\<not> bit (push_bit 1 code) m \<or> \<not> bit (of_bool b :: u32) m" for m
      by (simp only: bit_push_bit_iff bit_of_bool_iff) auto
  qed
  moreover have "unat (push_bit 1 code) = 2 * unat code"
    unfolding unsigned_push_bit_eq using lt by (simp add: take_bit_eq_mod push_bit_eq_mult)
  ultimately show ?thesis using lt by (cases b) (simp_all add: unat_word_ariths)
qed

text \<open>The row cursor after one more bit, before the test for a hit.\<close>

lemma huff_rows_step:
  assumes "huff_inv code n rows" "unat code' = 2 * unat code + of_bool b"
  defines "rows' \<equiv> dropWhile (\<lambda>r. hr_bits r < n + 1) rows"
  shows "rows_canonical rows'" "unat code' < 2 ^ (n + 1)"
    and "rows' = r # rs \<Longrightarrow> n + 1 \<le> hr_bits r
      \<and> unat (hr_first_code r) \<le> unat code' * 2 ^ (hr_bits r - (n + 1))"
proof -
  have ext: "unat code * 2 ^ (k - n) \<le> unat code' * 2 ^ (k - (n + 1))" if "n + 1 \<le> k" for k
  proof -
    have "k - n = Suc (k - (n + 1))" using that by simp
    then have "unat code * 2 ^ (k - n) = (2 * unat code) * 2 ^ (k - (n + 1))" by simp
    also have "\<dots> \<le> unat code' * 2 ^ (k - (n + 1))" using assms(2) by simp
    finally show ?thesis .
  qed
  show "unat code' < 2 ^ (n + 1)" using assms(1,2) by (cases b) (simp_all add: huff_inv_def)
  consider "rows = []" | s rs' where "rows = s # rs'" "n + 1 \<le> hr_bits s"
    | s rs' where "rows = s # rs'" "hr_bits s = n"
  proof (cases rows)
    case (Cons s rs')
    then have "hr_bits s = n \<or> n + 1 \<le> hr_bits s" using assms(1) by (auto simp: huff_inv_def)
    with Cons that show ?thesis by blast
  qed (use that in blast)
  then have "rows_canonical rows' \<and> (\<forall>r rs. rows' = r # rs \<longrightarrow> n + 1 \<le> hr_bits r
      \<and> unat (hr_first_code r) \<le> unat code' * 2 ^ (hr_bits r - (n + 1)))"
  proof cases
    case 1
    then show ?thesis by (simp add: rows'_def)
  next
    case (2 s rs')
    then have "rows' = rows" by (simp add: rows'_def)
    moreover have "unat (hr_first_code s) \<le> unat code * 2 ^ (hr_bits s - n)"
      using assms(1) 2(1) by (simp add: huff_inv_def)
    ultimately show ?thesis using assms(1) 2 ext [OF 2(2)] by (auto simp: huff_inv_def)
  next
    case (3 s rs')
    have lo: "unat (hr_first_code s) + unat (hr_count s) \<le> unat code"
      using assms(1) 3 by (simp add: huff_inv_def)
    have canon: "rows_canonical (s # rs')" using assms(1) 3 by (simp add: huff_inv_def)
    show ?thesis
    proof (cases rs')
      case Nil
      then show ?thesis using 3 by (simp add: rows'_def)
    next
      case (Cons q qs)
      have q: "n + 1 \<le> hr_bits q" "rows_canonical (q # qs)"
        "unat (hr_first_code q) = (unat (hr_first_code s) + unat (hr_count s)) * 2 ^ (hr_bits q - n)"
        using canon Cons 3(2) by simp_all
      then have "rows' = q # qs" using 3 Cons by (simp add: rows'_def)
      moreover have "unat (hr_first_code q) \<le> unat code * 2 ^ (hr_bits q - n)"
        unfolding q(3) using lo by simp
      then have "unat (hr_first_code q) \<le> unat code' * 2 ^ (hr_bits q - (n + 1))"
        using ext [OF q(1)] by (rule order_trans)
      ultimately show ?thesis using q(1,2) by simp
    qed
  qed
  then show "rows_canonical rows'"
    "rows' = r # rs \<Longrightarrow> n + 1 \<le> hr_bits r
      \<and> unat (hr_first_code r) \<le> unat code' * 2 ^ (hr_bits r - (n + 1))"
    by blast+
qed

lemma huffman_loop_safe:
  "huff_inv code n rows \<Longrightarrow> length out \<le> cap \<Longrightarrow>
   huffman_loop bs cap code n rows out \<noteq> Inl FAULT
   \<and> (\<forall>res. huffman_loop bs cap code n rows out = Inr res \<longrightarrow> length res \<le> cap)"
proof (induction bs arbitrary: code n rows out)
  case (Cons b bs)
  define c' where "c' = push_bit 1 code OR of_bool b"
  let ?rows = "dropWhile (\<lambda>r. hr_bits r < n + 1) rows"
  have c: "unat c' = 2 * unat code + of_bool b"
    unfolding c'_def using Cons.prems(1) by (intro unat_shift_in_bit [of _ n]) (simp_all add: huff_inv_def)
  note step = huff_rows_step [OF Cons.prems(1) c]
  let ?hit = "?rows \<noteq> [] \<and> hr_bits (hd ?rows) = n + 1
    \<and> c' < hr_first_code (hd ?rows) + hr_count (hd ?rows)"
  have sum: "unat (hr_first_code r + hr_count r) = unat (hr_first_code r) + unat (hr_count r)"
    if "row_ok r" for r
  proof -
    have "(2 :: nat) ^ hr_bits r \<le> 2 ^ 30" using that by (intro power_increasing) (simp_all add: row_ok_def)
    then show ?thesis using that by (simp add: row_ok_def unat_word_ariths)
  qed
  have rok: "row_ok r" if "?rows = r # rs" for r rs
    using step(1) that by (cases rs) auto
  have eq: "huffman_loop (b # bs) cap code n rows out =
     (if ?hit then
        (if length out \<ge> cap then Inl BUFFER
         else (case huff_symbol (hd ?rows) c' of
                 None \<Rightarrow> Inl FAULT
               | Some s \<Rightarrow> huffman_loop bs cap 0 0 wtq_huff_lengths (out @ [s])))
      else if n + 1 \<ge> WTQ_HUFF_EOS_BITS then Inl MALFORMED
      else huffman_loop bs cap c' (n + 1) ?rows out)"
    by (simp only: huffman_loop.simps Let_def c'_def)
  show ?case
  proof (cases ?hit)
    case True
    then obtain r rs where r: "?rows = r # rs" "hr_bits r = n + 1" "c' < hr_first_code r + hr_count r"
      by (cases ?rows) auto
    have le: "unat (hr_first_code r) \<le> unat c'" using step(3) [OF r(1)] r(2) by simp
    have lt: "unat c' < unat (hr_first_code r) + unat (hr_count r)"
      using r(3) sum [OF rok [OF r(1)]] by (simp add: word_less_nat_alt)
    have "unat (c' - hr_first_code r) = unat c' - unat (hr_first_code r)"
      using le by (intro unat_sub) (simp add: word_le_nat_alt)
    then have "hr_first_index r + unat (c' - hr_first_code r) < 256"
      using lt le rok [OF r(1)] unfolding row_ok_def by linarith
    then obtain s where s: "huff_symbol r c' = Some s"
      by (simp add: huff_symbol_def huff_symbols_count Let_def)
    show ?thesis
      unfolding eq using True r(1) s Cons.IH [OF huff_inv_start, of "out @ [s]"] Cons.prems(2)
      by auto
  next
    case False
    show ?thesis
    proof (cases "n + 1 \<ge> WTQ_HUFF_EOS_BITS")
      case True
      then show ?thesis unfolding eq if_not_P [OF False] by simp
    next
      case nb: False
      have "huff_inv c' (n + 1) ?rows"
      proof (cases ?rows)
        case Nil
        show ?thesis unfolding Nil using nb step(2) by (simp add: huff_inv_def WTQ_HUFF_EOS_BITS_def)
      next
        case (Cons r rs)
        have "hr_bits r = n + 1 \<longrightarrow> unat (hr_first_code r) + unat (hr_count r) \<le> unat c'"
          using False [unfolded Cons] sum [OF rok [OF Cons]] by (auto simp: word_less_nat_alt)
        then show ?thesis
          using nb step(2) step(1) [unfolded Cons] step(3) [OF Cons]
          unfolding Cons by (simp add: huff_inv_def WTQ_HUFF_EOS_BITS_def)
      qed
      then show ?thesis
        unfolding eq if_not_P [OF False] if_not_P [OF nb] using Cons.IH Cons.prems(2) by blast
    qed
  qed
qed simp

text \<open>
  C31. The Huffman decoder is memory safe on every input: the canonical lookup
  never computes an index outside the 256 symbols, and what it writes fits the
  destination.
\<close>

theorem huffman_decode_in_bounds:
  "huffman_decode src cap \<noteq> Inl FAULT
   \<and> (case huffman_decode src cap of Inr out \<Rightarrow> length out \<le> cap | Inl _ \<Rightarrow> True)"
proof -
  note safe = huffman_loop_safe [OF huff_inv_start, of "[]" cap "concat (map byte_bits src)"]
  then show ?thesis
    by (cases "huffman_decode src cap") (auto simp: huffman_decode_def)
qed

end
