(* ===== verification/Sf_String.thy ===== *)
theory Sf_String
  imports Prelude
begin

text \<open>
  RFC 8941 structured-field strings for subprotocol negotiation:
  \<^verbatim>\<open>src/proto/sf_string.c\<close>. Characters are bytes; an input position is the rest
  of the input; the caller's output buffer is its capacity and the bytes already
  in it. \<open>BUFFER\<close> and \<open>MALFORMED\<close> are \<^verbatim>\<open>WTQ_SF_BUFFER\<close> and \<^verbatim>\<open>WTQ_SF_MALFORMED\<close>.
  The character codes are DQUOTE 0x22, backslash 0x5c, comma 0x2c, SP 0x20, HTAB
  0x09, semicolon 0x3b, colon 0x3a, equals 0x3d, parenthesis 0x28, asterisk 0x2a.
\<close>

definition is_alpha :: "byte \<Rightarrow> bool" where
  "is_alpha c \<longleftrightarrow> (c \<ge> 0x61 \<and> c \<le> 0x7a) \<or> (c \<ge> 0x41 \<and> c \<le> 0x5a)"

definition is_digit :: "byte \<Rightarrow> bool" where
  "is_digit c \<longleftrightarrow> c \<ge> 0x30 \<and> c \<le> 0x39"

text \<open>The punctuation is \<^verbatim>\<open>! # $ % & ' * + - . ^ _ ` | ~\<close>; NUL is excluded by the C test.\<close>

definition is_tchar :: "byte \<Rightarrow> bool" where
  "is_tchar c \<longleftrightarrow> is_alpha c \<or> is_digit c
     \<or> c \<in> {0x21, 0x23, 0x24, 0x25, 0x26, 0x27, 0x2a, 0x2b, 0x2d, 0x2e, 0x5e, 0x5f, 0x60, 0x7c, 0x7e}"

definition is_token_char :: "byte \<Rightarrow> bool" where
  "is_token_char c \<longleftrightarrow> is_tchar c \<or> c = 0x3a \<or> c = 0x2f"

definition is_lcalpha :: "byte \<Rightarrow> bool" where
  "is_lcalpha c \<longleftrightarrow> c \<ge> 0x61 \<and> c \<le> 0x7a"

definition skip_sp :: "bytes \<Rightarrow> bytes" where
  "skip_sp inp = dropWhile (\<lambda>c. c = 0x20) inp"

definition skip_ows :: "bytes \<Rightarrow> bytes" where
  "skip_ows inp = dropWhile (\<lambda>c. c = 0x20 \<or> c = 0x09) inp"

definition is_base64_char :: "byte \<Rightarrow> bool" where
  "is_base64_char c \<longleftrightarrow> is_alpha c \<or> is_digit c \<or> c = 0x2b \<or> c = 0x2f \<or> c = 0x3d"

definition wtq_sf_string_valid :: "bytes \<Rightarrow> bool" where
  "wtq_sf_string_valid s \<longleftrightarrow> (\<forall>c \<in> set s. \<not> (c < 0x20 \<or> c > 0x7e))"

section \<open>Parsing\<close>

text \<open>
  The loop of \<^verbatim>\<open>parse_string\<close> after the opening quote; \<open>acc\<close> holds the unescaped
  bytes of this member and \<open>out_off\<close> the buffer position where it started.
\<close>

fun parse_string_loop :: "bytes \<Rightarrow> nat \<Rightarrow> nat \<Rightarrow> bytes \<Rightarrow> wtq_status + (bytes \<times> bytes)" where
  "parse_string_loop [] out_cap out_off acc = Inl MALFORMED"
| "parse_string_loop (c # rest) out_cap out_off acc =
     (if c = 0x22 then Inr (acc, rest)
      else if c = 0x5c then
        (case rest of
           [] \<Rightarrow> Inl MALFORMED
         | e # rest' \<Rightarrow>
             if e \<noteq> 0x22 \<and> e \<noteq> 0x5c then Inl MALFORMED
             else if out_off + length acc \<ge> out_cap then Inl BUFFER
             else parse_string_loop rest' out_cap out_off (acc @ [e]))
      else if c < 0x20 \<or> c > 0x7e then Inl MALFORMED
      else if out_off + length acc \<ge> out_cap then Inl BUFFER
      else parse_string_loop rest out_cap out_off (acc @ [c]))"

definition parse_string :: "bytes \<Rightarrow> nat \<Rightarrow> nat \<Rightarrow> wtq_status + (bytes \<times> bytes)" where
  "parse_string inp out_cap out_off =
     (case inp of
        [] \<Rightarrow> Inl MALFORMED
      | c # rest \<Rightarrow> if c \<noteq> 0x22 then Inl MALFORMED else parse_string_loop rest out_cap out_off [])"

fun parse_token_loop :: "bytes \<Rightarrow> nat \<Rightarrow> nat \<Rightarrow> bytes \<Rightarrow> wtq_status + (bytes \<times> bytes)" where
  "parse_token_loop [] out_cap out_off acc = Inr (acc, [])"
| "parse_token_loop (c # rest) out_cap out_off acc =
     (if is_token_char c then
        (if out_off + length acc \<ge> out_cap then Inl BUFFER
         else parse_token_loop rest out_cap out_off (acc @ [c]))
      else Inr (acc, c # rest))"

definition parse_token_lenient :: "bytes \<Rightarrow> nat \<Rightarrow> nat \<Rightarrow> wtq_status + (bytes \<times> bytes)" where
  "parse_token_lenient inp out_cap out_off =
     (case inp of
        [] \<Rightarrow> Inl MALFORMED
      | c # _ \<Rightarrow>
          if \<not> (is_alpha c \<or> c = 0x2a) then Inl MALFORMED
          else parse_token_loop inp out_cap out_off [])"

fun skip_string_loop :: "bytes \<Rightarrow> bytes option" where
  "skip_string_loop [] = None"
| "skip_string_loop (c # rest) =
     (if c = 0x5c then
        (case rest of
           [] \<Rightarrow> None
         | e # rest' \<Rightarrow> if e \<noteq> 0x22 \<and> e \<noteq> 0x5c then None else skip_string_loop rest')
      else if c = 0x22 then Some rest
      else if c < 0x20 \<or> c > 0x7e then None
      else skip_string_loop rest)"

text \<open>The number branch of \<^verbatim>\<open>skip_bare_item\<close>, after the optional minus sign.\<close>

definition skip_number :: "bytes \<Rightarrow> bytes option" where
  "skip_number inp =
     (let int_digits = length (takeWhile is_digit inp);
          rest = dropWhile is_digit inp
      in if int_digits = 0 then None
         else case rest of
                c # rest' \<Rightarrow>
                  if c = 0x2e then
                    (if int_digits > 12 then None
                     else let frac_digits = length (takeWhile is_digit rest')
                          in if frac_digits = 0 \<or> frac_digits > 3 then None
                             else Some (dropWhile is_digit rest'))
                  else if int_digits > 15 then None else Some rest
              | [] \<Rightarrow> if int_digits > 15 then None else Some rest)"

text \<open>\<open>None\<close> is \<^verbatim>\<open>WTQ_SF_MALFORMED\<close>, the only error here.\<close>

definition skip_bare_item :: "bytes \<Rightarrow> bytes option" where
  "skip_bare_item inp =
     (case inp of
        [] \<Rightarrow> None
      | c # rest \<Rightarrow>
          if c = 0x22 then skip_string_loop rest
          else if c = 0x3a then
            (case dropWhile is_base64_char rest of
               [] \<Rightarrow> None
             | d # rest' \<Rightarrow> if d \<noteq> 0x3a then None else Some rest')
          else if c = 0x3f then
            (case rest of
               [] \<Rightarrow> None
             | d # rest' \<Rightarrow> if d \<noteq> 0x30 \<and> d \<noteq> 0x31 then None else Some rest')
          else if c = 0x2d \<or> is_digit c then skip_number (if c = 0x2d then rest else inp)
          else if is_alpha c \<or> c = 0x2a then Some (dropWhile is_token_char rest)
          else None)"

definition is_key_char :: "byte \<Rightarrow> bool" where
  "is_key_char c \<longleftrightarrow> is_lcalpha c \<or> is_digit c \<or> c = 0x5f \<or> c = 0x2d \<or> c = 0x2e \<or> c = 0x2a"

lemma skip_string_loop_shorter: "skip_string_loop xs = Some ys \<Longrightarrow> length ys < length xs"
  by (induction xs rule: skip_string_loop.induct) (auto split: if_splits list.splits)

lemma dropWhile_Cons_shorter: "dropWhile P zs = w # ws \<Longrightarrow> length ws < length zs"
  using length_dropWhile_le [of P zs] by simp

lemma skip_number_shorter: "skip_number xs = Some ys \<Longrightarrow> length ys \<le> length xs"
proof -
  have "length (dropWhile Q ws) \<le> length zs" if "dropWhile P zs = w # ws" for P Q w ws and zs :: bytes
    using dropWhile_Cons_shorter [OF that] length_dropWhile_le [of Q ws] by linarith
  moreover assume "skip_number xs = Some ys"
  ultimately show ?thesis
    by (auto simp: skip_number_def Let_def length_dropWhile_le split: if_splits list.splits)
qed

lemma skip_bare_item_shorter: "skip_bare_item xs = Some ys \<Longrightarrow> length ys \<le> length xs"
proof -
  have d: "dropWhile P zs = w # ws \<Longrightarrow> length ws < length zs" for P w ws and zs :: bytes
    using length_dropWhile_le [of P zs] by simp
  have e: "length (dropWhile P zs) \<le> length zs" for P and zs :: bytes
    by (simp add: length_dropWhile_le)
  assume "skip_bare_item xs = Some ys"
  then show ?thesis
    using d e
    by (auto simp: skip_bare_item_def le_SucI less_imp_le dest!: skip_string_loop_shorter skip_number_shorter
        split: if_splits list.splits)
qed

text \<open>Parameters: \<^verbatim>\<open>*( ";" *SP key [ "=" bare-item ] )\<close>, parsed and ignored.\<close>

function skip_params :: "bytes \<Rightarrow> bytes option" where
  "skip_params inp =
     (case inp of
        [] \<Rightarrow> Some []
      | c # rest \<Rightarrow>
          if c \<noteq> 0x3b then Some inp
          else
            (case dropWhile (\<lambda>c. c = 0x20) rest of
               [] \<Rightarrow> None
             | k # rest' \<Rightarrow>
                 if \<not> (is_lcalpha k \<or> k = 0x2a) then None
                 else
                   (let r = dropWhile is_key_char rest' in
                    case r of
                      [] \<Rightarrow> skip_params r
                    | e # r' \<Rightarrow>
                        if e = 0x3d
                        then (case skip_bare_item r' of None \<Rightarrow> None | Some r'' \<Rightarrow> skip_params r'')
                        else skip_params r)))"
  by pat_completeness auto

termination
proof (relation "measure length", simp, goal_cases)
  case (1 inp c rest k rest' r)
  then show ?case
    using dropWhile_Cons_shorter [OF 1(3)] by simp
next
  case (2 inp c rest k rest' r e r' r'')
  have "length r'' \<le> length r'" using 2(8) by (rule skip_bare_item_shorter)
  moreover have "length r' < length rest'"
    using 2(5,6) dropWhile_Cons_shorter [of is_key_char rest' e r'] by simp
  moreover have "length rest' < length rest" using dropWhile_Cons_shorter [OF 2(3)] .
  ultimately show ?case using 2(1) by simp
next
  case (3 inp c rest k rest' r e r')
  then show ?case
    using dropWhile_Cons_shorter [OF 3(3)] length_dropWhile_le [of is_key_char rest'] by simp
qed

declare skip_params.simps [simp del]

lemma skip_params_Nil [simp]: "skip_params [] = Some []"
  by (simp add: skip_params.simps)

lemma skip_params_shorter: "skip_params xs = Some ys \<Longrightarrow> length ys \<le> length xs"
proof (induction xs arbitrary: ys rule: skip_params.induct)
  case (1 inp)
  note prem = 1(4)
  show ?case
  proof (cases "inp = [] \<or> hd inp \<noteq> 0x3b")
    case True
    with prem show ?thesis by (subst (asm) skip_params.simps) (auto split: list.splits)
  next
    case False
    then obtain rest where inp: "inp = 0x3b # rest" by (cases inp) auto
    obtain k rest' where k: "dropWhile (\<lambda>c. c = 0x20) rest = k # rest'" "is_lcalpha k \<or> k = 0x2a"
      using prem inp by (subst (asm) skip_params.simps) (auto split: list.splits if_splits)
    have shorter: "length rest' < length rest" using dropWhile_Cons_shorter [OF k(1)] .
    let ?r = "dropWhile is_key_char rest'"
    have r: "length ?r \<le> length rest'" by (rule length_dropWhile_le)
    have step: "skip_params inp = (case ?r of [] \<Rightarrow> skip_params ?r
       | e # r' \<Rightarrow> if e = 0x3d then (case skip_bare_item r' of None \<Rightarrow> None | Some r'' \<Rightarrow> skip_params r'')
                   else skip_params ?r)"
      using inp k by (subst skip_params.simps) (auto simp: Let_def split: list.splits)
    show ?thesis
    proof (cases ?r)
      case Nil
      then have "ys = []" using prem step unfolding Nil by simp
      then show ?thesis by simp
    next
      case (Cons e r')
      show ?thesis
      proof (cases "e = 0x3d")
        case True
        then obtain r'' where r'': "skip_bare_item r' = Some r''" "skip_params r'' = Some ys"
          using prem step Cons by (auto split: option.splits)
        have "length ys \<le> length r''"
          using 1(2) [OF inp _ k(1)] k(2) Cons True r'' by simp
        then show ?thesis
          using skip_bare_item_shorter [OF r''(1)] Cons r shorter inp by simp
      next
        case False
        have "length ys \<le> length ?r"
          using 1(3) [OF inp _ k(1) _ refl Cons False] k(2) prem step Cons False by simp
        then show ?thesis using r shorter inp by simp
      qed
    qed
  qed
qed

definition parse_member ::
  "bytes \<Rightarrow> bool \<Rightarrow> nat \<Rightarrow> nat \<Rightarrow> wtq_status + (bytes \<times> bytes)" where
  "parse_member inp lenient_tokens out_cap out_off =
     (if inp \<noteq> [] \<and> hd inp = 0x28 then Inl MALFORMED
      else
        let st = (if inp \<noteq> [] \<and> hd inp = 0x22 then parse_string inp out_cap out_off
                  else if lenient_tokens then parse_token_lenient inp out_cap out_off
                  else Inl MALFORMED)
        in case st of
             Inl e \<Rightarrow> Inl e
           | Inr (v, rest) \<Rightarrow>
               (case skip_params rest of None \<Rightarrow> Inl MALFORMED | Some rest \<Rightarrow> Inr (v, rest)))"

definition wtq_sf_string_parse_item :: "bytes \<Rightarrow> bool \<Rightarrow> nat \<Rightarrow> wtq_status + bytes" where
  "wtq_sf_string_parse_item inp lenient_tokens out_cap =
     (case parse_member (skip_sp inp) lenient_tokens out_cap 0 of
        Inl e \<Rightarrow> Inl e
      | Inr (v, rest) \<Rightarrow> if skip_sp rest \<noteq> [] then Inl MALFORMED else Inr v)"

lemma parse_string_loop_shorter:
  "parse_string_loop xs cap off acc = Inr (v, ys) \<Longrightarrow> length ys < length xs"
  by (induction xs cap off acc rule: parse_string_loop.induct)
    (auto split: if_splits list.splits)

lemma parse_token_loop_rest:
  "parse_token_loop xs cap off acc = Inr (v, ys) \<Longrightarrow>
   v = acc @ takeWhile is_token_char xs \<and> ys = dropWhile is_token_char xs"
  by (induction xs cap off acc rule: parse_token_loop.induct) (auto split: if_splits)

lemma parse_member_OK:
  assumes "parse_member xs lenient cap off = Inr (v, ys)"
  shows "\<exists>zs. skip_params zs = Some ys
    \<and> (parse_string xs cap off = Inr (v, zs) \<or> parse_token_lenient xs cap off = Inr (v, zs))"
  using assms unfolding parse_member_def Let_def
  by (fastforce split: if_split_asm sum.split_asm option.split_asm)

lemma parse_member_shorter:
  assumes "parse_member xs lenient cap off = Inr (v, ys)"
  shows "length ys < length xs"
proof -
  obtain zs where zs: "parse_string xs cap off = Inr (v, zs) \<or> parse_token_lenient xs cap off = Inr (v, zs)"
    "skip_params zs = Some ys"
    using parse_member_OK [OF assms] by blast
  from zs(1) have "length zs < length xs"
  proof
    assume "parse_string xs cap off = Inr (v, zs)"
    then show ?thesis
      by (auto simp: parse_string_def less_SucI dest!: parse_string_loop_shorter split: list.splits if_splits)
  next
    assume tok: "parse_token_lenient xs cap off = Inr (v, zs)"
    then obtain c cs where xs: "xs = c # cs" "is_alpha c \<or> c = 0x2a"
      "parse_token_loop xs cap off [] = Inr (v, zs)"
      by (auto simp: parse_token_lenient_def split: list.splits if_splits)
    then have "is_token_char c" by (auto simp: is_token_char_def is_tchar_def)
    moreover have "zs = dropWhile is_token_char xs" using parse_token_loop_rest [OF xs(3)] by simp
    ultimately show ?thesis
      using xs(1) length_dropWhile_le [of is_token_char cs] by (simp add: less_Suc_eq_le)
  qed
  with skip_params_shorter [OF zs(2)] show ?thesis by linarith
qed

text \<open>
  The member loop. \<open>members\<close> are the members so far, in wire order; the buffer
  position is the sum of their lengths.
\<close>

function parse_list_loop ::
  "bytes \<Rightarrow> bool \<Rightarrow> nat \<Rightarrow> nat \<Rightarrow> bytes list \<Rightarrow> wtq_status + bytes list" where
  "parse_list_loop inp lenient_tokens out_cap max_members members =
     (if inp = [] then Inr members
      else
        (case parse_member inp lenient_tokens out_cap (sum_list (map length members)) of
           Inl e \<Rightarrow> Inl e
         | Inr (v, rest) \<Rightarrow>
             if length members \<ge> max_members then Inl BUFFER
             else
               (case skip_ows rest of
                  [] \<Rightarrow> Inr (members @ [v])
                | c # rest' \<Rightarrow>
                    if c \<noteq> 0x2c then Inl MALFORMED
                    else if skip_ows rest' = [] then Inl MALFORMED
                    else parse_list_loop (skip_ows rest') lenient_tokens out_cap max_members
                           (members @ [v]))))"
  by auto

termination
proof (relation "measure (\<lambda>(inp, _). length inp)", simp, goal_cases)
  case (1 inp lenient cap mx members p v rest c rest')
  have "length rest < length inp" using 1(2,3) by (auto dest: parse_member_shorter)
  moreover have "length rest' < length rest"
    by (rule dropWhile_Cons_shorter [OF 1(5) [unfolded skip_ows_def]])
  ultimately show ?case
    using length_dropWhile_le [of _ rest'] by (fastforce simp: skip_ows_def intro: le_less_trans)
qed

declare parse_list_loop.simps [simp del]

definition wtq_sf_string_parse_list ::
  "bytes \<Rightarrow> bool \<Rightarrow> nat \<Rightarrow> nat \<Rightarrow> wtq_status + bytes list" where
  "wtq_sf_string_parse_list inp lenient_tokens out_cap max_members =
     parse_list_loop (skip_sp inp) lenient_tokens out_cap max_members []"

section \<open>Encoding and selection\<close>

definition needs_escape :: "byte \<Rightarrow> bool" where
  "needs_escape c \<longleftrightarrow> c = 0x22 \<or> c = 0x5c"

definition encoded_item_len :: "bytes \<Rightarrow> nat" where
  "encoded_item_len s = foldl (\<lambda>n c. n + (if needs_escape c then 2 else 1)) 2 s"

definition sf_escape :: "bytes \<Rightarrow> bytes" where
  "sf_escape s = concat (map (\<lambda>c. if needs_escape c then [0x5c, c] else [c]) s)"

definition wtq_sf_string_encode_item :: "bytes \<Rightarrow> nat \<Rightarrow> wtq_status + bytes" where
  "wtq_sf_string_encode_item s cap =
     (if \<not> wtq_sf_string_valid s then Inl MALFORMED
      else if cap < encoded_item_len s then Inl BUFFER
      else Inr (0x22 # sf_escape s @ [0x22]))"

text \<open>The sizing loop; \<open>None\<close> when a member is not encodable.\<close>

fun encode_list_need :: "bytes list \<Rightarrow> nat option" where
  "encode_list_need [] = Some 0"
| "encode_list_need (m # ms) =
     (if \<not> wtq_sf_string_valid m then None
      else (case encode_list_need ms of
              None \<Rightarrow> None
            | Some n \<Rightarrow> Some (encoded_item_len m + (if ms \<noteq> [] then 2 else 0) + n)))"

fun encode_list_loop :: "bytes list \<Rightarrow> nat \<Rightarrow> bytes \<Rightarrow> bytes" where
  "encode_list_loop [] cap dst = dst"
| "encode_list_loop (m # ms) cap dst =
     encode_list_loop ms cap
       (dst @ written (wtq_sf_string_encode_item m (cap - length dst))
            @ (if ms \<noteq> [] then [0x2c, 0x20] else []))"

definition wtq_sf_string_encode_list :: "bytes list \<Rightarrow> nat \<Rightarrow> wtq_status + bytes" where
  "wtq_sf_string_encode_list members cap =
     (if members = [] then Inl MALFORMED
      else (case encode_list_need members of
              None \<Rightarrow> Inl MALFORMED
            | Some need \<Rightarrow> if cap < need then Inl BUFFER else Inr (encode_list_loop members cap [])))"

fun sf_select_loop :: "nat \<Rightarrow> bytes list \<Rightarrow> bytes list \<Rightarrow> nat option" where
  "sf_select_loop i [] supported = None"
| "sf_select_loop i (m # offered) supported =
     (if list_ex (\<lambda>s. m = s) supported then Some i else sf_select_loop (i + 1) offered supported)"

definition wtq_sf_string_select :: "bytes list \<Rightarrow> bytes list \<Rightarrow> nat option" where
  "wtq_sf_string_select offered supported = sf_select_loop 0 offered supported"

section \<open>Round trips\<close>

lemma foldl_item_len: "foldl (\<lambda>n c. n + (if needs_escape c then 2 else 1)) k s = k + length (sf_escape s)"
  by (induction s arbitrary: k) (auto simp: sf_escape_def)

lemma encoded_item_len_eq: "encoded_item_len s = length (sf_escape s) + 2"
  by (simp add: encoded_item_len_def foldl_item_len)

lemma sf_escape_simps [simp]:
  "sf_escape [] = []"
  "sf_escape (c # s) = (if needs_escape c then 0x5c # c # sf_escape s else c # sf_escape s)"
  by (simp_all add: sf_escape_def)

lemma sf_valid_Cons [simp]:
  "wtq_sf_string_valid (c # s) \<longleftrightarrow> 0x20 \<le> c \<and> c \<le> 0x7e \<and> wtq_sf_string_valid s"
  by (auto simp: wtq_sf_string_valid_def)

lemma parse_escaped:
  "wtq_sf_string_valid s \<Longrightarrow> off + length acc + length s \<le> cap \<Longrightarrow>
   parse_string_loop (sf_escape s @ 0x22 # rest) cap off acc = Inr (acc @ s, rest)"
  by (induction s arbitrary: acc) (auto simp: needs_escape_def not_less)

lemma skip_params_stop: "rest = [] \<or> hd rest \<noteq> 0x3b \<Longrightarrow> skip_params rest = Some rest"
  by (subst skip_params.simps) (auto split: list.splits)

definition sf_item :: "bytes \<Rightarrow> bytes" where
  "sf_item s = 0x22 # sf_escape s @ [0x22]"

lemma parse_member_item:
  assumes "wtq_sf_string_valid s" "off + length s \<le> cap" "rest = [] \<or> hd rest \<noteq> 0x3b"
  shows "parse_member (sf_item s @ rest) lenient cap off = Inr (s, rest)"
  using assms parse_escaped [of s off "[]" cap rest]
  by (simp add: parse_member_def parse_string_def sf_item_def skip_params_stop)

lemma skip_sp_item: "skip_sp (sf_item s @ rest) = sf_item s @ rest"
  by (simp add: skip_sp_def sf_item_def)

lemma parse_item_of_item:
  assumes "wtq_sf_string_valid s" "length s \<le> out_cap"
  shows "wtq_sf_string_parse_item (sf_item s) lenient out_cap = Inr s"
  using parse_member_item [OF assms(1), of 0 out_cap "[]" lenient] skip_sp_item [of s "[]"] assms(2)
  by (simp add: wtq_sf_string_parse_item_def) (simp add: skip_sp_def)

text \<open>
  Round trip of a structured-field string: an encodable value with enough
  room serializes to the announced length, and parsing it back, strict or lenient
  and with spaces around it, gives exactly the value.
\<close>

theorem sf_item_roundtrip:
  assumes "wtq_sf_string_valid s" "encoded_item_len s \<le> cap" "length s \<le> out_cap"
  shows "\<exists>enc. wtq_sf_string_encode_item s cap = Inr enc \<and> length enc = encoded_item_len s
    \<and> wtq_sf_string_parse_item (replicate i 0x20 @ enc @ replicate j 0x20) lenient out_cap = Inr s"
proof -
  have enc: "wtq_sf_string_encode_item s cap = Inr (sf_item s)"
    using assms by (simp add: wtq_sf_string_encode_item_def sf_item_def)
  have sp: "skip_sp (replicate i 0x20 @ xs) = skip_sp xs" for i xs
    by (induction i) (simp_all add: skip_sp_def)
  have "parse_member (sf_item s @ replicate j 0x20) lenient out_cap 0 = Inr (s, replicate j 0x20)"
    using assms by (intro parse_member_item) (auto simp: hd_replicate)
  then have "wtq_sf_string_parse_item (replicate i 0x20 @ sf_item s @ replicate j 0x20) lenient out_cap = Inr s"
    using sp [of j "[]"] by (simp add: wtq_sf_string_parse_item_def sp skip_sp_item) (simp add: skip_sp_def)
  with enc show ?thesis by (auto simp: encoded_item_len_eq sf_item_def)
qed

theorem sf_item_roundtrip_witness:
  "\<exists>enc. wtq_sf_string_encode_item [0x61, 0x22, 0x5c, 0x7a] 64 = Inr enc
    \<and> length enc = encoded_item_len [0x61, 0x22, 0x5c, 0x7a]
    \<and> wtq_sf_string_parse_item (replicate 2 0x20 @ enc @ replicate 1 0x20) False 16
        = Inr [0x61, 0x22, 0x5c, 0x7a]"
  by (rule sf_item_roundtrip)
    (simp_all add: wtq_sf_string_valid_def encoded_item_len_def needs_escape_def)

lemma encode_list_need_eq:
  "list_all wtq_sf_string_valid ms \<Longrightarrow>
   encode_list_need ms = Some (sum_list (map encoded_item_len ms) + 2 * (length ms - 1))"
proof (induction ms)
  case (Cons m ms)
  then show ?case by (cases ms) auto
qed simp

text \<open>The canonical list: items joined by comma and space.\<close>

fun sf_join :: "bytes list \<Rightarrow> bytes" where
  "sf_join [] = []"
| "sf_join [m] = sf_item m"
| "sf_join (m # ms) = sf_item m @ [0x2c, 0x20] @ sf_join ms"

lemma sf_join_Cons: "ms \<noteq> [] \<Longrightarrow> sf_join (m # ms) = sf_item m @ [0x2c, 0x20] @ sf_join ms"
  by (cases ms) simp_all

lemma encode_list_loop_join:
  "list_all wtq_sf_string_valid ms \<Longrightarrow>
   length dst + sum_list (map encoded_item_len ms) + 2 * (length ms - 1) \<le> cap \<Longrightarrow>
   encode_list_loop ms cap dst = dst @ sf_join ms"
proof (induction ms arbitrary: dst)
  case (Cons m ms)
  have item: "wtq_sf_string_encode_item m (cap - length dst) = Inr (sf_item m)"
    using Cons.prems by (simp add: wtq_sf_string_encode_item_def sf_item_def)
  have len: "length (sf_item m) = encoded_item_len m" by (simp add: sf_item_def encoded_item_len_eq)
  show ?case
  proof (cases "ms = []")
    case True
    then show ?thesis using item by simp
  next
    case False
    then have "2 * length ms = 2 * (length ms - 1) + 2" by (cases ms) auto
    then show ?thesis
      using Cons.IH [of "dst @ sf_item m @ [0x2c, 0x20]"] Cons.prems item len False
      by (simp add: sf_join_Cons)
  qed
qed simp

lemma skip_ows_item: "skip_ows (0x20 # sf_join (m # ms)) = sf_join (m # ms)"
  by (cases ms) (simp_all add: skip_ows_def sf_item_def)

lemma parse_list_join:
  "list_all wtq_sf_string_valid ms \<Longrightarrow> ms \<noteq> [] \<Longrightarrow>
   sum_list (map length (acc @ ms)) \<le> out_cap \<Longrightarrow> length (acc @ ms) \<le> max_members \<Longrightarrow>
   parse_list_loop (sf_join ms) lenient out_cap max_members acc = Inr (acc @ ms)"
proof (induction ms arbitrary: acc)
  case (Cons m ms)
  have ne: "sf_join (m # ms) \<noteq> []" by (cases ms) (simp_all add: sf_item_def)
  show ?case
  proof (cases ms)
    case Nil
    have "parse_member (sf_item m) lenient out_cap (sum_list (map length acc)) = Inr (m, [])"
      using parse_member_item [of m _ out_cap "[]"] Cons.prems Nil by simp
    then show ?thesis
      using Cons.prems ne Nil by (subst parse_list_loop.simps) (simp add: skip_ows_def)
  next
    case (Cons m' ms')
    let ?rest = "0x2c # 0x20 # sf_join ms"
    have pm: "parse_member (sf_item m @ ?rest) lenient out_cap (sum_list (map length acc)) = Inr (m, ?rest)"
      using Cons.prems by (intro parse_member_item) (auto simp: Cons)
    have ows: "skip_ows ?rest = ?rest" by (simp add: skip_ows_def)
    have ows': "skip_ows (0x20 # sf_join ms) = sf_join ms"
      unfolding Cons by (rule skip_ows_item)
    have ne': "sf_join ms \<noteq> []" unfolding Cons by (cases ms') (simp_all add: sf_item_def)
    have "parse_list_loop (sf_join (m # ms)) lenient out_cap max_members acc
        = parse_list_loop (sf_join ms) lenient out_cap max_members (acc @ [m])"
      using ne pm ows ows' ne' Cons.prems Cons
      by (subst parse_list_loop.simps) (simp add: sf_join_Cons)
    then show ?thesis using Cons.IH [of "acc @ [m]"] Cons.prems Cons by simp
  qed
qed simp

lemma encode_list_join:
  assumes "list_all wtq_sf_string_valid ms" "ms \<noteq> []"
    and "sum_list (map encoded_item_len ms) + 2 * (length ms - 1) \<le> cap"
  shows "wtq_sf_string_encode_list ms cap = Inr (sf_join ms)"
  using assms encode_list_loop_join [of ms "[]" cap]
  by (simp add: wtq_sf_string_encode_list_def encode_list_need_eq)

lemma parse_list_of_join:
  assumes "list_all wtq_sf_string_valid ms" "ms \<noteq> []"
    and "sum_list (map length ms) \<le> out_cap" "length ms \<le> max_members"
  shows "wtq_sf_string_parse_list (sf_join ms) lenient out_cap max_members = Inr ms"
proof -
  have "skip_sp (sf_join ms) = sf_join ms"
    using assms(2) by (cases ms rule: sf_join.cases) (simp_all add: skip_sp_def sf_item_def)
  then show ?thesis
    using parse_list_join [OF assms(1,2), of "[]" out_cap max_members lenient] assms(3,4)
    by (simp add: wtq_sf_string_parse_list_def)
qed

lemma encode_list_need_valid: "encode_list_need ms = Some n \<Longrightarrow> list_all wtq_sf_string_valid ms"
  by (induction ms arbitrary: n) (auto split: if_splits option.splits)

lemma encode_list_Inr:
  assumes "wtq_sf_string_encode_list ms cap = Inr enc"
  shows "ms \<noteq> []" "list_all wtq_sf_string_valid ms" "enc = sf_join ms"
    "sum_list (map encoded_item_len ms) + 2 * (length ms - 1) \<le> cap"
proof -
  obtain n where n: "ms \<noteq> []" "encode_list_need ms = Some n" "n \<le> cap"
    using assms by (auto simp: wtq_sf_string_encode_list_def split: if_splits option.splits)
  show "ms \<noteq> []" by fact
  show v: "list_all wtq_sf_string_valid ms" using n(2) by (rule encode_list_need_valid)
  show le: "sum_list (map encoded_item_len ms) + 2 * (length ms - 1) \<le> cap"
    using n encode_list_need_eq [OF v] by simp
  show "enc = sf_join ms" using encode_list_join [OF v n(1) le] assms by simp
qed

text \<open>
  C40. Round trip of the subprotocol list: a nonempty list of encodable names
  serializes, and the parser gives back the same names in the same order, when the
  member array and the name buffer have room for them.
\<close>

theorem sf_list_roundtrip:
  assumes "list_all wtq_sf_string_valid ms" "ms \<noteq> []"
    and "sum_list (map encoded_item_len ms) + 2 * (length ms - 1) \<le> cap"
    and "sum_list (map length ms) \<le> out_cap" "length ms \<le> max_members"
  shows "\<exists>enc. wtq_sf_string_encode_list ms cap = Inr enc
    \<and> wtq_sf_string_parse_list enc lenient out_cap max_members = Inr ms"
  using encode_list_join [OF assms(1-3)] parse_list_of_join [OF assms(1,2,4,5)] by blast

theorem sf_list_roundtrip_witness:
  "\<exists>enc. wtq_sf_string_encode_list [[0x6d, 0x6f, 0x71], [0x68, 0x33]] 64 = Inr enc
    \<and> wtq_sf_string_parse_list enc False 16 4 = Inr [[0x6d, 0x6f, 0x71], [0x68, 0x33]]"
  by (rule sf_list_roundtrip)
    (simp_all add: wtq_sf_string_valid_def encoded_item_len_def needs_escape_def)

section \<open>What the parsers admit\<close>

lemma token_char_range: "is_token_char c \<Longrightarrow> 0x20 \<le> c \<and> c \<le> 0x7e"
  by (auto simp: is_token_char_def is_tchar_def is_alpha_def is_digit_def word_le_nat_alt)

lemma sf_valid_append [simp]:
  "wtq_sf_string_valid (xs @ ys) \<longleftrightarrow> wtq_sf_string_valid xs \<and> wtq_sf_string_valid ys"
  by (auto simp: wtq_sf_string_valid_def)

lemma sf_valid_Nil [simp]: "wtq_sf_string_valid []"
  by (simp add: wtq_sf_string_valid_def)

lemma parse_string_loop_bounds:
  "parse_string_loop inp cap off acc = Inr (v, rest) \<Longrightarrow> wtq_sf_string_valid acc \<Longrightarrow>
   off + length acc \<le> cap \<Longrightarrow> wtq_sf_string_valid v \<and> off + length v \<le> cap"
proof (induction inp cap off acc rule: parse_string_loop.induct)
  case (2 c inp cap off acc)
  consider "c = 0x22" | e inp' where "c = 0x5c" "inp = e # inp'" | "c \<noteq> 0x22" "c \<noteq> 0x5c"
    using 2(3) by (cases inp) (auto split: if_split_asm)
  then show ?case
  proof cases
    case 1
    with 2 show ?thesis by simp
  next
    case (2 e inp')
    then have e: "e = 0x22 \<or> e = 0x5c" "\<not> cap \<le> off + length acc"
      and rec: "parse_string_loop inp' cap off (acc @ [e]) = Inr (v, rest)"
      using "2.prems"(1) by (simp_all split: if_split_asm)
    have "wtq_sf_string_valid (acc @ [e])" using e(1) "2.prems"(2) by auto
    then show ?thesis
      using "2.IH"(1) [OF _ _ 2(2)] 2(1) e rec by simp
  next
    case 3
    then have c: "0x20 \<le> c" "c \<le> 0x7e" "\<not> cap \<le> off + length acc"
      and rec: "parse_string_loop inp cap off (acc @ [c]) = Inr (v, rest)"
      using "2.prems"(1) by (simp_all add: not_less split: if_split_asm)
    then show ?thesis
      using "2.IH"(2) [OF 3] "2.prems"(2) by (simp add: not_less)
  qed
qed simp

lemma parse_token_loop_bounds:
  "parse_token_loop inp cap off acc = Inr (v, rest) \<Longrightarrow> wtq_sf_string_valid acc \<Longrightarrow>
   off + length acc \<le> cap \<Longrightarrow> wtq_sf_string_valid v \<and> off + length v \<le> cap"
  by (induction inp cap off acc rule: parse_token_loop.induct)
    (auto simp: not_le dest: token_char_range split: if_splits)

lemma parse_member_bounds:
  assumes "parse_member inp lenient cap off = Inr (v, rest)" "off \<le> cap"
  shows "wtq_sf_string_valid v \<and> off + length v \<le> cap"
proof -
  obtain zs where "parse_string inp cap off = Inr (v, zs) \<or> parse_token_lenient inp cap off = Inr (v, zs)"
    using parse_member_OK [OF assms(1)] by blast
  then show ?thesis
  proof
    assume "parse_string inp cap off = Inr (v, zs)"
    then have "parse_string_loop (tl inp) cap off [] = Inr (v, zs)"
      by (simp add: parse_string_def split: list.splits if_splits)
    then show ?thesis using parse_string_loop_bounds assms(2) by fastforce
  next
    assume "parse_token_lenient inp cap off = Inr (v, zs)"
    then have "parse_token_loop inp cap off [] = Inr (v, zs)"
      by (simp add: parse_token_lenient_def split: list.splits if_splits)
    then show ?thesis using parse_token_loop_bounds assms(2) by fastforce
  qed
qed

lemma parse_list_loop_bounds:
  "parse_list_loop inp lenient cap mx acc = Inr ms \<Longrightarrow>
   list_all wtq_sf_string_valid acc \<Longrightarrow> sum_list (map length acc) \<le> cap \<Longrightarrow> length acc \<le> mx \<Longrightarrow>
   list_all wtq_sf_string_valid ms \<and> sum_list (map length ms) \<le> cap \<and> length ms \<le> mx"
proof (induction inp lenient cap mx acc rule: parse_list_loop.induct)
  case (1 inp lenient cap mx acc)
  show ?case
  proof (cases "inp = []")
    case True
    with 1 show ?thesis by (simp add: parse_list_loop.simps)
  next
    case False
    obtain v rest where v: "parse_member inp lenient cap (sum_list (map length acc)) = Inr (v, rest)"
      using 1(2) False by (subst (asm) parse_list_loop.simps) (auto split: sum.splits)
    have mx: "\<not> length acc \<ge> mx"
      using 1(2) False v by (subst (asm) parse_list_loop.simps) (auto split: if_splits)
    note b = parse_member_bounds [OF v 1(4)]
    show ?thesis
    proof (cases "skip_ows rest")
      case Nil
      then have "ms = acc @ [v]"
        using 1(2) False v mx by (subst (asm) parse_list_loop.simps) simp
      then show ?thesis using b 1(3) mx by simp
    next
      case (Cons c rest')
      have c: "c = 0x2c" "skip_ows rest' \<noteq> []"
        and rec: "parse_list_loop (skip_ows rest') lenient cap mx (acc @ [v]) = Inr ms"
        using 1(2) False v mx Cons by (subst (asm) parse_list_loop.simps; auto split: if_splits)+
      show ?thesis
        using 1(1) [OF False v refl mx Cons _ c(2) rec] b 1(3) mx c(1) by simp
    qed
  qed
qed

text \<open>
  The list parser never overruns its outputs and admits only encodable names:
  a successful parse has at most \<open>max_members\<close> members, their bytes fit the name
  buffer together, and each is a sequence of printable ASCII characters, in strict
  and in lenient mode.
\<close>

theorem sf_parse_list_bounds:
  assumes "wtq_sf_string_parse_list inp lenient out_cap max_members = Inr ms"
  shows "list_all wtq_sf_string_valid ms \<and> sum_list (map length ms) \<le> out_cap
    \<and> length ms \<le> max_members"
  using assms parse_list_loop_bounds [of "skip_sp inp" lenient out_cap max_members "[]" ms]
  by (simp add: wtq_sf_string_parse_list_def)

theorem sf_parse_list_bounds_witness:
  "list_all wtq_sf_string_valid [[0x61], [0x62, 0x63]]
   \<and> sum_list (map length [[0x61 :: byte], [0x62, 0x63]]) \<le> 8 \<and> length [[0x61 :: byte], [0x62, 0x63]] \<le> 4"
proof -
  have "wtq_sf_string_parse_list (sf_join [[0x61], [0x62, 0x63]]) False 8 4 = Inr [[0x61], [0x62, 0x63]]"
    using parse_list_join [of "[[0x61], [0x62, 0x63]]" "[]" 8 4 False]
    by (simp add: wtq_sf_string_parse_list_def skip_sp_def sf_item_def wtq_sf_string_valid_def)
  then show ?thesis by (rule sf_parse_list_bounds)
qed

text \<open>
  Subprotocol selection picks the client's most preferred name: the index of
  the first offered name that the server supports, and nothing exactly when no
  offered name is supported.
\<close>

theorem sf_select_first:
  "case wtq_sf_string_select offered supported of
     Some i \<Rightarrow> i < length offered \<and> offered ! i \<in> set supported
       \<and> (\<forall>j < i. offered ! j \<notin> set supported)
   | None \<Rightarrow> set offered \<inter> set supported = {}"
proof -
  have "case sf_select_loop k offered supported of
     Some i \<Rightarrow> k \<le> i \<and> i - k < length offered \<and> offered ! (i - k) \<in> set supported
       \<and> (\<forall>j < i - k. offered ! j \<notin> set supported)
   | None \<Rightarrow> set offered \<inter> set supported = {}" for k
  proof (induction offered arbitrary: k)
    case (Cons m offered)
    show ?case
    proof (cases "m \<in> set supported")
      case False
      then have no: "\<not> list_ex ((=) m) supported" by (auto simp: list_ex_iff)
      show ?thesis
      proof (cases "sf_select_loop (k + 1) offered supported")
        case None
        then show ?thesis using Cons [of "k + 1"] False no by simp
      next
        case (Some i)
        then have "k < i" "i - k = Suc (i - (k + 1))" using Cons [of "k + 1"] by auto
        then show ?thesis
          using Cons [of "k + 1"] Some False no by (auto simp: less_Suc_eq_0_disj)
      qed
    qed (auto simp: list_ex_iff)
  qed simp
  from this [of 0] show ?thesis
    by (cases "sf_select_loop 0 offered supported") (auto simp: wtq_sf_string_select_def)
qed

theorem sf_select_first_witness:
  "wtq_sf_string_select [[0x61], [0x62], [0x63]] [[0x63], [0x62]] = Some 1
   \<and> [[0x61], [0x62], [0x63]] ! 0 \<notin> set [[0x63], [0x62 :: byte]]"
proof -
  have "wtq_sf_string_select [[0x61], [0x62], [0x63]] [[0x63], [0x62]] = Some 1"
    by (simp add: wtq_sf_string_select_def)
  then show ?thesis using sf_select_first [of "[[0x61], [0x62], [0x63]]" "[[0x63], [0x62]]"] by simp
qed

end
