(* ===== verification/Connect.thy ===== *)
theory Connect
  imports Qpack Sf_String
begin

text \<open>
  The extended CONNECT request and response codec: \<^verbatim>\<open>src/proto/connect.c\<close>. A
  section is decoded by QPACK, every field passes the universal rules, and then
  the request or response rules apply. The singleton fields that the C code keeps
  as pointers are options holding the value. A NULL out-of-band argument (origin,
  protocol token, selected protocol) is \<open>None\<close>.
\<close>

definition WTQ_CONNECT_PROTOCOL_TOKEN :: bytes where
  "WTQ_CONNECT_PROTOCOL_TOKEN = str ''webtransport-h3''"
definition WTQ_CONNECT_PROTOCOL_TOKEN_LEGACY :: bytes where
  "WTQ_CONNECT_PROTOCOL_TOKEN_LEGACY = str ''webtransport''"
definition WTQ_CONNECT_MAX_FIELDS :: nat where "WTQ_CONNECT_MAX_FIELDS = 32"
definition CONNECT_SF_STAGING :: nat where "CONNECT_SF_STAGING = 1024"

datatype wtq_connect_status =
    CONNECT_BUFFER
  | CONNECT_MALFORMED
  | CONNECT_NO_PROTOCOL
  | CONNECT_NOT_WEBTRANSPORT
  | CONNECT_QPACK_DECOMPRESSION_FAILED

record wtq_connect_opts =
  lenient_sf_tokens :: bool
  accept_legacy_protocol :: bool

record wtq_connect_req =
  cr_authority :: bytes
  cr_path :: bytes
  cr_origin :: "bytes option"     \<comment> \<open>\<^verbatim>\<open>has_origin\<close> and the value\<close>
  cr_legacy_protocol :: bool
  cr_d02_marker :: "bytes option" \<comment> \<open>\<^verbatim>\<open>has_d02_marker\<close> and the value\<close>

record wtq_connect_resp =
  cs_status :: nat
  cs_protocol :: "bytes option"
  cs_d02_marker :: "bytes option"

definition wtq_connect_status_is_success :: "nat \<Rightarrow> bool" where
  "wtq_connect_status_is_success status \<longleftrightarrow> status \<ge> 200 \<and> status \<le> 299"

section \<open>Field rules\<close>

definition name_is :: "wtq_qpack_field \<Rightarrow> string \<Rightarrow> bool" where
  "name_is f lit \<longleftrightarrow> qf_name f = str lit"

text \<open>\<^verbatim>\<open>is_token_char\<close> and \<^verbatim>\<open>is_tchar\<close> of this file: the token alphabet, with and without uppercase.\<close>

definition connect_token_char :: "byte \<Rightarrow> bool" where
  "connect_token_char c \<longleftrightarrow>
     (c \<ge> 0x61 \<and> c \<le> 0x7a) \<or> (c \<ge> 0x41 \<and> c \<le> 0x5a) \<or> (c \<ge> 0x30 \<and> c \<le> 0x39)
     \<or> c \<in> {0x21, 0x23, 0x24, 0x25, 0x26, 0x27, 0x2a, 0x2b, 0x2d, 0x2e, 0x5e, 0x5f, 0x60, 0x7c, 0x7e}"

definition connect_tchar :: "byte \<Rightarrow> bool" where
  "connect_tchar c \<longleftrightarrow> \<not> (c \<ge> 0x41 \<and> c \<le> 0x5a) \<and> connect_token_char c"

definition value_is_token :: "bytes \<Rightarrow> bool" where
  "value_is_token v \<longleftrightarrow> v \<noteq> [] \<and> list_all connect_token_char v"

definition scheme_is_valid :: "bytes \<Rightarrow> bool" where
  "scheme_is_valid v \<longleftrightarrow>
     (case v of
        [] \<Rightarrow> False
      | c # cs \<Rightarrow>
          is_alpha c
          \<and> list_all (\<lambda>c. is_alpha c \<or> is_digit c \<or> c = 0x2b \<or> c = 0x2d \<or> c = 0x2e) cs)"

definition ascii_lower :: "byte \<Rightarrow> byte" where
  "ascii_lower c = (if c \<ge> 0x41 \<and> c \<le> 0x5a then c + 0x20 else c)"

definition span_ieq :: "bytes \<Rightarrow> bytes \<Rightarrow> bool" where
  "span_ieq a b \<longleftrightarrow> length a = length b \<and> list_all2 (\<lambda>x y. ascii_lower x = ascii_lower y) a b"

definition is_ows :: "byte \<Rightarrow> bool" where
  "is_ows c \<longleftrightarrow> c = 0x20 \<or> c = 0x09"

definition trim_ows :: "bytes \<Rightarrow> bytes" where
  "trim_ows v = rev (dropWhile is_ows (rev (dropWhile is_ows v)))"

text \<open>The comma-separated walk over a TE value; \<open>seen\<close> says that a member was found.\<close>

function te_loop :: "bytes \<Rightarrow> bool \<Rightarrow> bool" where
  "te_loop v seen =
     (if v = [] then seen
      else
        let member = trim_ows (takeWhile (\<lambda>c. c \<noteq> 0x2c) v);
            rest = drop 1 (dropWhile (\<lambda>c. c \<noteq> 0x2c) v)
        in if member \<noteq> [] then
             (if \<not> span_ieq member (str ''trailers'') then False else te_loop rest True)
           else te_loop rest seen)"
  by auto

termination
proof (relation "measure (\<lambda>(v, seen). length v)", simp)
  have "length (drop 1 (dropWhile P v)) < length v" if "v \<noteq> []" for P and v :: bytes
    using that length_dropWhile_le [of P v] by (cases v) (auto simp: less_Suc_eq_le)
  then show "\<And>v seen x xa. v \<noteq> [] \<Longrightarrow> x = trim_ows (takeWhile (\<lambda>c. c \<noteq> 0x2c) v) \<Longrightarrow>
      xa = drop 1 (dropWhile (\<lambda>c. c \<noteq> 0x2c) v) \<Longrightarrow> x \<noteq> [] \<Longrightarrow>
      \<not> \<not> span_ieq x (str ''trailers'') \<Longrightarrow> ((xa, True), v, seen) \<in> measure (\<lambda>(v, seen). length v)"
    and "\<And>v seen x xa. v \<noteq> [] \<Longrightarrow> x = trim_ows (takeWhile (\<lambda>c. c \<noteq> 0x2c) v) \<Longrightarrow>
      xa = drop 1 (dropWhile (\<lambda>c. c \<noteq> 0x2c) v) \<Longrightarrow> \<not> x \<noteq> [] \<Longrightarrow>
      ((xa, seen), v, seen) \<in> measure (\<lambda>(v, seen). length v)"
    by simp_all
qed

declare te_loop.simps [simp del]

definition te_is_trailers :: "wtq_qpack_field \<Rightarrow> bool" where
  "te_is_trailers f = te_loop (qf_value f) False"

fun value_valid_loop :: "bool \<Rightarrow> bytes \<Rightarrow> bool" where
  "value_valid_loop first [] = True"
| "value_valid_loop first (c # cs) =
     (if c = 0x20 \<or> c = 0x09 then
        (if first \<or> cs = [] then False else value_valid_loop False cs)
      else if c < 0x21 \<or> c = 0x7f then False
      else value_valid_loop False cs)"

definition value_is_valid :: "bytes \<Rightarrow> bool" where
  "value_is_valid v = value_valid_loop True v"

definition name_is_valid :: "wtq_qpack_field \<Rightarrow> bool" where
  "name_is_valid f \<longleftrightarrow>
     (case qf_name f of
        [] \<Rightarrow> False
      | c # cs \<Rightarrow>
          if c = 0x3a then cs \<noteq> [] \<and> list_all connect_tchar cs
          else list_all connect_tchar (c # cs))"

definition is_pseudo :: "wtq_qpack_field \<Rightarrow> bool" where
  "is_pseudo f \<longleftrightarrow> hd (qf_name f) = 0x3a"

definition connection_specific :: "wtq_qpack_field \<Rightarrow> bool" where
  "connection_specific f \<longleftrightarrow>
     name_is f ''connection'' \<or> name_is f ''keep-alive'' \<or> name_is f ''proxy-connection''
     \<or> name_is f ''transfer-encoding'' \<or> name_is f ''upgrade''"

text \<open>The universal field rules over the walk; \<open>False\<close> is \<open>CONNECT_MALFORMED\<close>.\<close>

fun walk_check :: "wtq_qpack_field list \<Rightarrow> bool \<Rightarrow> bool \<Rightarrow> bool" where
  "walk_check [] seen_regular request_headers = True"
| "walk_check (f # fs) seen_regular request_headers =
     (if \<not> name_is_valid f then False
      else if \<not> value_is_valid (qf_value f) then False
      else if is_pseudo f then
        (if seen_regular then False else walk_check fs seen_regular request_headers)
      else if connection_specific f then False
      else if name_is f ''te'' \<and> (\<not> request_headers \<or> \<not> te_is_trailers f) then False
      else walk_check fs True request_headers)"

text \<open>The walk: the fields and the scratch offset where SF output may begin.\<close>

definition walk_init ::
  "bytes \<Rightarrow> nat \<Rightarrow> bool \<Rightarrow> wtq_connect_status + (wtq_qpack_field list \<times> nat)" where
  "walk_init field_section scratch_cap request_headers =
     (case wtq_qpack_decode_section field_section WTQ_CONNECT_MAX_FIELDS scratch_cap of
        Inl BUFFER \<Rightarrow> Inl CONNECT_BUFFER
      | Inl _ \<Rightarrow> Inl CONNECT_QPACK_DECOMPRESSION_FAILED
      | Inr (fs, sf_off) \<Rightarrow>
          if \<not> walk_check fs False request_headers then Inl CONNECT_MALFORMED
          else Inr (fs, sf_off))"

section \<open>Requests\<close>

definition parse_protocol_list ::
  "bytes \<Rightarrow> wtq_connect_opts \<Rightarrow> nat \<Rightarrow> nat \<Rightarrow> nat \<Rightarrow> wtq_connect_status + bytes list" where
  "parse_protocol_list v opts max_protocols sf_off scratch_cap =
     (case wtq_sf_string_parse_list v (lenient_sf_tokens opts) (scratch_cap - sf_off) max_protocols of
        Inl BUFFER \<Rightarrow> Inl CONNECT_BUFFER
      | Inl _ \<Rightarrow> Inr []
      | Inr ps \<Rightarrow> if list_ex (\<lambda>p. p = []) ps then Inr [] else Inr ps)"

record req_slots =
  rs_method :: "bytes option"
  rs_scheme :: "bytes option"
  rs_authority :: "bytes option"
  rs_path :: "bytes option"
  rs_protocol :: "bytes option"
  rs_origin :: "bytes option"
  rs_d02_marker :: "bytes option"
  rs_wtap :: "bytes option"
  rs_host :: "bytes option"

definition req_slots_empty :: req_slots where
  "req_slots_empty =
     \<lparr>rs_method = None, rs_scheme = None, rs_authority = None, rs_path = None, rs_protocol = None,
      rs_origin = None, rs_d02_marker = None, rs_wtap = None, rs_host = None\<rparr>"

text \<open>Fill a singleton slot once; a second occurrence is malformed.\<close>

definition fill :: "bytes option \<Rightarrow> bytes \<Rightarrow> (bytes option \<Rightarrow> 's) \<Rightarrow> 's option" where
  "fill slot v store = (if slot \<noteq> None then None else Some (store (Some v)))"

definition req_field :: "wtq_qpack_field \<Rightarrow> req_slots \<Rightarrow> req_slots option" where
  "req_field f s =
     (if is_pseudo f then
        (if name_is f '':method'' then fill (rs_method s) (qf_value f) (\<lambda>v. s\<lparr>rs_method := v\<rparr>)
         else if name_is f '':scheme'' then fill (rs_scheme s) (qf_value f) (\<lambda>v. s\<lparr>rs_scheme := v\<rparr>)
         else if name_is f '':authority'' then fill (rs_authority s) (qf_value f) (\<lambda>v. s\<lparr>rs_authority := v\<rparr>)
         else if name_is f '':path'' then fill (rs_path s) (qf_value f) (\<lambda>v. s\<lparr>rs_path := v\<rparr>)
         else if name_is f '':protocol'' then fill (rs_protocol s) (qf_value f) (\<lambda>v. s\<lparr>rs_protocol := v\<rparr>)
         else None)
      else if name_is f ''origin'' then fill (rs_origin s) (qf_value f) (\<lambda>v. s\<lparr>rs_origin := v\<rparr>)
      else if name_is f ''sec-webtransport-http3-draft02''
      then fill (rs_d02_marker s) (qf_value f) (\<lambda>v. s\<lparr>rs_d02_marker := v\<rparr>)
      else if name_is f ''wt-available-protocols'' then fill (rs_wtap s) (qf_value f) (\<lambda>v. s\<lparr>rs_wtap := v\<rparr>)
      else if name_is f ''host'' then fill (rs_host s) (qf_value f) (\<lambda>v. s\<lparr>rs_host := v\<rparr>)
      else Some s)"

fun req_scan :: "wtq_qpack_field list \<Rightarrow> req_slots \<Rightarrow> req_slots option" where
  "req_scan [] s = Some s"
| "req_scan (f # fs) s = (case req_field f s of None \<Rightarrow> None | Some s \<Rightarrow> req_scan fs s)"

definition opt_ok :: "(bytes \<Rightarrow> bool) \<Rightarrow> bytes option \<Rightarrow> bool" where
  "opt_ok P v = (case v of None \<Rightarrow> True | Some b \<Rightarrow> P b)"

text \<open>
  The classification after the scan: \<open>Inl\<close> the rejection, or \<open>Inr\<close> whether the
  legacy token matched.
\<close>

definition req_classify :: "wtq_connect_opts \<Rightarrow> req_slots \<Rightarrow> wtq_connect_status + bool" where
  "req_classify opts s =
     (case rs_method s of
        None \<Rightarrow> Inl CONNECT_MALFORMED
      | Some method \<Rightarrow>
          if \<not> value_is_token method then Inl CONNECT_MALFORMED
          else if \<not> opt_ok value_is_token (rs_protocol s) then Inl CONNECT_MALFORMED
          else if \<not> opt_ok scheme_is_valid (rs_scheme s) then Inl CONNECT_MALFORMED
          else if \<not> opt_ok (\<lambda>h. h \<noteq> [] \<and> opt_ok (span_ieq h) (rs_authority s)) (rs_host s)
          then Inl CONNECT_MALFORMED
          else if method \<noteq> str ''CONNECT'' then
            (case (rs_scheme s, rs_path s, rs_protocol s) of
               (Some scheme, Some path, None) \<Rightarrow>
                 if path = [] then Inl CONNECT_MALFORMED
                 else if span_ieq scheme (str ''https'') \<or> span_ieq scheme (str ''http'') then
                   (if rs_authority s = Some [] then Inl CONNECT_MALFORMED
                    else if rs_authority s = None \<and> rs_host s = None then Inl CONNECT_MALFORMED
                    else Inl CONNECT_NOT_WEBTRANSPORT)
                 else Inl CONNECT_NOT_WEBTRANSPORT
             | _ \<Rightarrow> Inl CONNECT_MALFORMED)
          else
            (case rs_protocol s of
               None \<Rightarrow>
                 (case rs_authority s of
                    None \<Rightarrow> Inl CONNECT_MALFORMED
                  | Some authority \<Rightarrow>
                      if rs_scheme s \<noteq> None \<or> rs_path s \<noteq> None then Inl CONNECT_MALFORMED
                      else if authority = [] then Inl CONNECT_MALFORMED
                      else Inl CONNECT_NOT_WEBTRANSPORT)
             | Some protocol \<Rightarrow>
                 (case (rs_scheme s, rs_authority s, rs_path s) of
                    (Some scheme, Some authority, Some path) \<Rightarrow>
                      let current = (protocol = WTQ_CONNECT_PROTOCOL_TOKEN);
                          legacy = (\<not> current \<and> accept_legacy_protocol opts
                                    \<and> protocol = WTQ_CONNECT_PROTOCOL_TOKEN_LEGACY)
                      in if \<not> current \<and> \<not> legacy then Inl CONNECT_NOT_WEBTRANSPORT
                         else if scheme \<noteq> str ''https'' then Inl CONNECT_MALFORMED
                         else if authority = [] \<or> path = [] then Inl CONNECT_MALFORMED
                         else Inr legacy
                  | _ \<Rightarrow> Inl CONNECT_MALFORMED)))"

definition opt_bytes :: "bytes option \<Rightarrow> bytes" where
  "opt_bytes v = (case v of None \<Rightarrow> [] | Some b \<Rightarrow> b)"

definition wtq_connect_decode_request ::
  "bytes \<Rightarrow> wtq_connect_opts \<Rightarrow> nat \<Rightarrow> nat \<Rightarrow> wtq_connect_status + (wtq_connect_req \<times> bytes list)" where
  "wtq_connect_decode_request field_section opts max_protocols scratch_cap =
     (case walk_init field_section scratch_cap True of
        Inl st \<Rightarrow> Inl st
      | Inr (fs, sf_off) \<Rightarrow>
          (case req_scan fs req_slots_empty of
             None \<Rightarrow> Inl CONNECT_MALFORMED
           | Some s \<Rightarrow>
               (case req_classify opts s of
                  Inl st \<Rightarrow> Inl st
                | Inr legacy \<Rightarrow>
                    let protocols =
                      (case rs_wtap s of
                         None \<Rightarrow> Inr []
                       | Some v \<Rightarrow> parse_protocol_list v opts max_protocols sf_off scratch_cap)
                    in (case protocols of
                          Inl st \<Rightarrow> Inl st
                        | Inr ps \<Rightarrow>
                            Inr (\<lparr>cr_authority = opt_bytes (rs_authority s), cr_path = opt_bytes (rs_path s),
                                  cr_origin = rs_origin s, cr_legacy_protocol = legacy,
                                  cr_d02_marker = rs_d02_marker s\<rparr>, ps)))))"

section \<open>Trailers and responses\<close>

definition wtq_connect_validate_trailers :: "bytes \<Rightarrow> nat \<Rightarrow> wtq_connect_status option" where
  "wtq_connect_validate_trailers field_section scratch_cap =
     (case walk_init field_section scratch_cap False of
        Inl st \<Rightarrow> Some st
      | Inr (fs, _) \<Rightarrow> if list_ex is_pseudo fs then Some CONNECT_MALFORMED else None)"

record resp_slots =
  ps_status :: "bytes option"
  ps_wtp :: "bytes option"
  ps_rmark :: "bytes option"

definition resp_slots_empty :: resp_slots where
  "resp_slots_empty = \<lparr>ps_status = None, ps_wtp = None, ps_rmark = None\<rparr>"

definition resp_field :: "wtq_qpack_field \<Rightarrow> resp_slots \<Rightarrow> resp_slots option" where
  "resp_field f s =
     (if is_pseudo f then
        (if \<not> name_is f '':status'' then None
         else fill (ps_status s) (qf_value f) (\<lambda>v. s\<lparr>ps_status := v\<rparr>))
      else if name_is f ''sec-webtransport-http3-draft''
      then fill (ps_rmark s) (qf_value f) (\<lambda>v. s\<lparr>ps_rmark := v\<rparr>)
      else if name_is f ''wt-protocol'' then fill (ps_wtp s) (qf_value f) (\<lambda>v. s\<lparr>ps_wtp := v\<rparr>)
      else Some s)"

fun resp_scan :: "wtq_qpack_field list \<Rightarrow> resp_slots \<Rightarrow> resp_slots option" where
  "resp_scan [] s = Some s"
| "resp_scan (f # fs) s = (case resp_field f s of None \<Rightarrow> None | Some s \<Rightarrow> resp_scan fs s)"

text \<open>The three-digit status; \<open>None\<close> is malformed.\<close>

definition resp_status :: "bytes option \<Rightarrow> nat option" where
  "resp_status v =
     (case v of
        Some [a, b, c] \<Rightarrow>
          if \<not> (is_digit a \<and> is_digit b \<and> is_digit c) then None
          else let code = (unat (a - 0x30) * 10 + unat (b - 0x30)) * 10 + unat (c - 0x30)
               in if code < 100 then None else Some code
      | _ \<Rightarrow> None)"

definition wtq_connect_decode_response ::
  "bytes \<Rightarrow> wtq_connect_opts \<Rightarrow> nat \<Rightarrow> wtq_connect_status + wtq_connect_resp" where
  "wtq_connect_decode_response field_section opts scratch_cap =
     (case walk_init field_section scratch_cap False of
        Inl st \<Rightarrow> Inl st
      | Inr (fs, sf_off) \<Rightarrow>
          (case resp_scan fs resp_slots_empty of
             None \<Rightarrow> Inl CONNECT_MALFORMED
           | Some s \<Rightarrow>
               (case resp_status (ps_status s) of
                  None \<Rightarrow> Inl CONNECT_MALFORMED
                | Some code \<Rightarrow>
                    let r = \<lparr>cs_status = code, cs_protocol = None, cs_d02_marker = ps_rmark s\<rparr>
                    in (case ps_wtp s of
                          None \<Rightarrow> Inr r
                        | Some v \<Rightarrow>
                            (case wtq_sf_string_parse_item v (lenient_sf_tokens opts) (scratch_cap - sf_off) of
                               Inl BUFFER \<Rightarrow> Inl CONNECT_BUFFER
                             | Inl _ \<Rightarrow> Inr r
                             | Inr p \<Rightarrow> Inr (if length p > 0 then r\<lparr>cs_protocol := Some p\<rparr> else r))))))"

section \<open>Encoding\<close>

definition fld :: "string \<Rightarrow> bytes \<Rightarrow> wtq_qpack_field" where
  "fld name v = \<lparr>qf_name = str name, qf_value = v, qf_never_index = False\<rparr>"

text \<open>The fields of a request, in the order they are written; \<open>sf\<close> is the staged protocol list.\<close>

definition request_fields ::
  "bytes \<Rightarrow> bytes \<Rightarrow> bytes \<Rightarrow> bytes option \<Rightarrow> bool \<Rightarrow> bytes option \<Rightarrow> wtq_qpack_field list" where
  "request_fields authority path token origin emit_d02_marker sf =
     [fld '':method'' (str ''CONNECT''), fld '':scheme'' (str ''https''), fld '':authority'' authority,
      fld '':path'' path, fld '':protocol'' token]
     @ (case origin of None \<Rightarrow> [] | Some v \<Rightarrow> if length v > 0 then [fld ''origin'' v] else [])
     @ (if emit_d02_marker then [fld ''sec-webtransport-http3-draft02'' (str ''1'')] else [])
     @ (case sf of None \<Rightarrow> [] | Some v \<Rightarrow> [fld ''wt-available-protocols'' v])"

text \<open>Staging of the protocol list: absent without protocols.\<close>

definition stage_protocols :: "bytes list \<Rightarrow> wtq_connect_status + bytes option" where
  "stage_protocols protocols =
     (if protocols = [] then Inr None
      else if list_ex (\<lambda>p. p = [] \<or> \<not> wtq_sf_string_valid p) protocols then Inl CONNECT_MALFORMED
      else (case wtq_sf_string_encode_list protocols CONNECT_SF_STAGING of
              Inl BUFFER \<Rightarrow> Inl CONNECT_BUFFER
            | Inl _ \<Rightarrow> Inl CONNECT_MALFORMED
            | Inr sf \<Rightarrow> Inr (Some sf)))"

definition encode_fields :: "wtq_qpack_field list \<Rightarrow> nat \<Rightarrow> wtq_connect_status + bytes" where
  "encode_fields fs cap =
     (case wtq_qpack_encode_section fs cap of
        Inl BUFFER \<Rightarrow> Inl CONNECT_BUFFER
      | Inl _ \<Rightarrow> Inl CONNECT_MALFORMED
      | Inr enc \<Rightarrow> Inr enc)"

text \<open>A NULL or empty token is the current one.\<close>

definition token_of :: "bytes option \<Rightarrow> bytes" where
  "token_of protocol_token =
     (case protocol_token of
        None \<Rightarrow> WTQ_CONNECT_PROTOCOL_TOKEN
      | Some t \<Rightarrow> if t = [] then WTQ_CONNECT_PROTOCOL_TOKEN else t)"

definition wtq_connect_encode_request_d02 ::
  "bytes \<Rightarrow> bytes \<Rightarrow> bytes option \<Rightarrow> bytes list \<Rightarrow> bytes option \<Rightarrow> bool \<Rightarrow> nat
   \<Rightarrow> wtq_connect_status + bytes" where
  "wtq_connect_encode_request_d02 authority path origin protocols protocol_token emit_d02_marker cap =
     (if authority = [] \<or> path = [] then Inl CONNECT_MALFORMED
      else
        let token = token_of protocol_token
        in if \<not> value_is_token token then Inl CONNECT_MALFORMED
           else if \<not> value_is_valid authority \<or> \<not> value_is_valid path \<or> \<not> opt_ok value_is_valid origin
           then Inl CONNECT_MALFORMED
           else (case stage_protocols protocols of
                   Inl st \<Rightarrow> Inl st
                 | Inr sf \<Rightarrow>
                     encode_fields (request_fields authority path token origin emit_d02_marker sf) cap))"

definition wtq_connect_encode_request_ex ::
  "bytes \<Rightarrow> bytes \<Rightarrow> bytes option \<Rightarrow> bytes list \<Rightarrow> bytes option \<Rightarrow> nat \<Rightarrow> wtq_connect_status + bytes" where
  "wtq_connect_encode_request_ex authority path origin protocols protocol_token cap =
     wtq_connect_encode_request_d02 authority path origin protocols protocol_token False cap"

definition wtq_connect_encode_request ::
  "bytes \<Rightarrow> bytes \<Rightarrow> bytes option \<Rightarrow> bytes list \<Rightarrow> nat \<Rightarrow> wtq_connect_status + bytes" where
  "wtq_connect_encode_request authority path origin protocols cap =
     wtq_connect_encode_request_ex authority path origin protocols None cap"

definition status_digits :: "nat \<Rightarrow> bytes" where
  "status_digits status =
     [of_nat (0x30 + status div 100), of_nat (0x30 + (status div 10) mod 10), of_nat (0x30 + status mod 10)]"

definition response_fields :: "nat \<Rightarrow> bool \<Rightarrow> bytes option \<Rightarrow> wtq_qpack_field list" where
  "response_fields status emit_d02_marker sf =
     [fld '':status'' (status_digits status)]
     @ (if emit_d02_marker then [fld ''sec-webtransport-http3-draft'' (str ''draft02'')] else [])
     @ (case sf of None \<Rightarrow> [] | Some v \<Rightarrow> [fld ''wt-protocol'' v])"

definition stage_selected :: "bytes option \<Rightarrow> wtq_connect_status + bytes option" where
  "stage_selected selected =
     (case selected of
        None \<Rightarrow> Inr None
      | Some p \<Rightarrow>
          if p = [] \<or> \<not> wtq_sf_string_valid p then Inl CONNECT_MALFORMED
          else (case wtq_sf_string_encode_item p CONNECT_SF_STAGING of
                  Inl BUFFER \<Rightarrow> Inl CONNECT_BUFFER
                | Inl _ \<Rightarrow> Inl CONNECT_MALFORMED
                | Inr sf \<Rightarrow> Inr (Some sf)))"

definition wtq_connect_encode_response_ex ::
  "nat \<Rightarrow> bytes option \<Rightarrow> bool \<Rightarrow> nat \<Rightarrow> wtq_connect_status + bytes" where
  "wtq_connect_encode_response_ex status selected emit_d02_marker cap =
     (if status < 100 \<or> status > 999 then Inl CONNECT_MALFORMED
      else (case stage_selected selected of
              Inl st \<Rightarrow> Inl st
            | Inr sf \<Rightarrow> encode_fields (response_fields status emit_d02_marker sf) cap))"

definition wtq_connect_encode_response :: "nat \<Rightarrow> bytes option \<Rightarrow> nat \<Rightarrow> wtq_connect_status + bytes" where
  "wtq_connect_encode_response status selected cap =
     wtq_connect_encode_response_ex status selected False cap"

definition wtq_connect_select_protocol :: "bytes list \<Rightarrow> bytes list \<Rightarrow> wtq_connect_status + nat" where
  "wtq_connect_select_protocol offered supported =
     (case wtq_sf_string_select offered supported of
        Some i \<Rightarrow> Inr i
      | None \<Rightarrow> Inl CONNECT_NO_PROTOCOL)"

section \<open>Round trips\<close>

text \<open>The field rules only read names and values, which QPACK keeps.\<close>

lemma field_sent_simps [simp]:
  "qf_name (field_sent f) = qf_name f" "qf_value (field_sent f) = qf_value f"
  by (simp_all add: field_sent_def)

lemma field_sent_rules [simp]:
  "name_is (field_sent f) n = name_is f n" "is_pseudo (field_sent f) = is_pseudo f"
  "name_is_valid (field_sent f) = name_is_valid f" "te_is_trailers (field_sent f) = te_is_trailers f"
  "connection_specific (field_sent f) = connection_specific f"
  "req_field (field_sent f) s = req_field f s" "resp_field (field_sent f) t = resp_field f t"
  by (simp_all add: name_is_def is_pseudo_def name_is_valid_def te_is_trailers_def
      connection_specific_def req_field_def resp_field_def)

lemma fld_simps [simp]:
  "qf_name (fld n v) = str n" "qf_value (fld n v) = v" "name_is (fld n v) m \<longleftrightarrow> n = m"
  by (simp_all add: fld_def name_is_def str_eq_iff)

lemma fld_names_valid [simp]:
  "name_is_valid (fld '':method'' v)" "name_is_valid (fld '':scheme'' v)"
  "name_is_valid (fld '':authority'' v)" "name_is_valid (fld '':path'' v)"
  "name_is_valid (fld '':protocol'' v)" "name_is_valid (fld '':status'' v)"
  "name_is_valid (fld ''origin'' v)" "name_is_valid (fld ''wt-available-protocols'' v)"
  "name_is_valid (fld ''wt-protocol'' v)"
  "name_is_valid (fld ''sec-webtransport-http3-draft02'' v)"
  "name_is_valid (fld ''sec-webtransport-http3-draft'' v)"
  by (simp_all add: name_is_valid_def str_def connect_tchar_def connect_token_char_def)

lemma fld_pseudo [simp]:
  "is_pseudo (fld '':method'' v)" "is_pseudo (fld '':scheme'' v)"
  "is_pseudo (fld '':authority'' v)" "is_pseudo (fld '':path'' v)"
  "is_pseudo (fld '':protocol'' v)" "is_pseudo (fld '':status'' v)"
  "\<not> is_pseudo (fld ''origin'' v)" "\<not> is_pseudo (fld ''wt-available-protocols'' v)"
  "\<not> is_pseudo (fld ''wt-protocol'' v)"
  "\<not> is_pseudo (fld ''sec-webtransport-http3-draft02'' v)"
  "\<not> is_pseudo (fld ''sec-webtransport-http3-draft'' v)"
  by (simp_all add: is_pseudo_def str_def)

lemma walk_check_sent [simp]: "walk_check (map field_sent fs) seen rh = walk_check fs seen rh"
  by (induction fs arbitrary: seen) auto

lemma req_scan_sent [simp]: "req_scan (map field_sent fs) s = req_scan fs s"
  by (induction fs arbitrary: s) (simp_all split: option.split)

lemma resp_scan_sent [simp]: "resp_scan (map field_sent fs) s = resp_scan fs s"
  by (induction fs arbitrary: s) (simp_all split: option.split)

lemma field_scratch_le: "field_scratch f \<le> field_encoded_len f"
  by (auto simp: field_scratch_def field_encoded_len_def split: option.split)

text \<open>An upper bound on the size of a field line: two prefixed integers of at most eleven bytes.\<close>

lemma int_len_loop_bound: "unat v < 2 ^ (7 * Suc k) \<Longrightarrow> int_len_loop v n \<le> n + Suc k"
proof (induction k arbitrary: v n)
  case 0
  then have "drop_bit 7 v = 0"
    using word_unat_eq_iff [of "drop_bit 7 v" 0] by (simp add: unat_drop_bit)
  then show ?case by (simp add: int_len_loop.simps [of v])
next
  case (Suc k)
  have "unat (drop_bit 7 v) < 2 ^ (7 * Suc k)"
    using Suc.prems by (simp add: unat_drop_bit less_mult_imp_div_less power_add mult.commute)
  from Suc.IH [OF this, of "Suc n"] show ?case by (simp add: int_len_loop.simps [of v] Let_def)
qed

lemma int_encoded_len_bound: "int_encoded_len v p \<le> 11"
proof -
  have "int_len_loop w 1 \<le> 11" for w
  proof -
    have "unat w < 2 ^ 64" using unsigned_less [of w] by simp
    also have "(2 :: nat) ^ 64 \<le> 2 ^ (7 * Suc 9)" by (rule power_increasing) simp_all
    finally have "unat w < 2 ^ (7 * Suc 9)" .
    from int_len_loop_bound [OF this, of 1] show ?thesis by simp
  qed
  then show ?thesis by (simp add: int_encoded_len_def Let_def)
qed

lemma field_encoded_len_bound: "field_encoded_len f \<le> length (qf_name f) + length (qf_value f) + 22"
proof -
  have "int_encoded_len u p + int_encoded_len v q \<le> 22" "int_encoded_len u p \<le> 22" for u p v q
    using int_encoded_len_bound [of u p] int_encoded_len_bound [of v q] by simp_all
  then show ?thesis
    unfolding field_encoded_len_def
    by (auto simp: add.assoc add.left_commute intro!: trans_le_add2 split: option.split)
qed

lemma encode_fields_Inr:
  assumes "encode_fields fs cap = Inr enc" "length enc \<le> scap" "length fs \<le> mx"
  shows "\<exists>used. wtq_qpack_decode_section enc mx scap = Inr (map field_sent fs, used)
    \<and> used \<le> length enc"
proof -
  have e: "wtq_qpack_encode_section fs cap = Inr enc"
    using assms(1) by (auto simp: encode_fields_def split: sum.splits wtq_status.splits)
  then have l: "list_all (\<lambda>f. qlen_ok (qf_name f) \<and> qlen_ok (qf_value f)) fs"
    and c: "2 + sum_list (map field_encoded_len fs) \<le> cap"
    by (auto simp: wtq_qpack_encode_section_def list_ex_iff list_all_iff qlen_ok_def not_less
        split: if_splits)
  have used: "sum_list (map field_scratch fs) \<le> sum_list (map field_encoded_len fs)"
    by (rule sum_list_mono) (rule field_scratch_le)
  have len: "length enc = 2 + sum_list (map field_encoded_len fs)"
    using qpack_section_ok [OF l c order_refl order_refl] e by auto
  show ?thesis
    using qpack_section_ok [OF l c _ assms(3), of scap] e len used assms(2) by auto
qed

text \<open>Values that pass the value rule.\<close>

definition vchar :: "byte \<Rightarrow> bool" where
  "vchar c \<longleftrightarrow> 0x21 \<le> c \<and> c \<noteq> 0x7f"

lemma vchar_not_space: "vchar c \<Longrightarrow> c \<noteq> 0x20 \<and> c \<noteq> 0x09"
  by (auto simp: vchar_def)

lemma value_valid_inner:
  "list_all (\<lambda>c. vchar c \<or> c = 0x20) m \<Longrightarrow> vchar b \<Longrightarrow> value_valid_loop False (m @ [b])"
  by (induction m) (auto simp: vchar_def not_less)

lemma value_valid_quoted:
  "list_all (\<lambda>c. vchar c \<or> c = 0x20) m \<Longrightarrow> vchar a \<Longrightarrow> vchar b \<Longrightarrow> value_is_valid (a # m @ [b])"
  using value_valid_inner [of m b] by (auto simp: value_is_valid_def vchar_def not_less)

lemma value_valid_vchars: "list_all vchar v \<Longrightarrow> value_is_valid v"
proof -
  have "list_all vchar v \<Longrightarrow> value_valid_loop first v" for first
    by (induction v arbitrary: first) (auto simp: vchar_def not_less)
  then show "list_all vchar v \<Longrightarrow> value_is_valid v" by (simp add: value_is_valid_def)
qed

lemma token_char_vchar: "connect_token_char c \<Longrightarrow> vchar c"
  by (auto simp: connect_token_char_def vchar_def word_le_nat_alt)

lemma token_value_valid: "value_is_token v \<Longrightarrow> value_is_valid v"
  by (rule value_valid_vchars) (auto simp: value_is_token_def list_all_iff intro: token_char_vchar)

lemma sf_char_vchar: "wtq_sf_string_valid s \<Longrightarrow> c \<in> set s \<Longrightarrow> vchar c \<or> c = 0x20"
proof -
  assume "wtq_sf_string_valid s" "c \<in> set s"
  then have "0x20 \<le> c" "c \<le> 0x7e" by (auto simp: wtq_sf_string_valid_def not_less)
  moreover from this have "c \<noteq> 0x7f" by auto
  moreover have "c = 0x20 \<longleftrightarrow> unat c = 32" using word_unat_eq_iff [of c "0x20"] by simp
  ultimately show ?thesis by (auto simp: vchar_def word_le_nat_alt)
qed

lemma sf_escape_chars: "c \<in> set (sf_escape s) \<Longrightarrow> c \<in> set s \<or> c = 0x5c"
  by (induction s) (auto split: if_splits)

lemma sf_item_chars:
  "wtq_sf_string_valid s \<Longrightarrow> list_all (\<lambda>c. vchar c \<or> c = 0x20) (sf_item s)"
  using sf_escape_chars sf_char_vchar [of s]
  by (fastforce simp: list_all_iff sf_item_def vchar_def)

lemma sf_join_chars:
  "list_all wtq_sf_string_valid ms \<Longrightarrow> list_all (\<lambda>c. vchar c \<or> c = 0x20) (sf_join ms)"
  using sf_item_chars by (induction ms rule: sf_join.induct) (auto simp: vchar_def)

lemma sf_item_value_valid: "wtq_sf_string_valid s \<Longrightarrow> value_is_valid (sf_item s)"
  using sf_item_chars [of s] by (auto simp: sf_item_def intro!: value_valid_quoted simp: vchar_def)

lemma sf_join_quoted: "ms \<noteq> [] \<Longrightarrow> \<exists>m. sf_join ms = 0x22 # m @ [0x22]"
proof (induction ms rule: sf_join.induct)
  case (3 m n ms)
  then obtain k where "sf_join (n # ms) = 0x22 # k @ [0x22]" by auto
  then show ?case by (simp add: sf_item_def)
qed (simp_all add: sf_item_def)

lemma sf_join_value_valid:
  assumes "list_all wtq_sf_string_valid ms" "ms \<noteq> []" shows "value_is_valid (sf_join ms)"
proof -
  obtain m where m: "sf_join ms = 0x22 # m @ [0x22]" using sf_join_quoted [OF assms(2)] by blast
  then show ?thesis using sf_join_chars [OF assms(1)] by (auto intro!: value_valid_quoted simp: vchar_def)
qed

text \<open>What the staging of the protocols gives, and how the decoder reads it back.\<close>

lemma stage_protocols_Inr:
  assumes "stage_protocols ps = Inr sf"
  shows "sf = (if ps = [] then None else Some (sf_join ps))" "list_all wtq_sf_string_valid ps"
    "[] \<notin> set ps" "sum_list (map length ps) \<le> CONNECT_SF_STAGING"
proof -
  have "sf = (if ps = [] then None else Some (sf_join ps)) \<and> list_all wtq_sf_string_valid ps
    \<and> [] \<notin> set ps \<and> sum_list (map length ps) \<le> CONNECT_SF_STAGING"
  proof (cases "ps = []")
    case True
    with assms show ?thesis by (simp add: stage_protocols_def)
  next
    case False
    then obtain e where e: "wtq_sf_string_encode_list ps CONNECT_SF_STAGING = Inr e" "sf = Some e"
      and ne: "[] \<notin> set ps"
      using assms by (auto simp: stage_protocols_def list_ex_iff split: if_splits sum.splits wtq_status.splits)
    have "length m \<le> encoded_item_len m" for m
      by (induction m) (auto simp: encoded_item_len_eq)
    then have "sum_list (map length ps) \<le> sum_list (map encoded_item_len ps)"
      by (intro sum_list_mono)
    then show ?thesis using encode_list_Inr [OF e(1)] e(2) ne by simp
  qed
  then show "sf = (if ps = [] then None else Some (sf_join ps))" "list_all wtq_sf_string_valid ps"
    "[] \<notin> set ps" "sum_list (map length ps) \<le> CONNECT_SF_STAGING" by auto
qed

lemma parse_protocol_list_staged:
  assumes "list_all wtq_sf_string_valid ps" "[] \<notin> set ps" "ps \<noteq> []"
    and "sum_list (map length ps) \<le> CONNECT_SF_STAGING" "length ps \<le> mx"
    and "off + CONNECT_SF_STAGING \<le> scap"
  shows "parse_protocol_list (sf_join ps) opts mx off scap = Inr ps"
  using parse_list_of_join [OF assms(1,3), of "scap - off" mx] assms(2,4-6)
  by (auto simp: parse_protocol_list_def list_ex_iff)

lemma request_walk:
  assumes "value_is_valid authority" "value_is_valid path" "value_is_token token"
    and "opt_ok value_is_valid origin" "opt_ok value_is_valid sf"
  shows "walk_check (request_fields authority path token origin marker sf) False True"
    "length (request_fields authority path token origin marker sf) \<le> 8"
proof -
  have "value_is_valid (str ''CONNECT'')" "value_is_valid (str ''https'')" "value_is_valid (str ''1'')"
    by (simp_all add: value_is_valid_def str_def)
  then show "walk_check (request_fields authority path token origin marker sf) False True"
    using assms token_value_valid [OF assms(3)]
    by (auto simp: request_fields_def connection_specific_def opt_ok_def split: option.splits)
  show "length (request_fields authority path token origin marker sf) \<le> 8"
    by (auto simp: request_fields_def split: option.splits)
qed

lemma request_scan:
  "req_scan (request_fields authority path token origin marker sf) req_slots_empty =
     Some \<lparr>rs_method = Some (str ''CONNECT''), rs_scheme = Some (str ''https''),
       rs_authority = Some authority, rs_path = Some path, rs_protocol = Some token,
       rs_origin = (if origin = Some [] then None else origin),
       rs_d02_marker = (if marker then Some (str ''1'') else None), rs_wtap = sf, rs_host = None\<rparr>"
  by (cases origin; cases sf; cases marker)
    (simp_all add: request_fields_def req_field_def fill_def req_slots_empty_def)

lemma connect_method_ok [simp]: "value_is_token (str ''CONNECT'')" "scheme_is_valid (str ''https'')"
  by (simp_all add: value_is_token_def scheme_is_valid_def str_def connect_token_char_def is_alpha_def)

text \<open>The tokens a server with these options takes for WebTransport.\<close>

definition token_accepted :: "wtq_connect_opts \<Rightarrow> bytes \<Rightarrow> bool" where
  "token_accepted opts token \<longleftrightarrow>
     token = WTQ_CONNECT_PROTOCOL_TOKEN
     \<or> accept_legacy_protocol opts \<and> token = WTQ_CONNECT_PROTOCOL_TOKEN_LEGACY"

lemma encode_request_Inr:
  assumes "wtq_connect_encode_request_d02 authority path origin protocols tok marker cap = Inr enc"
  shows "authority \<noteq> [] \<and> path \<noteq> [] \<and> value_is_token (token_of tok) \<and> value_is_valid authority
    \<and> value_is_valid path \<and> opt_ok value_is_valid origin
    \<and> (\<exists>sf. stage_protocols protocols = Inr sf
         \<and> encode_fields (request_fields authority path (token_of tok) origin marker sf) cap = Inr enc)"
  using assms
  by (auto simp: wtq_connect_encode_request_d02_def Let_def split: if_splits sum.splits)

lemma str_ne: "str (c # cs) \<noteq> []"
  by (simp add: str_def)

lemma connect_request_ok:
  assumes "wtq_connect_encode_request_d02 authority path origin protocols tok marker cap = Inr enc"
    and "token_accepted opts (token_of tok)"
    and "length protocols \<le> max_protocols" "length enc + CONNECT_SF_STAGING \<le> scratch_cap"
  shows "wtq_connect_decode_request enc opts max_protocols scratch_cap =
    Inr (\<lparr>cr_authority = authority, cr_path = path,
          cr_origin = (if origin = Some [] then None else origin),
          cr_legacy_protocol = (token_of tok = WTQ_CONNECT_PROTOCOL_TOKEN_LEGACY),
          cr_d02_marker = (if marker then Some (str ''1'') else None)\<rparr>, protocols)"
proof -
  let ?fs = "\<lambda>sf. request_fields authority path (token_of tok) origin marker sf"
  obtain sf where req: "authority \<noteq> []" "path \<noteq> []" "value_is_token (token_of tok)"
      "value_is_valid authority" "value_is_valid path" "opt_ok value_is_valid origin"
    and sf: "stage_protocols protocols = Inr sf" "encode_fields (?fs sf) cap = Inr enc"
    using encode_request_Inr [OF assms(1)] by blast
  note st = stage_protocols_Inr [OF sf(1)]
  have "opt_ok value_is_valid sf"
    using st(1) sf_join_value_valid [OF st(2)] by (simp add: opt_ok_def)
  note walk = request_walk [OF req(4,5,3,6) this, of marker]
  obtain used where dec: "wtq_qpack_decode_section enc WTQ_CONNECT_MAX_FIELDS scratch_cap
      = Inr (map field_sent (?fs sf), used)" "used \<le> length enc"
    using encode_fields_Inr [OF sf(2), of scratch_cap WTQ_CONNECT_MAX_FIELDS] walk(2) assms(4)
    by (auto simp: WTQ_CONNECT_MAX_FIELDS_def)
  have init: "walk_init enc scratch_cap True = Inr (map field_sent (?fs sf), used)"
    using dec(1) walk(1) by (simp add: walk_init_def)
  have cls: "req_classify opts \<lparr>rs_method = Some (str ''CONNECT''), rs_scheme = Some (str ''https''),
       rs_authority = Some authority, rs_path = Some path, rs_protocol = Some (token_of tok),
       rs_origin = (if origin = Some [] then None else origin),
       rs_d02_marker = (if marker then Some (str ''1'') else None), rs_wtap = sf, rs_host = None\<rparr>
     = Inr (token_of tok = WTQ_CONNECT_PROTOCOL_TOKEN_LEGACY)"
    using req(1-3) assms(2)
    by (auto simp: req_classify_def opt_ok_def token_accepted_def WTQ_CONNECT_PROTOCOL_TOKEN_def
        WTQ_CONNECT_PROTOCOL_TOKEN_LEGACY_def Let_def connect_method_ok)
  show ?thesis
    using init cls request_scan [of authority path "token_of tok" origin marker sf]
      parse_protocol_list_staged [OF st(2,3) _ st(4) assms(3), of used scratch_cap opts]
      st(1) dec(2) assms(4)
    by (simp add: wtq_connect_decode_request_def opt_bytes_def split: option.split)
qed

text \<open>An example: a request with an origin, the draft-02 marker and two subprotocols.\<close>

definition example_request :: "wtq_connect_status + bytes" where
  "example_request =
     wtq_connect_encode_request_d02 (str ''h'') (str ''/'') (Some (str ''o'')) [str ''moq'', str ''x''] None True 512"

lemma example_request_encodes: "\<exists>enc. example_request = Inr enc"
proof -
  let ?fs = "request_fields (str ''h'') (str ''/'') (token_of None) (Some (str ''o'')) True
    (Some (sf_join [str ''moq'', str ''x'']))"
  have valid: "list_all wtq_sf_string_valid [str ''moq'', str ''x'']"
    by (simp add: str_def)
  have "wtq_sf_string_encode_list [str ''moq'', str ''x''] CONNECT_SF_STAGING
      = Inr (sf_join [str ''moq'', str ''x''])"
    using valid by (rule encode_list_join)
      (simp_all add: str_def encoded_item_len_def needs_escape_def CONNECT_SF_STAGING_def)
  then have st: "stage_protocols [str ''moq'', str ''x''] = Inr (Some (sf_join [str ''moq'', str ''x'']))"
    using valid by (simp add: stage_protocols_def) (simp add: str_def)
  have "sum_list (map field_encoded_len ?fs)
      \<le> sum_list (map (\<lambda>f. length (qf_name f) + length (qf_value f) + 22) ?fs)"
    by (rule sum_list_mono) (rule field_encoded_len_bound)
  also have "\<dots> \<le> 500"
    by (simp add: request_fields_def token_of_def WTQ_CONNECT_PROTOCOL_TOKEN_def sf_item_def)
      (simp add: str_def needs_escape_def)
  finally have len: "sum_list (map field_encoded_len ?fs) \<le> 500" .
  have "list_all (\<lambda>f. qlen_ok (qf_name f) \<and> qlen_ok (qf_value f)) ?fs"
    by (simp add: request_fields_def token_of_def WTQ_CONNECT_PROTOCOL_TOKEN_def sf_item_def
        qlen_ok_def qpack_max_int_nat) (simp add: str_def needs_escape_def)
  from qpack_section_ok [OF this, of 512] len obtain enc
    where "wtq_qpack_encode_section ?fs 512 = Inr enc" by fastforce
  moreover have "value_is_token (token_of None)" "value_is_valid (str ''h'')" "value_is_valid (str ''/'')"
    "opt_ok value_is_valid (Some (str ''o''))"
    by (simp_all add: token_of_def WTQ_CONNECT_PROTOCOL_TOKEN_def value_is_token_def value_is_valid_def
        opt_ok_def str_def connect_token_char_def)
  ultimately show ?thesis
    using st by (simp add: example_request_def wtq_connect_encode_request_d02_def encode_fields_def str_ne)
qed

text \<open>
  C28. Round trip of the WebTransport CONNECT request: whatever request the client
  encoder produces, a server that accepts its protocol token and gives the decoder
  the section length plus the staging size as scratch decodes to the same
  authority, path, origin, draft-02 marker and subprotocol list; an empty origin is
  not sent. No request of the encoder is malformed for the decoder.
\<close>

theorem connect_request_roundtrip:
  assumes "wtq_connect_encode_request_d02 authority path origin protocols tok marker cap = Inr enc"
    and "token_accepted opts (token_of tok)"
    and "length protocols \<le> max_protocols" "length enc + CONNECT_SF_STAGING \<le> scratch_cap"
  shows "wtq_connect_decode_request enc opts max_protocols scratch_cap =
    Inr (\<lparr>cr_authority = authority, cr_path = path,
          cr_origin = (if origin = Some [] then None else origin),
          cr_legacy_protocol = (token_of tok = WTQ_CONNECT_PROTOCOL_TOKEN_LEGACY),
          cr_d02_marker = (if marker then Some (str ''1'') else None)\<rparr>, protocols)"
  using assms by (rule connect_request_ok)

theorem connect_request_roundtrip_witness:
  "\<exists>enc. example_request = Inr enc
    \<and> wtq_connect_decode_request enc \<lparr>lenient_sf_tokens = False, accept_legacy_protocol = False\<rparr> 4
        (length enc + CONNECT_SF_STAGING) =
      Inr (\<lparr>cr_authority = str ''h'', cr_path = str ''/'',
            cr_origin = (if Some (str ''o'') = Some [] then None else Some (str ''o'')),
            cr_legacy_protocol = (token_of None = WTQ_CONNECT_PROTOCOL_TOKEN_LEGACY),
            cr_d02_marker = (if True then Some (str ''1'') else None)\<rparr>, [str ''moq'', str ''x''])"
proof -
  obtain enc where enc: "example_request = Inr enc" using example_request_encodes by blast
  then show ?thesis
    using connect_request_roundtrip [OF enc [unfolded example_request_def],
        of "\<lparr>lenient_sf_tokens = False, accept_legacy_protocol = False\<rparr>" 4 "length enc + CONNECT_SF_STAGING"]
    by (intro exI [of _ enc]) (simp add: token_accepted_def token_of_def str_ne)
qed

lemma stage_selected_Inr:
  assumes "stage_selected p = Inr sf"
  shows "sf = map_option sf_item p"
    "opt_ok (\<lambda>v. v \<noteq> [] \<and> wtq_sf_string_valid v \<and> length v \<le> CONNECT_SF_STAGING) p"
proof -
  have "length v \<le> encoded_item_len v" for v
    by (induction v) (auto simp: encoded_item_len_eq)
  then show "sf = map_option sf_item p"
    "opt_ok (\<lambda>v. v \<noteq> [] \<and> wtq_sf_string_valid v \<and> length v \<le> CONNECT_SF_STAGING) p"
    using assms
    by (auto simp: stage_selected_def wtq_sf_string_encode_item_def sf_item_def opt_ok_def not_less
        intro: order_trans split: option.splits if_splits)
qed

lemma digit_byte:
  "n < 10 \<Longrightarrow> is_digit (of_nat (0x30 + n)) \<and> unat (of_nat (0x30 + n) - 0x30 :: byte) = n
     \<and> vchar (of_nat (0x30 + n))"
proof -
  assume n: "n < 10"
  then have u: "unat (of_nat (0x30 + n) :: byte) = 0x30 + n"
    unfolding unsigned_of_nat by (subst take_bit_nat_eq_self) simp_all
  have le: "0x30 \<le> (of_nat (0x30 + n) :: byte)" using u by (simp add: word_le_nat_alt)
  then have "unat (of_nat (0x30 + n) - 0x30 :: byte) = n" using u by (simp only: unat_sub) simp
  moreover have "(of_nat (0x30 + n) :: byte) \<noteq> 0x7f"
    using u n word_unat_eq_iff [of "of_nat (0x30 + n) :: byte" "0x7f"] by simp
  ultimately show ?thesis
    using u n le by (simp add: is_digit_def vchar_def word_le_nat_alt)
qed

lemma status_digits_ok:
  assumes "100 \<le> status" "status \<le> 999"
  shows "resp_status (Some (status_digits status)) = Some status" "value_is_valid (status_digits status)"
proof -
  have b: "status div 100 < 10" "(status div 10) mod 10 < 10" "status mod 10 < 10" using assms(2) by simp_all
  have "status div 100 = status div 10 div 10" by (simp add: div_mult2_eq [symmetric])
  then have d: "(status div 100 * 10 + status div 10 mod 10) * 10 + status mod 10 = status" by simp
  show "resp_status (Some (status_digits status)) = Some status"
    using digit_byte [OF b(1)] digit_byte [OF b(2)] digit_byte [OF b(3)] d assms(1)
    unfolding resp_status_def status_digits_def Let_def by (simp only: list.case option.case) simp
  show "value_is_valid (status_digits status)"
    using digit_byte [OF b(1)] digit_byte [OF b(2)] digit_byte [OF b(3)]
    by (intro value_valid_vchars) (simp add: status_digits_def)
qed

lemma response_walk:
  assumes "value_is_valid (status_digits status)" "opt_ok value_is_valid sf"
  shows "walk_check (response_fields status marker sf) False False"
    "length (response_fields status marker sf) \<le> 3"
    "resp_scan (response_fields status marker sf) resp_slots_empty =
       Some \<lparr>ps_status = Some (status_digits status), ps_wtp = sf,
             ps_rmark = (if marker then Some (str ''draft02'') else None)\<rparr>"
proof -
  have "value_is_valid (str ''draft02'')" by (simp add: value_is_valid_def str_def)
  then show "walk_check (response_fields status marker sf) False False"
    using assms by (auto simp: response_fields_def connection_specific_def opt_ok_def split: option.splits)
  show "length (response_fields status marker sf) \<le> 3"
    by (auto simp: response_fields_def split: option.splits)
  show "resp_scan (response_fields status marker sf) resp_slots_empty =
       Some \<lparr>ps_status = Some (status_digits status), ps_wtp = sf,
             ps_rmark = (if marker then Some (str ''draft02'') else None)\<rparr>"
    by (cases sf; cases marker)
      (simp_all add: response_fields_def resp_field_def fill_def resp_slots_empty_def)
qed

text \<open>
  C29. Round trip of the CONNECT response: whatever the server encodes, status,
  draft-02 marker and selected subprotocol, the client decodes to the same, under
  any option, with the section length plus the staging size as scratch.
\<close>

theorem connect_response_roundtrip:
  assumes "wtq_connect_encode_response_ex status selected marker cap = Inr enc"
    and "length enc + CONNECT_SF_STAGING \<le> scratch_cap"
  shows "wtq_connect_decode_response enc opts scratch_cap =
    Inr \<lparr>cs_status = status, cs_protocol = selected,
         cs_d02_marker = (if marker then Some (str ''draft02'') else None)\<rparr>"
proof -
  obtain sf where st: "100 \<le> status" "status \<le> 999" "stage_selected selected = Inr sf"
    and e: "encode_fields (response_fields status marker sf) cap = Inr enc"
    using assms(1) by (auto simp: wtq_connect_encode_response_ex_def not_less split: if_splits sum.splits)
  note sel = stage_selected_Inr [OF st(3)]
  have "opt_ok value_is_valid sf"
    using sel sf_item_value_valid by (auto simp: opt_ok_def split: option.splits)
  note walk = response_walk [OF status_digits_ok(2) [OF st(1,2)] this, of marker]
  obtain used where dec: "wtq_qpack_decode_section enc WTQ_CONNECT_MAX_FIELDS scratch_cap
      = Inr (map field_sent (response_fields status marker sf), used)" "used \<le> length enc"
    using encode_fields_Inr [OF e, of scratch_cap WTQ_CONNECT_MAX_FIELDS] walk(2) assms(2)
    by (auto simp: WTQ_CONNECT_MAX_FIELDS_def)
  have init: "walk_init enc scratch_cap False
      = Inr (map field_sent (response_fields status marker sf), used)"
    using dec(1) walk(1) by (simp add: walk_init_def)
  have item: "wtq_sf_string_parse_item (sf_item p) (lenient_sf_tokens opts) (scratch_cap - used) = Inr p"
    if "selected = Some p" for p
    using sel(2) that dec(2) assms(2) by (intro parse_item_of_item) (auto simp: opt_ok_def)
  show ?thesis
    using init walk(3) status_digits_ok(1) [OF st(1,2)] item sel
    by (cases selected) (simp_all add: wtq_connect_decode_response_def opt_ok_def)
qed

theorem connect_response_roundtrip_witness:
  "\<exists>enc. wtq_connect_encode_response_ex 200 (Some (str ''moq'')) True 256 = Inr enc
    \<and> wtq_connect_decode_response enc \<lparr>lenient_sf_tokens = False, accept_legacy_protocol = False\<rparr>
        (length enc + CONNECT_SF_STAGING) =
      Inr \<lparr>cs_status = 200, cs_protocol = Some (str ''moq''),
           cs_d02_marker = (if True then Some (str ''draft02'') else None)\<rparr>"
proof -
  let ?fs = "response_fields 200 True (Some (sf_item (str ''moq'')))"
  have st: "stage_selected (Some (str ''moq'')) = Inr (Some (sf_item (str ''moq'')))"
    by (simp add: stage_selected_def wtq_sf_string_encode_item_def sf_item_def encoded_item_len_def
        CONNECT_SF_STAGING_def) (simp add: str_def needs_escape_def)
  have "sum_list (map field_encoded_len ?fs)
      \<le> sum_list (map (\<lambda>f. length (qf_name f) + length (qf_value f) + 22) ?fs)"
    by (rule sum_list_mono) (rule field_encoded_len_bound)
  also have "\<dots> \<le> 200"
    by (simp add: response_fields_def sf_item_def status_digits_def) (simp add: str_def needs_escape_def)
  finally have len: "sum_list (map field_encoded_len ?fs) \<le> 200" .
  have "list_all (\<lambda>f. qlen_ok (qf_name f) \<and> qlen_ok (qf_value f)) ?fs"
    by (simp add: response_fields_def sf_item_def status_digits_def qlen_ok_def qpack_max_int_nat)
      (simp add: str_def needs_escape_def)
  from qpack_section_ok [OF this, of 256] len obtain enc
    where "wtq_qpack_encode_section ?fs 256 = Inr enc" by fastforce
  then have enc: "wtq_connect_encode_response_ex 200 (Some (str ''moq'')) True 256 = Inr enc"
    using st by (simp add: wtq_connect_encode_response_ex_def encode_fields_def)
  then show ?thesis
    using connect_response_roundtrip [OF enc order_refl] by blast
qed

section \<open>What a server accepts\<close>

text \<open>All the values a section carries under one name.\<close>

definition values_of :: "string \<Rightarrow> wtq_qpack_field list \<Rightarrow> bytes list" where
  "values_of n fs = map qf_value (filter (\<lambda>f. name_is f n) fs)"

definition slot_list :: "bytes option \<Rightarrow> bytes list" where
  "slot_list v = (case v of None \<Rightarrow> [] | Some b \<Rightarrow> [b])"

lemma values_of_Cons:
  "values_of n (f # fs) = (if name_is f n then [qf_value f] else []) @ values_of n fs"
  by (simp add: values_of_def)

lemma name_is_pseudo:
  "name_is f (CHR '':'' # n) \<Longrightarrow> is_pseudo f" "c \<noteq> CHR '':'' \<Longrightarrow> name_is f (c # n) \<Longrightarrow> \<not> is_pseudo f"
proof -
  have "of_char c = (0x3a :: byte) \<longleftrightarrow> c = CHR '':''" for c
    using str_eq_iff [of "[c]" "'':''"] by (simp add: str_def)
  then show "name_is f (CHR '':'' # n) \<Longrightarrow> is_pseudo f"
    "c \<noteq> CHR '':'' \<Longrightarrow> name_is f (c # n) \<Longrightarrow> \<not> is_pseudo f"
    by (auto simp: name_is_def is_pseudo_def str_def)
qed

lemma name_is_unique: "name_is f n \<Longrightarrow> name_is f m \<longleftrightarrow> m = n"
  by (auto simp: name_is_def)

text \<open>Every slot holds exactly the values of its name: none or one.\<close>

definition slots_agree :: "req_slots \<Rightarrow> wtq_qpack_field list \<Rightarrow> req_slots \<Rightarrow> bool" where
  "slots_agree s fs t \<longleftrightarrow>
     slot_list (rs_method s) @ values_of '':method'' fs = slot_list (rs_method t)
     \<and> slot_list (rs_scheme s) @ values_of '':scheme'' fs = slot_list (rs_scheme t)
     \<and> slot_list (rs_authority s) @ values_of '':authority'' fs = slot_list (rs_authority t)
     \<and> slot_list (rs_path s) @ values_of '':path'' fs = slot_list (rs_path t)
     \<and> slot_list (rs_protocol s) @ values_of '':protocol'' fs = slot_list (rs_protocol t)
     \<and> slot_list (rs_origin s) @ values_of ''origin'' fs = slot_list (rs_origin t)
     \<and> slot_list (rs_d02_marker s) @ values_of ''sec-webtransport-http3-draft02'' fs = slot_list (rs_d02_marker t)
     \<and> slot_list (rs_wtap s) @ values_of ''wt-available-protocols'' fs = slot_list (rs_wtap t)
     \<and> slot_list (rs_host s) @ values_of ''host'' fs = slot_list (rs_host t)"

definition known_pseudo :: "wtq_qpack_field \<Rightarrow> bool" where
  "known_pseudo f \<longleftrightarrow> list_ex (name_is f) ['':method'', '':scheme'', '':authority'', '':path'', '':protocol'']"

lemma fill_Some: "fill slot v store = Some t \<longleftrightarrow> slot = None \<and> t = store (Some v)"
  by (auto simp: fill_def)

lemma req_field_step:
  assumes "req_field f s = Some t"
  shows "slots_agree s [f] t" "is_pseudo f \<Longrightarrow> known_pseudo f"
proof -
  let ?names = "['':method'', '':scheme'', '':authority'', '':path'', '':protocol'', ''origin'',
    ''sec-webtransport-http3-draft02'', ''wt-available-protocols'', ''host'']"
  have hds: "hd (str (c # cs)) = of_char c" for c cs by (simp add: str_def)
  show "slots_agree s [f] t"
  proof (cases "list_ex (name_is f) ?names")
    case True
    then obtain n where n: "n \<in> set ?names" "qf_name f = str n" by (auto simp: name_is_def)
    then show ?thesis
      using assms unfolding set_simps insert_iff empty_iff
      by (elim disjE FalseE)
        (simp_all add: req_field_def is_pseudo_def name_is_def hds fill_Some slots_agree_def values_of_def
          slot_list_def)
  next
    case False
    then have "t = s" using assms by (simp add: req_field_def split: if_splits)
    with False show ?thesis by (simp add: slots_agree_def values_of_def)
  qed
  show "is_pseudo f \<Longrightarrow> known_pseudo f"
    using assms by (simp add: req_field_def known_pseudo_def split: if_splits)
qed

lemma slot_trans:
  "a @ values_of n [f] = b \<Longrightarrow> b @ values_of n fs = c \<Longrightarrow> a @ values_of n (f # fs) = c"
  by (auto simp: values_of_def)

lemma slots_agree_trans: "slots_agree s [f] u \<Longrightarrow> slots_agree u fs t \<Longrightarrow> slots_agree s (f # fs) t"
  unfolding slots_agree_def by (elim conjE, intro conjI) (erule (1) slot_trans)+

lemma req_scan_agree:
  "req_scan fs s = Some t \<Longrightarrow> slots_agree s fs t \<and> (\<forall>f \<in> set fs. is_pseudo f \<longrightarrow> known_pseudo f)"
proof (induction fs arbitrary: s)
  case Nil
  then show ?case by (simp add: slots_agree_def values_of_def)
next
  case (Cons f fs)
  obtain u where u: "req_field f s = Some u" "req_scan fs u = Some t"
    using Cons.prems by (auto split: option.splits)
  have "slots_agree s (f # fs) t"
    using slots_agree_trans [OF req_field_step(1) [OF u(1)]] Cons.IH [OF u(2)] by blast
  then show ?case using req_field_step(2) [OF u(1)] Cons.IH [OF u(2)] by auto
qed

text \<open>The rules every accepted field meets.\<close>

definition field_rules :: "bool \<Rightarrow> wtq_qpack_field \<Rightarrow> bool" where
  "field_rules request_headers f \<longleftrightarrow>
     name_is_valid f \<and> value_is_valid (qf_value f) \<and> \<not> connection_specific f
     \<and> (name_is f ''te'' \<longrightarrow> request_headers \<and> te_is_trailers f)"

lemma pseudo_not_regular:
  assumes "is_pseudo f" shows "\<not> connection_specific f" "\<not> name_is f ''te''"
  using assms by (auto simp: connection_specific_def dest: name_is_pseudo(2) [rotated])

lemma walk_check_rules:
  "walk_check fs seen rh \<Longrightarrow> list_all (field_rules rh) fs
     \<and> fs = takeWhile is_pseudo fs @ filter (\<lambda>f. \<not> is_pseudo f) fs \<and> (seen \<longrightarrow> \<not> list_ex is_pseudo fs)"
proof (induction fs arbitrary: seen)
  case (Cons f fs)
  show ?case
  proof (cases "is_pseudo f")
    case True
    then show ?thesis
      using Cons.prems Cons.IH [of seen] pseudo_not_regular [OF True]
      by (auto simp: field_rules_def split: if_splits)
  next
    case False
    then have w: "walk_check fs True rh" and r: "field_rules rh f"
      using Cons.prems by (auto simp: field_rules_def split: if_splits)
    note ih = Cons.IH [OF w]
    then have "filter (\<lambda>f. \<not> is_pseudo f) fs = fs"
      by (intro filter_True) (auto simp: list_ex_iff)
    then show ?thesis using ih r False by simp
  qed
qed simp

lemma walk_init_Inr:
  assumes "walk_init field_section scap rh = Inr (fs, used)"
  shows "wtq_qpack_decode_section field_section WTQ_CONNECT_MAX_FIELDS scap = Inr (fs, used)"
    "walk_check fs False rh"
  using assms by (auto simp: walk_init_def split: sum.splits wtq_status.splits if_splits)

lemma req_classify_Inr:
  assumes "req_classify opts s = Inr legacy"
  shows "\<exists>authority path protocol. rs_method s = Some (str ''CONNECT'') \<and> rs_scheme s = Some (str ''https'')
    \<and> rs_authority s = Some authority \<and> authority \<noteq> [] \<and> rs_path s = Some path \<and> path \<noteq> []
    \<and> rs_protocol s = Some protocol \<and> token_accepted opts protocol
    \<and> legacy = (protocol = WTQ_CONNECT_PROTOCOL_TOKEN_LEGACY)
    \<and> opt_ok (\<lambda>h. h \<noteq> [] \<and> span_ieq h authority) (rs_host s)"
proof -
  have tok: "WTQ_CONNECT_PROTOCOL_TOKEN \<noteq> WTQ_CONNECT_PROTOCOL_TOKEN_LEGACY"
    by (simp add: WTQ_CONNECT_PROTOCOL_TOKEN_def WTQ_CONNECT_PROTOCOL_TOKEN_LEGACY_def)
  show ?thesis
    using assms tok unfolding req_classify_def
    by (auto simp: token_accepted_def opt_ok_def Let_def split: option.splits if_splits)
qed

lemma parse_protocol_list_Inr:
  "parse_protocol_list v opts mx off scap = Inr ps \<Longrightarrow> length ps \<le> mx \<and> [] \<notin> set ps"
  using parse_list_loop_bounds [of "skip_sp v" "lenient_sf_tokens opts" "scap - off" mx "[]"]
  by (auto simp: parse_protocol_list_def wtq_sf_string_parse_list_def list_ex_iff
      split: sum.splits wtq_status.splits if_splits)

text \<open>The rules that a field section meets when it is taken for a WebTransport request.\<close>

definition webtransport_request ::
  "wtq_connect_opts \<Rightarrow> wtq_qpack_field list \<Rightarrow> wtq_connect_req \<Rightarrow> bool" where
  "webtransport_request opts fs req \<longleftrightarrow>
     list_all (field_rules True) fs \<and> list_all (\<lambda>f. is_pseudo f \<longrightarrow> known_pseudo f) fs
     \<and> fs = takeWhile is_pseudo fs @ filter (\<lambda>f. \<not> is_pseudo f) fs
     \<and> values_of '':method'' fs = [str ''CONNECT''] \<and> values_of '':scheme'' fs = [str ''https'']
     \<and> values_of '':authority'' fs = [cr_authority req] \<and> cr_authority req \<noteq> []
     \<and> values_of '':path'' fs = [cr_path req] \<and> cr_path req \<noteq> []
     \<and> (\<exists>token. values_of '':protocol'' fs = [token] \<and> token_accepted opts token
          \<and> cr_legacy_protocol req = (token = WTQ_CONNECT_PROTOCOL_TOKEN_LEGACY))
     \<and> values_of ''origin'' fs = slot_list (cr_origin req)
     \<and> values_of ''sec-webtransport-http3-draft02'' fs = slot_list (cr_d02_marker req)
     \<and> list_all (\<lambda>h. h \<noteq> [] \<and> span_ieq h (cr_authority req)) (values_of ''host'' fs)"

text \<open>
  C23. What a server takes for a WebTransport request: exactly one :method CONNECT,
  one :scheme https, one nonempty :authority and :path and one accepted :protocol,
  no other pseudo-header, pseudo-headers first, every name and value well formed,
  no connection-specific field, TE only as trailers, any Host nonempty and equal
  to the authority up to case, and the reported spans are the fields' values.
\<close>

theorem connect_request_accepts_only:
  assumes "wtq_connect_decode_request field_section opts max_protocols scratch_cap = Inr (req, protocols)"
  shows "\<exists>fs used. wtq_qpack_decode_section field_section WTQ_CONNECT_MAX_FIELDS scratch_cap = Inr (fs, used)
    \<and> webtransport_request opts fs req \<and> length protocols \<le> max_protocols \<and> [] \<notin> set protocols"
proof -
  obtain fs used s legacy where w: "walk_init field_section scratch_cap True = Inr (fs, used)"
    and s: "req_scan fs req_slots_empty = Some s" and c: "req_classify opts s = Inr legacy"
    and ps: "(case rs_wtap s of None \<Rightarrow> Inr []
       | Some v \<Rightarrow> parse_protocol_list v opts max_protocols used scratch_cap) = Inr protocols"
    and req: "req = \<lparr>cr_authority = opt_bytes (rs_authority s), cr_path = opt_bytes (rs_path s),
                     cr_origin = rs_origin s, cr_legacy_protocol = legacy, cr_d02_marker = rs_d02_marker s\<rparr>"
    using assms by (auto simp: wtq_connect_decode_request_def Let_def split: sum.splits option.splits)
  have "length protocols \<le> max_protocols \<and> [] \<notin> set protocols"
    using ps parse_protocol_list_Inr by (auto split: option.splits)
  moreover have "slots_agree req_slots_empty fs s \<and> (\<forall>f \<in> set fs. is_pseudo f \<longrightarrow> known_pseudo f)"
    using s by (rule req_scan_agree)
  ultimately show ?thesis
    using walk_init_Inr [OF w] walk_check_rules [OF walk_init_Inr(2) [OF w]] req_classify_Inr [OF c]
    by (intro exI [of _ fs] exI [of _ used])
      (auto simp: webtransport_request_def list_all_iff slots_agree_def req_slots_empty_def slot_list_def
        req opt_bytes_def opt_ok_def split: option.splits)
qed

theorem connect_request_accepts_only_witness:
  "\<exists>enc req. wtq_connect_decode_request enc \<lparr>lenient_sf_tokens = False, accept_legacy_protocol = False\<rparr> 4
      (length enc + CONNECT_SF_STAGING) = Inr (req, [str ''moq'', str ''x''])
    \<and> (\<exists>fs used. wtq_qpack_decode_section enc WTQ_CONNECT_MAX_FIELDS (length enc + CONNECT_SF_STAGING) = Inr (fs, used)
       \<and> webtransport_request \<lparr>lenient_sf_tokens = False, accept_legacy_protocol = False\<rparr> fs req
       \<and> length [str ''moq'', str ''x''] \<le> 4 \<and> [] \<notin> set [str ''moq'', str ''x''])"
proof -
  obtain enc where enc: "example_request = Inr enc" using example_request_encodes by blast
  obtain req where req: "wtq_connect_decode_request enc
      \<lparr>lenient_sf_tokens = False, accept_legacy_protocol = False\<rparr> 4 (length enc + CONNECT_SF_STAGING)
    = Inr (req, [str ''moq'', str ''x''])"
    using connect_request_ok [OF enc [unfolded example_request_def], of _ 4 "length enc + CONNECT_SF_STAGING"]
    by (simp add: token_accepted_def token_of_def)
  from connect_request_accepts_only [OF this] req show ?thesis by blast
qed

end
