(* ===== verification/H3_Frame.thy ===== *)
theory H3_Frame
  imports Varint
begin

text \<open>
  The HTTP/3 frame header, two varints (type and payload length):
  \<^verbatim>\<open>src/proto/h3_frame.c\<close> and \<^verbatim>\<open>h3_frame.h\<close>. The capsule protocol uses the same
  wire shape. Encoder, one-shot decoder and incremental decoder, with the round
  trip and the agreement of the two decoders.
\<close>

definition WTQ_H3_FRAME_DATA :: u64 where "WTQ_H3_FRAME_DATA = 0x00"
definition WTQ_H3_FRAME_HEADERS :: u64 where "WTQ_H3_FRAME_HEADERS = 0x01"
definition WTQ_H3_FRAME_CANCEL_PUSH :: u64 where "WTQ_H3_FRAME_CANCEL_PUSH = 0x03"
definition WTQ_H3_FRAME_SETTINGS :: u64 where "WTQ_H3_FRAME_SETTINGS = 0x04"
definition WTQ_H3_FRAME_PUSH_PROMISE :: u64 where "WTQ_H3_FRAME_PUSH_PROMISE = 0x05"
definition WTQ_H3_FRAME_GOAWAY :: u64 where "WTQ_H3_FRAME_GOAWAY = 0x07"
definition WTQ_H3_FRAME_MAX_PUSH_ID :: u64 where "WTQ_H3_FRAME_MAX_PUSH_ID = 0x0d"

lemmas h3_frame_types =
  WTQ_H3_FRAME_DATA_def WTQ_H3_FRAME_HEADERS_def WTQ_H3_FRAME_CANCEL_PUSH_def
  WTQ_H3_FRAME_SETTINGS_def WTQ_H3_FRAME_PUSH_PROMISE_def WTQ_H3_FRAME_GOAWAY_def
  WTQ_H3_FRAME_MAX_PUSH_ID_def

record wtq_h3_frame =
  fr_type :: u64
  fr_length :: u64     \<comment> \<open>payload length; the payload is not consumed\<close>
  fr_header_len :: nat \<comment> \<open>wire bytes of the two varints as received\<close>

definition wtq_h3_frame_header_len :: "u64 \<Rightarrow> u64 \<Rightarrow> nat" where
  "wtq_h3_frame_header_len type len =
     (let tlen = wtq_varint_len type; llen = wtq_varint_len len
      in if tlen = 0 \<or> llen = 0 then 0 else tlen + llen)"

definition wtq_h3_frame_encode_header :: "u64 \<Rightarrow> u64 \<Rightarrow> nat \<Rightarrow> wtq_status + bytes" where
  "wtq_h3_frame_encode_header type len cap =
     (let need = wtq_h3_frame_header_len type len in
      if need = 0 then Inl RANGE
      else if cap < need then Inl BUFFER
      else let t = written (wtq_varint_encode type cap);
               l = written (wtq_varint_encode len (cap - length t))
           in Inr (t @ l))"

definition wtq_h3_frame_decode_header :: "bytes \<Rightarrow> wtq_status + wtq_h3_frame" where
  "wtq_h3_frame_decode_header src =
     (case wtq_varint_decode src of
        Inl st \<Rightarrow> Inl st
      | Inr (type, tlen) \<Rightarrow>
          (case wtq_varint_decode (drop tlen src) of
             Inl st \<Rightarrow> Inl st
           | Inr (len, llen) \<Rightarrow>
               Inr \<lparr>fr_type = type, fr_length = len, fr_header_len = tlen + llen\<rparr>))"

datatype wtq_h3_frame_dec_state = FRAME_DEC_TYPE | FRAME_DEC_LENGTH

record wtq_h3_frame_dec =
  fd_vi :: wtq_varint_dec
  fd_type :: u64
  fd_hdr_bytes :: nat \<comment> \<open>wire bytes accumulated across calls\<close>
  fd_state :: wtq_h3_frame_dec_state

definition wtq_h3_frame_dec_init :: wtq_h3_frame_dec where
  "wtq_h3_frame_dec_init =
     \<lparr>fd_vi = wtq_varint_dec_init, fd_type = 0, fd_hdr_bytes = 0, fd_state = FRAME_DEC_TYPE\<rparr>"

text \<open>The second half of the feed, from the Length varint on, with \<open>eaten\<close> bytes behind it.\<close>

definition h3_frame_feed_length ::
  "wtq_h3_frame_dec \<Rightarrow> bytes \<Rightarrow> nat \<Rightarrow> wtq_h3_frame_dec \<times> (wtq_status + wtq_h3_frame) \<times> nat" where
  "h3_frame_feed_length dec next_src eaten =
     (case wtq_varint_dec_feed (fd_vi dec) next_src of
        (vi, r, c) \<Rightarrow>
          let dec = dec\<lparr>fd_vi := vi, fd_hdr_bytes := fd_hdr_bytes dec + c\<rparr> in
          (case r of
             Inl st \<Rightarrow> (dec, Inl st, eaten + c)
           | Inr len \<Rightarrow>
               (wtq_h3_frame_dec_init,
                Inr \<lparr>fr_type = fd_type dec, fr_length = len, fr_header_len = fd_hdr_bytes dec\<rparr>,
                eaten + c)))"

definition wtq_h3_frame_dec_feed ::
  "wtq_h3_frame_dec \<Rightarrow> bytes \<Rightarrow> wtq_h3_frame_dec \<times> (wtq_status + wtq_h3_frame) \<times> nat" where
  "wtq_h3_frame_dec_feed dec src =
     (if fd_state dec = FRAME_DEC_TYPE then
        (case wtq_varint_dec_feed (fd_vi dec) src of
           (vi, r, c) \<Rightarrow>
             let dec = dec\<lparr>fd_vi := vi, fd_hdr_bytes := fd_hdr_bytes dec + c\<rparr> in
             (case r of
                Inl st \<Rightarrow> (dec, Inl st, c)
              | Inr v \<Rightarrow>
                  h3_frame_feed_length (dec\<lparr>fd_type := v, fd_state := FRAME_DEC_LENGTH\<rparr>)
                    (drop c src) c))
      else h3_frame_feed_length dec src 0)"

section \<open>Encoder and one-shot decoder\<close>

lemma varint_encode_eq:
  assumes "v \<le> WTQ_VARINT_MAX" "wtq_varint_len v \<le> cap"
  shows "wtq_varint_encode v cap = Inr (written (wtq_varint_encode v cap))"
    and "length (written (wtq_varint_encode v cap)) = wtq_varint_len v"
    and "wtq_varint_decode (written (wtq_varint_encode v cap) @ rest) = Inr (v, wtq_varint_len v)"
  using varint_encode_ok [OF assms, of rest] by auto

lemma header_len_pos:
  "0 < wtq_h3_frame_header_len t l \<longleftrightarrow> t \<le> WTQ_VARINT_MAX \<and> l \<le> WTQ_VARINT_MAX"
  using wtq_varint_len_eq_0 [of t] wtq_varint_len_eq_0 [of l]
  by (auto simp: wtq_h3_frame_header_len_def Let_def not_less)

lemma header_len_eq:
  "t \<le> WTQ_VARINT_MAX \<Longrightarrow> l \<le> WTQ_VARINT_MAX \<Longrightarrow>
   wtq_h3_frame_header_len t l = wtq_varint_len t + wtq_varint_len l"
  using wtq_varint_len_pos [of t] wtq_varint_len_pos [of l]
  by (auto simp: wtq_h3_frame_header_len_def Let_def simp del: wtq_varint_len_pos)

lemma header_len_le_16: "wtq_h3_frame_header_len t l \<le> 16"
  using wtq_varint_len_le_8 [of t] wtq_varint_len_le_8 [of l]
  by (simp add: wtq_h3_frame_header_len_def Let_def)

lemma h3_frame_encode_ok:
  assumes "t \<le> WTQ_VARINT_MAX" "l \<le> WTQ_VARINT_MAX" "wtq_h3_frame_header_len t l \<le> cap"
  shows "\<exists>enc. wtq_h3_frame_encode_header t l cap = Inr enc
           \<and> length enc = wtq_h3_frame_header_len t l
           \<and> wtq_h3_frame_decode_header (enc @ rest)
               = Inr \<lparr>fr_type = t, fr_length = l, fr_header_len = length enc\<rparr>"
proof -
  let ?t = "written (wtq_varint_encode t cap)"
  let ?l = "written (wtq_varint_encode l (cap - length ?t))"
  have len: "wtq_h3_frame_header_len t l = wtq_varint_len t + wtq_varint_len l"
    using assms by (simp add: header_len_eq)
  have ct: "wtq_varint_len t \<le> cap" and cl: "wtq_varint_len l \<le> cap - wtq_varint_len t"
    using assms(3) len by linarith+
  note T = varint_encode_eq [OF assms(1) ct] and L = varint_encode_eq [OF assms(2) cl]
  have "wtq_h3_frame_encode_header t l cap = Inr (?t @ ?l)"
    using assms header_len_pos [of t l] by (auto simp: wtq_h3_frame_encode_header_def Let_def)
  then show ?thesis
    using T(2) T(3) [of "?l @ rest"] L(2) L(3) [of rest]
    by (simp add: wtq_h3_frame_decode_header_def len)
qed

text \<open>
  Round trip of the frame header: a type and a length in varint range, with
  room for the whole header, encode to the announced number of bytes, and decoding
  them gives back both values and the header length without touching what follows.
\<close>

theorem h3_frame_header_roundtrip:
  assumes "t \<le> WTQ_VARINT_MAX" "l \<le> WTQ_VARINT_MAX" "wtq_h3_frame_header_len t l \<le> cap"
  shows "\<exists>enc. wtq_h3_frame_encode_header t l cap = Inr enc
           \<and> length enc = wtq_h3_frame_header_len t l
           \<and> wtq_h3_frame_decode_header (enc @ rest)
               = Inr \<lparr>fr_type = t, fr_length = l, fr_header_len = length enc\<rparr>"
  using assms by (rule h3_frame_encode_ok)

theorem h3_frame_header_roundtrip_witness:
  "\<exists>enc. wtq_h3_frame_encode_header WTQ_H3_FRAME_HEADERS 512 16 = Inr enc
     \<and> length enc = wtq_h3_frame_header_len WTQ_H3_FRAME_HEADERS 512
     \<and> wtq_h3_frame_decode_header (enc @ [1, 2, 3])
         = Inr \<lparr>fr_type = WTQ_H3_FRAME_HEADERS, fr_length = 512, fr_header_len = length enc\<rparr>"
  by (rule h3_frame_header_roundtrip)
    (simp_all add: WTQ_H3_FRAME_HEADERS_def WTQ_VARINT_MAX_def header_len_le_16)

section \<open>The incremental decoder\<close>

text \<open>
  Between calls the varint decoder inside is well formed and \<^verbatim>\<open>hdr_bytes\<close> is zero
  exactly when no header is mid-parse: the engine reads truncation off that
  counter.
\<close>

definition h3_frame_dec_inv :: "wtq_h3_frame_dec \<Rightarrow> bool" where
  "h3_frame_dec_inv d \<longleftrightarrow>
     varint_dec_inv (fd_vi d) \<and> (fd_hdr_bytes d = 0 \<longrightarrow> d = wtq_h3_frame_dec_init)"

lemma h3_frame_dec_inv_init [simp]: "h3_frame_dec_inv wtq_h3_frame_dec_init"
  by (simp add: h3_frame_dec_inv_def wtq_h3_frame_dec_init_def)

lemma varint_feed_Nil:
  "varint_dec_inv d \<Longrightarrow> wtq_varint_dec_feed d [] = (d, Inl NEED_MORE, 0)"
  by (auto simp: varint_dec_inv_def wtq_varint_dec_feed_def varint_feed_finish_def)

text \<open>A well-formed varint decoder makes progress on every nonempty chunk.\<close>

lemma varint_feed_progress:
  "varint_dec_inv d \<Longrightarrow> wtq_varint_dec_feed d xs = (d', r, n) \<Longrightarrow> xs \<noteq> [] \<Longrightarrow> 0 < n"
  by (cases xs)
    (auto simp: varint_dec_inv_def wtq_varint_dec_feed_def varint_feed_finish_def
      varint_feed_loop_eq Let_def split: if_splits)

lemma varint_feed_Inl:
  "wtq_varint_dec_feed d xs = (d', Inl e, n) \<Longrightarrow> e = NEED_MORE"
  by (auto simp: wtq_varint_dec_feed_def varint_feed_finish_def
      split: if_splits list.splits prod.splits)

lemma varint_feed_Inr:
  "wtq_varint_dec_feed d xs = (d', Inr v, n) \<Longrightarrow> d' = wtq_varint_dec_init"
  by (auto simp: wtq_varint_dec_feed_def varint_feed_finish_def
      split: if_splits list.splits prod.splits)

text \<open>A decoder whose varint is not fresh, or that waits for the Length, has eaten bytes.\<close>

lemma h3_frame_feed_Nil:
  "h3_frame_dec_inv d \<Longrightarrow> wtq_h3_frame_dec_feed d [] = (d, Inl NEED_MORE, 0)"
  by (auto simp: wtq_h3_frame_dec_feed_def h3_frame_feed_length_def h3_frame_dec_inv_def
      varint_feed_Nil split: prod.splits)

lemma h3_frame_feed_progress:
  assumes "h3_frame_dec_inv d" "wtq_h3_frame_dec_feed d xs = (d', r, n)" "xs \<noteq> []"
  shows "0 < n"
proof (cases "fd_state d")
  case FRAME_DEC_TYPE
  obtain vi r1 c where f: "wtq_varint_dec_feed (fd_vi d) xs = (vi, r1, c)" by (metis prod_cases3)
  then have "0 < c" using assms varint_feed_progress by (auto simp: h3_frame_dec_inv_def)
  with assms f FRAME_DEC_TYPE show ?thesis
    by (auto simp: wtq_h3_frame_dec_feed_def h3_frame_feed_length_def Let_def
        split: sum.splits prod.splits)
next
  case FRAME_DEC_LENGTH
  with assms show ?thesis
    by (auto simp: wtq_h3_frame_dec_feed_def h3_frame_feed_length_def h3_frame_dec_inv_def Let_def
        dest: varint_feed_progress split: sum.splits prod.splits)
qed

text \<open>The Length half: its own cut-and-continue laws.\<close>

lemma feed_length_more:
  assumes "varint_dec_inv (fd_vi d)" "h3_frame_feed_length d xs e = (d', Inl NEED_MORE, n)"
  shows "n = e + length xs" "fd_state d' = fd_state d" "varint_dec_inv (fd_vi d')"
    and "fd_hdr_bytes d' = fd_hdr_bytes d + length xs"
    and "h3_frame_feed_length d (xs @ ys) e = h3_frame_feed_length d' ys n"
proof -
  obtain vi c where f: "wtq_varint_dec_feed (fd_vi d) xs = (vi, Inl NEED_MORE, c)"
    and d': "d' = d\<lparr>fd_vi := vi, fd_hdr_bytes := fd_hdr_bytes d + c\<rparr>" and n: "n = e + c"
    using assms(2)
    by (auto simp: h3_frame_feed_length_def Let_def split: prod.splits sum.splits)
  have c: "c = length xs" using varint.feed_more [OF assms(1) f] .
  show "n = e + length xs" "fd_state d' = fd_state d" "varint_dec_inv (fd_vi d')"
    "fd_hdr_bytes d' = fd_hdr_bytes d + length xs"
    using n c d' varint.inv_feed [OF assms(1) f] by simp_all
  show "h3_frame_feed_length d (xs @ ys) e = h3_frame_feed_length d' ys n"
    using varint.feed_split [OF assms(1) f, of ys]
    by (simp add: h3_frame_feed_length_def d' n c Let_def add.assoc split: prod.splits sum.splits)
qed

lemma feed_length_done:
  assumes "varint_dec_inv (fd_vi d)" "h3_frame_feed_length d xs e = (d', r, n)"
    "r \<noteq> Inl NEED_MORE"
  shows "n \<le> e + length xs" "d' = wtq_h3_frame_dec_init"
    and "h3_frame_feed_length d (xs @ ys) e = (d', r, n)"
proof -
  obtain vi v c where f: "wtq_varint_dec_feed (fd_vi d) xs = (vi, Inr v, c)"
    and d': "d' = wtq_h3_frame_dec_init" and n: "n = e + c"
    and r: "r = Inr \<lparr>fr_type = fd_type d, fr_length = v, fr_header_len = fd_hdr_bytes d + c\<rparr>"
    using assms(2,3)
    by (auto simp: h3_frame_feed_length_def Let_def dest: varint_feed_Inl
        split: prod.splits sum.splits)
  show "n \<le> e + length xs" "d' = wtq_h3_frame_dec_init"
    using n d' varint.feed_bound [OF assms(1) f] by simp_all
  show "h3_frame_feed_length d (xs @ ys) e = (d', r, n)"
    using varint.feed_done [OF assms(1) f, of ys]
    by (simp add: h3_frame_feed_length_def d' n r)
qed

lemma feed_length_shift:
  "h3_frame_feed_length d ys e =
     (case h3_frame_feed_length d ys 0 of (d', r, m) \<Rightarrow> (d', r, e + m))"
  by (auto simp: h3_frame_feed_length_def Let_def split: prod.splits sum.splits)

text \<open>
  The whole feed is either still inside the Type varint, or the Length half on
  the rest of the chunk.
\<close>

lemma h3_frame_feed_cases:
  assumes "h3_frame_dec_inv d"
  obtains (inside) vi where "fd_state d = FRAME_DEC_TYPE"
      "wtq_varint_dec_feed (fd_vi d) xs = (vi, Inl NEED_MORE, length xs)"
      "wtq_h3_frame_dec_feed d xs =
         (d\<lparr>fd_vi := vi, fd_hdr_bytes := fd_hdr_bytes d + length xs\<rparr>, Inl NEED_MORE, length xs)"
  | (length_part) d0 c where "fd_state d0 = FRAME_DEC_LENGTH" "varint_dec_inv (fd_vi d0)"
      "c \<le> length xs" "c = 0 \<longrightarrow> fd_state d = FRAME_DEC_LENGTH \<and> d0 = d"
      "fd_hdr_bytes d0 = fd_hdr_bytes d + c"
      "\<And>ys. wtq_h3_frame_dec_feed d (xs @ ys) = h3_frame_feed_length d0 (drop c xs @ ys) c"
proof (cases "fd_state d")
  case FRAME_DEC_LENGTH
  then show ?thesis
    using assms by (intro length_part [of d 0]) (auto simp: wtq_h3_frame_dec_feed_def h3_frame_dec_inv_def)
next
  case FRAME_DEC_TYPE
  have inv: "varint_dec_inv (fd_vi d)" using assms by (simp add: h3_frame_dec_inv_def)
  obtain vi r c where f: "wtq_varint_dec_feed (fd_vi d) xs = (vi, r, c)" by (metis prod_cases3)
  show ?thesis
  proof (cases r)
    case (Inl e)
    then have e: "r = Inl NEED_MORE" using f varint_feed_Inl by metis
    with f have "c = length xs" using varint.feed_more [OF inv] by metis
    with e f FRAME_DEC_TYPE show ?thesis
      by (intro inside [of vi]) (auto simp: wtq_h3_frame_dec_feed_def)
  next
    case (Inr v)
    have c: "c \<le> length xs" using varint.feed_bound [OF inv f] .
    have "0 < c" if "xs \<noteq> []" using varint_feed_progress [OF inv f that] .
    moreover have "xs \<noteq> []" using f Inr varint_feed_Nil [OF inv] by auto
    ultimately have c0: "0 < c" by simp
    have vi: "vi = wtq_varint_dec_init" using f Inr varint_feed_Inr by metis
    have g: "wtq_varint_dec_feed (fd_vi d) (xs @ ys) = (vi, Inr v, c)" for ys
      using varint.feed_done [OF inv f] Inr by simp
    show ?thesis
      by (rule length_part [of "d\<lparr>fd_vi := vi, fd_hdr_bytes := fd_hdr_bytes d + c, fd_type := v,
              fd_state := FRAME_DEC_LENGTH\<rparr>" c])
        (use c c0 vi g FRAME_DEC_TYPE in \<open>auto simp: wtq_h3_frame_dec_feed_def\<close>)
  qed
qed

interpretation h3_frame: chunked_decoder wtq_h3_frame_dec_feed h3_frame_dec_inv
proof (unfold_locales, goal_cases)
  case (1 d xs d' r n)
  from 1(1) show ?case
  proof (cases rule: h3_frame_feed_cases [of d xs])
    case (inside vi)
    have "varint_dec_inv vi"
      using varint.inv_feed [OF _ inside(2)] 1(1) by (simp add: h3_frame_dec_inv_def)
    then show ?thesis
      using inside 1 varint_feed_Nil by (cases "xs = []") (auto simp: h3_frame_dec_inv_def wtq_h3_frame_dec_init_def)
  next
    case (length_part d0 c)
    have f: "h3_frame_feed_length d0 (drop c xs) c = (d', r, n)"
      using length_part(6) [of "[]"] 1(2) by simp
    show ?thesis
    proof (cases "r = Inl NEED_MORE")
      case True
      have "fd_hdr_bytes d0 \<noteq> 0"
        using length_part 1(1) by (cases "c = 0") (auto simp: h3_frame_dec_inv_def wtq_h3_frame_dec_init_def)
      then show ?thesis
        using feed_length_more(2-4) [OF length_part(2) f [unfolded True]] length_part(1)
        by (auto simp: h3_frame_dec_inv_def wtq_h3_frame_dec_init_def)
    next
      case False
      then show ?thesis using feed_length_done(2) [OF length_part(2) f] by simp
    qed
  qed
next
  case (2 d xs d' r n)
  from 2(1) show ?case
  proof (cases rule: h3_frame_feed_cases [of d xs])
    case (length_part d0 c)
    have f: "h3_frame_feed_length d0 (drop c xs) c = (d', r, n)"
      using length_part(6) [of "[]"] 2(2) by simp
    show ?thesis
    proof (cases "r = Inl NEED_MORE")
      case True
      then show ?thesis
        using feed_length_more(1) [OF length_part(2) f [unfolded True]] length_part(3) by simp
    next
      case False
      then show ?thesis using feed_length_done(1) [OF length_part(2) f] length_part(3) by simp
    qed
  qed (use 2 in simp)
next
  case (3 d xs d' n)
  from 3(1) show ?case
  proof (cases rule: h3_frame_feed_cases [of d xs])
    case (length_part d0 c)
    have f: "h3_frame_feed_length d0 (drop c xs) c = (d', Inl NEED_MORE, n)"
      using length_part(6) [of "[]"] 3(2) by simp
    then show ?thesis using feed_length_more(1) [OF length_part(2) f] length_part(3) by simp
  qed (use 3 in simp)
next
  case (4 d xs d' n ys)
  from 4(1) show ?case
  proof (cases rule: h3_frame_feed_cases [of d xs])
    case (inside vi)
    then show ?thesis
      using varint.feed_split [OF _ inside(2), of ys] 4
      by (auto simp: wtq_h3_frame_dec_feed_def h3_frame_dec_inv_def Let_def add.assoc
          h3_frame_feed_length_def split: prod.splits sum.splits)
  next
    case (length_part d0 c)
    have f: "h3_frame_feed_length d0 (drop c xs) c = (d', Inl NEED_MORE, n)"
      using length_part(6) [of "[]"] 4(2) by simp
    note more = feed_length_more [OF length_part(2) f]
    show ?thesis
      using more(1,2) more(5) [of ys] length_part(1,3,6) feed_length_shift [of d' ys n]
      by (simp add: wtq_h3_frame_dec_feed_def)
  qed
next
  case (5 d xs d' r n ys)
  from 5(1) show ?case
  proof (cases rule: h3_frame_feed_cases [of d xs])
    case (length_part d0 c)
    have f: "h3_frame_feed_length d0 (drop c xs) c = (d', r, n)"
      using length_part(6) [of "[]"] 5(2) by simp
    show ?thesis using feed_length_done(3) [OF length_part(2) f 5(3), of ys] length_part(6) by simp
  qed (use 5 in simp)
qed

lemma h3_frame_feed_decode:
  "case wtq_h3_frame_decode_header xs of
     Inr fr \<Rightarrow> wtq_h3_frame_dec_feed wtq_h3_frame_dec_init xs
                = (wtq_h3_frame_dec_init, Inr fr, fr_header_len fr)
   | Inl e \<Rightarrow> \<exists>d. wtq_h3_frame_dec_feed wtq_h3_frame_dec_init xs = (d, Inl NEED_MORE, length xs)"
proof (cases "wtq_varint_decode xs")
  case (Inl e)
  then show ?thesis
    using varint_feed_decode [of xs]
    by (auto simp: wtq_h3_frame_decode_header_def wtq_h3_frame_dec_feed_def wtq_h3_frame_dec_init_def)
next
  case (Inr p)
  then obtain t c where p: "wtq_varint_decode xs = Inr (t, c)" by (cases p) auto
  then have first: "wtq_varint_dec_feed wtq_varint_dec_init xs = (wtq_varint_dec_init, Inr t, c)"
    and c: "c \<le> length xs"
    using varint_feed_decode [of xs] wtq_varint_decode_OK(2) [OF p] by auto
  show ?thesis
    using varint_feed_decode [of "drop c xs"] first p c
    by (cases "wtq_varint_decode (drop c xs)")
      (auto simp: wtq_h3_frame_decode_header_def wtq_h3_frame_dec_feed_def wtq_h3_frame_dec_init_def
        h3_frame_feed_length_def)
qed

text \<open>
  C33. Chunking never changes the result of the incremental frame-header decoder,
  and it agrees with the one-shot decoder: over any sequence of chunks it reports
  the header that \<^verbatim>\<open>wtq_h3_frame_decode_header\<close> reads from the concatenation, having
  eaten exactly the header bytes and no payload byte, or it has eaten everything
  and needs more.
\<close>

theorem h3_frame_chunked_decode:
  "case wtq_h3_frame_decode_header (concat cs) of
     Inr fr \<Rightarrow>
       feed_chunks wtq_h3_frame_dec_feed wtq_h3_frame_dec_init cs
         = (wtq_h3_frame_dec_init, Inr fr, fr_header_len fr)
   | Inl e \<Rightarrow>
       \<exists>d. feed_chunks wtq_h3_frame_dec_feed wtq_h3_frame_dec_init cs
             = (d, Inl NEED_MORE, length (concat cs))"
proof (cases "cs = []")
  case False
  have eq: "feed_chunks wtq_h3_frame_dec_feed wtq_h3_frame_dec_init cs
      = wtq_h3_frame_dec_feed wtq_h3_frame_dec_init (concat cs)"
    using h3_frame_dec_inv_init False by (rule h3_frame.feed_chunks_concat)
  show ?thesis unfolding eq by (rule h3_frame_feed_decode)
qed (simp add: wtq_h3_frame_decode_header_def)

end
