(* ===== verification/Capsule.thy ===== *)
theory Capsule
  imports H3_Frame
begin

text \<open>
  The capsule protocol on the CONNECT stream: \<^verbatim>\<open>src/proto/capsule.c\<close> and
  \<^verbatim>\<open>capsule.h\<close>. Encoders of WT_CLOSE_SESSION and WT_DRAIN_SESSION and the
  incremental decoder, which keeps the close reason in an inline buffer of 1024
  bytes, skips the payload of unknown capsules and latches on a known capsule of
  an invalid shape.
\<close>

definition WTQ_CAPSULE_CLOSE_SESSION :: u64 where "WTQ_CAPSULE_CLOSE_SESSION = 0x2843"
definition WTQ_CAPSULE_DRAIN_SESSION :: u64 where "WTQ_CAPSULE_DRAIN_SESSION = 0x78ae"
definition WTQ_CAPSULE_MAX_REASON :: nat where "WTQ_CAPSULE_MAX_REASON = 1024"

lemmas capsule_consts =
  WTQ_CAPSULE_CLOSE_SESSION_def WTQ_CAPSULE_DRAIN_SESSION_def WTQ_CAPSULE_MAX_REASON_def

text \<open>The value 0 of the decoder's kind field, before a header is complete, is \<open>CAP_KIND_NONE\<close>.\<close>

datatype wtq_capsule_kind = CAP_KIND_NONE | CAP_KIND_CLOSE | CAP_KIND_DRAIN | CAP_KIND_UNKNOWN

record wtq_capsule =
  cap_kind :: wtq_capsule_kind
  cap_type :: u64
  cap_length :: u64
  cap_header_len :: nat
  cap_close_code :: u32
  cap_reason :: bytes \<comment> \<open>the \<^verbatim>\<open>reason_len\<close> bytes at \<^verbatim>\<open>reason\<close>\<close>

section \<open>Encoders\<close>

definition wtq_capsule_encode_header :: "u64 \<Rightarrow> u64 \<Rightarrow> nat \<Rightarrow> wtq_status + bytes" where
  "wtq_capsule_encode_header type len cap = wtq_h3_frame_encode_header type len cap"

definition wtq_capsule_decode_header :: "bytes \<Rightarrow> wtq_status + wtq_h3_frame" where
  "wtq_capsule_decode_header src = wtq_h3_frame_decode_header src"

definition wtq_capsule_encode_drain :: "nat \<Rightarrow> wtq_status + bytes" where
  "wtq_capsule_encode_drain cap = wtq_capsule_encode_header WTQ_CAPSULE_DRAIN_SESSION 0 cap"

definition code_bytes :: "u32 \<Rightarrow> bytes" where
  "code_bytes code =
     [ucast (drop_bit 24 code), ucast (drop_bit 16 code), ucast (drop_bit 8 code), ucast code]"

definition wtq_capsule_encode_close :: "u32 \<Rightarrow> bytes \<Rightarrow> nat \<Rightarrow> wtq_status + bytes" where
  "wtq_capsule_encode_close code reason cap =
     (if length reason > WTQ_CAPSULE_MAX_REASON then Inl RANGE
      else
        let payload_len = 4 + of_nat (length reason) :: u64;
            header_len = wtq_h3_frame_header_len WTQ_CAPSULE_CLOSE_SESSION payload_len
        in if cap < header_len + unat payload_len then Inl BUFFER
           else Inr (written (wtq_capsule_encode_header WTQ_CAPSULE_CLOSE_SESSION payload_len cap)
                     @ code_bytes code @ reason))"

section \<open>The incremental decoder\<close>

datatype wtq_capsule_dec_state = CAP_DEC_HEADER | CAP_DEC_PAYLOAD | CAP_DEC_POISONED

text \<open>
  The reason buffer and its fill count are one list: the first \<^verbatim>\<open>reason_len\<close> bytes
  of \<^verbatim>\<open>reason[1024]\<close>. That it never outgrows the buffer is part of the invariant.
\<close>

record wtq_capsule_dec =
  cd_hdr :: wtq_h3_frame_dec
  cd_state :: wtq_capsule_dec_state
  cd_kind :: wtq_capsule_kind
  cd_code_have :: nat
  cd_type :: u64
  cd_payload_len :: u64
  cd_remaining :: u64
  cd_header_len :: nat
  cd_code_acc :: u32
  cd_reason :: bytes

definition wtq_capsule_dec_init :: wtq_capsule_dec where
  "wtq_capsule_dec_init =
     \<lparr>cd_hdr = wtq_h3_frame_dec_init, cd_state = CAP_DEC_HEADER, cd_kind = CAP_KIND_NONE,
      cd_code_have = 0, cd_type = 0, cd_payload_len = 0, cd_remaining = 0, cd_header_len = 0,
      cd_code_acc = 0, cd_reason = []\<rparr>"

text \<open>The kind of a completed header, or \<open>None\<close> for a known capsule of an invalid shape.\<close>

definition classify :: "wtq_capsule_dec \<Rightarrow> wtq_capsule_dec option" where
  "classify dec =
     (if cd_type dec = WTQ_CAPSULE_CLOSE_SESSION then
        (if cd_payload_len dec < 4
            \<or> cd_payload_len dec > 4 + of_nat WTQ_CAPSULE_MAX_REASON then None
         else Some (dec\<lparr>cd_kind := CAP_KIND_CLOSE\<rparr>))
      else if cd_type dec = WTQ_CAPSULE_DRAIN_SESSION then
        (if cd_payload_len dec \<noteq> 0 then None
         else Some (dec\<lparr>cd_kind := CAP_KIND_DRAIN\<rparr>))
      else Some (dec\<lparr>cd_kind := CAP_KIND_UNKNOWN\<rparr>))"

definition capsule_emit :: "wtq_capsule_dec \<Rightarrow> wtq_capsule_dec \<times> wtq_capsule" where
  "capsule_emit dec =
     (wtq_capsule_dec_init,
      \<lparr>cap_kind = cd_kind dec, cap_type = cd_type dec, cap_length = cd_payload_len dec,
       cap_header_len = cd_header_len dec, cap_close_code = cd_code_acc dec,
       cap_reason = cd_reason dec\<rparr>)"

text \<open>The loop that gathers the 32-bit error code, and the bytes it leaves for the reason.\<close>

fun capsule_code_loop :: "wtq_capsule_dec \<Rightarrow> bytes \<Rightarrow> wtq_capsule_dec \<times> bytes" where
  "capsule_code_loop dec [] = (dec, [])"
| "capsule_code_loop dec (b # bs) =
     (if cd_code_have dec < 4 then
        capsule_code_loop
          (dec\<lparr>cd_code_acc := push_bit 8 (cd_code_acc dec) OR ucast b,
               cd_code_have := cd_code_have dec + 1\<rparr>) bs
      else (dec, b # bs))"

definition capsule_absorb :: "wtq_capsule_dec \<Rightarrow> bytes \<Rightarrow> wtq_capsule_dec" where
  "capsule_absorb dec bs =
     (if cd_kind dec = CAP_KIND_CLOSE then
        (case capsule_code_loop dec bs of
           (dec, rest) \<Rightarrow> dec\<lparr>cd_reason := cd_reason dec @ rest\<rparr>)
      else dec)"

function capsule_payload_loop :: "wtq_capsule_dec \<Rightarrow> bytes \<Rightarrow> nat \<Rightarrow> wtq_capsule_dec \<times> nat" where
  "capsule_payload_loop dec src eaten =
     (if cd_remaining dec > 0 \<and> src \<noteq> [] then
        let n = (if unat (cd_remaining dec) < length src then unat (cd_remaining dec) else length src);
            dec = capsule_absorb dec (take n src);
            dec = dec\<lparr>cd_remaining := cd_remaining dec - of_nat n\<rparr>
        in capsule_payload_loop dec (drop n src) (eaten + n)
      else (dec, eaten))"
  by auto

termination
  by (relation "measure (\<lambda>(dec, src, eaten). length src)") (auto simp: unat_gt_0 word_gt_0)

definition capsule_feed_payload ::
  "wtq_capsule_dec \<Rightarrow> bytes \<Rightarrow> nat \<Rightarrow> wtq_capsule_dec \<times> (wtq_status + wtq_capsule) \<times> nat" where
  "capsule_feed_payload dec src eaten =
     (case capsule_payload_loop dec src eaten of
        (dec, eaten) \<Rightarrow>
          if cd_remaining dec > 0 then (dec, Inl NEED_MORE, eaten)
          else (case capsule_emit dec of (dec, out) \<Rightarrow> (dec, Inr out, eaten)))"

definition wtq_capsule_dec_feed ::
  "wtq_capsule_dec \<Rightarrow> bytes \<Rightarrow> wtq_capsule_dec \<times> (wtq_status + wtq_capsule) \<times> nat" where
  "wtq_capsule_dec_feed dec src =
     (case cd_state dec of
        CAP_DEC_POISONED \<Rightarrow> (dec, Inl MALFORMED, 0)
      | CAP_DEC_PAYLOAD \<Rightarrow> capsule_feed_payload dec src 0
      | CAP_DEC_HEADER \<Rightarrow>
          (case wtq_h3_frame_dec_feed (cd_hdr dec) src of
             (hdr_dec, r, c) \<Rightarrow>
               let dec = dec\<lparr>cd_hdr := hdr_dec\<rparr> in
               (case r of
                  Inl st \<Rightarrow> (dec, Inl st, c)
                | Inr hdr \<Rightarrow>
                    let dec = dec\<lparr>cd_type := fr_type hdr, cd_payload_len := fr_length hdr,
                                  cd_remaining := fr_length hdr, cd_header_len := fr_header_len hdr,
                                  cd_code_have := 0, cd_code_acc := 0, cd_reason := []\<rparr> in
                    (case classify dec of
                       None \<Rightarrow> (dec\<lparr>cd_state := CAP_DEC_POISONED\<rparr>, Inl MALFORMED, c)
                     | Some dec \<Rightarrow>
                         if cd_remaining dec = 0
                         then (case capsule_emit dec of (dec, out) \<Rightarrow> (dec, Inr out, c))
                         else capsule_feed_payload (dec\<lparr>cd_state := CAP_DEC_PAYLOAD\<rparr>)
                                (drop c src) c))))"

declare capsule_payload_loop.simps [simp del]

section \<open>The payload loop\<close>

definition code_fold :: "u32 \<Rightarrow> bytes \<Rightarrow> u32" where
  "code_fold acc bs = foldl (\<lambda>a b. push_bit 8 a OR ucast b) acc bs"

lemma code_fold_simps [simp]:
  "code_fold acc [] = acc"
  "code_fold acc (b # bs) = code_fold (push_bit 8 acc OR ucast b) bs"
  "code_fold acc (xs @ ys) = code_fold (code_fold acc xs) ys"
  by (simp_all add: code_fold_def)

lemma code_loop_eq:
  "capsule_code_loop d bs =
     (d\<lparr>cd_code_acc := code_fold (cd_code_acc d) (take (4 - cd_code_have d) bs),
        cd_code_have := cd_code_have d + length (take (4 - cd_code_have d) bs)\<rparr>,
      drop (4 - cd_code_have d) bs)"
proof (induction d bs rule: capsule_code_loop.induct)
  case (2 dec b bs)
  show ?case
  proof (cases "cd_code_have dec < 4")
    case True
    then have k: "4 - cd_code_have dec = Suc (4 - (cd_code_have dec + 1))" by simp
    show ?thesis using True 2 unfolding k by simp
  qed simp
qed simp

text \<open>What a chunk of payload does to the decoder: nothing but for a CLOSE capsule.\<close>

lemma capsule_absorb_eq:
  "capsule_absorb d bs =
     (if cd_kind d = CAP_KIND_CLOSE then
        d\<lparr>cd_code_acc := code_fold (cd_code_acc d) (take (4 - cd_code_have d) bs),
          cd_code_have := cd_code_have d + length (take (4 - cd_code_have d) bs),
          cd_reason := cd_reason d @ drop (4 - cd_code_have d) bs\<rparr>
      else d)"
  by (simp add: capsule_absorb_def code_loop_eq)

lemma absorb_append: "capsule_absorb d (xs @ ys) = capsule_absorb (capsule_absorb d xs) ys"
  by (cases d) (auto simp: capsule_absorb_eq min_def)

lemma absorb_fields [simp]:
  "cd_remaining (capsule_absorb d bs) = cd_remaining d"
  "cd_kind (capsule_absorb d bs) = cd_kind d"
  "cd_state (capsule_absorb d bs) = cd_state d"
  "cd_hdr (capsule_absorb d bs) = cd_hdr d"
  "cd_payload_len (capsule_absorb d bs) = cd_payload_len d"
  by (simp_all add: capsule_absorb_eq)

lemma absorb_Nil [simp]: "capsule_absorb d [] = d"
  by (simp add: capsule_absorb_def)

lemma absorb_remaining:
  "capsule_absorb (d\<lparr>cd_remaining := r\<rparr>) bs = (capsule_absorb d bs)\<lparr>cd_remaining := r\<rparr>"
  by (cases d) (simp add: capsule_absorb_eq)

lemma payload_loop_stop:
  "\<not> (cd_remaining d > 0 \<and> src \<noteq> []) \<Longrightarrow> capsule_payload_loop d src e = (d, e)"
  by (subst capsule_payload_loop.simps) auto

text \<open>The loop runs at most once: it takes what is left of the payload or of the chunk.\<close>

lemma payload_loop_eq:
  "capsule_payload_loop d src e =
     (let n = min (unat (cd_remaining d)) (length src)
      in ((capsule_absorb d (take n src))\<lparr>cd_remaining := cd_remaining d - of_nat n\<rparr>, e + n))"
proof (cases "cd_remaining d > 0 \<and> src \<noteq> []")
  case True
  let ?n = "min (unat (cd_remaining d)) (length src)"
  let ?d = "(capsule_absorb d (take ?n src))\<lparr>cd_remaining := cd_remaining d - of_nat ?n\<rparr>"
  have n: "(if unat (cd_remaining d) < length src then unat (cd_remaining d) else length src) = ?n"
    by simp
  have "capsule_payload_loop d src e = capsule_payload_loop ?d (drop ?n src) (e + ?n)"
    using True
    by (subst capsule_payload_loop.simps)
      (simp only: n Let_def simp_thms if_True absorb_fields)
  moreover have "\<not> (cd_remaining ?d > 0 \<and> drop ?n src \<noteq> [])"
    by (auto simp: min_def split: if_splits)
  ultimately show ?thesis using payload_loop_stop [of ?d] by (simp only: Let_def simp_thms)
next
  case False
  then show ?thesis using payload_loop_stop [of d src e]
    by (cases d) (auto simp: Let_def word_gt_0)
qed

lemma feed_payload_eq:
  "capsule_feed_payload d src e =
     (if length src < unat (cd_remaining d) then
        ((capsule_absorb d src)\<lparr>cd_remaining := cd_remaining d - of_nat (length src)\<rparr>,
         Inl NEED_MORE, e + length src)
      else
        (wtq_capsule_dec_init,
         Inr (snd (capsule_emit (capsule_absorb d (take (unat (cd_remaining d)) src)))),
         e + unat (cd_remaining d)))"
proof (cases "length src < unat (cd_remaining d)")
  case True
  then have "unat (cd_remaining d - of_nat (length src)) \<noteq> 0" by (simp add: word_nat)
  then have "cd_remaining d - of_nat (length src) \<noteq> 0" by (metis unsigned_0)
  then show ?thesis
    using True by (simp add: capsule_feed_payload_def payload_loop_eq Let_def min_def word_gt_0)
next
  case False
  then show ?thesis
    by (simp add: capsule_feed_payload_def payload_loop_eq Let_def min_def capsule_emit_def)
qed

section \<open>Well-formed decoder states\<close>

text \<open>
  While a payload is read some of it is outstanding; a CLOSE payload has the
  length that \<^verbatim>\<open>classify\<close> admitted, its first four bytes go to the code, and code,
  reason and outstanding bytes add up. The reason never exceeds its buffer.
\<close>

definition capsule_dec_inv :: "wtq_capsule_dec \<Rightarrow> bool" where
  "capsule_dec_inv d \<longleftrightarrow>
     h3_frame_dec_inv (cd_hdr d)
     \<and> length (cd_reason d) \<le> WTQ_CAPSULE_MAX_REASON
     \<and> (cd_state d = CAP_DEC_PAYLOAD \<longrightarrow>
          0 < unat (cd_remaining d)
          \<and> (cd_kind d = CAP_KIND_CLOSE \<longrightarrow>
               cd_code_have d \<le> 4
               \<and> unat (cd_payload_len d) \<le> 4 + WTQ_CAPSULE_MAX_REASON
               \<and> (cd_code_have d < 4 \<longrightarrow> cd_reason d = [])
               \<and> cd_code_have d + length (cd_reason d) + unat (cd_remaining d)
                   = unat (cd_payload_len d)))"

lemma capsule_dec_inv_init [simp]: "capsule_dec_inv wtq_capsule_dec_init"
  by (simp add: capsule_dec_inv_def wtq_capsule_dec_init_def)

lemma absorb_inv:
  assumes "capsule_dec_inv d" "cd_state d = CAP_DEC_PAYLOAD" "length xs < unat (cd_remaining d)"
  shows "capsule_dec_inv ((capsule_absorb d xs)\<lparr>cd_remaining := cd_remaining d - of_nat (length xs)\<rparr>)"
  using assms by (auto simp: capsule_dec_inv_def capsule_absorb_eq word_nat)

lemma feed_payload_shift:
  "capsule_feed_payload d src e =
     (case capsule_feed_payload d src 0 of (d', r, m) \<Rightarrow> (d', r, e + m))"
  by (simp add: feed_payload_eq)

lemma feed_payload_Nil:
  "0 < unat (cd_remaining d) \<Longrightarrow> capsule_feed_payload d [] e = (d, Inl NEED_MORE, e)"
  by (cases d) (simp add: feed_payload_eq)

lemma feed_payload_byte:
  fixes d :: wtq_capsule_dec and b :: byte
  assumes "1 < unat (cd_remaining d)"
  defines "d1 \<equiv> (capsule_absorb d [b])\<lparr>cd_remaining := cd_remaining d - 1\<rparr>"
  shows "capsule_feed_payload d (b # bs) 0
    = (case capsule_feed_payload d1 bs 0 of (d', r, m) \<Rightarrow> (d', r, Suc m))"
proof -
  have rem: "unat (cd_remaining d1) = unat (cd_remaining d) - 1"
    using assms unat_minus_of_nat [of 1 "cd_remaining d"] by (simp add: d1_def)
  have ab: "capsule_absorb d1 ys = (capsule_absorb d (b # ys))\<lparr>cd_remaining := cd_remaining d1\<rparr>" for ys
    using absorb_append [of d "[b]" ys] by (simp add: d1_def absorb_remaining)
  have em: "snd (capsule_emit (c\<lparr>cd_remaining := r\<rparr>)) = snd (capsule_emit c)" for c r
    by (simp add: capsule_emit_def)
  have tk: "take (unat (cd_remaining d)) (b # bs) = b # take (unat (cd_remaining d1)) bs"
    using assms rem by (cases "unat (cd_remaining d)") auto
  have step: "cd_remaining d1 = cd_remaining d - 1" by (simp add: d1_def)
  show ?thesis
    using assms(1)
    by (auto simp add: feed_payload_eq rem ab em tk simp del: take_Suc_Cons)
      (simp_all add: step)
qed

section \<open>The decoder is a byte decoder\<close>

lemma h3_frame_feed_Inl:
  "wtq_h3_frame_dec_feed d xs = (d', Inl e, n) \<Longrightarrow> e = NEED_MORE"
  by (auto simp: wtq_h3_frame_dec_feed_def h3_frame_feed_length_def Let_def
      dest: varint_feed_Inl split: if_splits prod.splits sum.splits)

text \<open>What the end of a header does, with the rest of the chunk still to come.\<close>

definition capsule_header_done ::
  "wtq_capsule_dec \<Rightarrow> wtq_h3_frame \<Rightarrow> bytes \<Rightarrow> nat
     \<Rightarrow> wtq_capsule_dec \<times> (wtq_status + wtq_capsule) \<times> nat" where
  "capsule_header_done dec hdr rest c =
     (let dec = dec\<lparr>cd_type := fr_type hdr, cd_payload_len := fr_length hdr,
                    cd_remaining := fr_length hdr, cd_header_len := fr_header_len hdr,
                    cd_code_have := 0, cd_code_acc := 0, cd_reason := []\<rparr> in
      case classify dec of
        None \<Rightarrow> (dec\<lparr>cd_state := CAP_DEC_POISONED\<rparr>, Inl MALFORMED, c)
      | Some dec \<Rightarrow>
          if cd_remaining dec = 0
          then (case capsule_emit dec of (dec, out) \<Rightarrow> (dec, Inr out, c))
          else capsule_feed_payload (dec\<lparr>cd_state := CAP_DEC_PAYLOAD\<rparr>) rest c)"

lemma capsule_header_done_Suc:
  "capsule_header_done d hdr rest (Suc c) =
     (case capsule_header_done d hdr rest c of (d', r, m) \<Rightarrow> (d', r, Suc m))"
  by (simp add: capsule_header_done_def feed_payload_eq Let_def split: option.splits prod.splits)

lemma capsule_feed_header:
  "cd_state d = CAP_DEC_HEADER \<Longrightarrow>
   wtq_capsule_dec_feed d src =
     (case wtq_h3_frame_dec_feed (cd_hdr d) src of
        (h, Inl st, c) \<Rightarrow> (d\<lparr>cd_hdr := h\<rparr>, Inl st, c)
      | (h, Inr hdr, c) \<Rightarrow> capsule_header_done (d\<lparr>cd_hdr := h\<rparr>) hdr (drop c src) c)"
  by (simp add: wtq_capsule_dec_feed_def capsule_header_done_def Let_def
      split: prod.splits sum.splits)

lemma capsule_feed_payload_state:
  "cd_state d = CAP_DEC_PAYLOAD \<Longrightarrow> wtq_capsule_dec_feed d src = capsule_feed_payload d src 0"
  by (simp add: wtq_capsule_dec_feed_def)

lemma capsule_feed_poisoned:
  "cd_state d = CAP_DEC_POISONED \<Longrightarrow> wtq_capsule_dec_feed d src = (d, Inl MALFORMED, 0)"
  by (simp add: wtq_capsule_dec_feed_def)

text \<open>The end of a header latches, emits an empty capsule, or enters the payload.\<close>

lemma capsule_header_done_cases:
  assumes "h3_frame_dec_inv (cd_hdr d)"
  obtains (latch) d' where "capsule_dec_inv d'" "cd_state d' = CAP_DEC_POISONED"
      "\<And>rest c. capsule_header_done d hdr rest c = (d', Inl MALFORMED, c)"
  | (emit) out where
      "\<And>rest c. capsule_header_done d hdr rest c = (wtq_capsule_dec_init, Inr out, c)"
  | (payload) d' where "capsule_dec_inv d'" "cd_state d' = CAP_DEC_PAYLOAD"
      "\<And>rest c. capsule_header_done d hdr rest c = capsule_feed_payload d' rest c"
proof -
  let ?d = "d\<lparr>cd_type := fr_type hdr, cd_payload_len := fr_length hdr,
              cd_remaining := fr_length hdr, cd_header_len := fr_header_len hdr,
              cd_code_have := 0, cd_code_acc := 0, cd_reason := []\<rparr>"
  show ?thesis
  proof (cases "classify ?d")
    case None
    then show ?thesis
      using assms
      by (intro latch [of "?d\<lparr>cd_state := CAP_DEC_POISONED\<rparr>"])
        (auto simp: capsule_header_done_def capsule_dec_inv_def)
  next
    case (Some d1)
    have close: "cd_kind d1 = CAP_KIND_CLOSE \<Longrightarrow> unat (fr_length hdr) \<le> 1028"
      and f: "cd_remaining d1 = fr_length hdr" "cd_payload_len d1 = fr_length hdr"
        "cd_hdr d1 = cd_hdr d" "cd_reason d1 = []" "cd_code_have d1 = 0"
      using Some by (auto simp: classify_def WTQ_CAPSULE_MAX_REASON_def word_le_nat_alt not_less
          split: if_splits)
    show ?thesis
    proof (cases "fr_length hdr = 0")
      case True
      then show ?thesis
        using Some f by (intro emit) (auto simp: capsule_header_done_def capsule_emit_def)
    next
      case False
      then have "0 < unat (fr_length hdr)" by (simp add: unat_gt_0)
      then show ?thesis
        using Some f assms False close
        by (intro payload [of "d1\<lparr>cd_state := CAP_DEC_PAYLOAD\<rparr>"])
          (auto simp: capsule_header_done_def capsule_dec_inv_def WTQ_CAPSULE_MAX_REASON_def)
    qed
  qed
qed

lemma capsule_payload_byte_cases:
  assumes "capsule_dec_inv d" "cd_state d = CAP_DEC_PAYLOAD"
  obtains (more) d' where "capsule_dec_inv d'" "cd_state d' = CAP_DEC_PAYLOAD"
      "capsule_feed_payload d [b] 0 = (d', Inl NEED_MORE, 1)"
      "\<And>bs. capsule_feed_payload d (b # bs) 0
         = (case capsule_feed_payload d' bs 0 of (d'', r, m) \<Rightarrow> (d'', r, Suc m))"
  | (final) out where
      "\<And>bs. capsule_feed_payload d (b # bs) 0 = (wtq_capsule_dec_init, Inr out, 1)"
proof (cases "unat (cd_remaining d) = 1")
  case True
  then show ?thesis by (intro final) (simp add: feed_payload_eq)
next
  case False
  then have r: "1 < unat (cd_remaining d)" using assms by (simp add: capsule_dec_inv_def)
  let ?d = "(capsule_absorb d [b])\<lparr>cd_remaining := cd_remaining d - 1\<rparr>"
  have inv': "capsule_dec_inv ?d" using absorb_inv [OF assms, of "[b]"] r by simp
  have st: "cd_state ?d = CAP_DEC_PAYLOAD" using assms(2) by simp
  have rem: "0 < unat (cd_remaining ?d)" using inv' st by (simp add: capsule_dec_inv_def)
  note step = feed_payload_byte [OF r, of b]
  show ?thesis
    by (rule more [OF inv' st _ step]) (use step [of "[]"] feed_payload_Nil [OF rem] in simp)
qed

lemma capsule_feed_byte_cases:
  assumes "capsule_dec_inv d"
  obtains (more) d' where "capsule_dec_inv d'"
      "wtq_capsule_dec_feed d [b] = (d', Inl NEED_MORE, 1)"
      "\<And>bs. wtq_capsule_dec_feed d (b # bs)
         = (case wtq_capsule_dec_feed d' bs of (d'', r, m) \<Rightarrow> (d'', r, Suc m))"
  | (final) d' r n where "r \<noteq> Inl NEED_MORE" "n \<le> 1" "capsule_dec_inv d'"
      "\<And>bs. wtq_capsule_dec_feed d (b # bs) = (d', r, n)"
proof (cases "cd_state d")
  case CAP_DEC_POISONED
  then show ?thesis using assms capsule_feed_poisoned by (intro final [of "Inl MALFORMED" 0 d]) auto
next
  case CAP_DEC_PAYLOAD
  note p = capsule_feed_payload_state
  from assms CAP_DEC_PAYLOAD show ?thesis
  proof (cases rule: capsule_payload_byte_cases [of d b])
    case (more d')
    then show ?thesis using that(1) [of d'] p [OF CAP_DEC_PAYLOAD] p [OF more(2)] by simp
  next
    case (final out)
    then show ?thesis
      using that(2) [of "Inr out" 1 wtq_capsule_dec_init] p [OF CAP_DEC_PAYLOAD] by simp
  qed
next
  case CAP_DEC_HEADER
  have inv: "h3_frame_dec_inv (cd_hdr d)" using assms by (simp add: capsule_dec_inv_def)
  from inv show ?thesis
  proof (cases rule: h3_frame.byte_cases [of "cd_hdr d" b])
    case (more h)
    let ?d = "d\<lparr>cd_hdr := h\<rparr>"
    have st: "cd_state ?d = CAP_DEC_HEADER" using CAP_DEC_HEADER by simp
    have "capsule_dec_inv ?d" using assms more(1) CAP_DEC_HEADER by (simp add: capsule_dec_inv_def)
    moreover have "wtq_capsule_dec_feed d [b] = (?d, Inl NEED_MORE, 1)"
      using more(2) by (simp add: capsule_feed_header [OF CAP_DEC_HEADER])
    moreover have "wtq_capsule_dec_feed d (b # bs)
        = (case wtq_capsule_dec_feed ?d bs of (d'', r, m) \<Rightarrow> (d'', r, Suc m))" for bs
      using more(3) [of bs]
      by (auto simp: capsule_feed_header [OF CAP_DEC_HEADER] capsule_feed_header [OF st]
          capsule_header_done_Suc split: prod.splits sum.splits)
    ultimately show ?thesis by (rule that(1))
  next
    case (final h r n)
    obtain hdr where r: "r = Inr hdr"
      using final(1) h3_frame_feed_Inl [of "cd_hdr d" "[b]" h] final(4) [of "[]"] by (cases r) auto
    have n: "n = 1" using final(2) h3_frame_feed_progress [OF inv final(4) [of "[]"]] by simp
    have feed: "wtq_capsule_dec_feed d (b # bs) = capsule_header_done (d\<lparr>cd_hdr := h\<rparr>) hdr bs 1" for bs
      using final(4) [of bs] by (simp add: capsule_feed_header [OF CAP_DEC_HEADER] r n)
    from final(3) have "h3_frame_dec_inv (cd_hdr (d\<lparr>cd_hdr := h\<rparr>))" by simp
    then show ?thesis
    proof (cases rule: capsule_header_done_cases [of "d\<lparr>cd_hdr := h\<rparr>" hdr])
      case (latch d')
      then show ?thesis using that(2) [of "Inl MALFORMED" 1 d'] feed by simp
    next
      case (emit out)
      then show ?thesis using that(2) [of "Inr out" 1 wtq_capsule_dec_init] feed by simp
    next
      case (payload d')
      have "0 < unat (cd_remaining d')" using payload by (simp add: capsule_dec_inv_def)
      then show ?thesis
        using that(1) [of d'] payload feed feed_payload_shift [of d' _ 1]
        by (simp add: capsule_feed_payload_state [OF payload(2)] feed_payload_Nil)
    qed
  qed
qed

interpretation capsule: byte_decoder wtq_capsule_dec_feed capsule_dec_inv
proof (unfold_locales, goal_cases)
  case (1 d b d' r n)
  from 1(1) show ?case
    by (cases rule: capsule_feed_byte_cases [of d b]) (use 1(2) in auto)
next
  case (2 d)
  then show ?case
    by (cases "cd_state d")
      (auto simp: capsule_feed_header capsule_feed_payload_state capsule_feed_poisoned
        feed_payload_Nil capsule_dec_inv_def h3_frame_feed_Nil)
next
  case (3 d b bs)
  from 3 show ?case
  proof (cases rule: capsule_feed_byte_cases [of d b])
    case (final d' r n)
    then show ?thesis by (auto split: sum.splits wtq_status.splits)
  qed simp
next
  case (4 d b d' r n)
  from 4(1) show ?case
    by (cases rule: capsule_feed_byte_cases [of d b]) (use 4(2) in auto)
qed

section \<open>What a feed of a whole capsule gives\<close>

definition capsule_shape_ok :: "u64 \<Rightarrow> nat \<Rightarrow> bool" where
  "capsule_shape_ok type len \<longleftrightarrow>
     (type = WTQ_CAPSULE_CLOSE_SESSION \<longrightarrow> 4 \<le> len \<and> len \<le> 4 + WTQ_CAPSULE_MAX_REASON)
     \<and> (type = WTQ_CAPSULE_DRAIN_SESSION \<longrightarrow> len = 0)"

definition capsule_of :: "wtq_h3_frame \<Rightarrow> bytes \<Rightarrow> wtq_capsule" where
  "capsule_of h payload =
     \<lparr>cap_kind = (if fr_type h = WTQ_CAPSULE_CLOSE_SESSION then CAP_KIND_CLOSE
                  else if fr_type h = WTQ_CAPSULE_DRAIN_SESSION then CAP_KIND_DRAIN
                  else CAP_KIND_UNKNOWN),
      cap_type = fr_type h, cap_length = fr_length h, cap_header_len = fr_header_len h,
      cap_close_code = (if fr_type h = WTQ_CAPSULE_CLOSE_SESSION
                        then of_nat (be_nat (take 4 payload)) else 0),
      cap_reason = (if fr_type h = WTQ_CAPSULE_CLOSE_SESSION then drop 4 payload else [])\<rparr>"

text \<open>A capsule read off a byte string in one go, with the bytes it takes.\<close>

definition capsule_read :: "bytes \<Rightarrow> ((wtq_status + wtq_capsule) \<times> nat) option" where
  "capsule_read src =
     (case wtq_h3_frame_decode_header src of
        Inl _ \<Rightarrow> None
      | Inr h \<Rightarrow>
          let body = drop (fr_header_len h) src; len = unat (fr_length h) in
          if \<not> capsule_shape_ok (fr_type h) len then Some (Inl MALFORMED, fr_header_len h)
          else if length body < len then None
          else Some (Inr (capsule_of h (take len body)), fr_header_len h + len))"

lemma code_fold_be: "code_fold acc bs = acc * 256 ^ length bs + of_nat (be_nat bs)"
proof (induction bs arbitrary: acc)
  case (Cons b bs)
  have "push_bit 8 acc OR ucast b = acc * 256 + (of_nat (unat b) :: u32)"
  proof -
    have "push_bit 8 acc OR ucast b = push_bit 8 acc + (ucast b :: u32)"
      by (rule disjunctive_add [symmetric]) (auto simp: bit_simps dest: bit_imp_le_length)
    then show ?thesis by (simp add: push_bit_eq_mult)
  qed
  then show ?case using Cons [of "acc * 256 + of_nat (unat b)"] by (simp add: algebra_simps)
qed simp

lemma classify_eq:
  "classify d =
     (if capsule_shape_ok (cd_type d) (unat (cd_payload_len d)) then
        Some (d\<lparr>cd_kind := (if cd_type d = WTQ_CAPSULE_CLOSE_SESSION then CAP_KIND_CLOSE
                             else if cd_type d = WTQ_CAPSULE_DRAIN_SESSION then CAP_KIND_DRAIN
                             else CAP_KIND_UNKNOWN)\<rparr>)
      else None)"
proof -
  have "cd_payload_len d < 4 \<longleftrightarrow> unat (cd_payload_len d) < 4"
    and "cd_payload_len d > 4 + of_nat WTQ_CAPSULE_MAX_REASON
           \<longleftrightarrow> unat (cd_payload_len d) > 4 + WTQ_CAPSULE_MAX_REASON"
    and "cd_payload_len d = 0 \<longleftrightarrow> unat (cd_payload_len d) = 0"
    by (simp_all add: word_less_nat_alt WTQ_CAPSULE_MAX_REASON_def unsigned_eq_0_iff)
  moreover have "WTQ_CAPSULE_CLOSE_SESSION \<noteq> WTQ_CAPSULE_DRAIN_SESSION"
    by (simp add: capsule_consts)
  ultimately show ?thesis by (auto simp: classify_def capsule_shape_ok_def)
qed

text \<open>A complete header in front of a body: latch, emit, or keep reading.\<close>

lemma capsule_header_done_read:
  fixes h :: wtq_h3_frame and body :: bytes and c :: nat
  assumes "fr_header_len h = c"
  defines "fed \<equiv> capsule_header_done wtq_capsule_dec_init h body c"
  shows "if \<not> capsule_shape_ok (fr_type h) (unat (fr_length h)) then
       \<exists>d. fed = (d, Inl MALFORMED, c) \<and> cd_state d = CAP_DEC_POISONED
     else if length body < unat (fr_length h) then \<exists>d. fed = (d, Inl NEED_MORE, c + length body)
     else fed = (wtq_capsule_dec_init, Inr (capsule_of h (take (unat (fr_length h)) body)),
                 c + unat (fr_length h))"
proof (cases "fr_length h = 0")
  case True
  have "\<not> capsule_shape_ok WTQ_CAPSULE_CLOSE_SESSION 0" by (simp add: capsule_shape_ok_def)
  with True assms show ?thesis
    by (auto simp: fed_def capsule_header_done_def classify_eq wtq_capsule_dec_init_def capsule_emit_def
        capsule_of_def)
next
  case False
  have le: "4 \<le> unat (fr_length h)"
    if "capsule_shape_ok (fr_type h) (unat (fr_length h))" "fr_type h = WTQ_CAPSULE_CLOSE_SESSION"
    using that by (simp add: capsule_shape_ok_def)
  show ?thesis
    using False assms le
    by (auto simp: fed_def capsule_header_done_def classify_eq wtq_capsule_dec_init_def capsule_emit_def
        capsule_of_def feed_payload_eq capsule_absorb_eq code_fold_be min_def)
qed

lemma capsule_feed_read:
  "case capsule_read xs of
     None \<Rightarrow> \<exists>d. wtq_capsule_dec_feed wtq_capsule_dec_init xs = (d, Inl NEED_MORE, length xs)
   | Some (Inl e, n) \<Rightarrow> \<exists>d. wtq_capsule_dec_feed wtq_capsule_dec_init xs = (d, Inl MALFORMED, n)
       \<and> cd_state d = CAP_DEC_POISONED
   | Some (Inr out, n) \<Rightarrow>
       wtq_capsule_dec_feed wtq_capsule_dec_init xs = (wtq_capsule_dec_init, Inr out, n)"
proof -
  have st: "cd_state wtq_capsule_dec_init = CAP_DEC_HEADER"
    and hd: "cd_hdr wtq_capsule_dec_init = wtq_h3_frame_dec_init"
    by (simp_all add: wtq_capsule_dec_init_def)
  show ?thesis
  proof (cases "wtq_h3_frame_decode_header xs")
    case (Inl e)
    then show ?thesis
      using h3_frame_feed_decode [of xs]
      by (auto simp: capsule_read_def capsule_feed_header [OF st] hd)
  next
    case (Inr h)
    have len: "fr_header_len h \<le> length xs"
      using h3_frame.feed_bound [OF h3_frame_dec_inv_init] h3_frame_feed_decode [of xs] Inr by auto
    have eq: "wtq_capsule_dec_init\<lparr>cd_hdr := wtq_h3_frame_dec_init\<rparr> = wtq_capsule_dec_init"
      by (simp add: wtq_capsule_dec_init_def)
    have feed: "wtq_capsule_dec_feed wtq_capsule_dec_init xs
        = capsule_header_done wtq_capsule_dec_init h (drop (fr_header_len h) xs) (fr_header_len h)"
      using h3_frame_feed_decode [of xs] Inr
      by (auto simp: capsule_feed_header [OF st] hd eq)
    show ?thesis
      unfolding feed
      using capsule_header_done_read [OF refl, of h "drop (fr_header_len h) xs"] Inr len
      by (auto simp: capsule_read_def Let_def split: if_splits)
  qed
qed

lemma capsule_chunks_concat:
  "cs \<noteq> [] \<Longrightarrow> feed_chunks wtq_capsule_dec_feed wtq_capsule_dec_init cs
     = wtq_capsule_dec_feed wtq_capsule_dec_init (concat cs)"
  by (rule capsule.feed_chunks_concat) simp_all

text \<open>
  C24. The capsule decoder, over any chunking, gives what is on the wire: a
  complete capsule with its code and reason (CLOSE) or with its payload skipped
  (unknown types), exactly its own bytes eaten; \<open>MALFORMED\<close> right after the header
  of a CLOSE payload shorter than 4 or longer than 1028 bytes or of a DRAIN with a
  payload, and then \<open>MALFORMED\<close> on every later feed; in every other case it has
  eaten everything and needs more.
\<close>

theorem capsule_chunked_decode:
  "case capsule_read (concat cs) of
     Some (Inr out, n) \<Rightarrow>
       feed_chunks wtq_capsule_dec_feed wtq_capsule_dec_init cs = (wtq_capsule_dec_init, Inr out, n)
   | Some (Inl e, n) \<Rightarrow>
       \<exists>d. feed_chunks wtq_capsule_dec_feed wtq_capsule_dec_init cs = (d, Inl MALFORMED, n)
         \<and> (\<forall>xs. wtq_capsule_dec_feed d xs = (d, Inl MALFORMED, 0))
   | None \<Rightarrow>
       \<exists>d. feed_chunks wtq_capsule_dec_feed wtq_capsule_dec_init cs
             = (d, Inl NEED_MORE, length (concat cs))"
proof (cases "cs = []")
  case False
  show ?thesis
    unfolding capsule_chunks_concat [OF False]
    using capsule_feed_read [of "concat cs"] capsule_feed_poisoned
    by (fastforce split: option.splits prod.splits sum.splits)
qed (simp add: capsule_read_def wtq_h3_frame_decode_header_def)

text \<open>
  The decoder never writes past its reason buffer: in every state reachable
  by feeds of any byte sequence the stored reason has at most 1024 bytes, and a
  payload in progress is consistent with the length its header announced.
\<close>

theorem capsule_reason_bounded:
  "case feed_chunks wtq_capsule_dec_feed wtq_capsule_dec_init cs of
     (d, r, n) \<Rightarrow> length (cd_reason d) \<le> WTQ_CAPSULE_MAX_REASON \<and> capsule_dec_inv d
       \<and> n \<le> length (concat cs)"
proof (cases "cs = []")
  case False
  obtain d r n where f: "wtq_capsule_dec_feed wtq_capsule_dec_init (concat cs) = (d, r, n)"
    by (metis prod_cases3)
  have "capsule_dec_inv d" using capsule.inv_feed [OF capsule_dec_inv_init f] .
  with f capsule.feed_bound [OF capsule_dec_inv_init f] show ?thesis
    by (simp add: capsule_chunks_concat [OF False]) (simp add: capsule_dec_inv_def)
qed (simp add: wtq_capsule_dec_init_def capsule_dec_inv_def)

section \<open>Round trips\<close>

lemma code_bytes_be: "be_nat (code_bytes code) = unat code"
proof -
  have "code_bytes code = be_bytes 4 (ucast code)"
    by (simp add: code_bytes_def be_bytes_def upt_rec)
      (auto intro!: bit_word_eqI simp: bit_simps)
  then show ?thesis using unat_u32_less [of code] by (simp add: be_nat_be_bytes)
qed

lemma capsule_close_encode_ok:
  assumes "length reason \<le> WTQ_CAPSULE_MAX_REASON" "length reason + 20 \<le> cap"
  shows "\<exists>hl enc. wtq_capsule_encode_close code reason cap = Inr enc
    \<and> length enc = hl + 4 + length reason \<and> hl \<le> 16
    \<and> capsule_read (enc @ rest)
        = Some (Inr \<lparr>cap_kind = CAP_KIND_CLOSE, cap_type = WTQ_CAPSULE_CLOSE_SESSION,
                     cap_length = 4 + of_nat (length reason), cap_header_len = hl,
                     cap_close_code = code, cap_reason = reason\<rparr>, length enc)"
proof -
  let ?p = "4 + of_nat (length reason) :: u64"
  let ?hl = "wtq_h3_frame_header_len WTQ_CAPSULE_CLOSE_SESSION ?p"
  have p: "unat ?p = 4 + length reason"
    using assms(1) unat_of_nat_u64 [of "4 + length reason"] by (simp add: WTQ_CAPSULE_MAX_REASON_def)
  have rng: "WTQ_CAPSULE_CLOSE_SESSION \<le> WTQ_VARINT_MAX" "?p \<le> WTQ_VARINT_MAX"
    using assms(1) by (simp_all add: word_le_nat_alt p varint_max_unat capsule_consts)
  have cap: "?hl \<le> cap" "\<not> cap < ?hl + unat ?p"
    using header_len_le_16 [of WTQ_CAPSULE_CLOSE_SESSION ?p] assms(2) p by linarith+
  obtain h where h: "wtq_h3_frame_encode_header WTQ_CAPSULE_CLOSE_SESSION ?p cap = Inr h"
      "length h = ?hl"
      "wtq_h3_frame_decode_header (h @ code_bytes code @ reason @ rest)
        = Inr \<lparr>fr_type = WTQ_CAPSULE_CLOSE_SESSION, fr_length = ?p, fr_header_len = length h\<rparr>"
    using h3_frame_encode_ok [OF rng cap(1)] by blast
  have "wtq_capsule_encode_close code reason cap = Inr (h @ code_bytes code @ reason)"
    using assms(1) cap(2) h(1)
    by (simp add: wtq_capsule_encode_close_def wtq_capsule_encode_header_def Let_def)
  moreover have "capsule_shape_ok WTQ_CAPSULE_CLOSE_SESSION (4 + length reason)"
    using assms(1) by (simp add: capsule_shape_ok_def capsule_consts)
  moreover have "length (code_bytes code) = 4" by (simp add: code_bytes_def)
  ultimately show ?thesis
    using h(2,3) p header_len_le_16 [of WTQ_CAPSULE_CLOSE_SESSION ?p]
    by (intro exI [of _ ?hl] exI [of _ "h @ code_bytes code @ reason"])
      (simp add: capsule_read_def capsule_of_def code_bytes_be Let_def)
qed

text \<open>
  C38. Round trip of WT_CLOSE_SESSION: a close with a reason of at most 1024 bytes
  encodes, and the decoder, fed the encoding and whatever follows in any chunking,
  reports exactly that code and reason and leaves what follows untouched.
\<close>

theorem capsule_close_roundtrip:
  assumes "length reason \<le> WTQ_CAPSULE_MAX_REASON" "length reason + 20 \<le> cap"
  shows "\<exists>hl enc. wtq_capsule_encode_close code reason cap = Inr enc \<and> length enc \<le> cap
    \<and> (\<forall>cs rest. concat cs = enc @ rest \<longrightarrow>
         feed_chunks wtq_capsule_dec_feed wtq_capsule_dec_init cs =
           (wtq_capsule_dec_init,
            Inr \<lparr>cap_kind = CAP_KIND_CLOSE, cap_type = WTQ_CAPSULE_CLOSE_SESSION,
                 cap_length = 4 + of_nat (length reason), cap_header_len = hl,
                 cap_close_code = code, cap_reason = reason\<rparr>, length enc))"
proof -
  note ok = capsule_close_encode_ok [OF assms, of code]
  obtain hl enc where enc: "wtq_capsule_encode_close code reason cap = Inr enc"
      "length enc = hl + 4 + length reason" "hl \<le> 16"
    using ok by blast
  have "feed_chunks wtq_capsule_dec_feed wtq_capsule_dec_init cs =
           (wtq_capsule_dec_init,
            Inr \<lparr>cap_kind = CAP_KIND_CLOSE, cap_type = WTQ_CAPSULE_CLOSE_SESSION,
                 cap_length = 4 + of_nat (length reason), cap_header_len = hl,
                 cap_close_code = code, cap_reason = reason\<rparr>, length enc)"
    if "concat cs = enc @ rest" for cs rest
  proof -
    have "cs \<noteq> []" using that enc(2) by auto
    then show ?thesis
      using capsule_feed_read [of "concat cs"] ok [of rest] enc that
      by (auto simp: capsule_chunks_concat)
  qed
  with enc assms(2) show ?thesis by (intro exI [of _ hl] exI [of _ enc]) auto
qed

theorem capsule_close_roundtrip_witness:
  "\<exists>hl enc. wtq_capsule_encode_close 42 (str ''bye'') 2000 = Inr enc \<and> length enc \<le> 2000
    \<and> (\<forall>cs rest. concat cs = enc @ rest \<longrightarrow>
         feed_chunks wtq_capsule_dec_feed wtq_capsule_dec_init cs =
           (wtq_capsule_dec_init,
            Inr \<lparr>cap_kind = CAP_KIND_CLOSE, cap_type = WTQ_CAPSULE_CLOSE_SESSION,
                 cap_length = 4 + of_nat (length (str ''bye'')), cap_header_len = hl,
                 cap_close_code = 42, cap_reason = str ''bye''\<rparr>, length enc))"
  by (rule capsule_close_roundtrip) (simp_all add: WTQ_CAPSULE_MAX_REASON_def)

end
