(* ===== verification/H3_Settings.thy ===== *)
theory H3_Settings
  imports H3_Frame
begin

text \<open>
  The HTTP/3 SETTINGS payload: \<^verbatim>\<open>src/proto/h3_settings.c\<close> and \<^verbatim>\<open>h3_settings.h\<close>.
  The decoder with its duplicate scan, the encoder of the outgoing advertisement,
  and the choice of the WebTransport wire profile.
\<close>

definition WTQ_H3_SET_QPACK_MAX_TABLE_CAPACITY :: u64 where
  "WTQ_H3_SET_QPACK_MAX_TABLE_CAPACITY = 0x01"
definition WTQ_H3_SET_MAX_FIELD_SECTION_SIZE :: u64 where
  "WTQ_H3_SET_MAX_FIELD_SECTION_SIZE = 0x06"
definition WTQ_H3_SET_QPACK_BLOCKED_STREAMS :: u64 where
  "WTQ_H3_SET_QPACK_BLOCKED_STREAMS = 0x07"
definition WTQ_H3_SET_ENABLE_CONNECT_PROTOCOL :: u64 where
  "WTQ_H3_SET_ENABLE_CONNECT_PROTOCOL = 0x08"
definition WTQ_H3_SET_H3_DATAGRAM :: u64 where
  "WTQ_H3_SET_H3_DATAGRAM = 0x33"
definition WTQ_H3_SET_WT_ENABLED :: u64 where
  "WTQ_H3_SET_WT_ENABLED = 0x2c7cf000"
definition WTQ_H3_SET_WT_MAX_SESSIONS_D13 :: u64 where
  "WTQ_H3_SET_WT_MAX_SESSIONS_D13 = 0x14e9cd29"
definition WTQ_H3_SET_WT_MAX_SESSIONS_D07 :: u64 where
  "WTQ_H3_SET_WT_MAX_SESSIONS_D07 = 0xc671706a"
definition WTQ_H3_SET_ENABLE_WEBTRANSPORT_LEG :: u64 where
  "WTQ_H3_SET_ENABLE_WEBTRANSPORT_LEG = 0x2b603742"

lemmas setting_ids =
  WTQ_H3_SET_QPACK_MAX_TABLE_CAPACITY_def WTQ_H3_SET_MAX_FIELD_SECTION_SIZE_def
  WTQ_H3_SET_QPACK_BLOCKED_STREAMS_def WTQ_H3_SET_ENABLE_CONNECT_PROTOCOL_def
  WTQ_H3_SET_H3_DATAGRAM_def WTQ_H3_SET_WT_ENABLED_def WTQ_H3_SET_WT_MAX_SESSIONS_D13_def
  WTQ_H3_SET_WT_MAX_SESSIONS_D07_def WTQ_H3_SET_ENABLE_WEBTRANSPORT_LEG_def

record wtq_h3_settings =
  has_qpack_max_table_capacity :: bool
  has_max_field_section_size :: bool
  has_qpack_blocked_streams :: bool
  has_enable_connect_protocol :: bool
  has_h3_datagram :: bool
  has_wt_enabled :: bool
  has_wt_max_sessions_d13 :: bool
  has_wt_max_sessions_d07 :: bool
  has_enable_webtransport_leg :: bool
  qpack_max_table_capacity :: u64
  max_field_section_size :: u64
  qpack_blocked_streams :: u64
  enable_connect_protocol :: u64
  h3_datagram :: u64
  wt_enabled :: u64
  wt_max_sessions_d13 :: u64
  wt_max_sessions_d07 :: u64
  enable_webtransport_leg :: u64
  unknown_count :: nat

definition settings_zero :: wtq_h3_settings where
  "settings_zero =
     \<lparr>has_qpack_max_table_capacity = False, has_max_field_section_size = False,
      has_qpack_blocked_streams = False, has_enable_connect_protocol = False,
      has_h3_datagram = False, has_wt_enabled = False, has_wt_max_sessions_d13 = False,
      has_wt_max_sessions_d07 = False, has_enable_webtransport_leg = False,
      qpack_max_table_capacity = 0, max_field_section_size = 0, qpack_blocked_streams = 0,
      enable_connect_protocol = 0, h3_datagram = 0, wt_enabled = 0, wt_max_sessions_d13 = 0,
      wt_max_sessions_d07 = 0, enable_webtransport_leg = 0, unknown_count = 0\<rparr>"

section \<open>Decoder\<close>

definition setting_is_h2_reserved :: "u64 \<Rightarrow> bool" where
  "setting_is_h2_reserved ident \<longleftrightarrow> ident \<ge> 0x02 \<and> ident \<le> 0x05"

text \<open>
  The duplicate scan over the decoded prefix. A failed varint decode leaves the
  C variables as they were (value 0, the previous count), and then the C loop
  would not advance; the prefix is always well formed where the decoder calls it,
  so the fuel, one step per byte, never runs out (\<open>setting_seen_loop_pairs\<close>).
\<close>

fun setting_seen_loop :: "nat \<Rightarrow> bytes \<Rightarrow> u64 \<Rightarrow> bool" where
  "setting_seen_loop 0 rest ident = False"
| "setting_seen_loop (Suc fuel) rest ident =
     (if rest = [] then False
      else
        let (prev_id, c) = (case wtq_varint_decode rest of Inr vc \<Rightarrow> vc | Inl _ \<Rightarrow> (0, 0));
            rest = drop c rest;
            c = (case wtq_varint_decode rest of Inr (_, c) \<Rightarrow> c | Inl _ \<Rightarrow> c);
            rest = drop c rest
        in if prev_id = ident then True else setting_seen_loop fuel rest ident)"

definition setting_seen_before :: "bytes \<Rightarrow> nat \<Rightarrow> u64 \<Rightarrow> bool" where
  "setting_seen_before payload prefix_len ident =
     setting_seen_loop (prefix_len + 1) (take prefix_len payload) ident"

text \<open>The switch on the identifier; \<open>None\<close> is the return of \<^verbatim>\<open>ERR_SETTING\<close> out of it.\<close>

definition setting_store :: "u64 \<Rightarrow> u64 \<Rightarrow> wtq_h3_settings \<Rightarrow> wtq_h3_settings option" where
  "setting_store ident value s =
     (if ident = WTQ_H3_SET_QPACK_MAX_TABLE_CAPACITY then
        Some (s\<lparr>has_qpack_max_table_capacity := True, qpack_max_table_capacity := value\<rparr>)
      else if ident = WTQ_H3_SET_MAX_FIELD_SECTION_SIZE then
        Some (s\<lparr>has_max_field_section_size := True, max_field_section_size := value\<rparr>)
      else if ident = WTQ_H3_SET_QPACK_BLOCKED_STREAMS then
        Some (s\<lparr>has_qpack_blocked_streams := True, qpack_blocked_streams := value\<rparr>)
      else if ident = WTQ_H3_SET_ENABLE_CONNECT_PROTOCOL then
        (if value > 1 then None
         else Some (s\<lparr>has_enable_connect_protocol := True, enable_connect_protocol := value\<rparr>))
      else if ident = WTQ_H3_SET_H3_DATAGRAM then
        (if value > 1 then None
         else Some (s\<lparr>has_h3_datagram := True, h3_datagram := value\<rparr>))
      else if ident = WTQ_H3_SET_WT_ENABLED then
        (if value > 1 then None
         else Some (s\<lparr>has_wt_enabled := True, wt_enabled := value\<rparr>))
      else if ident = WTQ_H3_SET_WT_MAX_SESSIONS_D13 then
        Some (s\<lparr>has_wt_max_sessions_d13 := True, wt_max_sessions_d13 := value\<rparr>)
      else if ident = WTQ_H3_SET_WT_MAX_SESSIONS_D07 then
        Some (s\<lparr>has_wt_max_sessions_d07 := True, wt_max_sessions_d07 := value\<rparr>)
      else if ident = WTQ_H3_SET_ENABLE_WEBTRANSPORT_LEG then
        (if value > 1 then None
         else Some (s\<lparr>has_enable_webtransport_leg := True, enable_webtransport_leg := value\<rparr>))
      else Some (s\<lparr>unknown_count := unknown_count s + 1\<rparr>))"

function settings_decode_loop ::
  "bytes \<Rightarrow> nat \<Rightarrow> wtq_h3_settings \<Rightarrow> wtq_status + wtq_h3_settings" where
  "settings_decode_loop payload off s =
     (if off < length payload then
        (case wtq_varint_decode (drop off payload) of
           Inl _ \<Rightarrow> Inl NEED_MORE
         | Inr (ident, c) \<Rightarrow>
             (case wtq_varint_decode (drop (off + c) payload) of
                Inl _ \<Rightarrow> Inl NEED_MORE
              | Inr (value, c') \<Rightarrow>
                  if setting_is_h2_reserved ident then Inl ERR_SETTING
                  else if setting_seen_before payload off ident then Inl ERR_SETTING
                  else (case setting_store ident value s of
                          None \<Rightarrow> Inl ERR_SETTING
                        | Some s \<Rightarrow> settings_decode_loop payload (off + c + c') s)))
      else Inr s)"
  by auto

termination
  by (relation "measure (\<lambda>(payload, off, s). length payload - off)")
    (auto dest!: wtq_varint_decode_OK(1))

definition wtq_h3_settings_decode :: "bytes \<Rightarrow> wtq_status + wtq_h3_settings" where
  "wtq_h3_settings_decode payload = settings_decode_loop payload 0 settings_zero"

declare settings_decode_loop.simps [simp del]

section \<open>Profiles and the outgoing advertisement\<close>

datatype wtq_h3_wt_profile = PROFILE_CURRENT | PROFILE_D13_14_COMPAT | PROFILE_D02_RFC9297_COMPAT

definition WTQ_H3_WT_PROFILES_CURRENT :: u64 where "WTQ_H3_WT_PROFILES_CURRENT = 0x1"
definition WTQ_H3_WT_PROFILES_D13_14_COMPAT :: u64 where "WTQ_H3_WT_PROFILES_D13_14_COMPAT = 0x2"
definition WTQ_H3_WT_PROFILES_D02_RFC9297_COMPAT :: u64 where
  "WTQ_H3_WT_PROFILES_D02_RFC9297_COMPAT = 0x4"
definition WTQ_H3_WT_PROFILES_ALL :: u64 where
  "WTQ_H3_WT_PROFILES_ALL =
     WTQ_H3_WT_PROFILES_CURRENT OR WTQ_H3_WT_PROFILES_D13_14_COMPAT
     OR WTQ_H3_WT_PROFILES_D02_RFC9297_COMPAT"

fun wtq_h3_wt_profile_bit :: "wtq_h3_wt_profile \<Rightarrow> u64" where
  "wtq_h3_wt_profile_bit PROFILE_CURRENT = WTQ_H3_WT_PROFILES_CURRENT"
| "wtq_h3_wt_profile_bit PROFILE_D13_14_COMPAT = WTQ_H3_WT_PROFILES_D13_14_COMPAT"
| "wtq_h3_wt_profile_bit PROFILE_D02_RFC9297_COMPAT = WTQ_H3_WT_PROFILES_D02_RFC9297_COMPAT"

record wtq_h3_settings_encode_cfg =
  cfg_enable_connect_protocol :: bool
  cfg_wt_profiles :: u64

definition build_out_settings :: "wtq_h3_settings_encode_cfg \<Rightarrow> (u64 \<times> u64) list" where
  "build_out_settings cfg =
     (let profiles = cfg_wt_profiles cfg AND WTQ_H3_WT_PROFILES_ALL;
          profiles = (if profiles = 0 then WTQ_H3_WT_PROFILES_CURRENT else profiles)
      in [(WTQ_H3_SET_QPACK_MAX_TABLE_CAPACITY, 0), (WTQ_H3_SET_QPACK_BLOCKED_STREAMS, 0)]
         @ (if cfg_enable_connect_protocol cfg then [(WTQ_H3_SET_ENABLE_CONNECT_PROTOCOL, 1)] else [])
         @ [(WTQ_H3_SET_H3_DATAGRAM, 1)]
         @ (if profiles AND WTQ_H3_WT_PROFILES_D13_14_COMPAT \<noteq> 0
            then [(WTQ_H3_SET_WT_MAX_SESSIONS_D13, 1)] else [])
         @ (if profiles AND WTQ_H3_WT_PROFILES_D02_RFC9297_COMPAT \<noteq> 0
            then [(WTQ_H3_SET_ENABLE_WEBTRANSPORT_LEG, 1)] else [])
         @ (if profiles AND WTQ_H3_WT_PROFILES_CURRENT \<noteq> 0
            then [(WTQ_H3_SET_WT_ENABLED, 1)] else []))"

definition wtq_h3_settings_payload_len :: "wtq_h3_settings_encode_cfg \<Rightarrow> nat" where
  "wtq_h3_settings_payload_len cfg =
     sum_list (map (\<lambda>(ident, value). wtq_varint_len ident + wtq_varint_len value) (build_out_settings cfg))"

fun settings_encode_loop :: "(u64 \<times> u64) list \<Rightarrow> nat \<Rightarrow> bytes \<Rightarrow> bytes" where
  "settings_encode_loop [] cap dst = dst"
| "settings_encode_loop ((ident, value) # sets) cap dst =
     (let dst = dst @ written (wtq_varint_encode ident (cap - length dst));
          dst = dst @ written (wtq_varint_encode value (cap - length dst))
      in settings_encode_loop sets cap dst)"

definition wtq_h3_settings_encode_payload ::
  "wtq_h3_settings_encode_cfg \<Rightarrow> nat \<Rightarrow> wtq_status + bytes" where
  "wtq_h3_settings_encode_payload cfg cap =
     (if cap < wtq_h3_settings_payload_len cfg then Inl BUFFER
      else Inr (settings_encode_loop (build_out_settings cfg) cap []))"

definition wtq_h3_settings_encode_frame ::
  "wtq_h3_settings_encode_cfg \<Rightarrow> nat \<Rightarrow> wtq_status + bytes" where
  "wtq_h3_settings_encode_frame cfg cap =
     (let payload_len = wtq_h3_settings_payload_len cfg;
          header_len = wtq_h3_frame_header_len WTQ_H3_FRAME_SETTINGS (of_nat payload_len)
      in if cap < header_len + payload_len then Inl BUFFER
         else let h = written (wtq_h3_frame_encode_header WTQ_H3_FRAME_SETTINGS (of_nat payload_len) cap);
                  p = written (wtq_h3_settings_encode_payload cfg (cap - length h))
              in Inr (h @ p))"

definition WT_PRECEDENCE :: "wtq_h3_wt_profile list" where
  "WT_PRECEDENCE = [PROFILE_CURRENT, PROFILE_D13_14_COMPAT, PROFILE_D02_RFC9297_COMPAT]"

fun peer_advertises :: "wtq_h3_settings \<Rightarrow> wtq_h3_wt_profile \<Rightarrow> bool" where
  "peer_advertises peer PROFILE_CURRENT = (has_wt_enabled peer \<and> wt_enabled peer = 1)"
| "peer_advertises peer PROFILE_D13_14_COMPAT =
     (has_wt_max_sessions_d13 peer \<and> wt_max_sessions_d13 peer > 0)"
| "peer_advertises peer PROFILE_D02_RFC9297_COMPAT =
     (has_enable_webtransport_leg peer \<and> enable_webtransport_leg peer = 1
      \<and> has_h3_datagram peer \<and> h3_datagram peer = 1)"

fun select_profile_loop ::
  "wtq_h3_wt_profile list \<Rightarrow> wtq_h3_settings \<Rightarrow> bool \<Rightarrow> u64 \<Rightarrow> wtq_h3_wt_profile option" where
  "select_profile_loop [] peer peer_is_server profs = None"
| "select_profile_loop (p # ps) peer peer_is_server profs =
     (if profs AND wtq_h3_wt_profile_bit p = 0 then select_profile_loop ps peer peer_is_server profs
      else if p \<noteq> PROFILE_D02_RFC9297_COMPAT \<and> \<not> (has_h3_datagram peer \<and> h3_datagram peer = 1)
      then select_profile_loop ps peer peer_is_server profs
      else if p \<noteq> PROFILE_D02_RFC9297_COMPAT \<and> peer_is_server
              \<and> \<not> (has_enable_connect_protocol peer \<and> enable_connect_protocol peer = 1)
      then select_profile_loop ps peer peer_is_server profs
      else if \<not> peer_advertises peer p then select_profile_loop ps peer peer_is_server profs
      else Some p)"

definition wtq_h3_settings_select_profile ::
  "wtq_h3_settings \<Rightarrow> bool \<Rightarrow> u64 \<Rightarrow> wtq_h3_wt_profile option" where
  "wtq_h3_settings_select_profile peer peer_is_server profs =
     select_profile_loop WT_PRECEDENCE peer peer_is_server profs"

definition wtq_h3_settings_peer_supports_wt ::
  "wtq_h3_settings \<Rightarrow> bool \<Rightarrow> wtq_h3_wt_profile \<Rightarrow> bool" where
  "wtq_h3_settings_peer_supports_wt peer peer_is_server profile \<longleftrightarrow>
     wtq_h3_settings_select_profile peer peer_is_server (wtq_h3_wt_profile_bit profile) \<noteq> None"

section \<open>The decoder against a list of pairs\<close>

lemma wtq_varint_decode_take:
  "wtq_varint_decode xs = Inr (v, n) \<Longrightarrow> n \<le> m \<Longrightarrow> wtq_varint_decode (take m xs) = Inr (v, n)"
  by (cases xs; cases m)
    (auto simp: wtq_varint_decode_Cons Let_def min_def
      dest: len_from_first_pos [THEN less_imp_neq, symmetric, THEN notE] split: if_splits)

text \<open>
  The identifier/value pairs that a payload starts with, and whether they are all
  of it (\<open>False\<close>: it ends inside a pair).
\<close>

function settings_items :: "bytes \<Rightarrow> (u64 \<times> u64) list \<times> bool" where
  "settings_items xs =
     (if xs = [] then ([], True)
      else (case wtq_varint_decode xs of
              Inl _ \<Rightarrow> ([], False)
            | Inr (ident, c) \<Rightarrow>
                (case wtq_varint_decode (drop c xs) of
                   Inl _ \<Rightarrow> ([], False)
                 | Inr (value, c') \<Rightarrow>
                     (case settings_items (drop (c + c') xs) of
                        (ps, whole) \<Rightarrow> ((ident, value) # ps, whole)))))"
  by auto

termination
  by (relation "measure length") (auto dest!: wtq_varint_decode_OK(1))

declare settings_items.simps [simp del]

lemma settings_items_Nil [simp]: "settings_items [] = ([], True)"
  by (simp add: settings_items.simps)

lemma settings_items_pair:
  assumes "wtq_varint_decode xs = Inr (i, c)" "wtq_varint_decode (drop c xs) = Inr (v, c')"
  shows "settings_items xs = (case settings_items (drop (c + c') xs) of (ps, w) \<Rightarrow> ((i, v) # ps, w))"
  using assms by (subst settings_items.simps) auto

lemma settings_items_short:
  assumes "xs \<noteq> []"
    and "\<And>i c v c'. wtq_varint_decode xs = Inr (i, c) \<Longrightarrow> wtq_varint_decode (drop c xs) \<noteq> Inr (v, c')"
  shows "settings_items xs = ([], False)"
  using assms by (subst settings_items.simps) (auto split: sum.splits)

text \<open>A nonempty well-formed string starts with a pair.\<close>

lemma settings_items_whole_Cons:
  assumes "settings_items xs = (ps, True)" "xs \<noteq> []"
  obtains i c v c' qs where "wtq_varint_decode xs = Inr (i, c)"
    "wtq_varint_decode (drop c xs) = Inr (v, c')" "settings_items (drop (c + c') xs) = (qs, True)"
    "ps = (i, v) # qs" "0 < c" "0 < c'" "c + c' \<le> length xs"
proof -
  obtain i c where d1: "wtq_varint_decode xs = Inr (i, c)"
    using assms by (subst (asm) settings_items.simps) (auto split: sum.splits)
  obtain v c' where d2: "wtq_varint_decode (drop c xs) = Inr (v, c')"
    using assms d1 by (subst (asm) settings_items.simps) (auto split: sum.splits)
  obtain qs where qs: "settings_items (drop (c + c') xs) = (qs, True)" "ps = (i, v) # qs"
    using assms(1) settings_items_pair [OF d1 d2] by (auto split: prod.splits)
  show ?thesis
    using wtq_varint_decode_OK(1,2) [OF d1] wtq_varint_decode_OK(1,2) [OF d2]
    by (intro that [OF d1 d2 qs]) auto
qed

lemma settings_items_append:
  "settings_items xs = (ps, True) \<Longrightarrow>
   settings_items (xs @ ys) = (case settings_items ys of (qs, w) \<Rightarrow> (ps @ qs, w))"
proof (induction "length xs" arbitrary: xs ps rule: less_induct)
  case less
  show ?case
  proof (cases "xs = []")
    case True
    with less.prems show ?thesis by simp
  next
    case False
    with less.prems obtain i c v c' qs where
      d: "wtq_varint_decode xs = Inr (i, c)" "wtq_varint_decode (drop c xs) = Inr (v, c')"
        "settings_items (drop (c + c') xs) = (qs, True)" "ps = (i, v) # qs"
      and len: "0 < c" "0 < c'" "c + c' \<le> length xs"
      by (rule settings_items_whole_Cons)
    have "wtq_varint_decode (xs @ ys) = Inr (i, c)"
      using d(1) by (rule wtq_varint_decode_append)
    moreover have "wtq_varint_decode (drop c (xs @ ys)) = Inr (v, c')"
      using wtq_varint_decode_append [OF d(2), of ys] len by simp
    moreover have "settings_items (drop (c + c') xs @ ys)
        = (case settings_items ys of (rs, w) \<Rightarrow> (qs @ rs, w))"
      using less.hyps [OF _ d(3)] len by simp
    ultimately show ?thesis
      using len d(4) by (subst settings_items_pair) (auto split: prod.splits)
  qed
qed

text \<open>On a well-formed prefix the duplicate scan is membership, and its fuel suffices.\<close>

lemma setting_seen_loop_pairs:
  "settings_items xs = (ps, True) \<Longrightarrow> length xs < fuel \<Longrightarrow>
   setting_seen_loop fuel xs i = (i \<in> fst ` set ps)"
proof (induction fuel arbitrary: xs ps)
  case (Suc fuel)
  show ?case
  proof (cases "xs = []")
    case True
    with Suc.prems show ?thesis by simp
  next
    case False
    with Suc.prems(1) obtain j c v c' qs where
      d: "wtq_varint_decode xs = Inr (j, c)" "wtq_varint_decode (drop c xs) = Inr (v, c')"
        "settings_items (drop (c + c') xs) = (qs, True)" "ps = (j, v) # qs"
      and len: "0 < c" "0 < c'" "c + c' \<le> length xs"
      by (rule settings_items_whole_Cons)
    have "setting_seen_loop fuel (drop (c + c') xs) i = (i \<in> fst ` set qs)"
      using Suc.IH [OF d(3)] Suc.prems(2) len by simp
    then show ?thesis using d False by (auto simp: Let_def add.commute)
  qed
qed simp

fun settings_walk ::
  "u64 set \<Rightarrow> (u64 \<times> u64) list \<Rightarrow> bool \<Rightarrow> wtq_h3_settings \<Rightarrow> wtq_status + wtq_h3_settings" where
  "settings_walk seen [] whole s = (if whole then Inr s else Inl NEED_MORE)"
| "settings_walk seen ((i, v) # ps) whole s =
     (if setting_is_h2_reserved i \<or> i \<in> seen then Inl ERR_SETTING
      else (case setting_store i v s of
              None \<Rightarrow> Inl ERR_SETTING
            | Some s \<Rightarrow> settings_walk (insert i seen) ps whole s))"

lemma settings_decode_loop_walk:
  "settings_items pre = (ps, True) \<Longrightarrow>
   settings_decode_loop (pre @ rest) (length pre) s
     = (case settings_items rest of (qs, w) \<Rightarrow> settings_walk (fst ` set ps) qs w s)"
proof (induction "length rest" arbitrary: pre ps rest s rule: less_induct)
  case less
  show ?case
  proof (cases "rest = []")
    case True
    then show ?thesis by (simp add: settings_decode_loop.simps)
  next
    case ne: False
    show ?thesis
    proof (cases "\<exists>i c v c'. wtq_varint_decode rest = Inr (i, c) \<and> wtq_varint_decode (drop c rest) = Inr (v, c')")
      case False
      then have "settings_items rest = ([], False)" using ne by (intro settings_items_short) auto
      moreover have "settings_decode_loop (pre @ rest) (length pre) s = Inl NEED_MORE"
        using False ne by (subst settings_decode_loop.simps) (auto split: sum.splits)
      ultimately show ?thesis by simp
    next
      case True
      then obtain i c v c' where d: "wtq_varint_decode rest = Inr (i, c)"
        "wtq_varint_decode (drop c rest) = Inr (v, c')" by blast
      have len: "0 < c" "0 < c'" "c + c' \<le> length rest"
        using wtq_varint_decode_OK [OF d(1)] wtq_varint_decode_OK [OF d(2)] by auto
      let ?a = "take (c + c') rest" and ?b = "drop (c + c') rest"
      have ta: "settings_items ?a = ([(i, v)], True)"
      proof -
        have "wtq_varint_decode ?a = Inr (i, c)" "wtq_varint_decode (drop c ?a) = Inr (v, c')"
          using d by (simp_all add: drop_take wtq_varint_decode_take)
        then show ?thesis by (subst settings_items_pair) auto
      qed
      have items: "settings_items rest = (case settings_items ?b of (qs, w) \<Rightarrow> ((i, v) # qs, w))"
        using d by (rule settings_items_pair)
      have pre': "settings_items (pre @ ?a) = (ps @ [(i, v)], True)"
        using settings_items_append [OF less.prems, of ?a] ta by simp
      have IH: "settings_decode_loop ((pre @ ?a) @ ?b) (length (pre @ ?a)) s'
          = (case settings_items ?b of (qs, w) \<Rightarrow> settings_walk (fst ` set (ps @ [(i, v)])) qs w s')" for s'
        using less.hyps [OF _ pre', of ?b s'] len by simp
      have seen: "setting_seen_before (pre @ rest) (length pre) i = (i \<in> fst ` set ps)"
        using setting_seen_loop_pairs [OF less.prems, of "length pre + 1"]
        by (simp only: setting_seen_before_def append_eq_conv_conj [THEN iffD1, OF refl]) simp
      have pr: "(pre @ ?a) @ ?b = pre @ rest" "length (pre @ ?a) = length pre + c + c'"
        using len by simp_all
      show ?thesis
        using d len IH [unfolded pr] seen ne
        by (subst settings_decode_loop.simps) (auto simp: items split: prod.splits option.splits)
    qed
  qed
qed

section \<open>The decoder's contract\<close>

definition known_settings :: "u64 list" where
  "known_settings =
     [WTQ_H3_SET_QPACK_MAX_TABLE_CAPACITY, WTQ_H3_SET_MAX_FIELD_SECTION_SIZE,
      WTQ_H3_SET_QPACK_BLOCKED_STREAMS, WTQ_H3_SET_ENABLE_CONNECT_PROTOCOL,
      WTQ_H3_SET_H3_DATAGRAM, WTQ_H3_SET_WT_ENABLED, WTQ_H3_SET_WT_MAX_SESSIONS_D13,
      WTQ_H3_SET_WT_MAX_SESSIONS_D07, WTQ_H3_SET_ENABLE_WEBTRANSPORT_LEG]"

definition boolean_settings :: "u64 list" where
  "boolean_settings =
     [WTQ_H3_SET_ENABLE_CONNECT_PROTOCOL, WTQ_H3_SET_H3_DATAGRAM, WTQ_H3_SET_WT_ENABLED,
      WTQ_H3_SET_ENABLE_WEBTRANSPORT_LEG]"

text \<open>A decoded view as a lookup: present with a value, or absent.\<close>

definition present :: "bool \<Rightarrow> u64 \<Rightarrow> u64 option" where
  "present has v = (if has then Some v else None)"

lemma present_simps [simp]: "present True v = Some v" "present False v = None"
  by (simp_all add: present_def)

definition settings_view :: "wtq_h3_settings \<Rightarrow> u64 \<Rightarrow> u64 option" where
  "settings_view s i =
     (if i = WTQ_H3_SET_QPACK_MAX_TABLE_CAPACITY then present (has_qpack_max_table_capacity s) (qpack_max_table_capacity s)
      else if i = WTQ_H3_SET_MAX_FIELD_SECTION_SIZE then present (has_max_field_section_size s) (max_field_section_size s)
      else if i = WTQ_H3_SET_QPACK_BLOCKED_STREAMS then present (has_qpack_blocked_streams s) (qpack_blocked_streams s)
      else if i = WTQ_H3_SET_ENABLE_CONNECT_PROTOCOL then present (has_enable_connect_protocol s) (enable_connect_protocol s)
      else if i = WTQ_H3_SET_H3_DATAGRAM then present (has_h3_datagram s) (h3_datagram s)
      else if i = WTQ_H3_SET_WT_ENABLED then present (has_wt_enabled s) (wt_enabled s)
      else if i = WTQ_H3_SET_WT_MAX_SESSIONS_D13 then present (has_wt_max_sessions_d13 s) (wt_max_sessions_d13 s)
      else if i = WTQ_H3_SET_WT_MAX_SESSIONS_D07 then present (has_wt_max_sessions_d07 s) (wt_max_sessions_d07 s)
      else if i = WTQ_H3_SET_ENABLE_WEBTRANSPORT_LEG then present (has_enable_webtransport_leg s) (enable_webtransport_leg s)
      else None)"

definition setting_bad :: "u64 \<times> u64 \<Rightarrow> bool" where
  "setting_bad = (\<lambda>(i, v). (2 \<le> i \<and> i \<le> 5) \<or> (i \<in> set boolean_settings \<and> 1 < v))"

definition settings_bad :: "(u64 \<times> u64) list \<Rightarrow> bool" where
  "settings_bad ps \<longleftrightarrow> list_ex setting_bad ps \<or> \<not> distinct (map fst ps)"

lemma setting_store_None:
  "setting_store i v s = None \<longleftrightarrow> i \<in> set boolean_settings \<and> 1 < v"
  by (auto simp: setting_store_def boolean_settings_def setting_ids)

lemma setting_store_view:
  assumes "setting_store i v s = Some s'"
  shows "settings_view s' j = (if j = i \<and> i \<in> set known_settings then Some v else settings_view s j)"
    and "unknown_count s' = unknown_count s + (if i \<in> set known_settings then 0 else 1)"
proof -
  consider "i \<notin> set known_settings"
    | "i = WTQ_H3_SET_QPACK_MAX_TABLE_CAPACITY" | "i = WTQ_H3_SET_MAX_FIELD_SECTION_SIZE"
    | "i = WTQ_H3_SET_QPACK_BLOCKED_STREAMS" | "i = WTQ_H3_SET_ENABLE_CONNECT_PROTOCOL"
    | "i = WTQ_H3_SET_H3_DATAGRAM" | "i = WTQ_H3_SET_WT_ENABLED"
    | "i = WTQ_H3_SET_WT_MAX_SESSIONS_D13" | "i = WTQ_H3_SET_WT_MAX_SESSIONS_D07"
    | "i = WTQ_H3_SET_ENABLE_WEBTRANSPORT_LEG"
    unfolding known_settings_def by auto
  then have "settings_view s' j = (if j = i \<and> i \<in> set known_settings then Some v else settings_view s j)
    \<and> unknown_count s' = unknown_count s + (if i \<in> set known_settings then 0 else 1)"
    by cases
      (insert assms, auto simp: setting_store_def known_settings_def settings_view_def
        setting_ids split: if_split_asm)
  then show "settings_view s' j = (if j = i \<and> i \<in> set known_settings then Some v else settings_view s j)"
    "unknown_count s' = unknown_count s + (if i \<in> set known_settings then 0 else 1)"
    by blast+
qed

lemma settings_walk_spec:
  "if list_ex setting_bad ps \<or> \<not> distinct (map fst ps) \<or> fst ` set ps \<inter> seen \<noteq> {}
   then settings_walk seen ps whole s = Inl ERR_SETTING
   else if \<not> whole then settings_walk seen ps whole s = Inl NEED_MORE
   else \<exists>s'. settings_walk seen ps whole s = Inr s'
     \<and> (\<forall>i. settings_view s' i =
          (case map_of ps i of
             Some v \<Rightarrow> if i \<in> set known_settings then Some v else settings_view s i
           | None \<Rightarrow> settings_view s i))
     \<and> unknown_count s' = unknown_count s + length (filter (\<lambda>(i, v). i \<notin> set known_settings) ps)"
proof (induction ps arbitrary: seen s)
  case (Cons p ps)
  obtain i v where p: "p = (i, v)" by (cases p)
  show ?case
  proof (cases "setting_is_h2_reserved i \<or> i \<in> seen \<or> setting_store i v s = None")
    case True
    then have "settings_walk seen (p # ps) whole s = Inl ERR_SETTING"
      by (auto simp: p split: option.splits)
    moreover have "list_ex setting_bad (p # ps) \<or> \<not> distinct (map fst (p # ps))
        \<or> fst ` set (p # ps) \<inter> seen \<noteq> {}"
      using True by (auto simp: p setting_bad_def setting_is_h2_reserved_def setting_store_None)
    ultimately show ?thesis by (simp only: if_True)
  next
    case False
    then obtain s1 where s1: "setting_store i v s = Some s1" by auto
    have ok: "\<not> setting_bad p"
      using False s1 setting_store_None [of i v s]
      by (auto simp: p setting_bad_def setting_is_h2_reserved_def)
    have step: "settings_walk seen (p # ps) whole s = settings_walk (insert i seen) ps whole s1"
      using False s1 by (simp add: p)
    let ?bad = "\<lambda>ps seen. list_ex setting_bad ps \<or> \<not> distinct (map fst ps) \<or> fst ` set ps \<inter> seen \<noteq> {}"
    have bad: "?bad (p # ps) seen = ?bad ps (insert i seen)"
      using ok False by (auto simp: p)
    note IH = Cons.IH [of "insert i seen" s1]
    show ?thesis
    proof (cases "?bad ps (insert i seen) \<or> \<not> whole")
      case True
      then show ?thesis unfolding step bad using IH by (auto split: if_split_asm)
    next
      case ok: False
      then obtain s' where s': "settings_walk (insert i seen) ps whole s1 = Inr s'"
        "\<And>j. settings_view s' j =
          (case map_of ps j of
             Some v \<Rightarrow> if j \<in> set known_settings then Some v else settings_view s1 j
           | None \<Rightarrow> settings_view s1 j)"
        "unknown_count s' = unknown_count s1 + length (filter (\<lambda>(i, v). i \<notin> set known_settings) ps)"
        using IH by auto
      have "map_of ps i = None" using ok by (auto simp: map_of_eq_None_iff)
      then have "settings_view s' j =
          (case map_of (p # ps) j of
             Some v \<Rightarrow> if j \<in> set known_settings then Some v else settings_view s j
           | None \<Rightarrow> settings_view s j)" for j
        using s'(2) [of j] setting_store_view(1) [OF s1, of j] by (auto simp: p split: option.splits)
      then show ?thesis
        unfolding step bad using ok s'(1,3) setting_store_view(2) [OF s1] by (simp add: p)
    qed
  qed
qed simp

lemma settings_view_unknown: "i \<notin> set known_settings \<Longrightarrow> settings_view s i = None"
  by (simp add: settings_view_def known_settings_def)

lemma settings_view_zero [simp]: "settings_view settings_zero i = None"
  by (simp add: settings_view_def settings_zero_def)

lemma settings_decode_items:
  "case settings_items payload of
     (ps, whole) \<Rightarrow>
       if settings_bad ps then wtq_h3_settings_decode payload = Inl ERR_SETTING
       else if \<not> whole then wtq_h3_settings_decode payload = Inl NEED_MORE
       else \<exists>s. wtq_h3_settings_decode payload = Inr s
         \<and> (\<forall>i. settings_view s i = (if i \<in> set known_settings then map_of ps i else None))
         \<and> unknown_count s = length (filter (\<lambda>(i, v). i \<notin> set known_settings) ps)"
proof -
  obtain ps whole where items: "settings_items payload = (ps, whole)" by (metis prod.exhaust)
  have eq: "wtq_h3_settings_decode payload = settings_walk {} ps whole settings_zero"
    using settings_decode_loop_walk [of "[]" "[]" payload settings_zero] items
    by (simp add: wtq_h3_settings_decode_def)
  have zero: "unknown_count settings_zero = 0" by (simp add: settings_zero_def)
  have bad: "settings_bad ps
      \<longleftrightarrow> list_ex setting_bad ps \<or> \<not> distinct (map fst ps) \<or> fst ` set ps \<inter> {} \<noteq> {}"
    by (simp add: settings_bad_def)
  have view: "(case map_of ps i of
       Some v \<Rightarrow> if i \<in> set known_settings then Some v else settings_view settings_zero i
     | None \<Rightarrow> settings_view settings_zero i)
     = (if i \<in> set known_settings then map_of ps i else None)" for i
    by (simp split: option.splits)
  show ?thesis
    unfolding items prod.case eq bad
    using settings_walk_spec [of ps "{}" whole settings_zero] unfolding view zero add_0 .
qed

text \<open>
  C25. The SETTINGS decoder accepts exactly the valid payloads. It reports
  \<open>ERR_SETTING\<close> when the pairs read so far contain a duplicate identifier (known or
  not), an HTTP/2-reserved identifier 2 to 5 or a boolean setting above 1, whatever
  the encoding of the varints; otherwise \<open>NEED_MORE\<close> when the span ends inside a
  pair; otherwise a view that maps every known setting to the value sent or to
  absent, with the number of unknown settings.
\<close>

theorem settings_decode_contract:
  "case settings_items payload of
     (ps, whole) \<Rightarrow>
       if settings_bad ps then wtq_h3_settings_decode payload = Inl ERR_SETTING
       else if \<not> whole then wtq_h3_settings_decode payload = Inl NEED_MORE
       else \<exists>s. wtq_h3_settings_decode payload = Inr s
         \<and> (\<forall>i. settings_view s i = (if i \<in> set known_settings then map_of ps i else None))
         \<and> unknown_count s = length (filter (\<lambda>(i, v). i \<notin> set known_settings) ps)"
  by (rule settings_decode_items)

section \<open>The advertisement\<close>

definition pairs_len :: "(u64 \<times> u64) list \<Rightarrow> nat" where
  "pairs_len ps = sum_list (map (\<lambda>(i, v). wtq_varint_len i + wtq_varint_len v) ps)"

lemma settings_encode_loop_items:
  assumes "settings_items dst = (qs, True)" "length dst + pairs_len ps \<le> cap"
    and "\<forall>(i, v) \<in> set ps. i \<le> WTQ_VARINT_MAX \<and> v \<le> WTQ_VARINT_MAX"
  shows "settings_items (settings_encode_loop ps cap dst) = (qs @ ps, True)
    \<and> length (settings_encode_loop ps cap dst) = length dst + pairs_len ps"
  using assms
proof (induction ps arbitrary: dst qs)
  case (Cons p ps)
  obtain i v where p: "p = (i, v)" by (cases p)
  let ?i = "written (wtq_varint_encode i (cap - length dst))"
  let ?v = "written (wtq_varint_encode v (cap - length (dst @ ?i)))"
  have rng: "i \<le> WTQ_VARINT_MAX" "v \<le> WTQ_VARINT_MAX" using Cons.prems(3) p by auto
  have cap: "wtq_varint_len i \<le> cap - length dst"
      "wtq_varint_len v \<le> cap - (length dst + wtq_varint_len i)"
    using Cons.prems(2) by (simp_all add: p pairs_len_def)
  note I = varint_encode_eq [OF rng(1) cap(1)] and V = varint_encode_eq [OF rng(2) cap(2)]
  have dec: "settings_items (?i @ ?v) = ([(i, v)], True)"
    using I(2) I(3) [of ?v] V(2) V(3) [of "[]"] by (subst settings_items_pair) auto
  have "settings_items (dst @ ?i @ ?v) = (qs @ [p], True)"
    using settings_items_append [OF Cons.prems(1), of "?i @ ?v"] dec p by simp
  moreover have "length (dst @ ?i @ ?v) = length dst + wtq_varint_len i + wtq_varint_len v"
    using I(2) V(2) by simp
  ultimately show ?case
    using Cons.IH [of "dst @ ?i @ ?v" "qs @ [p]"] Cons.prems(2,3)
    by (simp add: p pairs_len_def Let_def)
qed (simp add: pairs_len_def)

text \<open>What a configuration advertises, as a lookup.\<close>

definition advertised_profiles :: "wtq_h3_settings_encode_cfg \<Rightarrow> u64" where
  "advertised_profiles cfg =
     (if cfg_wt_profiles cfg AND WTQ_H3_WT_PROFILES_ALL = 0 then WTQ_H3_WT_PROFILES_CURRENT
      else cfg_wt_profiles cfg AND WTQ_H3_WT_PROFILES_ALL)"

definition advertises :: "wtq_h3_settings_encode_cfg \<Rightarrow> wtq_h3_wt_profile \<Rightarrow> bool" where
  "advertises cfg p \<longleftrightarrow> advertised_profiles cfg AND wtq_h3_wt_profile_bit p \<noteq> 0"

definition advertised_view :: "wtq_h3_settings_encode_cfg \<Rightarrow> u64 \<Rightarrow> u64 option" where
  "advertised_view cfg i =
     (if i = WTQ_H3_SET_QPACK_MAX_TABLE_CAPACITY \<or> i = WTQ_H3_SET_QPACK_BLOCKED_STREAMS then Some 0
      else if i = WTQ_H3_SET_H3_DATAGRAM then Some 1
      else if i = WTQ_H3_SET_ENABLE_CONNECT_PROTOCOL \<and> cfg_enable_connect_protocol cfg then Some 1
      else if i = WTQ_H3_SET_WT_MAX_SESSIONS_D13 \<and> advertises cfg PROFILE_D13_14_COMPAT then Some 1
      else if i = WTQ_H3_SET_ENABLE_WEBTRANSPORT_LEG \<and> advertises cfg PROFILE_D02_RFC9297_COMPAT then Some 1
      else if i = WTQ_H3_SET_WT_ENABLED \<and> advertises cfg PROFILE_CURRENT then Some 1
      else None)"

lemma build_out_settings_eq:
  "build_out_settings cfg =
     [(WTQ_H3_SET_QPACK_MAX_TABLE_CAPACITY, 0), (WTQ_H3_SET_QPACK_BLOCKED_STREAMS, 0)]
     @ (if cfg_enable_connect_protocol cfg then [(WTQ_H3_SET_ENABLE_CONNECT_PROTOCOL, 1)] else [])
     @ [(WTQ_H3_SET_H3_DATAGRAM, 1)]
     @ (if advertises cfg PROFILE_D13_14_COMPAT then [(WTQ_H3_SET_WT_MAX_SESSIONS_D13, 1)] else [])
     @ (if advertises cfg PROFILE_D02_RFC9297_COMPAT then [(WTQ_H3_SET_ENABLE_WEBTRANSPORT_LEG, 1)] else [])
     @ (if advertises cfg PROFILE_CURRENT then [(WTQ_H3_SET_WT_ENABLED, 1)] else [])"
  by (simp only: build_out_settings_def advertises_def advertised_profiles_def Let_def
      wtq_h3_wt_profile_bit.simps)

lemma u64_not_2_le_1: "\<not> (2 :: u64) \<le> 1"
  by (simp add: word_le_nat_alt)

lemma build_out_settings_facts:
  shows "\<not> settings_bad (build_out_settings cfg)"
    and "\<forall>(i, v) \<in> set (build_out_settings cfg). i \<le> WTQ_VARINT_MAX \<and> v \<le> WTQ_VARINT_MAX"
    and "fst ` set (build_out_settings cfg) \<subseteq> set known_settings"
    and "pairs_len (build_out_settings cfg) \<le> 23"
    and "sorted (map (unat \<circ> fst) (build_out_settings cfg))"
  by (auto simp: build_out_settings_eq settings_bad_def setting_bad_def boolean_settings_def
      known_settings_def WTQ_VARINT_MAX_def pairs_len_def wtq_varint_len_def setting_ids
      u64_not_2_le_1)

lemma build_out_settings_view:
  "map_of (build_out_settings cfg) i = advertised_view cfg i"
  by (auto simp: build_out_settings_eq advertised_view_def setting_ids)

lemma settings_encode_decode:
  assumes "wtq_h3_settings_payload_len cfg \<le> cap"
  shows "\<exists>enc s. wtq_h3_settings_encode_payload cfg cap = Inr enc
    \<and> length enc = wtq_h3_settings_payload_len cfg
    \<and> wtq_h3_settings_decode enc = Inr s
    \<and> (\<forall>i. settings_view s i = advertised_view cfg i) \<and> unknown_count s = 0"
proof -
  let ?ps = "build_out_settings cfg"
  let ?enc = "settings_encode_loop ?ps cap []"
  note facts = build_out_settings_facts [of cfg]
  have len: "wtq_h3_settings_payload_len cfg = pairs_len ?ps"
    by (simp add: wtq_h3_settings_payload_len_def pairs_len_def)
  have enc: "settings_items ?enc = (?ps, True)" "length ?enc = pairs_len ?ps"
    using settings_encode_loop_items [of "[]" "[]" ?ps cap] facts(2) assms len by auto
  have known: "advertised_view cfg i = None" if "i \<notin> set known_settings" for i
    using that by (auto simp: advertised_view_def known_settings_def)
  have none: "filter (\<lambda>(i, v). i \<notin> set known_settings) ?ps = []"
    using facts(3) by (fastforce simp: filter_empty_conv)
  obtain s where s: "wtq_h3_settings_decode ?enc = Inr s"
      "\<And>i. settings_view s i = (if i \<in> set known_settings then map_of ?ps i else None)"
      "unknown_count s = length (filter (\<lambda>(i, v). i \<notin> set known_settings) ?ps)"
    using settings_decode_items [of ?enc] enc(1) facts(1) by auto
  then show ?thesis
    using enc(2) len assms known none
    by (intro exI [of _ ?enc] exI [of _ s])
      (auto simp: wtq_h3_settings_encode_payload_def build_out_settings_view)
qed

lemma payload_len_le: "wtq_h3_settings_payload_len cfg \<le> 23"
  using build_out_settings_facts(4) [of cfg]
  by (simp add: wtq_h3_settings_payload_len_def pairs_len_def)

text \<open>
  C39. The SETTINGS frame an endpoint sends always fits the engine's 72-byte
  buffer, and a peer that parses the frame header and decodes the payload sees
  exactly the advertisement: QPACK tables off, datagrams on, extended CONNECT when
  configured, one WebTransport setting for every advertised profile and nothing
  else.
\<close>

theorem settings_frame_roundtrip:
  assumes "72 \<le> cap"
  shows "\<exists>enc fr s. wtq_h3_settings_encode_frame cfg cap = Inr enc \<and> length enc \<le> 25
    \<and> wtq_h3_frame_decode_header enc = Inr fr
    \<and> fr_type fr = WTQ_H3_FRAME_SETTINGS \<and> length enc = fr_header_len fr + unat (fr_length fr)
    \<and> wtq_h3_settings_decode (drop (fr_header_len fr) enc) = Inr s
    \<and> (\<forall>i. settings_view s i = advertised_view cfg i) \<and> unknown_count s = 0"
proof -
  let ?n = "wtq_h3_settings_payload_len cfg"
  let ?l = "of_nat ?n :: u64"
  have n: "unat ?l = ?n" using payload_len_le [of cfg] by (intro unat_of_nat_u64) simp
  have rng: "WTQ_H3_FRAME_SETTINGS \<le> WTQ_VARINT_MAX" "?l \<le> WTQ_VARINT_MAX"
    using payload_len_le [of cfg]
    by (simp_all add: word_le_nat_alt n varint_max_unat WTQ_H3_FRAME_SETTINGS_def)
  have hl: "wtq_h3_frame_header_len WTQ_H3_FRAME_SETTINGS ?l = 2"
    using payload_len_le [of cfg] rng
    by (simp add: header_len_eq) (simp add: wtq_varint_len_def word_less_nat_alt n WTQ_H3_FRAME_SETTINGS_def)
  have cap: "?n \<le> cap - 2" using payload_len_le [of cfg] assms by linarith
  obtain p s where p: "wtq_h3_settings_encode_payload cfg (cap - 2) = Inr p" "length p = ?n"
      and s: "wtq_h3_settings_decode p = Inr s" "\<forall>i. settings_view s i = advertised_view cfg i"
        "unknown_count s = 0"
    using settings_encode_decode [OF cap] by blast
  have room: "wtq_h3_frame_header_len WTQ_H3_FRAME_SETTINGS ?l \<le> cap" using hl assms by simp
  obtain h where h: "wtq_h3_frame_encode_header WTQ_H3_FRAME_SETTINGS ?l cap = Inr h" "length h = 2"
      "wtq_h3_frame_decode_header (h @ p)
        = Inr \<lparr>fr_type = WTQ_H3_FRAME_SETTINGS, fr_length = ?l, fr_header_len = length h\<rparr>"
    using h3_frame_encode_ok [OF rng room, of p] hl by auto
  have "wtq_h3_settings_encode_frame cfg cap = Inr (h @ p)"
    using h p hl payload_len_le [of cfg] assms by (simp add: wtq_h3_settings_encode_frame_def Let_def)
  then show ?thesis
    using h p s n payload_len_le [of cfg]
    by (intro exI [of _ "h @ p"] exI [of _ s]
        exI [of _ "\<lparr>fr_type = WTQ_H3_FRAME_SETTINGS, fr_length = ?l, fr_header_len = length h\<rparr>"]) simp
qed

theorem settings_frame_roundtrip_witness:
  "\<exists>enc fr s. wtq_h3_settings_encode_frame
        \<lparr>cfg_enable_connect_protocol = True, cfg_wt_profiles = 7\<rparr> 80 = Inr enc \<and> length enc \<le> 25
    \<and> wtq_h3_frame_decode_header enc = Inr fr
    \<and> fr_type fr = WTQ_H3_FRAME_SETTINGS \<and> length enc = fr_header_len fr + unat (fr_length fr)
    \<and> wtq_h3_settings_decode (drop (fr_header_len fr) enc) = Inr s
    \<and> (\<forall>i. settings_view s i =
          advertised_view \<lparr>cfg_enable_connect_protocol = True, cfg_wt_profiles = 7\<rparr> i)
    \<and> unknown_count s = 0"
  by (rule settings_frame_roundtrip) simp

section \<open>Profile selection\<close>

definition profile_eligible :: "wtq_h3_settings \<Rightarrow> bool \<Rightarrow> u64 \<Rightarrow> wtq_h3_wt_profile \<Rightarrow> bool" where
  "profile_eligible peer peer_is_server profs p \<longleftrightarrow>
     profs AND wtq_h3_wt_profile_bit p \<noteq> 0 \<and> peer_advertises peer p
     \<and> settings_view peer WTQ_H3_SET_H3_DATAGRAM = Some 1
     \<and> (p \<noteq> PROFILE_D02_RFC9297_COMPAT \<and> peer_is_server
          \<longrightarrow> settings_view peer WTQ_H3_SET_ENABLE_CONNECT_PROTOCOL = Some 1)"

text \<open>Newer drafts have the lower rank.\<close>

fun draft_rank :: "wtq_h3_wt_profile \<Rightarrow> nat" where
  "draft_rank PROFILE_CURRENT = 0"
| "draft_rank PROFILE_D13_14_COMPAT = 1"
| "draft_rank PROFILE_D02_RFC9297_COMPAT = 2"

lemma all_profiles:
  "(\<forall>p. P p) \<longleftrightarrow> P PROFILE_CURRENT \<and> P PROFILE_D13_14_COMPAT \<and> P PROFILE_D02_RFC9297_COMPAT"
  by (metis wtq_h3_wt_profile.exhaust)

lemma settings_view_fields:
  "settings_view s WTQ_H3_SET_H3_DATAGRAM = present (has_h3_datagram s) (h3_datagram s)"
  "settings_view s WTQ_H3_SET_ENABLE_CONNECT_PROTOCOL
     = present (has_enable_connect_protocol s) (enable_connect_protocol s)"
  "settings_view s WTQ_H3_SET_WT_ENABLED = present (has_wt_enabled s) (wt_enabled s)"
  "settings_view s WTQ_H3_SET_WT_MAX_SESSIONS_D13 = present (has_wt_max_sessions_d13 s) (wt_max_sessions_d13 s)"
  "settings_view s WTQ_H3_SET_ENABLE_WEBTRANSPORT_LEG
     = present (has_enable_webtransport_leg s) (enable_webtransport_leg s)"
  by (simp_all add: settings_view_def setting_ids)

lemma select_profile_loop_find:
  "select_profile_loop ps peer srv profs = find (profile_eligible peer srv profs) ps"
proof (induction ps)
  case (Cons p ps)
  then show ?case
    by (cases p) (auto simp: profile_eligible_def settings_view_fields present_def)
qed simp

lemma select_profile_find:
  "wtq_h3_settings_select_profile peer srv profs = find (profile_eligible peer srv profs) WT_PRECEDENCE"
  by (simp add: wtq_h3_settings_select_profile_def select_profile_loop_find)

lemma select_profile_iff:
  "wtq_h3_settings_select_profile peer srv profs = Some p \<longleftrightarrow>
     profile_eligible peer srv profs p
     \<and> (\<forall>q. draft_rank q < draft_rank p \<longrightarrow> \<not> profile_eligible peer srv profs q)"
  by (cases p) (auto simp: all_profiles select_profile_find WT_PRECEDENCE_def)

text \<open>
  The selected profile is the newest draft that the local set contains, the
  peer advertises and whose transport requirements the peer meets; none is
  selected exactly when there is no such profile.
\<close>

theorem select_profile_highest:
  "case wtq_h3_settings_select_profile peer srv profs of
     Some p \<Rightarrow> profile_eligible peer srv profs p
       \<and> (\<forall>q. profile_eligible peer srv profs q \<longrightarrow> draft_rank p \<le> draft_rank q)
   | None \<Rightarrow> \<forall>q. \<not> profile_eligible peer srv profs q"
proof (cases "wtq_h3_settings_select_profile peer srv profs")
  case None
  then have "\<not> profile_eligible peer srv profs q" for q
    by (cases q) (auto simp: select_profile_find WT_PRECEDENCE_def split: if_splits)
  with None show ?thesis by simp
next
  case (Some p)
  then show ?thesis using select_profile_iff [of peer srv profs p] not_less by auto
qed

theorem select_profile_highest_witness:
  "wtq_h3_settings_select_profile
     (settings_zero\<lparr>has_h3_datagram := True, h3_datagram := 1, has_wt_max_sessions_d13 := True,
       wt_max_sessions_d13 := 1, has_enable_webtransport_leg := True, enable_webtransport_leg := 1\<rparr>) False 7
     = Some PROFILE_D13_14_COMPAT
   \<and> \<not> profile_eligible
       (settings_zero\<lparr>has_h3_datagram := True, h3_datagram := 1, has_wt_max_sessions_d13 := True,
         wt_max_sessions_d13 := 1, has_enable_webtransport_leg := True, enable_webtransport_leg := 1\<rparr>) False 7
       PROFILE_CURRENT"
proof -
  let ?peer = "settings_zero\<lparr>has_h3_datagram := True, h3_datagram := 1, has_wt_max_sessions_d13 := True,
    wt_max_sessions_d13 := 1, has_enable_webtransport_leg := True, enable_webtransport_leg := 1\<rparr>"
  have "wtq_h3_settings_select_profile ?peer False 7 = Some PROFILE_D13_14_COMPAT"
    by (simp add: wtq_h3_settings_select_profile_def WT_PRECEDENCE_def settings_zero_def
        WTQ_H3_WT_PROFILES_CURRENT_def WTQ_H3_WT_PROFILES_D13_14_COMPAT_def
        WTQ_H3_WT_PROFILES_D02_RFC9297_COMPAT_def)
  then show ?thesis using select_profile_highest [of ?peer False 7] by auto
qed

section \<open>Two endpoints negotiate\<close>

lemma profile_bit_rank: "wtq_h3_wt_profile_bit p = push_bit (draft_rank p) 1"
  by (cases p)
    (simp_all add: WTQ_H3_WT_PROFILES_CURRENT_def WTQ_H3_WT_PROFILES_D13_14_COMPAT_def
      WTQ_H3_WT_PROFILES_D02_RFC9297_COMPAT_def push_bit_eq_mult)

lemma profile_mem: "profs AND wtq_h3_wt_profile_bit p \<noteq> 0 \<longleftrightarrow> bit profs (draft_rank p)"
  by (simp add: profile_bit_rank bit_iff_and_push_bit_not_eq_0)

lemma profiles_all_mask: "WTQ_H3_WT_PROFILES_ALL = mask 3"
  by (simp add: WTQ_H3_WT_PROFILES_ALL_def WTQ_H3_WT_PROFILES_CURRENT_def
      WTQ_H3_WT_PROFILES_D13_14_COMPAT_def WTQ_H3_WT_PROFILES_D02_RFC9297_COMPAT_def
      mask_eq_exp_minus_1)

lemma draft_rank_less_3: "draft_rank p < 3"
  by (cases p) simp_all

lemma ex_draft_rank: "n < 3 \<Longrightarrow> \<exists>p. draft_rank p = n"
  by (metis One_nat_def Suc_1 draft_rank.simps less_Suc_eq less_antisym not_less_zero numeral_3_eq_3)

lemma some_common_profile:
  "x AND y AND WTQ_H3_WT_PROFILES_ALL \<noteq> 0 \<longleftrightarrow> (\<exists>p. bit x (draft_rank p) \<and> bit y (draft_rank p))"
proof
  assume "x AND y AND WTQ_H3_WT_PROFILES_ALL \<noteq> 0"
  then obtain n where "bit (x AND y AND mask 3) n"
    unfolding profiles_all_mask by (metis bit_eq_iff bit_0_eq bot_apply bot_bool_def)
  then have "bit x n" "bit y n" "n < 3" by (simp_all add: bit_simps)
  then show "\<exists>p. bit x (draft_rank p) \<and> bit y (draft_rank p)" using ex_draft_rank by metis
next
  assume "\<exists>p. bit x (draft_rank p) \<and> bit y (draft_rank p)"
  then obtain p where p: "bit x (draft_rank p)" "bit y (draft_rank p)" by blast
  then have "bit (x AND y AND WTQ_H3_WT_PROFILES_ALL) (draft_rank p)"
    unfolding profiles_all_mask using draft_rank_less_3 [of p] by (simp add: bit_simps)
  then show "x AND y AND WTQ_H3_WT_PROFILES_ALL \<noteq> 0" by (metis bit_0_eq bot_apply bot_bool_def)
qed

lemma advertises_iff:
  assumes "cfg_wt_profiles cfg AND WTQ_H3_WT_PROFILES_ALL \<noteq> 0"
  shows "advertises cfg p \<longleftrightarrow> bit (cfg_wt_profiles cfg) (draft_rank p)"
  using assms draft_rank_less_3 [of p]
  by (simp add: advertises_def advertised_profiles_def profile_mem)
    (simp add: profiles_all_mask bit_simps)

lemma eligible_of_advertised:
  assumes "\<forall>i. settings_view s i = advertised_view cfg i"
    and "srv \<longrightarrow> cfg_enable_connect_protocol cfg"
    and "cfg_wt_profiles cfg AND WTQ_H3_WT_PROFILES_ALL \<noteq> 0"
  shows "profile_eligible s srv profs p
    \<longleftrightarrow> bit profs (draft_rank p) \<and> bit (cfg_wt_profiles cfg) (draft_rank p)"
proof -
  have v: "present (has_h3_datagram s) (h3_datagram s) = Some 1"
    "present (has_enable_connect_protocol s) (enable_connect_protocol s)
       = (if cfg_enable_connect_protocol cfg then Some 1 else None)"
    "present (has_wt_enabled s) (wt_enabled s) = (if advertises cfg PROFILE_CURRENT then Some 1 else None)"
    "present (has_wt_max_sessions_d13 s) (wt_max_sessions_d13 s)
       = (if advertises cfg PROFILE_D13_14_COMPAT then Some 1 else None)"
    "present (has_enable_webtransport_leg s) (enable_webtransport_leg s)
       = (if advertises cfg PROFILE_D02_RFC9297_COMPAT then Some 1 else None)"
    unfolding settings_view_fields [symmetric] assms(1) [rule_format]
    by (simp_all add: advertised_view_def setting_ids)
  have "peer_advertises s p \<longleftrightarrow> advertises cfg p"
    using v by (cases p) (auto simp: present_def split: if_splits)
  then show ?thesis
    using v(1,2) assms(2)
    by (auto simp: profile_eligible_def profile_mem advertises_iff [OF assms(3)] settings_view_fields)
qed

text \<open>
  C22. Two endpoints that exchange their SETTINGS agree on the wire profile: from
  what each decodes of the other's payload, client and server select the same
  profile, and they select one exactly when their configured sets intersect. (The
  server advertises extended CONNECT; each set contains a profile this build knows,
  as the engine checks at creation.)
\<close>

theorem settings_negotiation_agrees:
  assumes "profs_s AND WTQ_H3_WT_PROFILES_ALL \<noteq> 0" "profs_c AND WTQ_H3_WT_PROFILES_ALL \<noteq> 0"
    and "23 \<le> cap"
  shows "\<exists>enc_s enc_c s c.
    wtq_h3_settings_encode_payload
      \<lparr>cfg_enable_connect_protocol = True, cfg_wt_profiles = profs_s\<rparr> cap = Inr enc_s
    \<and> wtq_h3_settings_encode_payload
      \<lparr>cfg_enable_connect_protocol = ecp, cfg_wt_profiles = profs_c\<rparr> cap = Inr enc_c
    \<and> wtq_h3_settings_decode enc_s = Inr s \<and> wtq_h3_settings_decode enc_c = Inr c
    \<and> wtq_h3_settings_select_profile s True profs_c = wtq_h3_settings_select_profile c False profs_s
    \<and> (wtq_h3_settings_select_profile s True profs_c \<noteq> None
        \<longleftrightarrow> profs_s AND profs_c AND WTQ_H3_WT_PROFILES_ALL \<noteq> 0)"
proof -
  let ?S = "\<lparr>cfg_enable_connect_protocol = True, cfg_wt_profiles = profs_s\<rparr>"
  let ?C = "\<lparr>cfg_enable_connect_protocol = ecp, cfg_wt_profiles = profs_c\<rparr>"
  have cap: "wtq_h3_settings_payload_len cfg \<le> cap" for cfg
    using payload_len_le [of cfg] assms(3) by linarith
  obtain enc_s s where S: "wtq_h3_settings_encode_payload ?S cap = Inr enc_s"
      "wtq_h3_settings_decode enc_s = Inr s" "\<forall>i. settings_view s i = advertised_view ?S i"
    using settings_encode_decode [OF cap] by blast
  obtain enc_c c where C: "wtq_h3_settings_encode_payload ?C cap = Inr enc_c"
      "wtq_h3_settings_decode enc_c = Inr c" "\<forall>i. settings_view c i = advertised_view ?C i"
    using settings_encode_decode [OF cap] by blast
  have es: "profile_eligible s True profs_c
      = (\<lambda>p. bit profs_c (draft_rank p) \<and> bit profs_s (draft_rank p))"
    using eligible_of_advertised [OF S(3)] assms(1) by (intro ext) simp
  have ec: "profile_eligible c False profs_s
      = (\<lambda>p. bit profs_s (draft_rank p) \<and> bit profs_c (draft_rank p))"
    using eligible_of_advertised [OF C(3)] assms(2) by (intro ext) simp
  have "(\<lambda>p. bit profs_c (draft_rank p) \<and> bit profs_s (draft_rank p))
      = (\<lambda>p. bit profs_s (draft_rank p) \<and> bit profs_c (draft_rank p))" by (intro ext) blast
  then have same: "wtq_h3_settings_select_profile s True profs_c
      = wtq_h3_settings_select_profile c False profs_s"
    by (simp add: select_profile_find es ec)
  have "p \<in> set WT_PRECEDENCE" for p by (cases p) (simp_all add: WT_PRECEDENCE_def)
  then have "wtq_h3_settings_select_profile s True profs_c \<noteq> None
      \<longleftrightarrow> profs_s AND profs_c AND WTQ_H3_WT_PROFILES_ALL \<noteq> 0"
    by (auto simp: some_common_profile select_profile_find es find_None_iff)
  with S C same show ?thesis by blast
qed

theorem settings_negotiation_agrees_witness:
  "\<exists>enc_s enc_c s c.
    wtq_h3_settings_encode_payload
      \<lparr>cfg_enable_connect_protocol = True, cfg_wt_profiles = 7\<rparr> 64 = Inr enc_s
    \<and> wtq_h3_settings_encode_payload
      \<lparr>cfg_enable_connect_protocol = False, cfg_wt_profiles = 6\<rparr> 64 = Inr enc_c
    \<and> wtq_h3_settings_decode enc_s = Inr s \<and> wtq_h3_settings_decode enc_c = Inr c
    \<and> wtq_h3_settings_select_profile s True 6 = wtq_h3_settings_select_profile c False 7
    \<and> (wtq_h3_settings_select_profile s True 6 \<noteq> None
        \<longleftrightarrow> 7 AND 6 AND WTQ_H3_WT_PROFILES_ALL \<noteq> 0)"
  by (rule settings_negotiation_agrees)
    (simp_all add: WTQ_H3_WT_PROFILES_ALL_def WTQ_H3_WT_PROFILES_CURRENT_def
      WTQ_H3_WT_PROFILES_D13_14_COMPAT_def WTQ_H3_WT_PROFILES_D02_RFC9297_COMPAT_def)

end
