(* ===== verification/Preamble.thy ===== *)
theory Preamble
  imports H3_Frame
begin

text \<open>
  The WebTransport stream association preamble, a type varint (0x41 on a
  bidirectional, 0x54 on a unidirectional stream) and the session id varint:
  \<^verbatim>\<open>src/proto/preamble.c\<close> and \<^verbatim>\<open>preamble.h\<close>. The decoder is direction aware and
  latches on any other type, reporting the type it read: the engine routes HTTP/3
  unidirectional streams by that value.
\<close>

definition WTQ_PREAMBLE_BIDI :: u64 where "WTQ_PREAMBLE_BIDI = 0x41"
definition WTQ_PREAMBLE_UNI :: u64 where "WTQ_PREAMBLE_UNI = 0x54"

text \<open>The C enum can hold any integer; the third constructor is every value but 1 and 2.\<close>

datatype wtq_preamble_kind = KIND_BIDI | KIND_UNI | KIND_OTHER int

record wtq_preamble =
  pr_kind :: wtq_preamble_kind
  pr_session_id :: u64
  pr_header_len :: nat \<comment> \<open>wire bytes of the two varints\<close>
  pr_wire_type :: u64

definition kind_codepoint :: "wtq_preamble_kind \<Rightarrow> u64" where
  "kind_codepoint kind =
     (if kind = KIND_BIDI then WTQ_PREAMBLE_BIDI
      else if kind = KIND_UNI then WTQ_PREAMBLE_UNI
      else - 1)" \<comment> \<open>\<^verbatim>\<open>UINT64_MAX\<close>, the invalid kind sentinel\<close>

definition wtq_preamble_encode :: "wtq_preamble_kind \<Rightarrow> u64 \<Rightarrow> nat \<Rightarrow> wtq_status + bytes" where
  "wtq_preamble_encode kind session_id cap =
     (let type = kind_codepoint kind in
      if type = - 1 \<or> session_id > WTQ_VARINT_MAX then Inl RANGE
      else if cap < wtq_varint_len type + wtq_varint_len session_id then Inl BUFFER
      else let t = written (wtq_varint_encode type cap);
               s = written (wtq_varint_encode session_id (cap - length t))
           in Inr (t @ s))"

datatype wtq_preamble_dec_state = PRE_DEC_TYPE | PRE_DEC_SESSION | PRE_DEC_POISONED

record wtq_preamble_dec =
  pd_vi :: wtq_varint_dec
  pd_state :: wtq_preamble_dec_state
  pd_wire_type :: u64
  pd_hdr_bytes :: nat

definition wtq_preamble_dec_init :: wtq_preamble_dec where
  "wtq_preamble_dec_init =
     \<lparr>pd_vi = wtq_varint_dec_init, pd_state = PRE_DEC_TYPE, pd_wire_type = 0, pd_hdr_bytes = 0\<rparr>"

text \<open>
  The two completed outcomes of a feed: \<^verbatim>\<open>WTQ_PREAMBLE_OK\<close> with the whole of
  \<^verbatim>\<open>*out\<close>, and \<^verbatim>\<open>WTQ_PREAMBLE_UNEXPECTED\<close>, which sets \<^verbatim>\<open>out->wire_type\<close> only.
\<close>

datatype preamble_result = PREAMBLE_OK wtq_preamble | PREAMBLE_UNEXPECTED u64

text \<open>The second half of the feed, from the session id varint on.\<close>

definition preamble_feed_session ::
  "wtq_preamble_dec \<Rightarrow> wtq_preamble_kind \<Rightarrow> bytes \<Rightarrow> nat
     \<Rightarrow> wtq_preamble_dec \<times> (wtq_status + preamble_result) \<times> nat" where
  "preamble_feed_session dec expect next_src eaten =
     (case wtq_varint_dec_feed (pd_vi dec) next_src of
        (vi, r, c) \<Rightarrow>
          let dec = dec\<lparr>pd_vi := vi, pd_hdr_bytes := pd_hdr_bytes dec + c\<rparr> in
          (case r of
             Inl st \<Rightarrow> (dec, Inl st, eaten + c)
           | Inr sid \<Rightarrow>
               (wtq_preamble_dec_init,
                Inr (PREAMBLE_OK
                  \<lparr>pr_kind = expect, pr_session_id = sid, pr_header_len = pd_hdr_bytes dec,
                   pr_wire_type = pd_wire_type dec\<rparr>),
                eaten + c)))"

definition wtq_preamble_dec_feed ::
  "wtq_preamble_kind \<Rightarrow> wtq_preamble_dec \<Rightarrow> bytes
     \<Rightarrow> wtq_preamble_dec \<times> (wtq_status + preamble_result) \<times> nat" where
  "wtq_preamble_dec_feed expect dec src =
     (case pd_state dec of
        PRE_DEC_POISONED \<Rightarrow> (dec, Inr (PREAMBLE_UNEXPECTED (pd_wire_type dec)), 0)
      | PRE_DEC_TYPE \<Rightarrow>
          (case wtq_varint_dec_feed (pd_vi dec) src of
             (vi, r, c) \<Rightarrow>
               let dec = dec\<lparr>pd_vi := vi, pd_hdr_bytes := pd_hdr_bytes dec + c\<rparr> in
               (case r of
                  Inl st \<Rightarrow> (dec, Inl st, c)
                | Inr v \<Rightarrow>
                    let dec = dec\<lparr>pd_wire_type := v\<rparr> in
                    if v \<noteq> kind_codepoint expect
                    then (dec\<lparr>pd_state := PRE_DEC_POISONED\<rparr>, Inr (PREAMBLE_UNEXPECTED v), c)
                    else preamble_feed_session (dec\<lparr>pd_state := PRE_DEC_SESSION\<rparr>) expect
                           (drop c src) c))
      | PRE_DEC_SESSION \<Rightarrow> preamble_feed_session dec expect src 0)"

definition wtq_preamble_decode ::
  "wtq_preamble_kind \<Rightarrow> bytes \<Rightarrow> wtq_status + preamble_result" where
  "wtq_preamble_decode expect src =
     (case wtq_preamble_dec_feed expect wtq_preamble_dec_init src of (_, r, _) \<Rightarrow> r)"

section \<open>The incremental decoder\<close>

definition preamble_dec_inv :: "wtq_preamble_dec \<Rightarrow> bool" where
  "preamble_dec_inv d \<longleftrightarrow> varint_dec_inv (pd_vi d)"

lemma preamble_dec_inv_init [simp]: "preamble_dec_inv wtq_preamble_dec_init"
  by (simp add: preamble_dec_inv_def wtq_preamble_dec_init_def)

text \<open>One byte either leaves a varint unfinished or completes it.\<close>

lemma varint_feed_byte_cases:
  assumes "varint_dec_inv vi"
  obtains (more) vi' where "varint_dec_inv vi'"
      "wtq_varint_dec_feed vi [b] = (vi', Inl NEED_MORE, 1)"
      "\<And>bs. wtq_varint_dec_feed vi (b # bs)
         = (case wtq_varint_dec_feed vi' bs of (d, r, m) \<Rightarrow> (d, r, Suc m))"
  | (complete) v where "\<And>bs. wtq_varint_dec_feed vi (b # bs) = (wtq_varint_dec_init, Inr v, 1)"
proof -
  obtain vi' r n where f: "wtq_varint_dec_feed vi [b] = (vi', r, n)" by (metis prod_cases3)
  show ?thesis
  proof (cases r)
    case (Inl e)
    then have r: "r = Inl NEED_MORE" using f varint_feed_Inl by metis
    note f' = f [unfolded r]
    have "n = 1" using varint.feed_more [OF assms f'] by simp
    then have one: "wtq_varint_dec_feed vi [b] = (vi', Inl NEED_MORE, 1)" using f' by simp
    have all: "wtq_varint_dec_feed vi (b # bs)
        = (case wtq_varint_dec_feed vi' bs of (d, r, m) \<Rightarrow> (d, r, Suc m))" for bs
      using varint.feed_split [OF assms f', of bs] by simp
    show ?thesis by (rule more [OF varint.inv_feed [OF assms f] one all])
  next
    case (Inr v)
    have "n = 1"
      using varint.feed_bound [OF assms f] varint_feed_progress [OF assms f] by simp
    moreover have "vi' = wtq_varint_dec_init" using f Inr varint_feed_Inr by metis
    ultimately have "wtq_varint_dec_feed vi (b # bs) = (wtq_varint_dec_init, Inr v, 1)" for bs
      using varint.feed_done [OF assms f, of bs] Inr by simp
    then show ?thesis by (rule complete)
  qed
qed

lemma preamble_session_Nil:
  "varint_dec_inv (pd_vi d) \<Longrightarrow> preamble_feed_session d expect [] e = (d, Inl NEED_MORE, e)"
  by (simp add: preamble_feed_session_def varint_feed_Nil)

lemma preamble_session_shift:
  "preamble_feed_session d expect xs e =
     (case preamble_feed_session d expect xs 0 of (d', r, m) \<Rightarrow> (d', r, e + m))"
  by (auto simp: preamble_feed_session_def Let_def split: prod.splits sum.splits)

lemma preamble_feed_byte_cases:
  assumes "preamble_dec_inv d"
  obtains (more) d' where "preamble_dec_inv d'"
      "wtq_preamble_dec_feed expect d [b] = (d', Inl NEED_MORE, 1)"
      "\<And>bs. wtq_preamble_dec_feed expect d (b # bs)
         = (case wtq_preamble_dec_feed expect d' bs of (d'', r, m) \<Rightarrow> (d'', r, Suc m))"
  | (complete) d' p n where "n \<le> 1" "preamble_dec_inv d'"
      "\<And>bs. wtq_preamble_dec_feed expect d (b # bs) = (d', Inr p, n)"
proof -
  have inv: "varint_dec_inv (pd_vi d)" using assms by (simp add: preamble_dec_inv_def)
  show ?thesis
  proof (cases "pd_state d")
    case PRE_DEC_POISONED
    then show ?thesis using assms by (intro complete [of 0 d]) (auto simp: wtq_preamble_dec_feed_def)
  next
    case PRE_DEC_SESSION
    from inv show ?thesis
    proof (cases rule: varint_feed_byte_cases [of "pd_vi d" b])
      case (more vi')
      with PRE_DEC_SESSION show ?thesis
        by (intro that(1) [of "d\<lparr>pd_vi := vi', pd_hdr_bytes := pd_hdr_bytes d + 1\<rparr>"])
          (auto simp: preamble_dec_inv_def wtq_preamble_dec_feed_def preamble_feed_session_def Let_def
            split: prod.splits sum.splits)
    next
      case (complete v)
      with PRE_DEC_SESSION show ?thesis
        by (intro that(2) [of 1 wtq_preamble_dec_init])
          (auto simp: wtq_preamble_dec_feed_def preamble_feed_session_def)
    qed
  next
    case PRE_DEC_TYPE
    from inv show ?thesis
    proof (cases rule: varint_feed_byte_cases [of "pd_vi d" b])
      case (more vi')
      with PRE_DEC_TYPE show ?thesis
        by (intro that(1) [of "d\<lparr>pd_vi := vi', pd_hdr_bytes := pd_hdr_bytes d + 1\<rparr>"])
          (auto simp: preamble_dec_inv_def wtq_preamble_dec_feed_def preamble_feed_session_def Let_def
            split: prod.splits sum.splits)
    next
      case (complete v)
      let ?d = "d\<lparr>pd_vi := wtq_varint_dec_init, pd_hdr_bytes := pd_hdr_bytes d + 1, pd_wire_type := v\<rparr>"
      show ?thesis
      proof (cases "v = kind_codepoint expect")
        case True
        then show ?thesis
          using complete PRE_DEC_TYPE
            preamble_session_shift [of "?d\<lparr>pd_state := PRE_DEC_SESSION\<rparr>" expect _ 1]
          by (intro that(1) [of "?d\<lparr>pd_state := PRE_DEC_SESSION\<rparr>"])
            (auto simp: preamble_dec_inv_def wtq_preamble_dec_feed_def preamble_session_Nil)
      next
        case False
        then show ?thesis
          using complete PRE_DEC_TYPE
          by (intro that(2) [of 1 "?d\<lparr>pd_state := PRE_DEC_POISONED\<rparr>"])
            (auto simp: preamble_dec_inv_def wtq_preamble_dec_feed_def)
      qed
    qed
  qed
qed

interpretation preamble: byte_decoder "wtq_preamble_dec_feed expect" preamble_dec_inv for expect
proof (unfold_locales, goal_cases)
  case (1 d b d' r n)
  from 1(1) show ?case
    by (cases rule: preamble_feed_byte_cases [of d expect b]) (use 1(2) in auto)
next
  case (2 d)
  then show ?case
    by (cases "pd_state d")
      (auto simp: wtq_preamble_dec_feed_def preamble_dec_inv_def preamble_session_Nil varint_feed_Nil)
next
  case (3 d b bs)
  from 3 show ?case
    by (cases rule: preamble_feed_byte_cases [of d expect b]) simp_all
next
  case (4 d b d' r n)
  from 4(1) show ?case
    by (cases rule: preamble_feed_byte_cases [of d expect b]) (use 4(2) in auto)
qed

section \<open>What a feed of the whole prefix gives\<close>

text \<open>
  The preamble read off a byte string in one go, with the bytes it takes: the
  type, and the session id only when the type is the expected one.
\<close>

definition preamble_read :: "wtq_preamble_kind \<Rightarrow> bytes \<Rightarrow> (preamble_result \<times> nat) option" where
  "preamble_read expect src =
     (case wtq_varint_decode src of
        Inl _ \<Rightarrow> None
      | Inr (t, c) \<Rightarrow>
          if t \<noteq> kind_codepoint expect then Some (PREAMBLE_UNEXPECTED t, c)
          else (case wtq_varint_decode (drop c src) of
                  Inl _ \<Rightarrow> None
                | Inr (sid, c') \<Rightarrow>
                    Some (PREAMBLE_OK \<lparr>pr_kind = expect, pr_session_id = sid,
                            pr_header_len = c + c', pr_wire_type = t\<rparr>, c + c')))"

lemma preamble_feed_read:
  "case preamble_read expect xs of
     None \<Rightarrow> \<exists>d. wtq_preamble_dec_feed expect wtq_preamble_dec_init xs = (d, Inl NEED_MORE, length xs)
   | Some (r, n) \<Rightarrow> \<exists>d. wtq_preamble_dec_feed expect wtq_preamble_dec_init xs = (d, Inr r, n)
       \<and> (case r of
            PREAMBLE_OK _ \<Rightarrow> d = wtq_preamble_dec_init
          | PREAMBLE_UNEXPECTED t \<Rightarrow> pd_state d = PRE_DEC_POISONED \<and> pd_wire_type d = t)"
proof (cases "wtq_varint_decode xs")
  case (Inl e)
  then show ?thesis
    using varint_feed_decode [of xs]
    by (auto simp: preamble_read_def wtq_preamble_dec_feed_def wtq_preamble_dec_init_def)
next
  case (Inr p)
  then obtain t c where p: "wtq_varint_decode xs = Inr (t, c)" by (cases p) auto
  then have first: "wtq_varint_dec_feed wtq_varint_dec_init xs = (wtq_varint_dec_init, Inr t, c)"
    and c: "c \<le> length xs"
    using varint_feed_decode [of xs] wtq_varint_decode_OK(2) [OF p] by auto
  show ?thesis
    using varint_feed_decode [of "drop c xs"] first p c
    by (cases "wtq_varint_decode (drop c xs)")
      (auto simp: preamble_read_def wtq_preamble_dec_feed_def wtq_preamble_dec_init_def
        preamble_feed_session_def)
qed

lemma preamble_chunks_concat:
  "cs \<noteq> [] \<Longrightarrow> feed_chunks (wtq_preamble_dec_feed expect) wtq_preamble_dec_init cs
     = wtq_preamble_dec_feed expect wtq_preamble_dec_init (concat cs)"
  by (rule preamble.feed_chunks_concat) simp_all

lemma preamble_poisoned:
  "pd_state d = PRE_DEC_POISONED \<Longrightarrow>
   wtq_preamble_dec_feed e d xs = (d, Inr (PREAMBLE_UNEXPECTED (pd_wire_type d)), 0)"
  by (simp add: wtq_preamble_dec_feed_def)

lemma preamble_read_Nil [simp]: "preamble_read expect [] = None"
  by (simp add: preamble_read_def)

text \<open>
  C34. The preamble decoder routes by what is on the wire, whatever the chunking:
  it reports the preamble when the expected type and a session id are there; it
  reports any other type as unexpected, without reading a session id, and from
  then on answers every feed with that same type and eats nothing; in every other
  case it has eaten everything and needs more.
\<close>

theorem preamble_chunked_decode:
  "case preamble_read expect (concat cs) of
     Some (PREAMBLE_OK p, n) \<Rightarrow>
       feed_chunks (wtq_preamble_dec_feed expect) wtq_preamble_dec_init cs
         = (wtq_preamble_dec_init, Inr (PREAMBLE_OK p), n)
   | Some (PREAMBLE_UNEXPECTED t, n) \<Rightarrow>
       \<exists>d. feed_chunks (wtq_preamble_dec_feed expect) wtq_preamble_dec_init cs
             = (d, Inr (PREAMBLE_UNEXPECTED t), n)
         \<and> (\<forall>e xs. wtq_preamble_dec_feed e d xs = (d, Inr (PREAMBLE_UNEXPECTED t), 0))
   | None \<Rightarrow>
       \<exists>d. feed_chunks (wtq_preamble_dec_feed expect) wtq_preamble_dec_init cs
             = (d, Inl NEED_MORE, length (concat cs))"
proof (cases "cs = []")
  case False
  show ?thesis
    unfolding preamble_chunks_concat [OF False]
    using preamble_feed_read [of expect "concat cs"] preamble_poisoned
    by (fastforce split: option.splits prod.splits preamble_result.splits)
qed simp

lemma kind_codepoint_max: "kind_codepoint k \<noteq> - 1 \<Longrightarrow> kind_codepoint k \<le> WTQ_VARINT_MAX"
  by (auto simp: kind_codepoint_def WTQ_PREAMBLE_BIDI_def WTQ_PREAMBLE_UNI_def WTQ_VARINT_MAX_def)

lemma preamble_encode_ok:
  assumes "kind_codepoint k \<noteq> - 1" "sid \<le> WTQ_VARINT_MAX"
    and "wtq_varint_len (kind_codepoint k) + wtq_varint_len sid \<le> cap"
  shows "\<exists>enc. wtq_preamble_encode k sid cap = Inr enc
    \<and> length enc = wtq_varint_len (kind_codepoint k) + wtq_varint_len sid
    \<and> preamble_read k (enc @ payload)
        = Some (PREAMBLE_OK \<lparr>pr_kind = k, pr_session_id = sid, pr_header_len = length enc,
                  pr_wire_type = kind_codepoint k\<rparr>, length enc)"
proof -
  let ?t = "written (wtq_varint_encode (kind_codepoint k) cap)"
  let ?s = "written (wtq_varint_encode sid (cap - length ?t))"
  have ct: "wtq_varint_len (kind_codepoint k) \<le> cap"
    and cs: "wtq_varint_len sid \<le> cap - wtq_varint_len (kind_codepoint k)"
    using assms(3) by linarith+
  note T = varint_encode_eq [OF kind_codepoint_max [OF assms(1)] ct]
    and S = varint_encode_eq [OF assms(2) cs]
  have "wtq_preamble_encode k sid cap = Inr (?t @ ?s)"
    using assms by (simp add: wtq_preamble_encode_def Let_def)
  then show ?thesis
    using T(2) T(3) [of "?s @ payload"] S(2) S(3) [of payload]
    by (simp add: preamble_read_def)
qed

text \<open>
  Round trip of the preamble: on a stream of either direction, the encoded
  preamble followed by any payload, cut into chunks in any way, decodes to the
  same kind and session id, and no payload byte is consumed.
\<close>

theorem preamble_roundtrip:
  assumes "k = KIND_BIDI \<or> k = KIND_UNI" "sid \<le> WTQ_VARINT_MAX"
    and "2 + wtq_varint_len sid \<le> cap"
  shows "\<exists>enc. wtq_preamble_encode k sid cap = Inr enc \<and> length enc = 2 + wtq_varint_len sid
    \<and> (\<forall>payload cs. concat cs = enc @ payload \<longrightarrow>
         feed_chunks (wtq_preamble_dec_feed k) wtq_preamble_dec_init cs
           = (wtq_preamble_dec_init,
              Inr (PREAMBLE_OK \<lparr>pr_kind = k, pr_session_id = sid, pr_header_len = length enc,
                     pr_wire_type = kind_codepoint k\<rparr>),
              length enc))"
proof -
  have two: "wtq_varint_len (kind_codepoint k) = 2" and cp: "kind_codepoint k \<noteq> - 1"
    using assms(1)
    by (auto simp: wtq_varint_len_def kind_codepoint_def WTQ_PREAMBLE_BIDI_def WTQ_PREAMBLE_UNI_def)
  note ok = preamble_encode_ok [OF cp assms(2), of cap, unfolded two, OF assms(3)]
  obtain enc where enc: "wtq_preamble_encode k sid cap = Inr enc" "length enc = 2 + wtq_varint_len sid"
    using ok by blast
  have "feed_chunks (wtq_preamble_dec_feed k) wtq_preamble_dec_init cs
      = (wtq_preamble_dec_init,
         Inr (PREAMBLE_OK \<lparr>pr_kind = k, pr_session_id = sid, pr_header_len = length enc,
                pr_wire_type = kind_codepoint k\<rparr>), length enc)"
    if "concat cs = enc @ payload" for payload cs
  proof -
    have "cs \<noteq> []" using that enc(2) by auto
    then show ?thesis
      using preamble_feed_read [of k "concat cs"] ok [of payload] enc that
      by (auto simp: preamble_chunks_concat)
  qed
  with enc show ?thesis by blast
qed

theorem preamble_roundtrip_witness:
  "\<exists>enc. wtq_preamble_encode KIND_UNI 4 16 = Inr enc \<and> length enc = 2 + wtq_varint_len 4
    \<and> (\<forall>payload cs. concat cs = enc @ payload \<longrightarrow>
         feed_chunks (wtq_preamble_dec_feed KIND_UNI) wtq_preamble_dec_init cs
           = (wtq_preamble_dec_init,
              Inr (PREAMBLE_OK \<lparr>pr_kind = KIND_UNI, pr_session_id = 4, pr_header_len = length enc,
                     pr_wire_type = kind_codepoint KIND_UNI\<rparr>),
              length enc))"
  by (rule preamble_roundtrip) (simp_all add: WTQ_VARINT_MAX_def wtq_varint_len_def)

end
