(* ===== verification/Results.thy ===== *)
theory Results
  imports Prelude
begin

text \<open>
  The public result codes (\<^verbatim>\<open>include/wtquic/error.h\<close>), their names
  (\<^verbatim>\<open>src/types.c\<close>) and the mapping between 32-bit WebTransport application errors
  and the HTTP/3 error space (\<^verbatim>\<open>src/proto/errmap.c\<close>).
\<close>

datatype wtq_result =
    WTQ_OK
  | WTQ_ERR_INVALID_ARG
  | WTQ_ERR_NOMEM
  | WTQ_ERR_STATE
  | WTQ_ERR_WOULD_BLOCK
  | WTQ_ERR_TOO_LARGE
  | WTQ_ERR_STREAM_LIMIT
  | WTQ_ERR_CLOSED
  | WTQ_ERR_PROTO
  | WTQ_ERR_UNSUPPORTED
  | WTQ_ERR_DGRAM_DISABLED
  | WTQ_ERR_NOT_FOUND
  | WTQ_ERR_BACKEND
  | WTQ_ERR_OTHER int \<comment> \<open>any other value of the C \<^verbatim>\<open>int\<close>\<close>

fun wtq_strerror :: "wtq_result \<Rightarrow> string" where
  "wtq_strerror WTQ_OK = ''ok''"
| "wtq_strerror WTQ_ERR_INVALID_ARG = ''invalid argument''"
| "wtq_strerror WTQ_ERR_NOMEM = ''out of memory''"
| "wtq_strerror WTQ_ERR_STATE = ''operation illegal in current state''"
| "wtq_strerror WTQ_ERR_WOULD_BLOCK = ''would block''"
| "wtq_strerror WTQ_ERR_TOO_LARGE = ''too large''"
| "wtq_strerror WTQ_ERR_STREAM_LIMIT = ''stream limit reached''"
| "wtq_strerror WTQ_ERR_CLOSED = ''closed''"
| "wtq_strerror WTQ_ERR_PROTO = ''protocol violation''"
| "wtq_strerror WTQ_ERR_UNSUPPORTED = ''unsupported''"
| "wtq_strerror WTQ_ERR_DGRAM_DISABLED = ''datagrams disabled''"
| "wtq_strerror WTQ_ERR_NOT_FOUND = ''not found''"
| "wtq_strerror WTQ_ERR_BACKEND = ''backend failure''"
| "wtq_strerror (WTQ_ERR_OTHER _) = ''unknown error''"

section \<open>Application errors\<close>

definition WTQ_H3_APP_ERROR_FIRST :: u64 where
  "WTQ_H3_APP_ERROR_FIRST = 0x52e4a40fa8db"

definition WTQ_H3_APP_ERROR_LAST :: u64 where
  "WTQ_H3_APP_ERROR_LAST = WTQ_H3_APP_ERROR_FIRST + 0xffffffff + 0xffffffff div 0x1e"

definition wtq_app_error_to_h3 :: "u32 \<Rightarrow> u64" where
  "wtq_app_error_to_h3 app_error =
     (let n = ucast app_error in WTQ_H3_APP_ERROR_FIRST + n + n div 0x1e)"

text \<open>\<open>has_out\<close>: the caller passed an out pointer.\<close>

definition wtq_h3_error_to_app :: "u64 \<Rightarrow> bool \<Rightarrow> wtq_result + u32" where
  "wtq_h3_error_to_app h3_error has_out =
     (if \<not> has_out then Inl WTQ_ERR_INVALID_ARG
      else if h3_error < WTQ_H3_APP_ERROR_FIRST \<or> h3_error > WTQ_H3_APP_ERROR_LAST
      then Inl WTQ_ERR_NOT_FOUND
      else
        let shifted = h3_error - WTQ_H3_APP_ERROR_FIRST;
            n = shifted - shifted div 0x1f
        in if n > 0xffffffff \<or> wtq_app_error_to_h3 (ucast n) \<noteq> h3_error
           then Inl WTQ_ERR_NOT_FOUND
           else Inr (ucast n))"

lemma app_error_first_nat: "unat WTQ_H3_APP_ERROR_FIRST = 91141958510811"
  by (simp add: WTQ_H3_APP_ERROR_FIRST_def)

lemma app_error_to_h3_nat:
  "unat (wtq_app_error_to_h3 a) = 91141958510811 + unat a + unat a div 30"
proof -
  have "unat a div 30 \<le> unat a" by simp
  moreover have "unat a < 4294967296" by simp
  ultimately have "91141958510811 + unat a + unat a div 30 < 18446744073709551616" by linarith
  then show ?thesis
    by (simp add: wtq_app_error_to_h3_def Let_def unat_word_ariths app_error_first_nat unat_div)
qed

lemma skip_one_in_31: "(n + n div 30) - (n + n div 30) div 31 = (n :: nat)"
proof -
  have eq: "n + n div 30 = 31 * (n div 30) + n mod 30"
    using div_mult_mod_eq [of n 30] by linarith
  have "n mod 30 < 31" by (rule less_trans [of _ 30]) simp_all
  then have "(n + n div 30) div 31 = n div 30" unfolding eq by simp
  then show ?thesis by simp
qed

lemma h3_error_to_app_of_h3: "wtq_h3_error_to_app (wtq_app_error_to_h3 a) True = Inr a"
proof -
  let ?h = "wtq_app_error_to_h3 a"
  let ?s = "?h - WTQ_H3_APP_ERROR_FIRST"
  have ge: "WTQ_H3_APP_ERROR_FIRST \<le> ?h"
    by (simp add: word_le_nat_alt app_error_to_h3_nat app_error_first_nat)
  have a: "unat a \<le> 4294967295" using unat_u32_less [of a] by linarith
  then have "unat a div 30 \<le> 4294967295 div 30" by (rule div_le_mono)
  then have le: "?h \<le> WTQ_H3_APP_ERROR_LAST"
    using a by (simp add: word_le_nat_alt app_error_to_h3_nat WTQ_H3_APP_ERROR_LAST_def
        WTQ_H3_APP_ERROR_FIRST_def)
  have s: "unat ?s = unat a + unat a div 30"
    using unat_sub [OF ge] by (simp add: app_error_to_h3_nat app_error_first_nat)
  have sd: "unat (?s div 31) = (unat a + unat a div 30) div 31"
    by (simp add: unat_div s)
  have "?s div 31 \<le> ?s" by (simp add: word_le_nat_alt unat_div)
  then have n: "unat (?s - ?s div 31) = unat a"
    using unat_sub [of "?s div 31" ?s] by (simp add: s sd skip_one_in_31)
  have cast: "ucast (?s - ?s div 31) = a"
    using a by (intro word_unat_eq_iff [THEN iffD2])
      (simp add: unsigned_ucast_eq n take_bit_nat_eq_self_iff)
  have "\<not> 0xffffffff < ?s - ?s div 31" using a by (simp add: word_less_nat_alt n)
  then show ?thesis
    using ge le cast by (simp add: wtq_h3_error_to_app_def Let_def not_less)
qed

text \<open>
  C36. The error mapping is a bijection between the 32-bit application errors and
  the codes it reports: decoding gives \<open>a\<close> exactly for the encoding of \<open>a\<close>, every
  other code is not found, and no encoding is a GREASE codepoint 31 * N + 33.
\<close>

theorem app_error_mapping_exact:
  "(wtq_h3_error_to_app h True = Inr a \<longleftrightarrow> h = wtq_app_error_to_h3 a)
   \<and> ((\<forall>a. h \<noteq> wtq_app_error_to_h3 a) \<longleftrightarrow> wtq_h3_error_to_app h True = Inl WTQ_ERR_NOT_FOUND)
   \<and> (\<nexists>N. unat (wtq_app_error_to_h3 a) = 0x1f * N + 0x21)"
proof -
  have imp: "h = wtq_app_error_to_h3 a" if "wtq_h3_error_to_app h True = Inr a" for a
    using that by (auto simp: wtq_h3_error_to_app_def Let_def split: if_splits)
  have nf: "wtq_h3_error_to_app h True = Inl WTQ_ERR_NOT_FOUND
      \<or> (\<exists>a. wtq_h3_error_to_app h True = Inr a)"
    by (auto simp: wtq_h3_error_to_app_def Let_def)
  have "unat (wtq_app_error_to_h3 a) \<noteq> 0x1f * N + 0x21" for N
  proof
    assume "unat (wtq_app_error_to_h3 a) = 0x1f * N + 0x21"
    then have "91141958510811 + unat a + unat a div 30 = 2 + 31 * (N + 1)"
      using app_error_to_h3_nat [of a] by simp
    moreover have "91141958510811 + unat a + unat a div 30
        = (unat a mod 30 + 3) + 31 * (unat a div 30 + 2940063177768)"
      using div_mult_mod_eq [of "unat a" 30] by simp
    ultimately have "(unat a mod 30 + 3) mod 31 = 2 mod 31" by (metis mod_mult_self2)
    moreover have "unat a mod 30 < 30" by simp
    ultimately show False by (cases "unat a mod 30 = 28 \<or> unat a mod 30 = 29") (auto simp: mod_if)
  qed
  with imp nf show ?thesis using h3_error_to_app_of_h3 by (metis Inr_inject Inr_Inl_False)
qed

end
