(* ===== verification/Stream_Budget.thy ===== *)
theory Stream_Budget
  imports Results
begin

text \<open>
  Stream capacity planning: the checked arithmetic of
  \<^verbatim>\<open>src/engine/stream_budget.h\<close>, the engine's storage request
  (\<^verbatim>\<open>src/engine/conn.c\<close>) and the plan that the API layer makes and later
  validates (\<^verbatim>\<open>src/api/session.c\<close>). The sizes of the C structs are the argument
  \<open>layout\<close>; \<^verbatim>\<open>size_t\<close> has 64 bits.
\<close>

definition WTQ_STREAM_CAPACITY_BYTES_MAX :: u64 where
  "WTQ_STREAM_CAPACITY_BYTES_MAX = 64 * 1024 * 1024"

definition wtq_stream_counts_valid :: "u32 \<Rightarrow> u32 \<Rightarrow> u32 \<Rightarrow> bool" where
  "wtq_stream_counts_valid uni bidi local \<longleftrightarrow>
     uni \<ge> 3 \<and> uni \<le> 1024 \<and> bidi \<ge> 1 \<and> bidi \<le> 1024
     \<and> uni \<le> 1024 - bidi \<and> local \<ge> 1 \<and> local \<le> 1024"

definition wtq_capacity_add :: "u64 \<Rightarrow> u64 \<Rightarrow> u64 option" where
  "wtq_capacity_add a b =
     (if a > - 1 - b then None
      else if a + b \<le> WTQ_STREAM_CAPACITY_BYTES_MAX then Some (a + b) else None)"

definition wtq_capacity_mul :: "u64 \<Rightarrow> u64 \<Rightarrow> u64 option" where
  "wtq_capacity_mul count sz =
     (if sz \<noteq> 0 \<and> count > - 1 div sz then None
      else if count * sz \<le> WTQ_STREAM_CAPACITY_BYTES_MAX then Some (count * sz) else None)"

definition wtq_counter_increment :: "u64 \<Rightarrow> u64" where
  "wtq_counter_increment counter = (if counter \<noteq> - 1 then counter + 1 else counter)"

record layout =
  sizeof_estream :: u64
  sizeof_ptr :: u64
  sizeof_stream :: u64

definition wtq_conn_stream_storage_v2 :: "layout \<Rightarrow> u32 \<Rightarrow> u32 \<Rightarrow> u64 option" where
  "wtq_conn_stream_storage_v2 L engine peers =
     (if engine \<le> 2049 \<and> peers \<le> 1024 then
        (case wtq_capacity_mul (ucast engine) (sizeof_estream L) of
           None \<Rightarrow> None
         | Some entries \<Rightarrow>
             (case wtq_capacity_mul (ucast peers) (sizeof_ptr L) of
                None \<Rightarrow> None
              | Some map_bytes \<Rightarrow> wtq_capacity_add entries map_bytes))
      else None)"

text \<open>The plan: the counts, the three capacities and the byte sizes of its budget.\<close>

record wtq_stream_plan =
  pl_client :: bool
  pl_uni :: u32
  pl_bidi :: u32
  pl_local :: u32
  pl_api_capacity :: u32
  pl_engine_capacity :: u32
  pl_native_capacity :: u32
  pl_engine_bytes :: u64
  pl_api_bytes :: u64
  pl_native_bytes :: u64
  pl_scratch_bytes :: u64
  pl_capacity_bytes :: u64

fun capacity_sum :: "u64 \<Rightarrow> u64 list \<Rightarrow> u64 option" where
  "capacity_sum acc [] = Some acc"
| "capacity_sum acc (x # xs) =
     (case wtq_capacity_add acc x of None \<Rightarrow> None | Some t \<Rightarrow> capacity_sum t xs)"

definition wtq_api_stream_plan_v1 ::
  "layout \<Rightarrow> u32 \<Rightarrow> u32 \<Rightarrow> u32 \<Rightarrow> bool \<Rightarrow> u64 \<Rightarrow> u64 \<Rightarrow> wtq_result + wtq_stream_plan" where
  "wtq_api_stream_plan_v1 L uni bidi local client native_record_size scratch_record_size =
     (if native_record_size = 0 \<or> scratch_record_size = 0 then Inl WTQ_ERR_INVALID_ARG
      else
        let local = (if local = 0 then 16 else local) in
        if \<not> wtq_stream_counts_valid uni bidi local then Inl WTQ_ERR_INVALID_ARG
        else
          let api = uni + bidi + local;
              engine = api + (if client then 1 else 0);
              native = engine + 3
          in case wtq_conn_stream_storage_v2 L engine (uni + bidi) of
               None \<Rightarrow> Inl WTQ_ERR_INVALID_ARG
             | Some engine_bytes \<Rightarrow>
             (case wtq_capacity_mul (ucast api) (sizeof_stream L) of
                None \<Rightarrow> Inl WTQ_ERR_INVALID_ARG
              | Some api_bytes \<Rightarrow>
             (case wtq_capacity_mul (ucast native) native_record_size of
                None \<Rightarrow> Inl WTQ_ERR_INVALID_ARG
              | Some native_bytes \<Rightarrow>
             (case wtq_capacity_mul (ucast (uni + bidi)) scratch_record_size of
                None \<Rightarrow> Inl WTQ_ERR_INVALID_ARG
              | Some scratch_bytes \<Rightarrow>
             (case capacity_sum 0 [engine_bytes, api_bytes, native_bytes, scratch_bytes] of
                None \<Rightarrow> Inl WTQ_ERR_INVALID_ARG
              | Some tot \<Rightarrow>
                  Inr \<lparr>pl_client = client, pl_uni = uni, pl_bidi = bidi, pl_local = local,
                       pl_api_capacity = api, pl_engine_capacity = engine,
                       pl_native_capacity = native, pl_engine_bytes = engine_bytes,
                       pl_api_bytes = api_bytes, pl_native_bytes = native_bytes,
                       pl_scratch_bytes = scratch_bytes, pl_capacity_bytes = tot\<rparr>)))))"

text \<open>The plan checks of \<^verbatim>\<open>wtq_api_session_create_admission_v2\<close>.\<close>

definition plan_accepted :: "layout \<Rightarrow> bool \<Rightarrow> wtq_stream_plan \<Rightarrow> bool" where
  "plan_accepted L is_client p \<longleftrightarrow>
     (let peers = pl_uni p + pl_bidi p in
      wtq_stream_counts_valid (pl_uni p) (pl_bidi p) (pl_local p)
      \<and> pl_client p = is_client
      \<and> pl_api_capacity p = peers + pl_local p
      \<and> pl_engine_capacity p = pl_api_capacity p + (if pl_client p then 1 else 0)
      \<and> pl_native_capacity p = pl_engine_capacity p + 3
      \<and> wtq_conn_stream_storage_v2 L (pl_engine_capacity p) peers = Some (pl_engine_bytes p)
      \<and> wtq_capacity_mul (ucast (pl_api_capacity p)) (sizeof_stream L) = Some (pl_api_bytes p)
      \<and> (case wtq_capacity_add (pl_engine_bytes p) (pl_api_bytes p) of
           None \<Rightarrow> False
         | Some t \<Rightarrow>
             capacity_sum t [pl_native_bytes p, pl_scratch_bytes p] = Some (pl_capacity_bytes p)))"

lemma capacity_max_nat: "unat WTQ_STREAM_CAPACITY_BYTES_MAX = 67108864"
  by (simp add: WTQ_STREAM_CAPACITY_BYTES_MAX_def)

lemma unat_max_u64: "unat (- 1 :: u64) = 18446744073709551615"
  by (simp add: unsigned_minus_1_eq_mask mask_eq_exp_minus_1)

text \<open>The checked operations compute in the natural numbers, or fail.\<close>

lemma capacity_add_iff:
  "wtq_capacity_add a b = Some c \<longleftrightarrow> unat a + unat b \<le> 67108864 \<and> c = a + b"
proof -
  have le: "b \<le> - 1" by simp
  have sub: "unat (- 1 - b) = 18446744073709551615 - unat b"
    using unat_sub [OF le] by (simp only: unat_max_u64)
  have guard: "a > - 1 - b \<longleftrightarrow> unat a + unat b > 18446744073709551615"
    unfolding word_less_nat_alt sub using unat_u64_less [of b] by linarith
  have sum: "unat (a + b) = unat a + unat b" if "unat a + unat b \<le> 18446744073709551615"
    using that by (simp add: unat_word_ariths)
  show ?thesis
    using sum unfolding wtq_capacity_add_def guard
    by (auto simp: word_le_nat_alt capacity_max_nat)
qed

lemma capacity_mul_iff:
  "wtq_capacity_mul a b = Some c \<longleftrightarrow> unat a * unat b \<le> 67108864 \<and> c = a * b"
proof (cases "b = 0")
  case False
  then have pos: "0 < unat b" by (simp add: unat_gt_0)
  have guard: "a > - 1 div b \<longleftrightarrow> unat a * unat b > 18446744073709551615"
    unfolding word_less_nat_alt unat_div unat_max_u64
    using pos by (simp add: div_less_iff_less_mult)
  have prod: "unat (a * b) = unat a * unat b" if "unat a * unat b \<le> 18446744073709551615"
    using that by (simp add: unat_word_ariths)
  show ?thesis
    using prod False unfolding wtq_capacity_mul_def guard
    by (auto simp: word_le_nat_alt capacity_max_nat)
qed (auto simp: wtq_capacity_mul_def word_le_nat_alt capacity_max_nat)

lemma capacity_sum_exact:
  "capacity_sum a xs = Some t \<Longrightarrow>
   unat t = unat a + sum_list (map unat xs) \<and> (xs = [] \<or> unat t \<le> 67108864)"
proof (induction xs arbitrary: a)
  case (Cons x xs)
  then obtain s where s: "wtq_capacity_add a x = Some s" "capacity_sum s xs = Some t"
    by (auto split: option.splits)
  then have "unat s = unat a + unat x" "unat s \<le> 67108864"
    by (auto simp: capacity_add_iff unat_word_ariths)
  with Cons.IH [OF s(2)] s(2) show ?case by (cases xs) auto
qed simp

lemma capacity_mul_nat:
  "wtq_capacity_mul a b = Some c \<Longrightarrow> unat c = unat a * unat b"
  by (auto simp: capacity_mul_iff unat_word_ariths)

lemma stream_counts_nat:
  assumes "wtq_stream_counts_valid uni bidi local"
  shows "unat uni + unat bidi \<le> 1024" "1 \<le> unat local" "unat local \<le> 1024"
    and "unat (uni + bidi) = unat uni + unat bidi"
    and "unat (uni + bidi + local) = unat uni + unat bidi + unat local"
proof -
  have b: "bidi \<le> 1024" "uni \<le> 1024 - bidi" and l: "1 \<le> local" "local \<le> 1024"
    using assms by (simp_all add: wtq_stream_counts_valid_def)
  have "unat (1024 - bidi) = 1024 - unat bidi" using unat_sub [OF b(1)] by simp
  with b show s: "unat uni + unat bidi \<le> 1024" by (simp add: word_le_nat_alt)
  show l1: "1 \<le> unat local" and l2: "unat local \<le> 1024" using l by (simp_all add: word_le_nat_alt)
  show u: "unat (uni + bidi) = unat uni + unat bidi" using s by (simp add: unat_word_ariths)
  show "unat (uni + bidi + local) = unat uni + unat bidi + unat local"
    using s l2 u by (simp add: unat_word_ariths(1) [of "uni + bidi" local])
qed

lemma stream_storage_nat:
  assumes "wtq_conn_stream_storage_v2 L engine peers = Some bytes"
  shows "unat bytes = unat engine * unat (sizeof_estream L) + unat peers * unat (sizeof_ptr L)"
  using assms capacity_mul_nat
  by (fastforce simp: wtq_conn_stream_storage_v2_def capacity_add_iff unat_word_ariths
      split: if_splits option.splits)

text \<open>
  C26. Planned capacities are exact and bounded. A plan that is made has
  capacities that are the plain sums of its counts (no wrap-around; at most 2048
  handles), its total is the plain sum over its four arenas of count times record
  size and is at most 64 MiB, and the session constructor for the same perspective
  accepts it.
\<close>

theorem stream_plan_exact_and_accepted:
  assumes "wtq_api_stream_plan_v1 L uni bidi local client nrs srs = Inr p"
  shows "plan_accepted L client p
    \<and> unat (pl_api_capacity p) = unat uni + unat bidi + unat (pl_local p)
    \<and> unat (pl_api_capacity p) \<le> 2048
    \<and> unat (pl_engine_capacity p) = unat (pl_api_capacity p) + (if client then 1 else 0)
    \<and> unat (pl_native_capacity p) = unat (pl_engine_capacity p) + 3
    \<and> unat (pl_capacity_bytes p)
        = unat (pl_engine_capacity p) * unat (sizeof_estream L)
          + (unat uni + unat bidi) * unat (sizeof_ptr L)
          + unat (pl_api_capacity p) * unat (sizeof_stream L)
          + unat (pl_native_capacity p) * unat nrs + (unat uni + unat bidi) * unat srs
    \<and> unat (pl_capacity_bytes p) \<le> 64 * 1024 * 1024"
proof -
  define lo where "lo = (if local = 0 then 16 else local)"
  let ?api = "uni + bidi + lo"
  let ?eng = "?api + (if client then 1 else 0)"
  obtain eb ab nb sb tot where
    valid: "wtq_stream_counts_valid uni bidi lo"
    and eb: "wtq_conn_stream_storage_v2 L ?eng (uni + bidi) = Some eb"
    and ab: "wtq_capacity_mul (ucast ?api) (sizeof_stream L) = Some ab"
    and nb: "wtq_capacity_mul (ucast (?eng + 3)) nrs = Some nb"
    and sb: "wtq_capacity_mul (ucast (uni + bidi)) srs = Some sb"
    and tot: "capacity_sum 0 [eb, ab, nb, sb] = Some tot"
    and p: "p = \<lparr>pl_client = client, pl_uni = uni, pl_bidi = bidi, pl_local = lo,
        pl_api_capacity = ?api, pl_engine_capacity = ?eng, pl_native_capacity = ?eng + 3,
        pl_engine_bytes = eb, pl_api_bytes = ab, pl_native_bytes = nb, pl_scratch_bytes = sb,
        pl_capacity_bytes = tot\<rparr>"
    using assms unfolding wtq_api_stream_plan_v1_def lo_def [symmetric] Let_def
    by (auto split: if_split_asm option.split_asm)
  note c = stream_counts_nat [OF valid]
  have api: "unat ?api \<le> 2048" using c(1,3,5) by linarith
  have eng: "unat ?eng = unat ?api + (if client then 1 else 0)"
    using api by (simp add: unat_word_ariths(1) [of ?api])
  have nat': "unat (?eng + 3) = unat ?eng + 3"
    using api eng by (simp add: unat_word_ariths(1) [of ?eng] split: if_splits)
  have zero: "wtq_capacity_add 0 eb = Some eb \<or> wtq_capacity_add 0 eb = None"
    by (simp add: wtq_capacity_add_def)
  have acc: "plan_accepted L client p"
    using valid eb ab tot zero unfolding p plan_accepted_def Let_def
    by (auto split: option.splits)
  have "unat tot = unat eb + unat ab + unat nb + unat sb" "unat tot \<le> 67108864"
    using capacity_sum_exact [OF tot] by simp_all
  then show ?thesis
    using acc api eng nat' c(4,5) capacity_mul_nat [OF ab] capacity_mul_nat [OF nb]
      capacity_mul_nat [OF sb] stream_storage_nat [OF eb]
    by (simp add: p)
qed

theorem stream_plan_exact_and_accepted_witness:
  "plan_accepted \<lparr>sizeof_estream = 200, sizeof_ptr = 8, sizeof_stream = 100\<rparr> True
     (projr (wtq_api_stream_plan_v1 \<lparr>sizeof_estream = 200, sizeof_ptr = 8, sizeof_stream = 100\<rparr>
        16 16 0 True 64 32))"
proof -
  let ?L = "\<lparr>sizeof_estream = 200, sizeof_ptr = 8, sizeof_stream = 100\<rparr>"
  have "\<exists>p. wtq_api_stream_plan_v1 ?L 16 16 0 True 64 32 = Inr p"
    by (simp add: wtq_api_stream_plan_v1_def wtq_stream_counts_valid_def
        wtq_conn_stream_storage_v2_def wtq_capacity_mul_def wtq_capacity_add_def
        WTQ_STREAM_CAPACITY_BYTES_MAX_def Let_def)
  then obtain p where p: "wtq_api_stream_plan_v1 ?L 16 16 0 True 64 32 = Inr p" by blast
  from stream_plan_exact_and_accepted [OF p] p show ?thesis by simp
qed

end
