(* ===== verification/Origin.thy ===== *)
theory Origin
  imports Results
begin

text \<open>
  The Origin rules of \<^verbatim>\<open>src/engine/conn.c\<close>: serialized-origin syntax (scheme,
  host, IP literals, port), origin lists, the configuration check of a path's
  origin policy and the authorization of a request's Origin. A C string is the
  bytes before its NUL; a NULL pointer is \<open>None\<close>.
\<close>

definition WTQ_CONN_MAX_ORIGINS :: nat where "WTQ_CONN_MAX_ORIGINS = 8"
definition WTQ_CONN_ORIGIN_MAX_BYTES :: nat where "WTQ_CONN_ORIGIN_MAX_BYTES = 320"
definition WTQ_CONN_PATH_ORIGIN_STORAGE :: nat where "WTQ_CONN_PATH_ORIGIN_STORAGE = 512"

definition WTQ_ORIGIN_POLICY_UNSET :: u32 where "WTQ_ORIGIN_POLICY_UNSET = 0"
definition WTQ_ORIGIN_POLICY_ALLOW_ANY_NON_OPAQUE :: u32 where
  "WTQ_ORIGIN_POLICY_ALLOW_ANY_NON_OPAQUE = 1"
definition WTQ_ORIGIN_POLICY_ALLOWLIST :: u32 where "WTQ_ORIGIN_POLICY_ALLOWLIST = 2"
definition WTQ_ORIGIN_POLICY_ALLOW_ANY_INCLUDING_NULL :: u32 where
  "WTQ_ORIGIN_POLICY_ALLOW_ANY_INCLUDING_NULL = 3"

datatype conn_origin_kind =
    CONN_ORIGIN_INVALID
  | CONN_ORIGIN_TUPLE
  | CONN_ORIGIN_NULL
  | CONN_ORIGIN_MULTI

section \<open>Characters\<close>

definition origin_alpha :: "byte \<Rightarrow> bool" where
  "origin_alpha c \<longleftrightarrow> (c \<ge> 0x41 \<and> c \<le> 0x5a) \<or> (c \<ge> 0x61 \<and> c \<le> 0x7a)"

definition origin_digit :: "byte \<Rightarrow> bool" where
  "origin_digit c \<longleftrightarrow> c \<ge> 0x30 \<and> c \<le> 0x39"

definition origin_hex :: "byte \<Rightarrow> bool" where
  "origin_hex c \<longleftrightarrow> origin_digit c \<or> (c \<ge> 0x41 \<and> c \<le> 0x46) \<or> (c \<ge> 0x61 \<and> c \<le> 0x66)"

definition origin_unreserved :: "byte \<Rightarrow> bool" where
  "origin_unreserved c \<longleftrightarrow>
     origin_alpha c \<or> origin_digit c \<or> c = 0x2d \<or> c = 0x2e \<or> c = 0x5f \<or> c = 0x7e"

text \<open>The characters \<^verbatim>\<open>! $ & ' ( ) * + , ; =\<close>.\<close>

definition origin_subdelim :: "byte \<Rightarrow> bool" where
  "origin_subdelim c \<longleftrightarrow>
     c \<in> {0x21, 0x24, 0x26, 0x27, 0x28, 0x29, 0x2a, 0x2b, 0x2c, 0x3b, 0x3d}"

section \<open>Addresses\<close>

text \<open>The inner digit loop of \<^verbatim>\<open>origin_ipv4\<close>: the digit count and the rest, or a rejection.\<close>

fun ipv4_digits :: "bytes \<Rightarrow> nat \<Rightarrow> nat \<Rightarrow> (nat \<times> bytes) option" where
  "ipv4_digits [] v digits = Some (digits, [])"
| "ipv4_digits (c # cs) v digits =
     (if origin_digit c then
        let v = v * 10 + unat (c - 0x30); digits = digits + 1
        in if digits > 3 \<or> v > 255 then None else ipv4_digits cs v digits
      else Some (digits, c # cs))"

definition ipv4_octet :: "bytes \<Rightarrow> bytes option" where
  "ipv4_octet s =
     (if s = [] \<or> \<not> origin_digit (hd s) then None
      else (case ipv4_digits s 0 0 of
              None \<Rightarrow> None
            | Some (digits, rest) \<Rightarrow> if digits > 1 \<and> hd s = 0x30 then None else Some rest))"

text \<open>The part loop; the argument counts the parts after this one.\<close>

fun ipv4_parts :: "nat \<Rightarrow> bytes \<Rightarrow> bool" where
  "ipv4_parts 0 s = (ipv4_octet s = Some [])"
| "ipv4_parts (Suc k) s =
     (case ipv4_octet s of
        None \<Rightarrow> False
      | Some [] \<Rightarrow> False
      | Some (c # rest) \<Rightarrow> if c \<noteq> 0x2e then False else ipv4_parts k rest)"

definition origin_ipv4 :: "bytes \<Rightarrow> bool" where
  "origin_ipv4 s = ipv4_parts 3 s"

definition ipv6_end :: "nat \<Rightarrow> bool \<Rightarrow> bool" where
  "ipv6_end groups compressed = (if compressed then groups < 8 else groups = 8)"

function ipv6_loop :: "bytes \<Rightarrow> nat \<Rightarrow> bool \<Rightarrow> bool" where
  "ipv6_loop s groups compressed =
     (if s = [] then ipv6_end groups compressed
      else
        let group = takeWhile (\<lambda>c. c \<noteq> 0x3a) s;
            rest = dropWhile (\<lambda>c. c \<noteq> 0x3a) s
        in if 0x2e \<in> set group then
             (if rest \<noteq> [] \<or> \<not> origin_ipv4 group \<or> groups > 6 then False
              else ipv6_end (groups + 2) compressed)
           else if group = [] \<or> length group > 4 then False
           else if \<not> list_all origin_hex group then False
           else if groups + 1 > 8 then False
           else if rest = [] then ipv6_end (groups + 1) compressed
           else if tl rest \<noteq> [] \<and> hd (tl rest) = 0x3a then
             (if compressed then False else ipv6_loop (drop 2 rest) (groups + 1) True)
           else if tl rest = [] then False
           else ipv6_loop (tl rest) (groups + 1) compressed)"
  by auto

termination
proof (relation "measure (\<lambda>(s, groups, compressed). length s)", simp)
  have "length (drop k (dropWhile P s)) < length s" if "dropWhile P s \<noteq> []" "0 < k" for P k and s :: bytes
    using that length_dropWhile_le [of P s] by (cases "dropWhile P s") auto
  from this [of _ _ 2] this [of _ _ 1]
  show "\<And>s groups compressed group rest. s \<noteq> [] \<Longrightarrow> group = takeWhile (\<lambda>c. c \<noteq> 0x3a) s \<Longrightarrow>
      rest = dropWhile (\<lambda>c. c \<noteq> 0x3a) s \<Longrightarrow> 0x2e \<notin> set group \<Longrightarrow> \<not> (group = [] \<or> 4 < length group) \<Longrightarrow>
      \<not> \<not> list_all origin_hex group \<Longrightarrow> \<not> 8 < groups + 1 \<Longrightarrow> rest \<noteq> [] \<Longrightarrow>
      tl rest \<noteq> [] \<and> hd (tl rest) = 0x3a \<Longrightarrow> \<not> compressed \<Longrightarrow>
      ((drop 2 rest, groups + 1, True), s, groups, compressed)
        \<in> measure (\<lambda>(s, groups, compressed). length s)"
    and "\<And>s groups compressed group rest. s \<noteq> [] \<Longrightarrow> group = takeWhile (\<lambda>c. c \<noteq> 0x3a) s \<Longrightarrow>
      rest = dropWhile (\<lambda>c. c \<noteq> 0x3a) s \<Longrightarrow> 0x2e \<notin> set group \<Longrightarrow> \<not> (group = [] \<or> 4 < length group) \<Longrightarrow>
      \<not> \<not> list_all origin_hex group \<Longrightarrow> \<not> 8 < groups + 1 \<Longrightarrow> rest \<noteq> [] \<Longrightarrow>
      \<not> (tl rest \<noteq> [] \<and> hd (tl rest) = 0x3a) \<Longrightarrow> tl rest \<noteq> [] \<Longrightarrow>
      ((tl rest, groups + 1, compressed), s, groups, compressed)
        \<in> measure (\<lambda>(s, groups, compressed). length s)"
    by (simp_all add: drop_Suc)
qed

declare ipv6_loop.simps [simp del]

definition origin_ipv6 :: "bytes \<Rightarrow> bool" where
  "origin_ipv6 s =
     (case s of
        [] \<Rightarrow> False
      | c # cs \<Rightarrow>
          if c = 0x3a then
            (if cs = [] \<or> hd cs \<noteq> 0x3a then False
             else if tl cs = [] then True
             else ipv6_loop (tl cs) 0 True)
          else ipv6_loop s 0 False)"

definition origin_ip_literal :: "bytes \<Rightarrow> bool" where
  "origin_ip_literal s =
     (if length s \<ge> 4 \<and> (hd s = 0x76 \<or> hd s = 0x56) then
        let digits = takeWhile origin_hex (tl s); rest = dropWhile origin_hex (tl s)
        in if digits = [] \<or> rest = [] \<or> hd rest \<noteq> 0x2e \<or> tl rest = [] then False
           else list_all (\<lambda>c. origin_unreserved c \<or> origin_subdelim c \<or> c = 0x3a) (tl rest)
      else origin_ipv6 s)"

section \<open>Serialized origins\<close>

text \<open>The registered-name loop: what follows the name, or a rejection.\<close>

fun origin_host_loop :: "bytes \<Rightarrow> bytes option" where
  "origin_host_loop [] = Some []"
| "origin_host_loop (c # cs) =
     (if c = 0x3a then Some (c # cs)
      else if c = 0x25 then
        (case cs of
           a # b # rest \<Rightarrow> if \<not> origin_hex a \<or> \<not> origin_hex b then None else origin_host_loop rest
         | _ \<Rightarrow> None)
      else if \<not> origin_unreserved c \<and> \<not> origin_subdelim c then None
      else origin_host_loop cs)"

fun origin_port_loop :: "bytes \<Rightarrow> nat \<Rightarrow> bool" where
  "origin_port_loop [] port = (port \<noteq> 0)"
| "origin_port_loop (c # cs) port =
     (if \<not> origin_digit c then False
      else
        let digit = unat (c - 0x30)
        in if port > (65535 - digit) div 10 then False
           else origin_port_loop cs (port * 10 + digit))"

definition origin_scheme_char :: "byte \<Rightarrow> bool" where
  "origin_scheme_char c \<longleftrightarrow> origin_alpha c \<or> origin_digit c \<or> c = 0x2b \<or> c = 0x2d \<or> c = 0x2e"

definition origin_port :: "bytes \<Rightarrow> bool" where
  "origin_port s =
     (case s of
        [] \<Rightarrow> True
      | c # cs \<Rightarrow> if c \<noteq> 0x3a \<or> cs = [] then False else origin_port_loop cs 0)"

definition origin_host_port :: "bytes \<Rightarrow> bool" where
  "origin_host_port s =
     (case s of
        [] \<Rightarrow> False
      | c # cs \<Rightarrow>
          if c = 0x5b then
            let literal = takeWhile (\<lambda>c. c \<noteq> 0x5d) cs; rest = dropWhile (\<lambda>c. c \<noteq> 0x5d) cs
            in if rest = [] \<or> \<not> origin_ip_literal literal then False else origin_port (tl rest)
          else
            (case origin_host_loop s of
               None \<Rightarrow> False
             | Some rest \<Rightarrow> if length rest = length s then False else origin_port rest))"

definition origin_tuple_valid :: "bytes \<Rightarrow> bool" where
  "origin_tuple_valid s =
     (case s of
        [] \<Rightarrow> False
      | c # cs \<Rightarrow>
          if \<not> origin_alpha c then False
          else
            (case dropWhile origin_scheme_char cs of
               x # y # z # rest \<Rightarrow>
                 if x \<noteq> 0x3a \<or> y \<noteq> 0x2f \<or> z \<noteq> 0x2f then False else origin_host_port rest
             | _ \<Rightarrow> False))"

text \<open>The list loop; \<open>count\<close> origins have been read.\<close>

function origin_list_loop :: "bytes \<Rightarrow> nat \<Rightarrow> conn_origin_kind" where
  "origin_list_loop s count =
     (let one = takeWhile (\<lambda>c. c \<noteq> 0x20) s; rest = dropWhile (\<lambda>c. c \<noteq> 0x20) s
      in if \<not> origin_tuple_valid one then CONN_ORIGIN_INVALID
         else if rest = [] then
           (if count + 1 = 1 then CONN_ORIGIN_TUPLE else CONN_ORIGIN_MULTI)
         else if tl rest = [] \<or> hd (tl rest) = 0x20 then CONN_ORIGIN_INVALID
         else origin_list_loop (tl rest) (count + 1))"
  by auto

termination
proof (relation "measure (\<lambda>(s, count). length s)", simp)
  have "length (tl (dropWhile P s)) < length s" if "dropWhile P s \<noteq> []" for P and s :: bytes
    using that length_dropWhile_le [of P s] by (cases "dropWhile P s") auto
  then show "\<And>s count one rest. one = takeWhile (\<lambda>c. c \<noteq> 0x20) s \<Longrightarrow> rest = dropWhile (\<lambda>c. c \<noteq> 0x20) s \<Longrightarrow>
      \<not> \<not> origin_tuple_valid one \<Longrightarrow> rest \<noteq> [] \<Longrightarrow> \<not> (tl rest = [] \<or> hd (tl rest) = 0x20) \<Longrightarrow>
      ((tl rest, count + 1), s, count) \<in> measure (\<lambda>(s, count). length s)" by simp
qed

declare origin_list_loop.simps [simp del]

definition conn_origin_parse :: "bytes \<Rightarrow> conn_origin_kind" where
  "conn_origin_parse s =
     (if s = [] \<or> length s > WTQ_CONN_ORIGIN_MAX_BYTES then CONN_ORIGIN_INVALID
      else if s = str ''null'' then CONN_ORIGIN_NULL
      else origin_list_loop s 0)"

section \<open>Policy\<close>

text \<open>
  The loop over the configured origins; \<open>prev\<close> holds those already accepted and
  \<open>used\<close> their storage.
\<close>

fun origin_policy_loop :: "bytes option list \<Rightarrow> bytes list \<Rightarrow> nat \<Rightarrow> wtq_result" where
  "origin_policy_loop [] prev used = WTQ_OK"
| "origin_policy_loop (None # os) prev used = WTQ_ERR_INVALID_ARG"
| "origin_policy_loop (Some s # os) prev used =
     (let len = length s; kind = conn_origin_parse s
      in if len > WTQ_CONN_ORIGIN_MAX_BYTES then WTQ_ERR_TOO_LARGE
         else if kind \<noteq> CONN_ORIGIN_TUPLE \<and> kind \<noteq> CONN_ORIGIN_NULL then WTQ_ERR_INVALID_ARG
         else if len = WTQ_CONN_PATH_ORIGIN_STORAGE \<or> used > WTQ_CONN_PATH_ORIGIN_STORAGE - (len + 1)
         then WTQ_ERR_TOO_LARGE
         else if list_ex (\<lambda>t. s = t) prev then WTQ_ERR_INVALID_ARG
         else origin_policy_loop os (prev @ [s]) (used + (len + 1)))"

definition wtq_conn_validate_origin_policy ::
  "u32 \<Rightarrow> bytes option list option \<Rightarrow> nat \<Rightarrow> wtq_result" where
  "wtq_conn_validate_origin_policy mode origins count =
     (if mode > WTQ_ORIGIN_POLICY_ALLOW_ANY_INCLUDING_NULL then WTQ_ERR_INVALID_ARG
      else if mode \<noteq> WTQ_ORIGIN_POLICY_ALLOWLIST then
        (if origins \<noteq> None \<or> count \<noteq> 0 then WTQ_ERR_INVALID_ARG else WTQ_OK)
      else
        (case origins of
           None \<Rightarrow> WTQ_ERR_INVALID_ARG
         | Some os \<Rightarrow>
             if count = 0 then WTQ_ERR_INVALID_ARG
             else if count > WTQ_CONN_MAX_ORIGINS then WTQ_ERR_TOO_LARGE
             else origin_policy_loop (take count os) [] 0))"

text \<open>Authorization under the policy and the allowlist of the matched path.\<close>

definition conn_origin_authorized :: "u32 \<Rightarrow> bytes list \<Rightarrow> bytes \<Rightarrow> bool" where
  "conn_origin_authorized mode origins origin =
     (let kind = conn_origin_parse origin
      in if kind \<noteq> CONN_ORIGIN_TUPLE \<and> kind \<noteq> CONN_ORIGIN_NULL then False
         else if mode = WTQ_ORIGIN_POLICY_ALLOW_ANY_NON_OPAQUE then kind = CONN_ORIGIN_TUPLE
         else if mode = WTQ_ORIGIN_POLICY_ALLOW_ANY_INCLUDING_NULL then True
         else if mode = WTQ_ORIGIN_POLICY_ALLOWLIST then list_ex (\<lambda>o'. o' = origin) origins
         else False)"

section \<open>Dotted quads\<close>

text \<open>The canonical decimal text of an octet.\<close>

definition digit_char :: "nat \<Rightarrow> byte" where
  "digit_char d = of_nat (0x30 + d)"

definition dec_octet :: "nat \<Rightarrow> bytes" where
  "dec_octet n =
     (if n < 10 then [digit_char n]
      else if n < 100 then [digit_char (n div 10), digit_char (n mod 10)]
      else [digit_char (n div 100), digit_char (n div 10 mod 10), digit_char (n mod 10)])"

lemma unat_digit_char: "d < 10 \<Longrightarrow> unat (digit_char d) = 0x30 + d"
  unfolding digit_char_def unsigned_of_nat by (subst take_bit_nat_eq_self) simp_all

lemma digit_char_ok:
  assumes "d < 10"
  shows "origin_digit (digit_char d)" "unat (digit_char d - 0x30) = d" "digit_char d = 0x30 \<longleftrightarrow> d = 0"
proof -
  note u = unat_digit_char [OF assms]
  show "origin_digit (digit_char d)" using u assms by (simp add: origin_digit_def word_le_nat_alt)
  have "0x30 \<le> digit_char d" using u by (simp add: word_le_nat_alt)
  then show "unat (digit_char d - 0x30) = d" using u by (simp add: unat_sub)
  show "digit_char d = 0x30 \<longleftrightarrow> d = 0" using u word_unat_eq_iff [of "digit_char d" "0x30"] by simp
qed

lemma origin_digitE:
  assumes "origin_digit c" obtains d where "d < 10" "c = digit_char d"
proof
  have c: "48 \<le> unat c" "unat c \<le> 57" using assms by (simp_all add: origin_digit_def word_le_nat_alt)
  then show "unat c - 48 < 10" by simp
  then show "c = digit_char (unat c - 48)"
    using c unat_digit_char [of "unat c - 48"] by (simp add: word_unat_eq_iff)
qed

lemma ipv4_digits_stop:
  "rest = [] \<or> \<not> origin_digit (hd rest) \<Longrightarrow> ipv4_digits rest v k = Some (k, rest)"
  by (cases rest) auto

lemma ipv4_digits_digit:
  "d < 10 \<Longrightarrow> ipv4_digits (digit_char d # cs) v k =
     (if k + 1 > 3 \<or> v * 10 + d > 255 then None else ipv4_digits cs (v * 10 + d) (k + 1))"
  using digit_char_ok [of d] by (simp add: Let_def)

lemma ipv4_octet_digit:
  "d < 10 \<Longrightarrow> ipv4_octet (digit_char d # cs) =
     (case ipv4_digits cs d 1 of
        None \<Rightarrow> None
      | Some (k, rest) \<Rightarrow> if k > 1 \<and> d = 0 then None else Some rest)"
  unfolding ipv4_octet_def using digit_char_ok [of d]
  by (simp add: ipv4_digits_digit split: option.split del: ipv4_digits.simps)

lemma ipv4_octet_1:
  "a < 10 \<Longrightarrow> rest = [] \<or> \<not> origin_digit (hd rest) \<Longrightarrow> ipv4_octet (digit_char a # rest) = Some rest"
  by (simp add: ipv4_octet_digit ipv4_digits_stop)

lemma ipv4_octet_2:
  "a < 10 \<Longrightarrow> b < 10 \<Longrightarrow> rest = [] \<or> \<not> origin_digit (hd rest) \<Longrightarrow>
   ipv4_octet (digit_char a # digit_char b # rest) = (if a = 0 then None else Some rest)"
  by (simp add: ipv4_octet_digit ipv4_digits_digit ipv4_digits_stop del: ipv4_digits.simps)

lemma ipv4_octet_3:
  "a < 10 \<Longrightarrow> b < 10 \<Longrightarrow> c < 10 \<Longrightarrow> rest = [] \<or> \<not> origin_digit (hd rest) \<Longrightarrow>
   ipv4_octet (digit_char a # digit_char b # digit_char c # rest)
     = (if a = 0 \<or> (a * 10 + b) * 10 + c > 255 then None else Some rest)"
  by (simp add: ipv4_octet_digit ipv4_digits_digit ipv4_digits_stop del: ipv4_digits.simps)

lemma ipv4_octet_4:
  "a < 10 \<Longrightarrow> b < 10 \<Longrightarrow> c < 10 \<Longrightarrow> d < 10 \<Longrightarrow>
   ipv4_octet (digit_char a # digit_char b # digit_char c # digit_char d # rest) = None"
  by (simp add: ipv4_octet_digit ipv4_digits_digit del: ipv4_digits.simps)

text \<open>Any input starts with no, one, two, three or at least four digits.\<close>

lemma leading_digits:
  obtains "s = [] \<or> \<not> origin_digit (hd s)"
    | a r where "s = digit_char a # r" "a < 10" "r = [] \<or> \<not> origin_digit (hd r)"
    | a b r where "s = digit_char a # digit_char b # r" "a < 10" "b < 10" "r = [] \<or> \<not> origin_digit (hd r)"
    | a b c r where "s = digit_char a # digit_char b # digit_char c # r" "a < 10" "b < 10" "c < 10"
        "r = [] \<or> \<not> origin_digit (hd r)"
    | a b c d r where "s = digit_char a # digit_char b # digit_char c # digit_char d # r"
        "a < 10" "b < 10" "c < 10" "d < 10"
proof -
  have first: "\<exists>d r. s = digit_char d # r \<and> d < 10" if "\<not> (s = [] \<or> \<not> origin_digit (hd s))" for s
    using that by (cases s) (auto elim: origin_digitE)
  show thesis using first that by metis
qed

lemma dec_octet_split:
  assumes "n \<le> 255"
  obtains "n < 10" "dec_octet n = [digit_char n]"
    | a b where "a < 10" "b < 10" "a \<noteq> 0" "n = a * 10 + b" "dec_octet n = [digit_char a, digit_char b]"
    | a b c where "a < 10" "b < 10" "c < 10" "a \<noteq> 0" "n = (a * 10 + b) * 10 + c"
        "dec_octet n = [digit_char a, digit_char b, digit_char c]"
proof -
  consider "n < 10" | "10 \<le> n" "n < 100" | "100 \<le> n" by linarith
  then show thesis
  proof cases
    case 1
    then show ?thesis using that(1) by (simp add: dec_octet_def)
  next
    case 2
    then show ?thesis using that(2) [of "n div 10" "n mod 10"] by (simp add: dec_octet_def)
  next
    case 3
    have "n div 100 = n div 10 div 10" by (simp add: div_mult2_eq [symmetric])
    then show ?thesis
      using 3 assms that(3) [of "n div 100" "n div 10 mod 10" "n mod 10"] by (simp add: dec_octet_def)
  qed
qed

lemma dec_octet_2: "a < 10 \<Longrightarrow> b < 10 \<Longrightarrow> a \<noteq> 0 \<Longrightarrow> dec_octet (a * 10 + b) = [digit_char a, digit_char b]"
  by (simp add: dec_octet_def)

lemma dec_octet_3:
  assumes "a < 10" "b < 10" "c < 10" "a \<noteq> 0"
  shows "dec_octet ((a * 10 + b) * 10 + c) = [digit_char a, digit_char b, digit_char c]"
proof -
  have "((a * 10 + b) * 10 + c) div 10 = a * 10 + b" using assms by simp
  moreover have "((a * 10 + b) * 10 + c) div 100 = ((a * 10 + b) * 10 + c) div 10 div 10"
    by (simp add: div_mult2_eq [symmetric])
  moreover have "(x * 10 + c) mod 10 = c" for x using assms(3) by simp
  then have "((a * 10 + b) * 10 + c) mod 10 = c" .
  ultimately show ?thesis using assms \<open>((a * 10 + b) * 10 + c) mod 10 = c\<close> by (simp add: dec_octet_def)
qed

text \<open>One octet is read exactly when the input starts with a canonical octet and no digit follows.\<close>

lemma ipv4_octet_dec:
  assumes "n \<le> 255" "rest = [] \<or> \<not> origin_digit (hd rest)"
  shows "ipv4_octet (dec_octet n @ rest) = Some rest"
  using assms(1)
proof (cases rule: dec_octet_split)
  case 1
  then show ?thesis using ipv4_octet_1 [OF _ assms(2)] by simp
next
  case (2 a b)
  then show ?thesis using ipv4_octet_2 [OF _ _ assms(2)] by simp
next
  case (3 a b c)
  then show ?thesis using ipv4_octet_3 [OF _ _ _ assms(2)] assms(1) by simp
qed

lemma ipv4_octet_Some:
  assumes "ipv4_octet s = Some rest"
  shows "\<exists>n \<le> 255. s = dec_octet n @ rest"
proof (cases s rule: leading_digits)
  case 1
  with assms show ?thesis by (auto simp: ipv4_octet_def)
next
  case (2 a r)
  with assms show ?thesis
    using ipv4_octet_1 [of a r] by (intro exI [of _ a]) (simp add: dec_octet_def)
next
  case (3 a b r)
  with assms show ?thesis
    using ipv4_octet_2 [of a b r] dec_octet_2 [of a b]
    by (intro exI [of _ "a * 10 + b"]) (simp split: if_splits)
next
  case (4 a b c r)
  with assms show ?thesis
    using ipv4_octet_3 [of a b c r] dec_octet_3 [of a b c]
    by (intro exI [of _ "(a * 10 + b) * 10 + c"]) (simp split: if_splits)
next
  case (5 a b c d r)
  with assms show ?thesis using ipv4_octet_4 by simp
qed

text \<open>
  The IPv4 check accepts exactly the dotted quads in canonical form: four
  numbers from 0 to 255, without leading zeros, joined by dots.
\<close>

theorem origin_ipv4_exact:
  "origin_ipv4 s \<longleftrightarrow>
     (\<exists>a b c d. a \<le> 255 \<and> b \<le> 255 \<and> c \<le> 255 \<and> d \<le> 255
        \<and> s = dec_octet a @ 0x2e # dec_octet b @ 0x2e # dec_octet c @ 0x2e # dec_octet d)"
proof -
  have dot: "\<not> origin_digit 0x2e" by (simp add: origin_digit_def)
  have last: "ipv4_parts 0 s \<longleftrightarrow> (\<exists>n \<le> 255. s = dec_octet n)" for s
    using ipv4_octet_Some [of s "[]"] ipv4_octet_dec [of _ "[]"] by auto
  have part: "ipv4_parts (Suc k) s \<longleftrightarrow> (\<exists>n r. n \<le> 255 \<and> s = dec_octet n @ 0x2e # r \<and> ipv4_parts k r)" for k s
  proof
    assume "ipv4_parts (Suc k) s"
    then obtain r where r: "ipv4_octet s = Some (0x2e # r)" "ipv4_parts k r"
      by (auto split: option.splits list.splits if_splits)
    then show "\<exists>n r. n \<le> 255 \<and> s = dec_octet n @ 0x2e # r \<and> ipv4_parts k r"
      using ipv4_octet_Some [OF r(1)] by blast
  next
    assume "\<exists>n r. n \<le> 255 \<and> s = dec_octet n @ 0x2e # r \<and> ipv4_parts k r"
    then show "ipv4_parts (Suc k) s" using ipv4_octet_dec [of _ "0x2e # _"] dot by auto
  qed
  show ?thesis
    unfolding origin_ipv4_def numeral_3_eq_3 part last by blast
qed

section \<open>Origin lists\<close>

text \<open>Serialized origins separated by single spaces.\<close>

fun space_join :: "bytes list \<Rightarrow> bytes" where
  "space_join [] = []"
| "space_join [p] = p"
| "space_join (p # ps) = p @ 0x20 # space_join ps"

definition serialized_origin :: "bytes \<Rightarrow> bool" where
  "serialized_origin p \<longleftrightarrow> origin_tuple_valid p \<and> 0x20 \<notin> set p"

lemma takeWhile_sp: "0x20 \<notin> set p \<Longrightarrow> takeWhile (\<lambda>c. c \<noteq> 0x20) (p @ 0x20 # r) = p"
  "0x20 \<notin> set p \<Longrightarrow> dropWhile (\<lambda>c. c \<noteq> 0x20) (p @ 0x20 # r) = 0x20 # r"
  "0x20 \<notin> set p \<Longrightarrow> takeWhile (\<lambda>c. c \<noteq> 0x20) p = p"
  "0x20 \<notin> set p \<Longrightarrow> dropWhile (\<lambda>c. c \<noteq> 0x20) p = []" for p r :: bytes
  by (induction p) auto

lemma serialized_origin_start:
  "serialized_origin p \<Longrightarrow> p \<noteq> [] \<and> hd p \<noteq> 0x20"
  by (cases p) (auto simp: serialized_origin_def origin_tuple_valid_def)

lemma space_join_start:
  "list_all serialized_origin ps \<Longrightarrow> ps \<noteq> [] \<Longrightarrow> space_join ps \<noteq> [] \<and> hd (space_join ps) \<noteq> 0x20"
  using serialized_origin_start by (cases ps rule: space_join.cases) auto

lemma origin_list_loop_join:
  "list_all serialized_origin ps \<Longrightarrow> ps \<noteq> [] \<Longrightarrow>
   origin_list_loop (space_join ps) k = (if k + length ps = 1 then CONN_ORIGIN_TUPLE else CONN_ORIGIN_MULTI)"
proof (induction ps arbitrary: k rule: space_join.induct)
  case (2 p)
  then show ?case by (simp add: origin_list_loop.simps [of p] serialized_origin_def takeWhile_sp)
next
  case (3 p q ps)
  have "origin_list_loop (space_join (p # q # ps)) k = origin_list_loop (space_join (q # ps)) (k + 1)"
  proof -
    have "space_join (q # ps) \<noteq> []" "hd (space_join (q # ps)) \<noteq> 0x20"
      using 3(2) space_join_start [of "q # ps"] by simp_all
    then show ?thesis
      using 3(2) by (subst origin_list_loop.simps) (simp add: serialized_origin_def takeWhile_sp)
  qed
  then show ?case using 3 by simp
qed simp

lemma origin_list_loop_valid:
  "origin_list_loop s k \<noteq> CONN_ORIGIN_INVALID \<Longrightarrow>
   \<exists>ps. ps \<noteq> [] \<and> s = space_join ps \<and> list_all serialized_origin ps"
proof (induction s k rule: origin_list_loop.induct)
  case (1 s k)
  let ?one = "takeWhile (\<lambda>c. c \<noteq> 0x20) s" and ?rest = "dropWhile (\<lambda>c. c \<noteq> 0x20) s"
  have one: "serialized_origin ?one"
    using 1(2) set_takeWhileD [of "0x20" "\<lambda>c. c \<noteq> 0x20" s]
    by (subst (asm) origin_list_loop.simps) (auto simp: serialized_origin_def Let_def split: if_splits)
  show ?case
  proof (cases "?rest = []")
    case True
    then have "s = ?one" by (metis append_Nil2 takeWhile_dropWhile_id)
    then show ?thesis using one by (intro exI [of _ "[?one]"]) simp
  next
    case False
    then have rest: "?rest = 0x20 # tl ?rest"
      using hd_dropWhile [of "\<lambda>c. c \<noteq> 0x20" s] by (metis (full_types) list.collapse)
    have guards: "\<not> \<not> origin_tuple_valid ?one" "\<not> (tl ?rest = [] \<or> hd (tl ?rest) = 0x20)"
      and rec: "origin_list_loop (tl ?rest) (k + 1) \<noteq> CONN_ORIGIN_INVALID"
      using 1(2) False unfolding origin_list_loop.simps [of s k] Let_def by (auto split: if_splits)
    obtain ps where ps: "ps \<noteq> []" "tl ?rest = space_join ps" "list_all serialized_origin ps"
      using 1(1) [OF refl refl guards(1) False guards(2) rec] by blast
    have "s = ?one @ 0x20 # tl ?rest" using rest by (metis takeWhile_dropWhile_id)
    then show ?thesis using one ps by (intro exI [of _ "?one # ps"]) (cases ps; simp)
  qed
qed

text \<open>
  Classification of an Origin value within its size limit: the literal null, a
  single serialized origin, or a list of several; a list is recognised exactly when
  it is serialized origins separated by single spaces, and everything else is
  invalid.
\<close>

theorem origin_list_parse_exact:
  assumes "s \<noteq> []" "length s \<le> WTQ_CONN_ORIGIN_MAX_BYTES" "s \<noteq> str ''null''"
  shows "(conn_origin_parse s = CONN_ORIGIN_TUPLE \<longleftrightarrow> serialized_origin s)
    \<and> (conn_origin_parse s = CONN_ORIGIN_MULTI
        \<longleftrightarrow> (\<exists>ps. length ps \<ge> 2 \<and> s = space_join ps \<and> list_all serialized_origin ps))
    \<and> conn_origin_parse s \<noteq> CONN_ORIGIN_NULL"
proof -
  have parse: "conn_origin_parse s = origin_list_loop s 0"
    using assms by (simp add: conn_origin_parse_def)
  show ?thesis
  proof (cases "origin_list_loop s 0 = CONN_ORIGIN_INVALID")
    case True
    have "\<not> (ps \<noteq> [] \<and> s = space_join ps \<and> list_all serialized_origin ps)" for ps
      using origin_list_loop_join [of ps 0] True by (auto split: if_splits)
    from this [of "[s]"] this show ?thesis using parse True by fastforce
  next
    case False
    then obtain ps where ps: "ps \<noteq> []" "s = space_join ps" "list_all serialized_origin ps"
      using origin_list_loop_valid by blast
    have kind: "conn_origin_parse s = (if length qs = 1 then CONN_ORIGIN_TUPLE else CONN_ORIGIN_MULTI)"
      if "qs \<noteq> []" "s = space_join qs" "list_all serialized_origin qs" for qs
      using that parse origin_list_loop_join [of qs 0] by simp
    have one: "ps = [s]" if "length ps = 1" using that ps(2) by (cases ps) auto
    show ?thesis
    proof (cases "length ps = 1")
      case True
      have "\<not> (2 \<le> length qs \<and> s = space_join qs \<and> list_all serialized_origin qs)" for qs
        using kind [of qs] kind [OF ps] True by (cases qs) (auto split: if_splits)
      then show ?thesis using kind [OF ps] True ps(3) one by auto
    next
      case False
      moreover have "2 \<le> length ps" using False ps(1) by (cases ps) (auto simp: Suc_le_eq)
      ultimately show ?thesis using kind [OF ps] kind [of "[s]"] ps by auto
    qed
  qed
qed

theorem origin_list_parse_exact_witness:
  "(conn_origin_parse (str ''a://b'') = CONN_ORIGIN_TUPLE \<longleftrightarrow> serialized_origin (str ''a://b''))
    \<and> (conn_origin_parse (str ''a://b'') = CONN_ORIGIN_MULTI
        \<longleftrightarrow> (\<exists>ps. length ps \<ge> 2 \<and> str ''a://b'' = space_join ps \<and> list_all serialized_origin ps))
    \<and> conn_origin_parse (str ''a://b'') \<noteq> CONN_ORIGIN_NULL"
  by (rule origin_list_parse_exact) (simp_all add: WTQ_CONN_ORIGIN_MAX_BYTES_def, simp add: str_def)

section \<open>The allowlist\<close>

lemma origin_policy_loop_OK:
  "origin_policy_loop os prev used = WTQ_OK \<Longrightarrow> distinct prev \<Longrightarrow> used \<le> WTQ_CONN_PATH_ORIGIN_STORAGE \<Longrightarrow>
   \<exists>names. os = map Some names \<and> distinct (prev @ names)
     \<and> used + sum_list (map (\<lambda>s. length s + 1) names) \<le> WTQ_CONN_PATH_ORIGIN_STORAGE
     \<and> (\<forall>s \<in> set names. conn_origin_parse s = CONN_ORIGIN_TUPLE \<or> conn_origin_parse s = CONN_ORIGIN_NULL)"
proof (induction os arbitrary: prev used)
  case (Cons so os)
  obtain s where so: "so = Some s" using Cons.prems(1) by (cases so) auto
  have ok: "conn_origin_parse s = CONN_ORIGIN_TUPLE \<or> conn_origin_parse s = CONN_ORIGIN_NULL"
    "length s \<le> WTQ_CONN_ORIGIN_MAX_BYTES" "used \<le> WTQ_CONN_PATH_ORIGIN_STORAGE - (length s + 1)"
    "s \<notin> set prev" "origin_policy_loop os (prev @ [s]) (used + (length s + 1)) = WTQ_OK"
    using Cons.prems(1) so by (auto simp: Let_def list_ex_iff not_less split: if_splits)
  then have "used + (length s + 1) \<le> WTQ_CONN_PATH_ORIGIN_STORAGE"
    by (simp add: WTQ_CONN_PATH_ORIGIN_STORAGE_def WTQ_CONN_ORIGIN_MAX_BYTES_def)
  then obtain names where "os = map Some names" "distinct ((prev @ [s]) @ names)"
      "used + (length s + 1) + sum_list (map (\<lambda>s. length s + 1) names) \<le> WTQ_CONN_PATH_ORIGIN_STORAGE"
      "\<forall>s \<in> set names. conn_origin_parse s = CONN_ORIGIN_TUPLE \<or> conn_origin_parse s = CONN_ORIGIN_NULL"
    using Cons.IH [OF ok(5)] ok(4) Cons.prems(2) by auto
  then show ?case using ok(1) so by (intro exI [of _ "s # names"]) auto
qed simp

text \<open>
  C27. A configured allowlist is enforced exactly: when the configuration check
  accepts it, its entries are distinct, fit the per-path storage, and a request's
  Origin is authorized if and only if it is one of them byte for byte.
\<close>

theorem origin_allowlist_exact:
  assumes "wtq_conn_validate_origin_policy WTQ_ORIGIN_POLICY_ALLOWLIST (Some os) (length os) = WTQ_OK"
  shows "\<exists>names. os = map Some names \<and> distinct names \<and> 1 \<le> length names
    \<and> length names \<le> WTQ_CONN_MAX_ORIGINS
    \<and> sum_list (map (\<lambda>s. length s + 1) names) \<le> WTQ_CONN_PATH_ORIGIN_STORAGE
    \<and> (\<forall>origin. conn_origin_authorized WTQ_ORIGIN_POLICY_ALLOWLIST names origin \<longleftrightarrow> origin \<in> set names)"
proof -
  have ok: "os \<noteq> []" "length os \<le> WTQ_CONN_MAX_ORIGINS" "origin_policy_loop os [] 0 = WTQ_OK"
    using assms by (auto simp: wtq_conn_validate_origin_policy_def split: if_splits)
  obtain names where n: "os = map Some names" "distinct names"
      "sum_list (map (\<lambda>s. length s + 1) names) \<le> WTQ_CONN_PATH_ORIGIN_STORAGE"
      "\<forall>s \<in> set names. conn_origin_parse s = CONN_ORIGIN_TUPLE \<or> conn_origin_parse s = CONN_ORIGIN_NULL"
    using origin_policy_loop_OK [OF ok(3)] by auto
  have "conn_origin_authorized WTQ_ORIGIN_POLICY_ALLOWLIST names origin \<longleftrightarrow> origin \<in> set names" for origin
    using n(4) by (auto simp: conn_origin_authorized_def Let_def list_ex_iff WTQ_ORIGIN_POLICY_ALLOWLIST_def
        WTQ_ORIGIN_POLICY_ALLOW_ANY_NON_OPAQUE_def WTQ_ORIGIN_POLICY_ALLOW_ANY_INCLUDING_NULL_def)
  then show ?thesis using n ok by (intro exI [of _ names]) (auto simp: Suc_le_eq)
qed

theorem origin_allowlist_exact_witness:
  "\<exists>names. [Some (str ''a://b''), Some (str ''null'')] = map Some names \<and> distinct names \<and> 1 \<le> length names
    \<and> length names \<le> WTQ_CONN_MAX_ORIGINS
    \<and> sum_list (map (\<lambda>s. length s + 1) names) \<le> WTQ_CONN_PATH_ORIGIN_STORAGE
    \<and> (\<forall>origin. conn_origin_authorized WTQ_ORIGIN_POLICY_ALLOWLIST names origin \<longleftrightarrow> origin \<in> set names)"
proof (rule origin_allowlist_exact)
  have "conn_origin_parse (str ''a://b'') = CONN_ORIGIN_TUPLE"
    by (simp add: conn_origin_parse_def WTQ_CONN_ORIGIN_MAX_BYTES_def)
      (simp add: str_def origin_list_loop.simps Let_def origin_tuple_valid_def origin_host_port_def origin_port_def
        origin_alpha_def origin_scheme_char_def origin_digit_def origin_unreserved_def)
  moreover have "conn_origin_parse (str ''null'') = CONN_ORIGIN_NULL"
    by (simp add: conn_origin_parse_def WTQ_CONN_ORIGIN_MAX_BYTES_def) (simp add: str_def)
  ultimately show "wtq_conn_validate_origin_policy WTQ_ORIGIN_POLICY_ALLOWLIST
      (Some [Some (str ''a://b''), Some (str ''null'')]) (length [Some (str ''a://b''), Some (str ''null'')]) = WTQ_OK"
    by (simp add: wtq_conn_validate_origin_policy_def WTQ_ORIGIN_POLICY_ALLOWLIST_def
        WTQ_ORIGIN_POLICY_ALLOW_ANY_INCLUDING_NULL_def WTQ_CONN_MAX_ORIGINS_def WTQ_CONN_ORIGIN_MAX_BYTES_def
        WTQ_CONN_PATH_ORIGIN_STORAGE_def Let_def)
qed

end
