(* ===== verification/Engine_State.thy ===== *)
theory Engine_State
  imports Connect Capsule H3_Settings Preamble Stream_Budget Origin
begin

text \<open>
  The state of the connection engine of \<^verbatim>\<open>src/engine/conn.c\<close> and the functions
  every handler ends in: the driver calls, stream release, session outcome and
  fatal errors.

  A \<^verbatim>\<open>struct wtq_estream *\<close> into the stream pool is an index into \<open>peer\<close>. The
  driver (the backend behind \<^verbatim>\<open>wtq_driver_ops_t\<close>) is a parameter: each call is
  appended to \<open>trace\<close>, and what it returns is a function of the calls and callbacks
  so far, so a driver may behave in any way over time. A callback to the layer
  above is appended to the same trace; a NULL callback is one the application
  ignores. The driver contract forbids engine calls from inside a driver
  operation. Calls that an application makes from inside a callback are not
  nested here: they are the operations that follow.
\<close>

section \<open>Constants\<close>

definition WTQ_CONN_SETTINGS_CAP :: nat where "WTQ_CONN_SETTINGS_CAP = 512"
definition WTQ_CONN_LEGACY_STREAMS :: u32 where "WTQ_CONN_LEGACY_STREAMS = 16"
definition WTQ_CONN_PROTOCOL_STORAGE :: nat where "WTQ_CONN_PROTOCOL_STORAGE = 512"
definition WTQ_STREAM_ID_UNKNOWN :: u64 where "WTQ_STREAM_ID_UNKNOWN = - 1"

definition WTQ_WT_BUFFERED_STREAM_REJECTED :: u64 where "WTQ_WT_BUFFERED_STREAM_REJECTED = 0x3994bd84"
definition WTQ_WT_SESSION_GONE :: u64 where "WTQ_WT_SESSION_GONE = 0x170d7b68"

definition WTQ_H3_INTERNAL_ERROR :: u64 where "WTQ_H3_INTERNAL_ERROR = 0x0102"
definition WTQ_H3_STREAM_CREATION_ERROR :: u64 where "WTQ_H3_STREAM_CREATION_ERROR = 0x0103"
definition WTQ_H3_CLOSED_CRITICAL_STREAM :: u64 where "WTQ_H3_CLOSED_CRITICAL_STREAM = 0x0104"
definition WTQ_H3_FRAME_UNEXPECTED :: u64 where "WTQ_H3_FRAME_UNEXPECTED = 0x0105"
definition WTQ_H3_FRAME_ERROR :: u64 where "WTQ_H3_FRAME_ERROR = 0x0106"
definition WTQ_H3_EXCESSIVE_LOAD :: u64 where "WTQ_H3_EXCESSIVE_LOAD = 0x0107"
definition WTQ_H3_ID_ERROR :: u64 where "WTQ_H3_ID_ERROR = 0x0108"
definition WTQ_H3_SETTINGS_ERROR :: u64 where "WTQ_H3_SETTINGS_ERROR = 0x0109"
definition WTQ_H3_MISSING_SETTINGS :: u64 where "WTQ_H3_MISSING_SETTINGS = 0x010a"
definition WTQ_H3_REQUEST_REJECTED :: u64 where "WTQ_H3_REQUEST_REJECTED = 0x010b"
definition WTQ_H3_REQUEST_INCOMPLETE :: u64 where "WTQ_H3_REQUEST_INCOMPLETE = 0x010d"
definition WTQ_H3_MESSAGE_ERROR :: u64 where "WTQ_H3_MESSAGE_ERROR = 0x010e"
definition WTQ_H3_DATAGRAM_ERROR :: u64 where "WTQ_H3_DATAGRAM_ERROR = 0x33"
definition WTQ_QPACK_DECOMPRESSION_FAILED :: u64 where "WTQ_QPACK_DECOMPRESSION_FAILED = 0x0200"
definition WTQ_QPACK_ENCODER_STREAM_ERROR :: u64 where "WTQ_QPACK_ENCODER_STREAM_ERROR = 0x0201"
definition WTQ_QPACK_DECODER_STREAM_ERROR :: u64 where "WTQ_QPACK_DECODER_STREAM_ERROR = 0x0202"

section \<open>Data\<close>

datatype es_kind =
    ES_FREE | ES_TYPE | ES_BTYPE | ES_CONTROL | ES_QPACK | ES_DRAIN | ES_CONNECT | ES_REQUEST | ES_WT
  | ES_RESERVED

datatype cf_kind = CF_SETTINGS | CF_ONE_VARINT | CF_SKIP | CF_CAPSULE

datatype wtq_session_state =
    SS_IDLE | SS_PENDING | SS_SENT | SS_ESTABLISHED | SS_DRAINING | SS_CLOSED | SS_REJECTED | SS_FAILED

datatype wtq_session_fail_reason =
    FAIL_NO_WT_SUPPORT | FAIL_NO_PROTOCOL | FAIL_BAD_RESPONSE | FAIL_CONNECTION

datatype wtq_perspective = PERSPECTIVE_CLIENT | PERSPECTIVE_SERVER

datatype wtq_shutdown_mode = SHUTDOWN_WHOLE_STREAM | SHUTDOWN_EXACT_HALVES

record wtq_shutdown =
  sh_mode :: wtq_shutdown_mode
  sh_abort_send :: bool
  sh_abort_recv :: bool
  sh_app_send_cancel :: bool
  sh_send_err :: u64
  sh_recv_err :: u64

datatype wtq_error_kind = ERR_KIND_NONE | ERR_KIND_QUIC_TRANSPORT | ERR_KIND_QUIC_APP | ERR_KIND_LOCAL

record wtq_transport_error =
  te_kind :: wtq_error_kind
  te_quic_code :: u64
  te_native_domain :: u32
  te_native_code :: "64 word" \<comment> \<open>an \<^verbatim>\<open>int64_t\<close>, kept as its bits\<close>

type_synonym dstream = nat

text \<open>Driver calls and callbacks, in the order they happen.\<close>

datatype event =
    D_open_uni "nat option"
  | D_open_bidi "nat option"
  | D_send "dstream option" bytes bool
  | D_send_gather "dstream option" "bytes list" bool nat
  | D_shutdown_stream "dstream option" wtq_shutdown
  | D_conn_close u64
  | D_detach dstream nat
  | D_dgram_send "bytes list"
  | D_recv_enable "dstream option" bool
  | CB_peer_settings bool
  | CB_conn_error u64
  | CB_session_established bytes wtq_h3_wt_profile
  | CB_session_rejected nat
  | CB_session_failed wtq_session_fail_reason
  | CB_session_draining
  | CB_session_closed u32 bytes bool
  | CB_wt_stream_opened nat bool u64
  | CB_wt_stream_data nat bytes bool
  | CB_wt_stream_reset nat u32
  | CB_wt_stream_stop nat u32
  | CB_wt_stream_terminal nat
  | CB_wt_stream_send_committed nat
  | CB_wt_stream_writable nat
  | CB_wt_send_complete nat bool
  | CB_wt_datagram bytes

text \<open>
  The driver: the result of the call at the end of a trace, the stream and the
  native id that an open call gives, the capability word, which optional
  operations exist, and the datagram size limit.
\<close>

record wtq_driver =
  d_result :: "event list \<Rightarrow> wtq_result"
  d_open :: "event list \<Rightarrow> dstream \<times> u64"
  d_caps :: u32
  d_has_send_gather :: bool
  d_has_dgram :: bool
  d_has_recv_enable :: bool
  d_dgram_max_size :: "event list \<Rightarrow> nat"

record wtq_estream =
  es_resident :: bool
  es_generation :: u64
  es_recv_paused :: bool
  es_kind :: es_kind
  es_qpack_type :: u64
  es_pre :: wtq_preamble_dec
  es_btype_buf :: bytes \<comment> \<open>the \<^verbatim>\<open>btype_fill\<close> bytes of \<^verbatim>\<open>btype_buf\<close>\<close>
  es_frame_dec :: wtq_h3_frame_dec
  es_frame_active :: bool
  es_frame_kind :: cf_kind
  es_frame_type :: u64
  es_frame_remaining :: u64
  es_set_buf :: bytes \<comment> \<open>the \<^verbatim>\<open>set_fill\<close> bytes of \<^verbatim>\<open>set_buf\<close>\<close>
  es_headers_done :: bool
  es_trailers_done :: bool
  es_request_dead :: bool
  es_is_session_stream :: bool
  es_wt_bidi :: bool
  es_wt_local :: bool
  es_wt_send_open :: bool
  es_wt_send_commit :: bool
  es_wt_fin_pending :: bool
  es_wt_application_sent :: bool
  es_wt_recv_open :: bool
  es_wt_recv_drain :: bool
  es_user :: "nat option"
  es_ds :: "dstream option"
  es_id :: u64
  es_native_id_pending :: bool

text \<open>A zeroed record (\<^verbatim>\<open>memset(es, 0, sizeof(*es))\<close>).\<close>

definition estream_zero :: wtq_estream where
  "estream_zero =
     \<lparr>es_resident = False, es_generation = 0, es_recv_paused = False, es_kind = ES_FREE, es_qpack_type = 0,
      es_pre = wtq_preamble_dec_init, es_btype_buf = [], es_frame_dec = wtq_h3_frame_dec_init,
      es_frame_active = False, es_frame_kind = CF_SETTINGS, es_frame_type = 0, es_frame_remaining = 0,
      es_set_buf = [], es_headers_done = False, es_trailers_done = False, es_request_dead = False,
      es_is_session_stream = False, es_wt_bidi = False, es_wt_local = False, es_wt_send_open = False,
      es_wt_send_commit = False, es_wt_fin_pending = False, es_wt_application_sent = False,
      es_wt_recv_open = False, es_wt_recv_drain = False, es_user = None, es_ds = None, es_id = 0,
      es_native_id_pending = False\<rparr>"

text \<open>A peer stream that waits for admission, held by the provider and linked in the peer map.\<close>

record wtq_peer_admission =
  pa_decoder :: wtq_preamble_dec
  pa_prefix :: bytes
  pa_state :: nat
  pa_bidi :: bool
  pa_id :: u64
  pa_session_id :: u64
  pa_ds :: "dstream option"
  pa_es :: "nat option"

record server_path =
  sp_path :: bytes
  sp_protos :: "bytes list"
  sp_require :: bool
  sp_origin_policy :: u32
  sp_origins :: "bytes list"

text \<open>
  The connection. A count next to an array is the length of a list, a flag next to
  a value is an option (\<^verbatim>\<open>max_push_id_seen\<close>, \<^verbatim>\<open>goaway_received\<close>,
  \<^verbatim>\<open>transport_error_set\<close>), and \<^verbatim>\<open>client_selected_offer\<close> is \<open>None\<close> for -1. The local
  control and QPACK streams are kept by the driver only: the engine never reads
  them back.
\<close>

record wtq_conn =
  stream_generation :: u64
  admission_enabled :: bool
  budgeted :: bool
  peer_capacity :: nat
  peer_uni :: nat
  local_capacity :: nat
  admission_peers :: "wtq_peer_admission option list"
  persp :: wtq_perspective
  drv :: wtq_driver
  ecp :: bool
  wt_profiles :: u64
  wt_profile :: wtq_h3_wt_profile
  profile_latched :: bool
  started :: bool
  locals_attempted :: bool
  peer_control_seen :: bool
  qpack_enc_seen :: bool
  qpack_dec_seen :: bool
  settings_received :: bool
  wt_supported :: bool
  max_push_id :: "u64 option"
  goaway_id :: "u64 option"
  peer_settings :: wtq_h3_settings
  closed :: bool
  close_code :: u64
  transport_error :: "wtq_transport_error option"
  sess_state :: wtq_session_state
  connect_section :: bytes
  offered :: "bytes list"
  require_protocol :: bool
  connect_ds :: "dstream option"
  client_response_ok :: bool
  client_selected_offer :: "nat option"
  paths :: "server_path list"
  req_path :: bytes
  req_auth :: bytes
  parked_es :: "nat option"
  parked_buf :: bytes
  parked_fin :: bool
  session_established :: bool
  selected :: bytes
  session_id :: u64
  session_es :: "nat option"
  caps_dec :: wtq_capsule_dec
  close_capsule_rx :: bool
  drain_rx :: bool
  qsid_prefix :: bytes
  dgrams_dropped :: u64
  peer :: "wtq_estream list"
  trace :: "event list"

section \<open>Access\<close>

definition upd_es :: "nat \<Rightarrow> (wtq_estream \<Rightarrow> wtq_estream) \<Rightarrow> wtq_conn \<Rightarrow> wtq_conn" where
  "upd_es i f c = c\<lparr>peer := (peer c)[i := f (peer c ! i)]\<rparr>"

definition emit :: "event \<Rightarrow> wtq_conn \<Rightarrow> wtq_conn" where
  "emit e c = c\<lparr>trace := trace c @ [e]\<rparr>"

definition drv_result :: "wtq_conn \<Rightarrow> wtq_result" where
  "drv_result c = d_result (drv c) (trace c)"

definition session_active :: "wtq_conn \<Rightarrow> bool" where
  "session_active c \<longleftrightarrow> sess_state c = SS_ESTABLISHED \<or> sess_state c = SS_DRAINING"

section \<open>Release\<close>

text \<open>The admission record that points at a released stream becomes a drain.\<close>

definition admission_unlink :: "nat \<Rightarrow> wtq_peer_admission option \<Rightarrow> wtq_peer_admission option" where
  "admission_unlink i p =
     (case p of
        Some a \<Rightarrow> if pa_es a = Some i then Some (a\<lparr>pa_es := None, pa_state := 3\<rparr>) else p
      | None \<Rightarrow> None)"

definition estream_release :: "nat \<Rightarrow> wtq_conn \<Rightarrow> wtq_conn" where
  "estream_release i c =
     (let c = (case es_ds (peer c ! i) of Some ds \<Rightarrow> emit (D_detach ds i) c | None \<Rightarrow> c);
          c = (if admission_enabled c
               then c\<lparr>admission_peers := map (admission_unlink i) (admission_peers c)\<rparr> else c)
      in upd_es i (\<lambda>es. es\<lparr>es_kind := ES_FREE, es_native_id_pending := False\<rparr>) c)"

definition wt_release_if_done :: "nat \<Rightarrow> wtq_conn \<Rightarrow> wtq_conn" where
  "wt_release_if_done i c =
     (let es = peer c ! i
      in if es_kind es = ES_WT \<and> \<not> es_wt_send_open es \<and> \<not> es_wt_fin_pending es
            \<and> \<not> es_wt_recv_open es \<and> \<not> es_wt_recv_drain es
         then estream_release i c else c)"

section \<open>Session outcomes and fatal errors\<close>

definition session_failed :: "wtq_session_fail_reason \<Rightarrow> wtq_conn \<Rightarrow> wtq_conn" where
  "session_failed reason c = emit (CB_session_failed reason) (c\<lparr>sess_state := SS_FAILED\<rparr>)"

definition session_draining :: "wtq_conn \<Rightarrow> wtq_conn" where
  "session_draining c =
     (if closed c \<or> drain_rx c \<or> \<not> session_active c then c
      else
        let c = c\<lparr>drain_rx := True\<rparr>;
            c = (if sess_state c = SS_ESTABLISHED then c\<lparr>sess_state := SS_DRAINING\<rparr> else c)
        in emit CB_session_draining c)"

text \<open>
  The teardown of one stream of a closing session, and the terminal transition.
  \<^verbatim>\<open>shutdown_raw\<close> and \<^verbatim>\<open>conn_fatal\<close> are mutually recursive with them through the
  driver's failure; the stream shutdown is an argument, which \<open>conn_fatal\<close> never
  reaches because it closes the connection first.
\<close>

definition close_wt_stream ::
  "(dstream option \<Rightarrow> bool \<Rightarrow> bool \<Rightarrow> u64 \<Rightarrow> wtq_conn \<Rightarrow> wtq_conn) \<Rightarrow> nat \<Rightarrow> wtq_conn \<Rightarrow> wtq_conn" where
  "close_wt_stream shut i c =
     (let es = peer c ! i
      in if es_kind es \<noteq> ES_WT then c
         else
           let c = (if \<not> closed c \<and> (es_wt_send_open es \<or> es_wt_fin_pending es \<or> es_wt_recv_open es)
                    then shut (es_ds es) (es_wt_send_open es \<or> es_wt_fin_pending es) (es_wt_recv_open es)
                           WTQ_WT_SESSION_GONE c
                    else c);
               c = upd_es i (\<lambda>es. es\<lparr>es_wt_send_open := False, es_wt_fin_pending := False,
                                     es_wt_recv_drain := es_wt_recv_drain es \<or> es_wt_recv_open es,
                                     es_wt_recv_open := False\<rparr>) c
           in wt_release_if_done i c)"

definition session_closed_by ::
  "(dstream option \<Rightarrow> bool \<Rightarrow> bool \<Rightarrow> u64 \<Rightarrow> wtq_conn \<Rightarrow> wtq_conn)
     \<Rightarrow> u32 \<Rightarrow> bytes \<Rightarrow> bool \<Rightarrow> wtq_conn \<Rightarrow> wtq_conn" where
  "session_closed_by shut code reason clean c =
     (if \<not> session_active c then c
      else
        let c = c\<lparr>sess_state := SS_CLOSED\<rparr>;
            c = fold (close_wt_stream shut) [0..<length (peer c)] c
        in emit (CB_session_closed code reason clean) c)"

definition conn_latch_error :: "wtq_error_kind \<Rightarrow> u64 \<Rightarrow> u32 \<Rightarrow> 64 word \<Rightarrow> wtq_conn \<Rightarrow> wtq_conn" where
  "conn_latch_error kind quic_code native_domain native_code c =
     (if transport_error c \<noteq> None then c
      else c\<lparr>transport_error :=
               Some \<lparr>te_kind = kind, te_quic_code = quic_code, te_native_domain = native_domain,
                     te_native_code = native_code\<rparr>\<rparr>)"

definition session_conn_lost :: "wtq_conn \<Rightarrow> wtq_conn" where
  "session_conn_lost c =
     (case sess_state c of
        SS_ESTABLISHED \<Rightarrow> session_closed_by (\<lambda>ds s r code c. c) 0 [] False c
      | SS_DRAINING \<Rightarrow> session_closed_by (\<lambda>ds s r code c. c) 0 [] False c
      | SS_IDLE \<Rightarrow> session_failed FAIL_CONNECTION c
      | SS_PENDING \<Rightarrow> session_failed FAIL_CONNECTION c
      | SS_SENT \<Rightarrow> session_failed FAIL_CONNECTION c
      | _ \<Rightarrow> c)"

definition conn_fatal :: "u64 \<Rightarrow> wtq_conn \<Rightarrow> wtq_conn" where
  "conn_fatal h3_err c =
     (if closed c then c
      else
        let c = conn_latch_error ERR_KIND_QUIC_APP h3_err 0 0 c;
            c = c\<lparr>closed := True, close_code := h3_err\<rparr>;
            c = emit (D_conn_close h3_err) c;
            c = session_conn_lost c
        in emit (CB_conn_error h3_err) c)"

definition shutdown_raw :: "dstream option \<Rightarrow> bool \<Rightarrow> bool \<Rightarrow> u64 \<Rightarrow> wtq_conn \<Rightarrow> wtq_conn" where
  "shutdown_raw ds abort_send abort_recv code c =
     (let c = emit (D_shutdown_stream ds
                \<lparr>sh_mode = SHUTDOWN_WHOLE_STREAM, sh_abort_send = abort_send, sh_abort_recv = abort_recv,
                 sh_app_send_cancel = False, sh_send_err = code, sh_recv_err = code\<rparr>) c
      in if drv_result c \<noteq> WTQ_OK \<and> drv_result c \<noteq> WTQ_ERR_CLOSED
         then conn_fatal WTQ_H3_INTERNAL_ERROR c else c)"

definition session_closed :: "u32 \<Rightarrow> bytes \<Rightarrow> bool \<Rightarrow> wtq_conn \<Rightarrow> wtq_conn" where
  "session_closed code reason clean c = session_closed_by shutdown_raw code reason clean c"

text \<open>\<open>es->id\<close> must be known; the encoding of the quarter id becomes the datagram prefix.\<close>

definition conn_session_established :: "nat \<Rightarrow> bytes \<Rightarrow> wtq_conn \<Rightarrow> wtq_conn" where
  "conn_session_established i sel c =
     (if length sel > WTQ_CONN_PROTOCOL_STORAGE then conn_fatal WTQ_H3_INTERNAL_ERROR c
      else
        let c = c\<lparr>selected := sel\<rparr>
        in if es_id (peer c ! i) = WTQ_STREAM_ID_UNKNOWN then conn_fatal WTQ_H3_INTERNAL_ERROR c
           else
             let c = c\<lparr>session_established := True, sess_state := SS_ESTABLISHED,
                       session_id := es_id (peer c ! i), session_es := Some i\<rparr>;
                 c = upd_es i (\<lambda>es. es\<lparr>es_is_session_stream := True\<rparr>) c;
                 c = c\<lparr>caps_dec := wtq_capsule_dec_init,
                       qsid_prefix := (case wtq_varint_encode (session_id c div 4) 8 of
                                         Inr b \<Rightarrow> b | Inl _ \<Rightarrow> [])\<rparr>;
                 c = emit (CB_session_established (selected c) (wt_profile c)) c
             in if goaway_id c \<noteq> None then session_draining c else c)"

definition parked_request_cancel :: "wtq_conn \<Rightarrow> wtq_conn" where
  "parked_request_cancel c = c\<lparr>parked_es := None, parked_buf := [], parked_fin := False\<rparr>"

end
