(* ===== verification/Engine_Session.thy ===== *)
theory Engine_Session
  imports Engine_State
begin

text \<open>
  Session establishment in the engine (\<^verbatim>\<open>src/engine/conn.c\<close>): the policy of each
  profile, the client's CONNECT and the server's decision on a request.
\<close>

definition WTQ_CONN_MAX_OFFERED :: nat where "WTQ_CONN_MAX_OFFERED = 8"
definition WTQ_CONN_PATH_PROTO_STORAGE :: nat where "WTQ_CONN_PATH_PROTO_STORAGE = 256"

section \<open>Profile policy\<close>

definition CONN_STRICT_OPTS :: wtq_connect_opts where
  "CONN_STRICT_OPTS = \<lparr>lenient_sf_tokens = False, accept_legacy_protocol = False\<rparr>"

definition CONN_SERVER_COMPAT_OPTS :: wtq_connect_opts where
  "CONN_SERVER_COMPAT_OPTS = \<lparr>lenient_sf_tokens = False, accept_legacy_protocol = True\<rparr>"

record conn_profile_policy =
  pol_opts :: wtq_connect_opts
  pol_expect_legacy_token :: bool
  pol_require_d02_request_marker :: bool
  pol_emit_d02_response_marker :: bool
  pol_require_origin :: bool
  pol_max_outbound_app_error :: u32

text \<open>Total here: the enumeration has these three profiles.\<close>

fun conn_connect_policy :: "wtq_h3_wt_profile \<Rightarrow> conn_profile_policy" where
  "conn_connect_policy PROFILE_CURRENT =
     \<lparr>pol_opts = CONN_STRICT_OPTS, pol_expect_legacy_token = False, pol_require_d02_request_marker = False,
      pol_emit_d02_response_marker = False, pol_require_origin = False,
      pol_max_outbound_app_error = 0xffffffff\<rparr>"
| "conn_connect_policy PROFILE_D13_14_COMPAT =
     \<lparr>pol_opts = CONN_SERVER_COMPAT_OPTS, pol_expect_legacy_token = True,
      pol_require_d02_request_marker = False, pol_emit_d02_response_marker = False,
      pol_require_origin = False, pol_max_outbound_app_error = 0xffffffff\<rparr>"
| "conn_connect_policy PROFILE_D02_RFC9297_COMPAT =
     \<lparr>pol_opts = CONN_SERVER_COMPAT_OPTS, pol_expect_legacy_token = True,
      pol_require_d02_request_marker = True, pol_emit_d02_response_marker = True,
      pol_require_origin = True, pol_max_outbound_app_error = 255\<rparr>"

section \<open>Configured subprotocols\<close>

definition protocol_check :: "bytes \<Rightarrow> wtq_result" where
  "protocol_check p =
     (if p = [] \<or> \<not> wtq_sf_string_valid p then WTQ_ERR_INVALID_ARG
      else
        (case wtq_connect_encode_response 200 (Some p) WTQ_CONN_SETTINGS_CAP of
           Inl CONNECT_BUFFER \<Rightarrow> WTQ_ERR_TOO_LARGE
         | Inl _ \<Rightarrow> WTQ_ERR_INVALID_ARG
         | Inr sec \<Rightarrow>
             (case wtq_connect_decode_response sec CONN_STRICT_OPTS WTQ_CONN_SETTINGS_CAP of
                Inl CONNECT_BUFFER \<Rightarrow> WTQ_ERR_TOO_LARGE
              | Inl _ \<Rightarrow> WTQ_ERR_INVALID_ARG
              | Inr resp \<Rightarrow> if cs_protocol resp \<noteq> Some p then WTQ_ERR_TOO_LARGE else WTQ_OK)))"

fun validate_protocols_loop :: "bytes option list \<Rightarrow> nat \<Rightarrow> wtq_result" where
  "validate_protocols_loop [] buf_off = WTQ_OK"
| "validate_protocols_loop (None # ps) buf_off = WTQ_ERR_INVALID_ARG"
| "validate_protocols_loop (Some p # ps) buf_off =
     (if protocol_check p \<noteq> WTQ_OK then protocol_check p
      else if buf_off + length p > WTQ_CONN_PATH_PROTO_STORAGE then WTQ_ERR_TOO_LARGE
      else validate_protocols_loop ps (buf_off + length p))"

text \<open>The array holds the counted entries.\<close>

definition wtq_conn_validate_protocols :: "bytes option list \<Rightarrow> wtq_result" where
  "wtq_conn_validate_protocols ps =
     (if length ps > WTQ_CONN_MAX_OFFERED then WTQ_ERR_TOO_LARGE else validate_protocols_loop ps 0)"

section \<open>The client's CONNECT\<close>

text \<open>A HEADERS or DATA frame header in a 16-byte buffer.\<close>

definition frame_header :: "u64 \<Rightarrow> nat \<Rightarrow> bytes" where
  "frame_header ty len =
     (case wtq_h3_frame_encode_header ty (of_nat len) 16 of Inr b \<Rightarrow> b | Inl _ \<Rightarrow> [])"

text \<open>A header and a body in two sends; a refused send is fatal.\<close>

definition send_headers :: "dstream option \<Rightarrow> bytes \<Rightarrow> bool \<Rightarrow> wtq_conn \<Rightarrow> wtq_conn \<times> bool" where
  "send_headers ds body fin c =
     (let c = emit (D_send ds (frame_header WTQ_H3_FRAME_HEADERS (length body)) False) c
      in if drv_result c \<noteq> WTQ_OK then (conn_fatal WTQ_H3_INTERNAL_ERROR c, False)
         else
           let c = emit (D_send ds body fin) c
           in if drv_result c \<noteq> WTQ_OK then (conn_fatal WTQ_H3_INTERNAL_ERROR c, False)
              else (c, True))"

text \<open>The slot range for the CONNECT stream, and the first free slot in a range.\<close>

definition connect_range :: "wtq_conn \<Rightarrow> nat list" where
  "connect_range c =
     (let first = (if budgeted c then peer_capacity c + local_capacity c
                   else if admission_enabled c then 3 else 0)
      in [first..<(if admission_enabled c then first + 1 else length (peer c))])"

definition free_slot :: "wtq_conn \<Rightarrow> nat list \<Rightarrow> nat option" where
  "free_slot c is = find (\<lambda>i. es_kind (peer c ! i) = ES_FREE) is"

definition client_send_connect :: "wtq_conn \<Rightarrow> wtq_conn" where
  "client_send_connect c =
     (if goaway_id c \<noteq> None then session_failed FAIL_CONNECTION c
      else
        (case free_slot c (connect_range c) of
           None \<Rightarrow> conn_fatal WTQ_H3_INTERNAL_ERROR c
         | Some i \<Rightarrow>
             let gen = stream_generation c + 1;
                 c = c\<lparr>stream_generation := gen\<rparr>;
                 c = upd_es i (\<lambda>_. estream_zero\<lparr>es_generation := gen, es_kind := ES_CONNECT,
                                     es_resident := budgeted c, es_id := WTQ_STREAM_ID_UNKNOWN\<rparr>) c;
                 c = emit (D_open_bidi (Some i)) c
             in if drv_result c \<noteq> WTQ_OK
                then conn_fatal WTQ_H3_INTERNAL_ERROR (estream_release i c)
                else
                  let (ds, sid) = d_open (drv c) (trace c);
                      c = c\<lparr>connect_ds := Some ds\<rparr>;
                      c = upd_es i (\<lambda>es. es\<lparr>es_ds := Some ds, es_id := sid,
                                            es_native_id_pending := (sid = WTQ_STREAM_ID_UNKNOWN)\<rparr>) c
                  in (case send_headers (Some ds) (connect_section c) False c of
                        (c, ok) \<Rightarrow> if ok then c\<lparr>sess_state := SS_SENT\<rparr> else c)))"

section \<open>The response\<close>

definition client_maybe_establish :: "nat \<Rightarrow> wtq_conn \<Rightarrow> wtq_conn" where
  "client_maybe_establish i c =
     (if sess_state c \<noteq> SS_SENT \<or> \<not> client_response_ok c \<or> es_native_id_pending (peer c ! i) then c
      else if (case goaway_id c of Some g \<Rightarrow> es_id (peer c ! i) \<ge> g | None \<Rightarrow> False) then
        let c = upd_es i (\<lambda>es. es\<lparr>es_request_dead := True\<rparr>) c;
            c = session_failed FAIL_CONNECTION c
        in if \<not> closed c then shutdown_raw (es_ds (peer c ! i)) True True WTQ_H3_REQUEST_REJECTED c else c
      else
        conn_session_established i
          (case client_selected_offer c of Some k \<Rightarrow> offered c ! k | None \<Rightarrow> []) c)"

text \<open>The index of the first equal offer.\<close>

fun offer_index :: "bytes list \<Rightarrow> bytes \<Rightarrow> nat \<Rightarrow> nat option" where
  "offer_index [] p i = None"
| "offer_index (o' # os) p i = (if o' = p then Some i else offer_index os p (i + 1))"

definition client_response_done :: "nat \<Rightarrow> wtq_conn \<Rightarrow> wtq_conn" where
  "client_response_done i c =
     (case wtq_connect_decode_response (es_set_buf (peer c ! i)) CONN_STRICT_OPTS 512 of
        Inl st \<Rightarrow>
          conn_fatal (if st = CONNECT_QPACK_DECOMPRESSION_FAILED then WTQ_QPACK_DECOMPRESSION_FAILED
                      else WTQ_H3_MESSAGE_ERROR)
            (session_failed FAIL_BAD_RESPONSE c)
      | Inr resp \<Rightarrow>
          if cs_status resp < 200 then
            (if cs_status resp = 101 then conn_fatal WTQ_H3_MESSAGE_ERROR (session_failed FAIL_BAD_RESPONSE c)
             else upd_es i (\<lambda>es. es\<lparr>es_headers_done := False\<rparr>) c)
          else if \<not> wtq_connect_status_is_success (cs_status resp) then
            emit (CB_session_rejected (cs_status resp)) (c\<lparr>sess_state := SS_REJECTED\<rparr>)
          else if profile_latched c \<and> pol_emit_d02_response_marker (conn_connect_policy (wt_profile c))
                  \<and> cs_d02_marker resp \<noteq> Some (str ''draft02'') then
            session_failed FAIL_BAD_RESPONSE c
          else
            let sel = (case cs_protocol resp of None \<Rightarrow> None | Some p \<Rightarrow> offer_index (offered c) p 0)
            in if cs_protocol resp \<noteq> None \<and> (offered c = [] \<or> sel = None) then
                 session_failed FAIL_NO_PROTOCOL c
               else if require_protocol c \<and> sel = None then session_failed FAIL_NO_PROTOCOL c
               else client_maybe_establish i (c\<lparr>client_response_ok := True, client_selected_offer := sel\<rparr>))"

section \<open>The server's answer\<close>

definition server_send_response :: "dstream option \<Rightarrow> nat \<Rightarrow> bytes option \<Rightarrow> wtq_conn \<Rightarrow> wtq_conn" where
  "server_send_response ds status sel c =
     (let emit_marker = (status \<ge> 200 \<and> status < 300 \<and> profile_latched c
                         \<and> pol_emit_d02_response_marker (conn_connect_policy (wt_profile c)))
      in (case wtq_connect_encode_response_ex status sel emit_marker WTQ_CONN_SETTINGS_CAP of
            Inl _ \<Rightarrow> conn_fatal WTQ_H3_INTERNAL_ERROR c
          | Inr sec \<Rightarrow> fst (send_headers ds sec (status \<ge> 300) c)))"

definition request_stream_refuse_err :: "nat \<Rightarrow> u64 \<Rightarrow> wtq_conn \<Rightarrow> wtq_conn" where
  "request_stream_refuse_err i h3_err c =
     upd_es i (\<lambda>es. es\<lparr>es_request_dead := True\<rparr>) (shutdown_raw (es_ds (peer c ! i)) True True h3_err c)"

definition request_stream_refuse :: "nat \<Rightarrow> wtq_conn \<Rightarrow> wtq_conn" where
  "request_stream_refuse i c = request_stream_refuse_err i WTQ_H3_REQUEST_REJECTED c"

definition request_stream_fail :: "nat \<Rightarrow> u64 \<Rightarrow> wtq_conn \<Rightarrow> wtq_conn" where
  "request_stream_fail i h3_err c =
     (let c = request_stream_refuse_err i h3_err c;
          c = (if parked_es c = Some i then parked_request_cancel c else c)
      in if es_is_session_stream (peer c ! i) then
           let c = (if session_es c = Some i then c\<lparr>session_es := None\<rparr> else c);
               c = estream_release i c
           in session_closed 0 [] False c
         else c)"

text \<open>A response and a dead stream: the walk of this stream is over.\<close>

definition respond_dead :: "nat \<Rightarrow> nat \<Rightarrow> wtq_conn \<Rightarrow> wtq_conn" where
  "respond_dead i status c =
     upd_es i (\<lambda>es. es\<lparr>es_request_dead := True\<rparr>) (server_send_response (es_ds (peer c ! i)) status None c)"

text \<open>What follows the decoding of a WebTransport request under the latched policy.\<close>

definition server_accept :: "nat \<Rightarrow> conn_profile_policy \<Rightarrow> wtq_connect_req \<Rightarrow> bytes list \<Rightarrow> wtq_conn \<Rightarrow> wtq_conn" where
  "server_accept i pol req offers c =
     (if cr_legacy_protocol req \<noteq> pol_expect_legacy_token pol then respond_dead i 400 c
      else if session_established c then request_stream_refuse i c
      else if pol_require_d02_request_marker pol \<and> cr_d02_marker req \<noteq> Some (str ''1'') then respond_dead i 400 c
      else
        (case find (\<lambda>p. sp_path p = cr_path req) (paths c) of
           None \<Rightarrow> respond_dead i 404 c
         | Some p \<Rightarrow>
             if (pol_require_origin pol \<or> sp_origin_policy p \<noteq> WTQ_ORIGIN_POLICY_UNSET)
                \<and> \<not> (case cr_origin req of
                      None \<Rightarrow> False
                    | Some origin \<Rightarrow>
                        sp_origin_policy p \<noteq> WTQ_ORIGIN_POLICY_UNSET
                        \<and> conn_origin_authorized (sp_origin_policy p) (sp_origins p) origin)
             then respond_dead i 403 c
             else
               let sel = (if offers \<noteq> [] then
                            (case wtq_connect_select_protocol offers (sp_protos p) of
                               Inr k \<Rightarrow> Some (offers ! k) | Inl _ \<Rightarrow> None)
                          else None)
               in if sp_require p \<and> sel = None then respond_dead i 400 c
                  else if length (cr_path req) > 256 \<or> length (cr_authority req) > WTQ_CONN_SETTINGS_CAP
                  then conn_fatal WTQ_H3_INTERNAL_ERROR c
                  else
                    let c = c\<lparr>req_path := cr_path req, req_auth := cr_authority req\<rparr>;
                        c = server_send_response (es_ds (peer c ! i)) 200 sel c
                    in if \<not> closed c then conn_session_established i (case sel of Some s \<Rightarrow> s | None \<Rightarrow> []) c
                       else c))"

definition server_request_done :: "nat \<Rightarrow> wtq_conn \<Rightarrow> wtq_conn" where
  "server_request_done i c =
     (if \<not> settings_received c then
        (if parked_es c \<noteq> None then request_stream_refuse i c
         else c\<lparr>parked_es := Some i, parked_buf := es_set_buf (peer c ! i)\<rparr>)
      else if \<not> wt_supported c \<or> \<not> profile_latched c then respond_dead i 400 c
      else
        let pol = conn_connect_policy (wt_profile c)
        in (case wtq_connect_decode_request (es_set_buf (peer c ! i)) (pol_opts pol) WTQ_CONN_MAX_OFFERED
                   WTQ_CONN_SETTINGS_CAP of
              Inl CONNECT_NOT_WEBTRANSPORT \<Rightarrow> respond_dead i 400 c
            | Inl CONNECT_BUFFER \<Rightarrow> request_stream_refuse_err i WTQ_H3_EXCESSIVE_LOAD c
            | Inl CONNECT_QPACK_DECOMPRESSION_FAILED \<Rightarrow> conn_fatal WTQ_QPACK_DECOMPRESSION_FAILED c
            | Inl _ \<Rightarrow> request_stream_refuse_err i WTQ_H3_MESSAGE_ERROR c
            | Inr (req, offers) \<Rightarrow> server_accept i pol req offers c))"

definition session_stream_poisoned :: "nat \<Rightarrow> wtq_conn \<Rightarrow> wtq_conn" where
  "session_stream_poisoned i c =
     (let c = shutdown_raw (es_ds (peer c ! i)) True True WTQ_H3_MESSAGE_ERROR c;
          c = (if session_es c = Some i then c\<lparr>session_es := None\<rparr> else c)
      in estream_release i c)"

end
