(* ===== verification/Engine_Walk.thy ===== *)
theory Engine_Walk
  imports Engine_Session
begin

text \<open>
  The byte walks of the engine (\<^verbatim>\<open>src/engine/conn.c\<close>): capsules on the session
  stream, frames on request and CONNECT streams, frames on the peer's control
  stream, QPACK instructions, and the classification of peer streams.
\<close>

section \<open>The loop\<close>

text \<open>
  The loops \<^verbatim>\<open>while (off < len && !conn->closed)\<close> of the three walks. A turn gives the
  rest of the delivery, or nothing when the C code returns. A turn that goes on
  has consumed a byte in every state the engine reaches (\<open>Engine_Loops\<close>); the guard on
  the length only makes the recursion total.
\<close>

function walk :: "(bytes \<Rightarrow> wtq_conn \<Rightarrow> wtq_conn \<times> bytes option) \<Rightarrow> bytes \<Rightarrow> wtq_conn \<Rightarrow> wtq_conn" where
  "walk turn data c =
     (if data = [] \<or> closed c then c
      else
        (case turn data c of
           (c', None) \<Rightarrow> c'
         | (c', Some rest) \<Rightarrow> if length rest < length data then walk turn rest c' else c'))"
  by auto

termination
  by (relation "measure (\<lambda>(turn, data, c). length data)") auto

declare walk.simps [simp del]

section \<open>Capsules\<close>

definition capsule_turn :: "nat \<Rightarrow> bytes \<Rightarrow> wtq_conn \<Rightarrow> wtq_conn \<times> bytes option" where
  "capsule_turn i data c =
     (let terminal = (sess_state c = SS_CLOSED)
      in (case wtq_capsule_dec_feed (caps_dec c) data of
            (d, r, n) \<Rightarrow>
              let c = c\<lparr>caps_dec := d\<rparr>; rest = drop n data
              in (case r of
                    Inl NEED_MORE \<Rightarrow> (c, None)
                  | Inl _ \<Rightarrow>
                      (if terminal then request_stream_fail i WTQ_H3_MESSAGE_ERROR c
                       else conn_fatal WTQ_H3_MESSAGE_ERROR c, None)
                  | Inr cap \<Rightarrow>
                      if cap_kind cap = CAP_KIND_CLOSE then
                        let c = c\<lparr>close_capsule_rx := True\<rparr>;
                            c = (if terminal then c
                                 else session_closed (cap_close_code cap) (cap_reason cap) True c)
                        in if rest \<noteq> [] then (session_stream_poisoned i c, None) else (c, Some rest)
                      else if cap_kind cap = CAP_KIND_DRAIN \<and> \<not> terminal then (session_draining c, Some rest)
                      else (c, Some rest))))"

definition session_capsule_bytes :: "nat \<Rightarrow> bytes \<Rightarrow> wtq_conn \<Rightarrow> wtq_conn" where
  "session_capsule_bytes i data c =
     (if close_capsule_rx c then session_stream_poisoned i c else walk (capsule_turn i) data c)"

section \<open>Frames on request and CONNECT streams\<close>

definition request_frame_forbidden :: "u64 \<Rightarrow> bool" where
  "request_frame_forbidden type \<longleftrightarrow>
     type \<in> {0x03, 0x04, 0x05, 0x07, 0x0d, 0x02, 0x06, 0x08, 0x09}"

text \<open>The part of a walk turn after a completed frame header; \<open>False\<close> when the C code returns.\<close>

definition begin_frame :: "nat \<Rightarrow> wtq_h3_frame \<Rightarrow> wtq_conn \<Rightarrow> wtq_conn" where
  "begin_frame i hdr c =
     upd_es i (\<lambda>es. es\<lparr>es_frame_type := fr_type hdr, es_frame_remaining := fr_length hdr,
                       es_frame_active := True, es_set_buf := []\<rparr>) c"

definition request_header :: "nat \<Rightarrow> wtq_h3_frame \<Rightarrow> wtq_conn \<Rightarrow> wtq_conn \<times> bool" where
  "request_header i hdr c =
     (let c = begin_frame i hdr c; es = peer c ! i
      in if request_frame_forbidden (fr_type hdr) then (conn_fatal WTQ_H3_FRAME_UNEXPECTED c, False)
         else if fr_type hdr = WTQ_H3_FRAME_HEADERS then
           (if es_trailers_done es then (conn_fatal WTQ_H3_FRAME_UNEXPECTED c, False)
            else if fr_length hdr > of_nat WTQ_CONN_SETTINGS_CAP then
              (if es_kind es = ES_REQUEST \<or> es_headers_done es
               then (request_stream_fail i WTQ_H3_EXCESSIVE_LOAD c, False)
               else (conn_fatal WTQ_H3_EXCESSIVE_LOAD c, False))
            else (upd_es i (\<lambda>es. es\<lparr>es_frame_kind := CF_SETTINGS\<rparr>) c, True))
         else if fr_type hdr = WTQ_H3_FRAME_DATA then
           (if \<not> es_headers_done es \<or> es_trailers_done es then (conn_fatal WTQ_H3_FRAME_UNEXPECTED c, False)
            else if parked_es c = Some i then (parked_request_cancel (request_stream_refuse i c), False)
            else (upd_es i (\<lambda>es. es\<lparr>es_frame_kind :=
                    (if es_is_session_stream es then CF_CAPSULE else CF_SKIP)\<rparr>) c, True))
         else (upd_es i (\<lambda>es. es\<lparr>es_frame_kind := CF_SKIP\<rparr>) c, True))"

text \<open>A complete HEADERS frame: the message head, or the one trailer section.\<close>

definition request_headers_end :: "nat \<Rightarrow> wtq_conn \<Rightarrow> wtq_conn \<times> bool" where
  "request_headers_end i c =
     (if \<not> es_headers_done (peer c ! i) then
        let c = upd_es i (\<lambda>es. es\<lparr>es_headers_done := True\<rparr>) c
        in (if es_kind (peer c ! i) = ES_CONNECT then client_response_done i c
            else server_request_done i c, True)
      else
        let buf = es_set_buf (peer c ! i);
            c = upd_es i (\<lambda>es. es\<lparr>es_trailers_done := True, es_set_buf := []\<rparr>) c
        in (case wtq_connect_validate_trailers buf WTQ_CONN_SETTINGS_CAP of
              Some CONNECT_QPACK_DECOMPRESSION_FAILED \<Rightarrow> (conn_fatal WTQ_QPACK_DECOMPRESSION_FAILED c, False)
            | Some CONNECT_BUFFER \<Rightarrow> (request_stream_fail i WTQ_H3_EXCESSIVE_LOAD c, False)
            | Some _ \<Rightarrow> (request_stream_fail i WTQ_H3_MESSAGE_ERROR c, False)
            | None \<Rightarrow> (c, True)))"

text \<open>How many bytes of a delivery belong to the current frame.\<close>

definition frame_take :: "u64 \<Rightarrow> bytes \<Rightarrow> nat" where
  "frame_take remaining data = (if unat remaining < length data then unat remaining else length data)"

definition request_payload_end :: "nat \<Rightarrow> nat \<Rightarrow> bytes \<Rightarrow> wtq_conn \<Rightarrow> wtq_conn \<times> bytes option" where
  "request_payload_end i n rest c =
     (let c = upd_es i (\<lambda>es. es\<lparr>es_frame_remaining := es_frame_remaining es - of_nat n\<rparr>) c;
          es = peer c ! i
      in if es_frame_remaining es = 0 \<and> es_frame_active es then
           let c = upd_es i (\<lambda>es. es\<lparr>es_frame_active := False\<rparr>) c
           in if es_frame_type es = WTQ_H3_FRAME_HEADERS then
                (case request_headers_end i c of
                   (c, go) \<Rightarrow>
                     if \<not> go \<or> closed c \<or> es_kind (peer c ! i) = ES_FREE \<or> es_request_dead (peer c ! i)
                     then (c, None) else (c, Some rest))
              else (c, Some rest)
         else (c, Some rest))"

definition request_payload :: "nat \<Rightarrow> bytes \<Rightarrow> wtq_conn \<Rightarrow> wtq_conn \<times> bytes option" where
  "request_payload i data c =
     (let es = peer c ! i; n = frame_take (es_frame_remaining es) data
      in if es_frame_kind es = CF_SETTINGS \<and> n > 0 then
           request_payload_end i n (drop n data)
             (upd_es i (\<lambda>es. es\<lparr>es_set_buf := es_set_buf es @ take n data\<rparr>) c)
         else if es_frame_kind es = CF_CAPSULE \<and> n > 0 then
           let c = session_capsule_bytes i (take n data) c
           in if closed c \<or> es_kind (peer c ! i) = ES_FREE then (c, None)
              else request_payload_end i n (drop n data) c
         else request_payload_end i n (drop n data) c)"

definition request_turn :: "nat \<Rightarrow> bytes \<Rightarrow> wtq_conn \<Rightarrow> wtq_conn \<times> bytes option" where
  "request_turn i data c =
     (if \<not> es_frame_active (peer c ! i) then
        (case wtq_h3_frame_dec_feed (es_frame_dec (peer c ! i)) data of
           (d, r, n) \<Rightarrow>
             let c = upd_es i (\<lambda>es. es\<lparr>es_frame_dec := d\<rparr>) c
             in (case r of
                   Inl _ \<Rightarrow> (c, None)
                 | Inr hdr \<Rightarrow>
                     (case request_header i hdr c of
                        (c, go) \<Rightarrow> if go then request_payload i (drop n data) c else (c, None))))
      else request_payload i data c)"

definition request_stream_bytes :: "nat \<Rightarrow> bytes \<Rightarrow> wtq_conn \<Rightarrow> wtq_conn" where
  "request_stream_bytes i data c =
     (if es_request_dead (peer c ! i) then c else walk (request_turn i) data c)"

definition request_truncated :: "wtq_estream \<Rightarrow> bool" where
  "request_truncated es \<longleftrightarrow> es_frame_active es \<or> fd_hdr_bytes (es_frame_dec es) > 0"

definition request_stream_fin :: "nat \<Rightarrow> wtq_conn \<Rightarrow> wtq_conn" where
  "request_stream_fin i c =
     (let es = peer c ! i
      in if es_request_dead es then c
         else if es_is_session_stream es then
           let c = (if session_es c = Some i then c\<lparr>session_es := None\<rparr> else c)
           in if request_truncated es then conn_fatal WTQ_H3_FRAME_ERROR c
              else if close_capsule_rx c then c
              else if cd_state (caps_dec c) = CAP_DEC_PAYLOAD \<or> fd_hdr_bytes (cd_hdr (caps_dec c)) > 0 then
                (if sess_state c = SS_CLOSED then request_stream_refuse_err i WTQ_H3_MESSAGE_ERROR c
                 else conn_fatal WTQ_H3_MESSAGE_ERROR c)
              else session_closed 0 [] True c
         else
           let pending = (es_kind es = ES_CONNECT \<and> \<not> session_established c \<and> sess_state c = SS_SENT)
           in if request_truncated es then
                conn_fatal WTQ_H3_FRAME_ERROR (if pending then session_failed FAIL_BAD_RESPONSE c else c)
              else if es_kind es = ES_REQUEST \<and> \<not> es_headers_done es
              then conn_fatal WTQ_H3_REQUEST_INCOMPLETE c
              else if pending then session_failed FAIL_BAD_RESPONSE c
              else c)"

section \<open>The peer's control stream\<close>

definition control_frame_forbidden :: "u64 \<Rightarrow> bool" where
  "control_frame_forbidden type \<longleftrightarrow> type \<in> {0x00, 0x01, 0x05, 0x02, 0x06, 0x08, 0x09}"

definition control_header :: "nat \<Rightarrow> wtq_h3_frame \<Rightarrow> wtq_conn \<Rightarrow> wtq_conn \<times> bool" where
  "control_header i hdr c =
     (let c = begin_frame i hdr c;
          is_settings = (fr_type hdr = WTQ_H3_FRAME_SETTINGS);
          kind = (\<lambda>k. (upd_es i (\<lambda>es. es\<lparr>es_frame_kind := k\<rparr>) c, True));
          fatal = (\<lambda>e. (conn_fatal e c, False))
      in if \<not> settings_received c \<and> \<not> is_settings then fatal WTQ_H3_MISSING_SETTINGS
         else if settings_received c \<and> is_settings then fatal WTQ_H3_FRAME_UNEXPECTED
         else if \<not> is_settings \<and> control_frame_forbidden (fr_type hdr) then fatal WTQ_H3_FRAME_UNEXPECTED
         else if is_settings then
           (if fr_length hdr > of_nat WTQ_CONN_SETTINGS_CAP then fatal WTQ_H3_EXCESSIVE_LOAD
            else kind CF_SETTINGS)
         else if fr_type hdr = WTQ_H3_FRAME_GOAWAY \<or> fr_type hdr = WTQ_H3_FRAME_CANCEL_PUSH
                 \<or> fr_type hdr = WTQ_H3_FRAME_MAX_PUSH_ID then
           (if fr_type hdr = WTQ_H3_FRAME_MAX_PUSH_ID \<and> persp c = PERSPECTIVE_CLIENT
            then fatal WTQ_H3_FRAME_UNEXPECTED
            else if fr_length hdr = 0 \<or> fr_length hdr > 8 then fatal WTQ_H3_FRAME_ERROR
            else kind CF_ONE_VARINT)
         else kind CF_SKIP)"

text \<open>GOAWAY: the limit only falls; a CONNECT at or above it is over.\<close>

definition control_goaway :: "u64 \<Rightarrow> wtq_conn \<Rightarrow> wtq_conn" where
  "control_goaway v c =
     (if (persp c = PERSPECTIVE_CLIENT \<and> v AND 3 \<noteq> 0)
         \<or> (case goaway_id c of Some g \<Rightarrow> v > g | None \<Rightarrow> False)
      then conn_fatal WTQ_H3_ID_ERROR c
      else
        let c = c\<lparr>goaway_id := Some v\<rparr>;
            c = (if persp c = PERSPECTIVE_CLIENT \<and> sess_state c = SS_SENT then
                   (case find (\<lambda>i. es_kind (peer c ! i) = ES_CONNECT \<and> \<not> es_native_id_pending (peer c ! i)
                                   \<and> es_id (peer c ! i) \<ge> v) [0..<length (peer c)] of
                      None \<Rightarrow> c
                    | Some i \<Rightarrow>
                        let c = upd_es i (\<lambda>es. es\<lparr>es_request_dead := True\<rparr>) c;
                            c = session_failed FAIL_CONNECTION c
                        in if \<not> closed c
                           then shutdown_raw (es_ds (peer c ! i)) True True WTQ_H3_REQUEST_REJECTED c else c)
                 else c)
        in session_draining c)"

definition control_varint :: "u64 \<Rightarrow> bytes \<Rightarrow> wtq_conn \<Rightarrow> wtq_conn" where
  "control_varint type buf c =
     (case wtq_varint_decode buf of
        Inl _ \<Rightarrow> conn_fatal WTQ_H3_FRAME_ERROR c
      | Inr (v, n) \<Rightarrow>
          if n \<noteq> length buf then conn_fatal WTQ_H3_FRAME_ERROR c
          else if type = WTQ_H3_FRAME_CANCEL_PUSH then conn_fatal WTQ_H3_ID_ERROR c
          else if type = WTQ_H3_FRAME_MAX_PUSH_ID then
            (if (case max_push_id c of Some m \<Rightarrow> v < m | None \<Rightarrow> False) then conn_fatal WTQ_H3_ID_ERROR c
             else c\<lparr>max_push_id := Some v\<rparr>)
          else if type = WTQ_H3_FRAME_GOAWAY then control_goaway v c
          else c)"

text \<open>The deferred request of a server, decided once the SETTINGS are in, with its deferred FIN.\<close>

definition release_parked :: "nat \<Rightarrow> wtq_conn \<Rightarrow> wtq_conn" where
  "release_parked r c =
     (let deferred_fin = parked_fin c; buf = parked_buf c;
          c = parked_request_cancel c;
          c = upd_es r (\<lambda>es. es\<lparr>es_set_buf := buf\<rparr>) c;
          c = server_request_done r c
      in if deferred_fin \<and> \<not> closed c \<and> es_kind (peer c ! r) \<noteq> ES_FREE then
           let c = request_stream_fin r c;
               c = (if session_es c = Some r then c\<lparr>session_es := None\<rparr> else c)
           in estream_release r c
         else c)"

definition control_settings :: "bytes \<Rightarrow> wtq_conn \<Rightarrow> wtq_conn" where
  "control_settings buf c =
     (case wtq_h3_settings_decode buf of
        Inl ERR_SETTING \<Rightarrow> conn_fatal WTQ_H3_SETTINGS_ERROR c
      | Inl _ \<Rightarrow> conn_fatal WTQ_H3_FRAME_ERROR c
      | Inr s \<Rightarrow>
          let c = c\<lparr>peer_settings := s, settings_received := True\<rparr>;
              c = (case wtq_h3_settings_select_profile s (persp c = PERSPECTIVE_CLIENT) (wt_profiles c) of
                     Some sel \<Rightarrow> c\<lparr>wt_profile := sel, profile_latched := True, wt_supported := True\<rparr>
                   | None \<Rightarrow> c\<lparr>wt_supported := False\<rparr>);
              c = emit (CB_peer_settings (wt_supported c)) c;
              c = (if persp c = PERSPECTIVE_CLIENT \<and> sess_state c = SS_PENDING then
                     (if \<not> wt_supported c then session_failed FAIL_NO_WT_SUPPORT c else client_send_connect c)
                   else c)
          in (if persp c = PERSPECTIVE_SERVER then
                (case parked_es c of Some r \<Rightarrow> release_parked r c | None \<Rightarrow> c)
              else c))"

definition control_payload :: "nat \<Rightarrow> bytes \<Rightarrow> wtq_conn \<Rightarrow> wtq_conn \<times> bytes option" where
  "control_payload i data c =
     (let es = peer c ! i; n = frame_take (es_frame_remaining es) data;
          c = upd_es i (\<lambda>es. es\<lparr>es_set_buf :=
                  (if es_frame_kind es \<noteq> CF_SKIP then es_set_buf es @ take n data else es_set_buf es),
                es_frame_remaining := es_frame_remaining es - of_nat n\<rparr>) c;
          es = peer c ! i
      in if es_frame_remaining es = 0 then
           let c = upd_es i (\<lambda>es. es\<lparr>es_frame_active := False\<rparr>) c;
               c = (if es_frame_kind es = CF_ONE_VARINT then control_varint (es_frame_type es) (es_set_buf es) c
                    else if es_frame_kind es = CF_SETTINGS then control_settings (es_set_buf es) c
                    else c)
           in (c, Some (drop n data))
         else (c, Some (drop n data)))"

definition control_turn :: "nat \<Rightarrow> bytes \<Rightarrow> wtq_conn \<Rightarrow> wtq_conn \<times> bytes option" where
  "control_turn i data c =
     (if \<not> es_frame_active (peer c ! i) then
        (case wtq_h3_frame_dec_feed (es_frame_dec (peer c ! i)) data of
           (d, r, n) \<Rightarrow>
             let c = upd_es i (\<lambda>es. es\<lparr>es_frame_dec := d\<rparr>) c
             in (case r of
                   Inl _ \<Rightarrow> (c, None)
                 | Inr hdr \<Rightarrow>
                     (case control_header i hdr c of
                        (c, go) \<Rightarrow> if go then control_payload i (drop n data) c else (c, None))))
      else control_payload i data c)"

definition control_bytes :: "nat \<Rightarrow> bytes \<Rightarrow> wtq_conn \<Rightarrow> wtq_conn" where
  "control_bytes i data c = walk (control_turn i) data c"

section \<open>QPACK streams\<close>

fun qpack_bytes :: "nat \<Rightarrow> bytes \<Rightarrow> wtq_conn \<Rightarrow> wtq_conn" where
  "qpack_bytes i [] c = c"
| "qpack_bytes i (b # bs) c =
     (let es = peer c ! i
      in if es_qpack_type es = 0x02 then conn_fatal WTQ_QPACK_ENCODER_STREAM_ERROR c
         else if (es_set_buf es = [] \<and> b AND 0xc0 \<noteq> 0x40) \<or> length (es_set_buf es) = 11
         then conn_fatal WTQ_QPACK_DECODER_STREAM_ERROR c
         else
           let buf = es_set_buf es @ [b]
           in (case wtq_qpack_int_decode buf 6 of
                 Inr _ \<Rightarrow> qpack_bytes i bs (upd_es i (\<lambda>es. es\<lparr>es_set_buf := []\<rparr>) c)
               | Inl NEED_MORE \<Rightarrow> qpack_bytes i bs (upd_es i (\<lambda>es. es\<lparr>es_set_buf := buf\<rparr>) c)
               | Inl _ \<Rightarrow> conn_fatal WTQ_QPACK_DECODER_STREAM_ERROR
                           (upd_es i (\<lambda>es. es\<lparr>es_set_buf := buf\<rparr>) c)))"

section \<open>Stream classification\<close>

text \<open>\<open>False\<close> when the connection died.\<close>

definition classify_uni :: "nat \<Rightarrow> u64 \<Rightarrow> wtq_conn \<Rightarrow> wtq_conn \<times> bool" where
  "classify_uni i type c =
     (if type = 0x00 then
        (if peer_control_seen c then (conn_fatal WTQ_H3_STREAM_CREATION_ERROR c, False)
         else (upd_es i (\<lambda>es. es\<lparr>es_kind := ES_CONTROL, es_frame_dec := wtq_h3_frame_dec_init\<rparr>)
                 (c\<lparr>peer_control_seen := True\<rparr>), True))
      else if type = 0x02 \<or> type = 0x03 then
        (if (if type = 0x02 then qpack_enc_seen c else qpack_dec_seen c)
         then (conn_fatal WTQ_H3_STREAM_CREATION_ERROR c, False)
         else (upd_es i (\<lambda>es. es\<lparr>es_kind := ES_QPACK, es_qpack_type := type\<rparr>)
                 (if type = 0x02 then c\<lparr>qpack_enc_seen := True\<rparr> else c\<lparr>qpack_dec_seen := True\<rparr>), True))
      else if type = 0x01 then
        (conn_fatal (if persp c = PERSPECTIVE_SERVER then WTQ_H3_STREAM_CREATION_ERROR else WTQ_H3_ID_ERROR) c,
         False)
      else (upd_es i (\<lambda>es. es\<lparr>es_kind := ES_DRAIN\<rparr>) c, True))"

definition wt_associate :: "nat \<Rightarrow> u64 \<Rightarrow> bool \<Rightarrow> wtq_conn \<Rightarrow> wtq_conn \<times> bool" where
  "wt_associate i sid bidi c =
     (if sid mod 4 \<noteq> 0 then (conn_fatal WTQ_H3_ID_ERROR c, False)
      else if session_established c \<and> session_active c \<and> sid = session_id c then
        let c = upd_es i (\<lambda>es. es\<lparr>es_kind := ES_WT, es_wt_bidi := bidi, es_wt_local := False,
                                  es_wt_recv_open := True, es_wt_send_open := bidi\<rparr>) c
        in (emit (CB_wt_stream_opened i bidi (es_id (peer c ! i))) c, True)
      else
        let code = (if session_established c \<and> sid = session_id c then WTQ_WT_SESSION_GONE
                    else WTQ_WT_BUFFERED_STREAM_REJECTED);
            c = shutdown_raw (es_ds (peer c ! i)) bidi True code c
        in (upd_es i (\<lambda>es. es\<lparr>es_kind := ES_DRAIN\<rparr>) c, False))"

text \<open>
  Payload of an associated stream. A stream whose receive side was stopped absorbs
  its bytes.
\<close>

definition wt_deliver :: "nat \<Rightarrow> bytes \<Rightarrow> bool \<Rightarrow> wtq_conn \<Rightarrow> wtq_conn" where
  "wt_deliver i data fin c =
     (if es_wt_recv_drain (peer c ! i) then
        (if fin then wt_release_if_done i (upd_es i (\<lambda>es. es\<lparr>es_wt_recv_drain := False\<rparr>) c) else c)
      else
        let c = (if data \<noteq> [] \<or> fin then emit (CB_wt_stream_data i data fin) c else c)
        in if fin \<and> es_kind (peer c ! i) = ES_WT then
             wt_release_if_done i
               (upd_es i (\<lambda>es. es\<lparr>es_wt_recv_open := False, es_wt_recv_drain := False\<rparr>) c)
           else c)"

text \<open>
  The body of the classification loop returns in every branch, so it runs at most
  once. The result is the state, the rest of the delivery and whether the
  connection lives.
\<close>

definition bidi_classify_bytes :: "nat \<Rightarrow> bytes \<Rightarrow> wtq_conn \<Rightarrow> wtq_conn \<times> bytes \<times> bool" where
  "bidi_classify_bytes i data c =
     (if data = [] \<or> es_kind (peer c ! i) \<noteq> ES_BTYPE \<or> closed c then (c, data, \<not> closed c)
      else
        (case wtq_preamble_dec_feed KIND_BIDI (es_pre (peer c ! i)) data of
           (d, r, n) \<Rightarrow>
             let rest = drop n data;
                 c = upd_es i (\<lambda>es. es\<lparr>es_pre := d, es_btype_buf := take 8 (es_btype_buf es @ take n data)\<rparr>) c
             in (case r of
                   Inl _ \<Rightarrow> (c, rest, True)
                 | Inr (PREAMBLE_OK p) \<Rightarrow>
                     let c = upd_es i (\<lambda>es. es\<lparr>es_btype_buf := []\<rparr>) c;
                         c = fst (wt_associate i (pr_session_id p) True c)
                     in (c, rest, \<not> closed c)
                 | Inr (PREAMBLE_UNEXPECTED _) \<Rightarrow>
                     if persp c = PERSPECTIVE_CLIENT then (conn_fatal WTQ_H3_STREAM_CREATION_ERROR c, rest, False)
                     else
                       let replay = es_btype_buf (peer c ! i);
                           c = upd_es i (\<lambda>es. es\<lparr>es_kind := ES_REQUEST, es_frame_dec := wtq_h3_frame_dec_init,
                                                 es_btype_buf := []\<rparr>) c;
                           c = request_stream_bytes i replay c
                       in (c, rest, \<not> closed c))))"

end
