(* ===== verification/Engine_Input.thy ===== *)
theory Engine_Input
  imports Engine_Walk
begin

text \<open>
  The inputs of the engine (\<^verbatim>\<open>src/engine/conn.c\<close>): creation, start, and the events
  a backend reports. Pointer arguments are valid: the NULL tests of the C
  functions have no counterpart.
\<close>

section \<open>Creation\<close>

record wtq_conn_cfg =
  cfg_perspective :: wtq_perspective
  cfg_ecp :: bool
  cfg_webtransport_profile :: "wtq_h3_wt_profile option" \<comment> \<open>\<open>None\<close>: a value outside the enumeration\<close>
  cfg_webtransport_profiles :: u64

definition profile_set :: "wtq_conn_cfg \<Rightarrow> u64 option" where
  "profile_set cfg =
     (let profs = cfg_webtransport_profiles cfg
      in if profs = 0 then map_option wtq_h3_wt_profile_bit (cfg_webtransport_profile cfg)
         else if profs AND NOT WTQ_H3_WT_PROFILES_ALL \<noteq> 0 \<or> profs AND WTQ_H3_WT_PROFILES_ALL = 0 then None
         else Some profs)"

text \<open>
  The zeroed allocation with its configuration. The compiler's layout, with the size
  of \<^verbatim>\<open>wtq_conn_t\<close>, decides the allocation size; the allocation itself and its
  failure belong to the allocator. Without a plan the pool is the legacy one.
\<close>

definition wtq_conn_create_budget_v2 ::
  "layout \<Rightarrow> u64 \<Rightarrow> wtq_conn_cfg \<Rightarrow> wtq_driver \<Rightarrow> wtq_stream_plan option \<Rightarrow> wtq_result + wtq_conn" where
  "wtq_conn_create_budget_v2 L sizeof_conn cfg d plan =
     (case profile_set cfg of
        None \<Rightarrow> Inl WTQ_ERR_INVALID_ARG
      | Some profs \<Rightarrow>
          let capacity = (case plan of Some b \<Rightarrow> pl_engine_capacity b | None \<Rightarrow> WTQ_CONN_LEGACY_STREAMS);
              peers = (case plan of Some b \<Rightarrow> pl_uni b + pl_bidi b | None \<Rightarrow> 0)
          in if (case wtq_conn_stream_storage_v2 L capacity peers of
                   None \<Rightarrow> True
                 | Some tail \<Rightarrow> wtq_capacity_add sizeof_conn tail = None) then Inl WTQ_ERR_INVALID_ARG
             else Inr
               \<lparr>stream_generation = 0, admission_enabled = plan \<noteq> None, budgeted = plan \<noteq> None,
                peer_capacity = (case plan of Some _ \<Rightarrow> unat peers | None \<Rightarrow> 15),
                peer_uni = (case plan of Some b \<Rightarrow> unat (pl_uni b) | None \<Rightarrow> 8),
                local_capacity = (case plan of Some b \<Rightarrow> unat (pl_local b) | None \<Rightarrow> 0),
                admission_peers = replicate (case plan of Some _ \<Rightarrow> unat peers | None \<Rightarrow> 15) None,
                persp = cfg_perspective cfg, drv = d, ecp = cfg_ecp cfg, wt_profiles = profs,
                wt_profile =
                  (if profs = wtq_h3_wt_profile_bit PROFILE_D13_14_COMPAT then PROFILE_D13_14_COMPAT
                   else if profs = wtq_h3_wt_profile_bit PROFILE_D02_RFC9297_COMPAT
                   then PROFILE_D02_RFC9297_COMPAT
                   else PROFILE_CURRENT),
                profile_latched = False, started = False, locals_attempted = False,
                peer_control_seen = False, qpack_enc_seen = False, qpack_dec_seen = False,
                settings_received = False, wt_supported = False, max_push_id = None, goaway_id = None,
                peer_settings = settings_zero, closed = False, close_code = 0, transport_error = None,
                sess_state = SS_IDLE, connect_section = [], offered = [], require_protocol = False,
                connect_ds = None, client_response_ok = False, client_selected_offer = Some 0, paths = [],
                req_path = [], req_auth = [], parked_es = None, parked_buf = [], parked_fin = False,
                session_established = False, selected = [], session_id = 0, session_es = None,
                caps_dec = wtq_capsule_dec_init, close_capsule_rx = False, drain_rx = False,
                qsid_prefix = [], dgrams_dropped = 0, peer = replicate (unat capacity) estream_zero, trace = []\<rparr>)"

definition wtq_conn_create :: "layout \<Rightarrow> u64 \<Rightarrow> wtq_conn_cfg \<Rightarrow> wtq_driver \<Rightarrow> wtq_result + wtq_conn" where
  "wtq_conn_create L sizeof_conn cfg d = wtq_conn_create_budget_v2 L sizeof_conn cfg d None"

section \<open>Start\<close>

text \<open>One local stream with its first bytes.\<close>

definition open_local :: "bytes \<Rightarrow> wtq_conn \<Rightarrow> wtq_result \<times> wtq_conn" where
  "open_local data c =
     (let c = emit (D_open_uni None) c
      in if drv_result c \<noteq> WTQ_OK then (drv_result c, c)
         else let ds = fst (d_open (drv c) (trace c)); c = emit (D_send (Some ds) data False) c
              in (drv_result c, c))"

fun open_local_all :: "bytes list \<Rightarrow> wtq_conn \<Rightarrow> wtq_result \<times> wtq_conn" where
  "open_local_all [] c = (WTQ_OK, c)"
| "open_local_all (d # ds) c =
     (case open_local d c of (rc, c) \<Rightarrow> if rc \<noteq> WTQ_OK then (rc, c) else open_local_all ds c)"

definition conn_open_locals :: "wtq_conn \<Rightarrow> wtq_result \<times> wtq_conn" where
  "conn_open_locals c =
     (case wtq_h3_settings_encode_frame
             \<lparr>cfg_enable_connect_protocol = ecp c, cfg_wt_profiles = wt_profiles c\<rparr> (8 + 64) of
        Inl _ \<Rightarrow> (WTQ_ERR_BACKEND, c)
      | Inr settings \<Rightarrow> open_local_all [0x00 # settings, [0x02], [0x03]] (c\<lparr>locals_attempted := True\<rparr>))"

definition wtq_conn_start :: "wtq_conn \<Rightarrow> wtq_result \<times> wtq_conn" where
  "wtq_conn_start c =
     (if started c \<or> closed c then (WTQ_ERR_STATE, c)
      else
        let c = c\<lparr>started := True\<rparr>
        in if persp c = PERSPECTIVE_SERVER then (WTQ_OK, c) else conn_open_locals c)"

definition conn_open_locals_if_deferred :: "wtq_conn \<Rightarrow> wtq_result \<times> wtq_conn" where
  "conn_open_locals_if_deferred c =
     (if locals_attempted c \<or> \<not> started c \<or> closed c then (WTQ_OK, c)
      else
        (case conn_open_locals c of
           (rc, c) \<Rightarrow> if rc \<noteq> WTQ_OK then (WTQ_ERR_CLOSED, conn_fatal WTQ_H3_INTERNAL_ERROR c) else (WTQ_OK, c)))"

section \<open>Peer streams\<close>

text \<open>A new peer stream in the first free slot, or an active rejection when the pool is full.\<close>

definition peer_opened ::
  "es_kind \<Rightarrow> bool \<Rightarrow> dstream \<Rightarrow> u64 \<Rightarrow> wtq_conn \<Rightarrow> wtq_result \<times> nat option \<times> wtq_conn" where
  "peer_opened kind abort_send ds sid c =
     (if closed c then (WTQ_ERR_CLOSED, None, c)
      else
        (case conn_open_locals_if_deferred c of
           (rc, c) \<Rightarrow>
             if rc \<noteq> WTQ_OK then (rc, None, c)
             else
               (case free_slot c [0..<length (peer c)] of
                  Some i \<Rightarrow>
                    let gen = stream_generation c + 1;
                        c = c\<lparr>stream_generation := gen\<rparr>;
                        c = upd_es i (\<lambda>_. estream_zero\<lparr>es_generation := gen, es_kind := kind,
                                            es_ds := Some ds, es_id := sid\<rparr>) c
                    in (WTQ_OK, Some i, c)
                | None \<Rightarrow>
                    (WTQ_ERR_STREAM_LIMIT, None,
                     shutdown_raw (Some ds) abort_send True WTQ_WT_BUFFERED_STREAM_REJECTED c))))"

definition wtq_conn_on_peer_uni_opened :: "dstream \<Rightarrow> u64 \<Rightarrow> wtq_conn \<Rightarrow> wtq_result \<times> nat option \<times> wtq_conn" where
  "wtq_conn_on_peer_uni_opened ds sid c = peer_opened ES_TYPE False ds sid c"

definition wtq_conn_on_peer_bidi_opened :: "dstream \<Rightarrow> u64 \<Rightarrow> wtq_conn \<Rightarrow> wtq_result \<times> nat option \<times> wtq_conn" where
  "wtq_conn_on_peer_bidi_opened ds sid c = peer_opened ES_BTYPE True ds sid c"

section \<open>Stream bytes\<close>

text \<open>
  The accounted delivery loop on an associated stream: chunks of at most 65535
  bytes, stopped by a pause. The result carries the bytes not taken.
\<close>

function accounted_loop :: "nat \<Rightarrow> u64 \<Rightarrow> bytes \<Rightarrow> bool \<Rightarrow> wtq_conn \<Rightarrow> wtq_result \<times> nat \<times> wtq_conn" where
  "accounted_loop i generation data fin c =
     (let es = peer c ! i
      in if \<not> es_wt_recv_open es \<and> \<not> es_wt_recv_drain es then (WTQ_OK, 0, c)
         else if es_recv_paused es \<and> \<not> es_wt_recv_drain es then (WTQ_ERR_WOULD_BLOCK, length data, c)
         else
           let n = (if length data > 65535 then 65535 else length data);
               last = (n = length data);
               c = wt_deliver i (take n data) (fin \<and> last) c
           in if last \<or> closed c \<or> es_generation (peer c ! i) \<noteq> generation \<or> es_kind (peer c ! i) \<noteq> ES_WT
              then (WTQ_OK, 0, c)
              else accounted_loop i generation (drop n data) fin c)"
  by auto

termination
  by (relation "measure (\<lambda>(i, generation, data, fin, c). length data)") (auto split: if_splits)

declare accounted_loop.simps [simp del]

text \<open>A delivery on a request or CONNECT stream, with its FIN.\<close>

definition request_delivery :: "nat \<Rightarrow> bytes \<Rightarrow> bool \<Rightarrow> wtq_conn \<Rightarrow> wtq_result \<times> wtq_conn" where
  "request_delivery i data fin c =
     (if es_is_session_stream (peer c ! i) \<and> close_capsule_rx c \<and> data \<noteq> []
      then (WTQ_OK, session_stream_poisoned i c)
      else
        let c = (if data \<noteq> [] then request_stream_bytes i data c else c)
        in if closed c then (WTQ_ERR_PROTO, c)
           else if es_kind (peer c ! i) = ES_FREE then (WTQ_OK, c)
           else if fin then
             (if parked_es c = Some i then
                (if request_truncated (peer c ! i)
                 then (WTQ_ERR_PROTO, conn_fatal WTQ_H3_FRAME_ERROR c)
                 else (WTQ_OK, c\<lparr>parked_fin := True\<rparr>))
              else
                let c = request_stream_fin i c;
                    c = (if session_es c = Some i then c\<lparr>session_es := None\<rparr> else c);
                    c = estream_release i c
                in (if closed c then WTQ_ERR_PROTO else WTQ_OK, c))
           else (WTQ_OK, c))"

text \<open>A delivery on a classified stream that is not a request; \<open>accounted\<close> is \<^verbatim>\<open>consumed != NULL\<close>.\<close>

definition other_delivery ::
  "nat \<Rightarrow> u64 \<Rightarrow> bytes \<Rightarrow> bool \<Rightarrow> bool \<Rightarrow> wtq_conn \<Rightarrow> wtq_result \<times> nat \<times> wtq_conn" where
  "other_delivery i generation data fin accounted c =
     (if accounted \<and> (closed c \<or> es_generation (peer c ! i) \<noteq> generation \<or> es_kind (peer c ! i) = ES_FREE)
      then (WTQ_OK, 0, c)
      else if es_kind (peer c ! i) = ES_WT then
        (if accounted then accounted_loop i generation data fin c else (WTQ_OK, 0, wt_deliver i data fin c))
      else
        let c = (if \<not> closed c \<and> es_kind (peer c ! i) = ES_CONTROL \<and> data \<noteq> [] then control_bytes i data c else c);
            c = (if \<not> closed c \<and> es_kind (peer c ! i) = ES_QPACK \<and> data \<noteq> [] then qpack_bytes i data c else c)
        in if closed c then (WTQ_ERR_PROTO, 0, c)
           else if fin then
             (if es_kind (peer c ! i) = ES_CONTROL \<or> es_kind (peer c ! i) = ES_QPACK
              then (WTQ_ERR_PROTO, 0, conn_fatal WTQ_H3_CLOSED_CRITICAL_STREAM c)
              else (WTQ_OK, 0, estream_release i c))
           else (WTQ_OK, 0, c))"

text \<open>The classification of a unidirectional stream, with the rest of the delivery; \<open>False\<close> on a fatal type.\<close>

definition uni_classify :: "nat \<Rightarrow> bytes \<Rightarrow> wtq_conn \<Rightarrow> wtq_conn \<times> bytes \<times> bool" where
  "uni_classify i data c =
     (if es_kind (peer c ! i) = ES_TYPE \<and> data \<noteq> [] then
        (case wtq_preamble_dec_feed KIND_UNI (es_pre (peer c ! i)) data of
           (d, r, n) \<Rightarrow>
             let c = upd_es i (\<lambda>es. es\<lparr>es_pre := d\<rparr>) c; rest = drop n data
             in (case r of
                   Inr (PREAMBLE_OK p) \<Rightarrow> (fst (wt_associate i (pr_session_id p) False c), rest, True)
                 | Inr (PREAMBLE_UNEXPECTED t) \<Rightarrow> (case classify_uni i t c of (c, ok) \<Rightarrow> (c, rest, ok))
                 | Inl _ \<Rightarrow> (c, rest, True)))
      else (c, data, True))"

text \<open>
  The input itself. The middle component is the number of bytes left to the
  transport (\<^verbatim>\<open>len - *consumed\<close>).
\<close>

definition classified_bytes ::
  "nat \<Rightarrow> u64 \<Rightarrow> bytes \<Rightarrow> bool \<Rightarrow> bool \<Rightarrow> wtq_conn \<Rightarrow> wtq_result \<times> nat \<times> wtq_conn" where
  "classified_bytes i generation data fin accounted c =
     (if es_kind (peer c ! i) = ES_CONNECT \<or> es_kind (peer c ! i) = ES_REQUEST then
        (case request_delivery i data fin c of (rc, c) \<Rightarrow> (rc, 0, c))
      else
        (case uni_classify i data c of
           (c, rest, ok) \<Rightarrow>
             if \<not> ok then (WTQ_ERR_PROTO, 0, c) else other_delivery i generation rest fin accounted c))"

definition stream_bytes ::
  "nat \<Rightarrow> bytes \<Rightarrow> bool \<Rightarrow> bool \<Rightarrow> wtq_conn \<Rightarrow> wtq_result \<times> nat \<times> wtq_conn" where
  "stream_bytes i data fin accounted c =
     (if closed c then (WTQ_ERR_CLOSED, length data, c)
      else if es_kind (peer c ! i) = ES_FREE then (WTQ_ERR_INVALID_ARG, length data, c)
      else
        let generation = es_generation (peer c ! i)
        in if es_kind (peer c ! i) = ES_BTYPE then
             (case bidi_classify_bytes i data c of
                (c, rest, ok) \<Rightarrow>
                  if \<not> ok then (WTQ_ERR_PROTO, 0, c)
                  else if accounted \<and> (es_generation (peer c ! i) \<noteq> generation \<or> es_kind (peer c ! i) = ES_FREE)
                  then (WTQ_OK, 0, c)
                  else if es_kind (peer c ! i) = ES_BTYPE then
                    (if fin then
                       (WTQ_ERR_PROTO, 0,
                        conn_fatal (if pd_state (es_pre (peer c ! i)) = PRE_DEC_SESSION then WTQ_H3_FRAME_ERROR
                                    else if persp c = PERSPECTIVE_SERVER then WTQ_H3_REQUEST_INCOMPLETE
                                    else WTQ_H3_STREAM_CREATION_ERROR) c)
                     else (WTQ_OK, 0, c))
                  else classified_bytes i generation rest fin accounted c)
           else classified_bytes i generation data fin accounted c)"

definition wtq_conn_on_stream_bytes :: "nat \<Rightarrow> bytes \<Rightarrow> bool \<Rightarrow> wtq_conn \<Rightarrow> wtq_result \<times> wtq_conn" where
  "wtq_conn_on_stream_bytes i data fin c = (case stream_bytes i data fin False c of (rc, _, c) \<Rightarrow> (rc, c))"

definition wtq_conn_on_stream_bytes_accounted ::
  "nat \<Rightarrow> bytes \<Rightarrow> bool \<Rightarrow> wtq_conn \<Rightarrow> wtq_result \<times> nat \<times> wtq_conn" where
  "wtq_conn_on_stream_bytes_accounted i data fin c =
     (case stream_bytes i data fin True c of (rc, left, c) \<Rightarrow> (rc, length data - left, c))"

section \<open>Stream and connection ends\<close>

definition wtq_conn_on_stream_terminal :: "nat \<Rightarrow> wtq_conn \<Rightarrow> wtq_result \<times> wtq_conn" where
  "wtq_conn_on_stream_terminal i c =
     (let es = peer c ! i
      in if es_kind es = ES_FREE then (WTQ_ERR_INVALID_ARG, c)
         else if closed c then (WTQ_ERR_CLOSED, c)
         else if es_kind es = ES_DRAIN then (WTQ_OK, estream_release i c)
         else if es_kind es = ES_REQUEST \<and> es_request_dead es then
           (WTQ_OK, estream_release i (if parked_es c = Some i then parked_request_cancel c else c))
         else if es_kind es = ES_WT then
           let live = (es_wt_send_open es \<or> es_wt_fin_pending es \<or> es_wt_recv_open es);
               c = upd_es i (\<lambda>es. es\<lparr>es_wt_recv_drain := False, es_wt_send_open := False,
                                     es_wt_fin_pending := False, es_wt_recv_open := False\<rparr>) c;
               c = (if live then emit (CB_wt_stream_terminal i) c else c)
           in (WTQ_OK, estream_release i c)
         else (WTQ_OK, c))"

definition app_error_of :: "u64 \<Rightarrow> u32" where
  "app_error_of quic_err = (case wtq_h3_error_to_app quic_err True of Inr a \<Rightarrow> a | Inl _ \<Rightarrow> 0)"

definition wtq_conn_on_stream_reset :: "nat \<Rightarrow> u64 \<Rightarrow> wtq_conn \<Rightarrow> wtq_result \<times> wtq_conn" where
  "wtq_conn_on_stream_reset i quic_err c =
     (let es = peer c ! i
      in if closed c then (WTQ_ERR_CLOSED, c)
         else if es_kind es = ES_FREE then (WTQ_ERR_INVALID_ARG, c)
         else if es_kind es = ES_CONTROL \<or> es_kind es = ES_QPACK
         then (WTQ_OK, conn_fatal WTQ_H3_CLOSED_CRITICAL_STREAM c)
         else if es_is_session_stream es then
           let c = (if session_es c = Some i then c\<lparr>session_es := None\<rparr> else c);
               c = estream_release i c
           in (WTQ_OK, session_closed 0 [] False c)
         else if es_kind es = ES_WT then
           (if es_wt_recv_drain es
            then (WTQ_OK, wt_release_if_done i (upd_es i (\<lambda>es. es\<lparr>es_wt_recv_drain := False\<rparr>) c))
            else
              let c = upd_es i (\<lambda>es. es\<lparr>es_wt_recv_open := False\<rparr>) c;
                  c = emit (CB_wt_stream_reset i (app_error_of quic_err)) c
              in (WTQ_OK, wt_release_if_done i c))
         else
           let c = (if es_kind es = ES_CONNECT \<and> sess_state c = SS_SENT \<and> \<not> session_established c
                    then session_failed FAIL_BAD_RESPONSE c else c);
               c = (if parked_es c = Some i then parked_request_cancel c else c)
           in (WTQ_OK, estream_release i c))"

definition wtq_conn_on_conn_closed :: "u64 \<Rightarrow> bool \<Rightarrow> wtq_conn \<Rightarrow> wtq_conn" where
  "wtq_conn_on_conn_closed err remote c =
     (if closed c then c
      else
        let c = conn_latch_error (if remote then ERR_KIND_QUIC_APP else ERR_KIND_LOCAL) err 0 0 c;
            c = c\<lparr>closed := True, close_code := err\<rparr>;
            c = session_conn_lost c
        in emit (CB_conn_error err) c)"

text \<open>The record after the sized copy; a kind outside the enumeration is \<open>None\<close>.\<close>

definition wtq_conn_set_transport_error ::
  "wtq_error_kind option \<Rightarrow> u64 \<Rightarrow> u32 \<Rightarrow> 64 word \<Rightarrow> wtq_conn \<Rightarrow> wtq_conn" where
  "wtq_conn_set_transport_error kind quic_code native_domain native_code c =
     (if transport_error c \<noteq> None then c
      else
        (case kind of
           None \<Rightarrow> c
         | Some k \<Rightarrow> if k = ERR_KIND_NONE then c else conn_latch_error k quic_code native_domain native_code c))"

definition wtq_conn_seal_transport_error :: "wtq_conn \<Rightarrow> wtq_conn" where
  "wtq_conn_seal_transport_error c = conn_latch_error ERR_KIND_NONE 0 0 0 c"

definition wtq_conn_on_stop_sending :: "nat \<Rightarrow> u64 \<Rightarrow> wtq_conn \<Rightarrow> wtq_result \<times> wtq_conn" where
  "wtq_conn_on_stop_sending i quic_err c =
     (if closed c then (WTQ_ERR_CLOSED, c)
      else if parked_es c = Some i then
        let fin_seen = parked_fin c;
            c = parked_request_cancel (request_stream_refuse i c)
        in (WTQ_OK, if fin_seen then estream_release i c else c)
      else if es_kind (peer c ! i) = ES_WT then
        let commit_mode = es_wt_send_commit (peer c ! i);
            c = (if commit_mode
                 then upd_es i (\<lambda>es. es\<lparr>es_wt_send_open := False, es_wt_fin_pending := False\<rparr>) c else c);
            c = emit (CB_wt_stream_stop i (app_error_of quic_err)) c
        in (WTQ_OK, if commit_mode then wt_release_if_done i c else c)
      else (WTQ_OK, c))"

definition wtq_conn_on_stream_send_shutdown_v1 ::
  "nat \<Rightarrow> dstream \<Rightarrow> u64 \<Rightarrow> bool \<Rightarrow> wtq_conn \<Rightarrow> wtq_conn" where
  "wtq_conn_on_stream_send_shutdown_v1 i ds generation graceful c =
     (if closed c \<or> \<not> session_active c \<or> generation = 0 then c
      else
        let es = peer c ! i
        in if \<not> i < length (peer c) \<or> es_kind es \<noteq> ES_WT \<or> es_ds es \<noteq> Some ds \<or> es_generation es \<noteq> generation
              \<or> \<not> es_wt_send_commit es \<or> \<not> es_wt_local es \<or> es_wt_bidi es \<or> (graceful \<and> \<not> es_wt_fin_pending es)
           then c
           else
             let c = upd_es i (\<lambda>es. es\<lparr>es_wt_fin_pending := False, es_wt_send_open := False\<rparr>) c;
                 c = emit (if graceful then CB_wt_stream_send_committed i else CB_wt_stream_terminal i) c
             in wt_release_if_done i c)"

definition wtq_conn_on_send_complete :: "nat \<Rightarrow> bool \<Rightarrow> wtq_conn \<Rightarrow> wtq_conn" where
  "wtq_conn_on_send_complete cookie canceled c = emit (CB_wt_send_complete cookie canceled) c"

definition wtq_conn_on_stream_writable :: "nat \<Rightarrow> wtq_conn \<Rightarrow> wtq_conn" where
  "wtq_conn_on_stream_writable i c =
     (if closed c \<or> es_kind (peer c ! i) \<noteq> ES_WT then c else emit (CB_wt_stream_writable i) c)"

section \<open>Native identifiers and datagrams\<close>

definition native_id_valid :: "nat \<Rightarrow> u64 \<Rightarrow> wtq_conn \<Rightarrow> bool" where
  "native_id_valid i native_id c \<longleftrightarrow>
     (let es = peer c ! i;
          bidi = (es_kind es = ES_CONNECT \<or> (es_kind es = ES_WT \<and> es_wt_bidi es))
      in (es_kind es = ES_CONNECT \<or> (es_kind es = ES_WT \<and> es_wt_local es))
         \<and> es_native_id_pending es
         \<and> native_id < 2 ^ 62
         \<and> native_id AND 1 = (if persp c = PERSPECTIVE_CLIENT then 0 else 1)
         \<and> (native_id AND 2 \<noteq> 0) \<noteq> bidi
         \<and> \<not> (session_established c \<and> native_id = session_id c)
         \<and> list_all (\<lambda>j. j = i \<or> es_kind (peer c ! j) = ES_FREE
              \<or> es_id (peer c ! j) = WTQ_STREAM_ID_UNKNOWN \<or> es_id (peer c ! j) \<noteq> native_id)
             [0..<length (peer c)])"

definition wtq_conn_on_stream_native_id :: "nat \<Rightarrow> u64 \<Rightarrow> wtq_conn \<Rightarrow> wtq_conn" where
  "wtq_conn_on_stream_native_id i native_id c =
     (if closed c then c
      else if \<not> native_id_valid i native_id c then conn_fatal WTQ_H3_INTERNAL_ERROR c
      else
        let c = upd_es i (\<lambda>es. es\<lparr>es_id := native_id, es_native_id_pending := False\<rparr>) c
        in if es_kind (peer c ! i) = ES_CONNECT \<and> persp c = PERSPECTIVE_CLIENT
           then client_maybe_establish i c else c)"

definition wtq_conn_on_datagram :: "bytes \<Rightarrow> wtq_conn \<Rightarrow> wtq_result \<times> wtq_conn" where
  "wtq_conn_on_datagram data c =
     (if closed c then (WTQ_ERR_CLOSED, c)
      else
        (case conn_open_locals_if_deferred c of
           (rc, c) \<Rightarrow>
             if rc \<noteq> WTQ_OK then (WTQ_ERR_CLOSED, c)
             else if session_active c \<and> length data \<ge> length (qsid_prefix c)
                     \<and> take (length (qsid_prefix c)) data = qsid_prefix c
             then (WTQ_OK, emit (CB_wt_datagram (drop (length (qsid_prefix c)) data)) c)
             else
               (case wtq_varint_decode data of
                  Inl _ \<Rightarrow> (WTQ_ERR_PROTO, conn_fatal WTQ_H3_DATAGRAM_ERROR c)
                | Inr (qsid, n) \<Rightarrow>
                    if qsid > 2 ^ 60 - 1 then (WTQ_ERR_PROTO, conn_fatal WTQ_H3_DATAGRAM_ERROR c)
                    else if session_active c \<and> qsid = session_id c div 4
                    then (WTQ_OK, emit (CB_wt_datagram (drop n data)) c)
                    else (WTQ_OK, c\<lparr>dgrams_dropped := dgrams_dropped c + 1\<rparr>))))"

end
