(* ===== verification/Engine_Api.thy ===== *)
theory Engine_Api
  imports Engine_Input
begin

text \<open>
  What the layers above and the stream-admission providers call
  (\<^verbatim>\<open>src/engine/conn.c\<close>): the client's connect, the server's path table, the
  session operations, the operations on WebTransport streams, datagrams, the
  queries, and the admission of peer streams under a stream budget.
\<close>

definition WTQ_CONN_MAX_PATHS :: nat where "WTQ_CONN_MAX_PATHS = 4"
definition WTQ_CONN_ORIGIN_STORAGE_TOTAL :: nat where "WTQ_CONN_ORIGIN_STORAGE_TOTAL = 1024"
definition WTQ_STREAM_MAX_SPANS :: nat where "WTQ_STREAM_MAX_SPANS = 4096"
definition WTQ_DGRAM_MAX_SPANS :: nat where "WTQ_DGRAM_MAX_SPANS = 8"

definition WTQ_DCAP_SHUT_BIDI_SEND :: u32 where "WTQ_DCAP_SHUT_BIDI_SEND = 1"
definition WTQ_DCAP_SHUT_BIDI_RECV :: u32 where "WTQ_DCAP_SHUT_BIDI_RECV = 2"
definition WTQ_DCAP_SHUT_SPLIT_CODES :: u32 where "WTQ_DCAP_SHUT_SPLIT_CODES = 4"
definition WTQ_DCAP_RECV_FLOW_CONTROLLED :: u32 where "WTQ_DCAP_RECV_FLOW_CONTROLLED = 8"
definition WTQ_DCAP_SEND_COMMIT_ACK_FIN :: u32 where "WTQ_DCAP_SEND_COMMIT_ACK_FIN = 16"

section \<open>The client's connect\<close>

text \<open>A NULL string is \<open>None\<close>; a profile outside the enumeration is \<open>None\<close>.\<close>

record wtq_client_connect_cfg =
  cc_authority :: "bytes option"
  cc_path :: "bytes option"
  cc_origin :: "bytes option"
  cc_protocols :: "bytes option list"
  cc_require_protocol :: bool
  cc_webtransport_profile :: "wtq_h3_wt_profile option"

text \<open>The loop over the offers; \<open>buf_off\<close> is the storage they take.\<close>

fun offers_check :: "bytes list \<Rightarrow> nat \<Rightarrow> wtq_result" where
  "offers_check [] buf_off = WTQ_OK"
| "offers_check (p # ps) buf_off =
     (if protocol_check p \<noteq> WTQ_OK then protocol_check p
      else if buf_off + length p > 512 then WTQ_ERR_TOO_LARGE
      else offers_check ps (buf_off + length p))"

definition client_origin_check :: "conn_profile_policy \<Rightarrow> bytes option \<Rightarrow> wtq_result" where
  "client_origin_check pol origin =
     (if \<not> pol_require_origin pol then WTQ_OK
      else
        (case origin of
           None \<Rightarrow> WTQ_ERR_INVALID_ARG
         | Some s \<Rightarrow>
             if s = [] then WTQ_ERR_INVALID_ARG
             else if length s > WTQ_CONN_ORIGIN_MAX_BYTES then WTQ_ERR_TOO_LARGE
             else if conn_origin_parse s \<noteq> CONN_ORIGIN_TUPLE \<and> conn_origin_parse s \<noteq> CONN_ORIGIN_NULL
             then WTQ_ERR_INVALID_ARG
             else WTQ_OK))"

text \<open>The CONNECT section, read back through the engine's own decoder.\<close>

definition client_section ::
  "conn_profile_policy \<Rightarrow> bytes \<Rightarrow> bytes \<Rightarrow> bytes option \<Rightarrow> bytes list \<Rightarrow> wtq_result + bytes" where
  "client_section pol authority path origin offers =
     (let token = (if pol_expect_legacy_token pol then WTQ_CONNECT_PROTOCOL_TOKEN_LEGACY
                   else WTQ_CONNECT_PROTOCOL_TOKEN)
      in (case wtq_connect_encode_request_d02 authority path origin offers (Some token)
                 (pol_require_d02_request_marker pol) 1024 of
            Inl CONNECT_BUFFER \<Rightarrow> Inl WTQ_ERR_TOO_LARGE
          | Inl _ \<Rightarrow> Inl WTQ_ERR_INVALID_ARG
          | Inr section \<Rightarrow>
              if length section > WTQ_CONN_SETTINGS_CAP then Inl WTQ_ERR_TOO_LARGE
              else
                (case wtq_connect_decode_request section
                        (if pol_expect_legacy_token pol
                         then \<lparr>lenient_sf_tokens = False, accept_legacy_protocol = True\<rparr>
                         else CONN_STRICT_OPTS) WTQ_CONN_MAX_OFFERED WTQ_CONN_SETTINGS_CAP of
                   Inl CONNECT_BUFFER \<Rightarrow> Inl WTQ_ERR_TOO_LARGE
                 | Inl _ \<Rightarrow> Inl WTQ_ERR_INVALID_ARG
                 | Inr (rq, got) \<Rightarrow> if got \<noteq> offers then Inl WTQ_ERR_TOO_LARGE else Inr section)))"

definition client_commit ::
  "wtq_h3_wt_profile \<Rightarrow> bytes list \<Rightarrow> bool \<Rightarrow> bytes \<Rightarrow> wtq_conn \<Rightarrow> wtq_conn" where
  "client_commit profile offers require section c =
     (let c = c\<lparr>wt_profile := profile, wt_profiles := wtq_h3_wt_profile_bit profile, offered := offers,
                require_protocol := require, connect_section := section, client_response_ok := False,
                client_selected_offer := None, sess_state := SS_PENDING\<rparr>
      in if settings_received c then
           (if \<not> wt_supported c then session_failed FAIL_NO_WT_SUPPORT c else client_send_connect c)
         else c)"

definition wtq_conn_client_connect :: "wtq_client_connect_cfg \<Rightarrow> wtq_conn \<Rightarrow> wtq_result \<times> wtq_conn" where
  "wtq_conn_client_connect cfg c =
     (case (cc_authority cfg, cc_path cfg) of
        (Some authority, Some path) \<Rightarrow>
          if length (cc_protocols cfg) > WTQ_CONN_MAX_OFFERED \<or> None \<in> set (cc_protocols cfg)
          then (WTQ_ERR_INVALID_ARG, c)
          else if persp c \<noteq> PERSPECTIVE_CLIENT then (WTQ_ERR_STATE, c)
          else if closed c \<or> sess_state c \<noteq> SS_IDLE \<or> goaway_id c \<noteq> None then (WTQ_ERR_STATE, c)
          else
            (case cc_webtransport_profile cfg of
               None \<Rightarrow> (WTQ_ERR_INVALID_ARG, c)
             | Some profile \<Rightarrow>
                 let offers = map the (cc_protocols cfg); pol = conn_connect_policy profile
                 in if started c \<and> profile \<noteq> wt_profile c then (WTQ_ERR_STATE, c)
                    else if offers_check offers 0 \<noteq> WTQ_OK then (offers_check offers 0, c)
                    else if client_origin_check pol (cc_origin cfg) \<noteq> WTQ_OK
                    then (client_origin_check pol (cc_origin cfg), c)
                    else
                      (case client_section pol authority path (cc_origin cfg) offers of
                         Inl rc \<Rightarrow> (rc, c)
                       | Inr section \<Rightarrow>
                           (WTQ_OK, client_commit profile offers (cc_require_protocol cfg) section c)))
      | _ \<Rightarrow> (WTQ_ERR_INVALID_ARG, c))"

section \<open>The server's paths\<close>

record wtq_server_path_cfg =
  pc_path :: "bytes option"
  pc_protocols :: "bytes option list option"
  pc_protocol_count :: nat
  pc_require_protocol :: bool
  pc_origin_policy :: u32
  pc_allowed_origins :: "bytes option list option"
  pc_allowed_origin_count :: nat

definition path_protocols :: "wtq_server_path_cfg \<Rightarrow> bytes option list" where
  "path_protocols p = (case pc_protocols p of None \<Rightarrow> [] | Some ps \<Rightarrow> take (pc_protocol_count p) ps)"

definition path_origins :: "wtq_server_path_cfg \<Rightarrow> bytes list" where
  "path_origins p =
     (case pc_allowed_origins p of None \<Rightarrow> [] | Some os \<Rightarrow> map the (take (pc_allowed_origin_count p) os))"

fun origin_storage_loop :: "bytes list \<Rightarrow> nat \<Rightarrow> nat option" where
  "origin_storage_loop [] origin_total = Some origin_total"
| "origin_storage_loop (s # ss) origin_total =
     (if length s = WTQ_CONN_ORIGIN_STORAGE_TOTAL
         \<or> origin_total > WTQ_CONN_ORIGIN_STORAGE_TOTAL - (length s + 1) then None
      else origin_storage_loop ss (origin_total + (length s + 1)))"

fun paths_check :: "wtq_server_path_cfg list \<Rightarrow> u64 \<Rightarrow> nat \<Rightarrow> wtq_result" where
  "paths_check [] profs origin_total = WTQ_OK"
| "paths_check (p # ps) profs origin_total =
     (case pc_path p of
        None \<Rightarrow> WTQ_ERR_INVALID_ARG
      | Some path \<Rightarrow>
          if pc_protocol_count p > 0 \<and> pc_protocols p = None then WTQ_ERR_INVALID_ARG
          else if path = [] \<or> length path > 128 \<or> pc_protocol_count p > WTQ_CONN_MAX_OFFERED
          then WTQ_ERR_TOO_LARGE
          else if wtq_conn_validate_protocols (path_protocols p) \<noteq> WTQ_OK
          then wtq_conn_validate_protocols (path_protocols p)
          else
            let orc = wtq_conn_validate_origin_policy (pc_origin_policy p) (pc_allowed_origins p)
                        (pc_allowed_origin_count p)
            in if orc \<noteq> WTQ_OK then orc
               else if profs AND WTQ_H3_WT_PROFILES_D02_RFC9297_COMPAT \<noteq> 0
                       \<and> pc_origin_policy p = WTQ_ORIGIN_POLICY_UNSET
               then WTQ_ERR_INVALID_ARG
               else
                 (case origin_storage_loop (path_origins p) origin_total of
                    None \<Rightarrow> WTQ_ERR_TOO_LARGE
                  | Some n \<Rightarrow> paths_check ps profs n))"

definition path_entry :: "wtq_server_path_cfg \<Rightarrow> server_path" where
  "path_entry p =
     \<lparr>sp_path = the (pc_path p), sp_protos = map the (path_protocols p), sp_require = pc_require_protocol p,
      sp_origin_policy = pc_origin_policy p, sp_origins = path_origins p\<rparr>"

definition wtq_conn_server_set_paths :: "wtq_server_path_cfg list \<Rightarrow> wtq_conn \<Rightarrow> wtq_result \<times> wtq_conn" where
  "wtq_conn_server_set_paths ps c =
     (if length ps > WTQ_CONN_MAX_PATHS then (WTQ_ERR_INVALID_ARG, c)
      else if persp c \<noteq> PERSPECTIVE_SERVER then (WTQ_ERR_STATE, c)
      else
        let rc = paths_check ps (wt_profiles c) 0
        in if rc \<noteq> WTQ_OK then (rc, c) else (WTQ_OK, c\<lparr>paths := map path_entry ps\<rparr>))"

section \<open>The session\<close>

text \<open>Called with a live session stream: \<open>session_es\<close> is not \<open>None\<close>.\<close>

definition session_send_capsule :: "bytes \<Rightarrow> bool \<Rightarrow> wtq_conn \<Rightarrow> wtq_result \<times> wtq_conn" where
  "session_send_capsule cap fin c =
     (let unit = 16 + 16 + WTQ_CAPSULE_MAX_REASON
      in (case wtq_h3_frame_encode_header WTQ_H3_FRAME_DATA (of_nat (length cap)) unit of
            Inl _ \<Rightarrow> (WTQ_ERR_BACKEND, c)
          | Inr h \<Rightarrow>
              if length cap > unit - length h then (WTQ_ERR_BACKEND, c)
              else
                let c = emit (D_send (es_ds (peer c ! the (session_es c))) (h @ cap) fin) c
                in if drv_result c \<noteq> WTQ_OK then (WTQ_ERR_BACKEND, conn_fatal WTQ_H3_INTERNAL_ERROR c)
                   else (WTQ_OK, c)))"

definition wtq_conn_session_close :: "u32 \<Rightarrow> bytes \<Rightarrow> wtq_conn \<Rightarrow> wtq_result \<times> wtq_conn" where
  "wtq_conn_session_close code reason c =
     (if length reason > WTQ_CAPSULE_MAX_REASON then (WTQ_ERR_TOO_LARGE, c)
      else if closed c then (WTQ_ERR_CLOSED, c)
      else if \<not> session_active c \<or> session_es c = None then (WTQ_ERR_STATE, c)
      else
        (case wtq_capsule_encode_close code reason (16 + WTQ_CAPSULE_MAX_REASON) of
           Inl _ \<Rightarrow> (WTQ_ERR_INVALID_ARG, c)
         | Inr cap \<Rightarrow>
             (case session_send_capsule cap True c of
                (rc, c) \<Rightarrow>
                  if rc \<noteq> WTQ_OK then (rc, c) else (WTQ_OK, session_closed code reason True c))))"

definition wtq_conn_session_drain :: "wtq_conn \<Rightarrow> wtq_result \<times> wtq_conn" where
  "wtq_conn_session_drain c =
     (if closed c then (WTQ_ERR_CLOSED, c)
      else if \<not> session_active c \<or> session_es c = None then (WTQ_ERR_STATE, c)
      else
        (case wtq_capsule_encode_drain 8 of
           Inl _ \<Rightarrow> (WTQ_ERR_BACKEND, c)
         | Inr cap \<Rightarrow> session_send_capsule cap False c))"

section \<open>WebTransport streams\<close>

text \<open>The slots for a local stream: a budgeted, a qualified or the whole pool.\<close>

definition local_range :: "wtq_conn \<Rightarrow> nat list" where
  "local_range c =
     (let first = (if budgeted c then peer_capacity c
                   else if admission_enabled c then (if persp c = PERSPECTIVE_CLIENT then 4 else 10)
                   else 0)
      in [first..<(if budgeted c then first + local_capacity c else length (peer c))])"

definition admission_waiting :: "wtq_conn \<Rightarrow> bool" where
  "admission_waiting c \<longleftrightarrow>
     list_ex (\<lambda>p. case p of Some a \<Rightarrow> pa_state a = 1 | None \<Rightarrow> False) (take 15 (admission_peers c))"

definition wt_open :: "bool \<Rightarrow> wtq_conn \<Rightarrow> wtq_result \<times> nat option \<times> wtq_conn" where
  "wt_open bidi c =
     (if closed c then (WTQ_ERR_CLOSED, None, c)
      else if \<not> session_active c then (WTQ_ERR_STATE, None, c)
      else if admission_enabled c \<and> \<not> budgeted c \<and> admission_waiting c then (WTQ_ERR_WOULD_BLOCK, None, c)
      else
        (case find (\<lambda>i. es_kind (peer c ! i) = ES_FREE \<and> \<not> es_resident (peer c ! i)) (local_range c) of
           None \<Rightarrow> (if admission_enabled c then WTQ_ERR_WOULD_BLOCK else WTQ_ERR_STREAM_LIMIT, None, c)
         | Some i \<Rightarrow>
             let gen = stream_generation c + 1;
                 c = c\<lparr>stream_generation := gen\<rparr>;
                 c = upd_es i (\<lambda>_. estream_zero\<lparr>es_generation := gen, es_id := WTQ_STREAM_ID_UNKNOWN,
                                     es_resident := budgeted c,
                                     es_kind := (if admission_enabled c then ES_RESERVED else ES_FREE)\<rparr>) c;
                 c = emit ((if bidi then D_open_bidi else D_open_uni) (Some i)) c;
                 rc = drv_result c
             in if rc \<noteq> WTQ_OK
                then (rc, None, upd_es i (\<lambda>es. es\<lparr>es_kind := ES_FREE, es_resident := False\<rparr>) c)
                else
                  let (ds, sid) = d_open (drv c) (trace c);
                      c = upd_es i (\<lambda>es. es\<lparr>es_ds := Some ds\<rparr>) c
                  in if admission_enabled c \<and> (closed c \<or> \<not> session_active c)
                     then (WTQ_ERR_CLOSED, None, estream_release i c)
                     else
                       let c = upd_es i (\<lambda>es. es\<lparr>es_id := sid,
                                 es_native_id_pending := (sid = WTQ_STREAM_ID_UNKNOWN), es_kind := ES_WT,
                                 es_wt_bidi := bidi, es_wt_local := True, es_wt_send_open := True,
                                 es_wt_recv_open := bidi\<rparr>) c;
                           failed = (\<lambda>c. (WTQ_ERR_BACKEND, None,
                                          conn_fatal WTQ_H3_INTERNAL_ERROR (estream_release i c)))
                       in (case wtq_preamble_encode (if bidi then KIND_BIDI else KIND_UNI) (session_id c) 16 of
                             Inl _ \<Rightarrow> failed c
                           | Inr pre \<Rightarrow>
                               let c = emit (D_send (Some ds) pre False) c
                               in if drv_result c \<noteq> WTQ_OK then failed c else (WTQ_OK, Some i, c))))"

definition wtq_conn_wt_open_uni :: "wtq_conn \<Rightarrow> wtq_result \<times> nat option \<times> wtq_conn" where
  "wtq_conn_wt_open_uni c = wt_open False c"

definition wtq_conn_wt_open_bidi :: "wtq_conn \<Rightarrow> wtq_result \<times> nat option \<times> wtq_conn" where
  "wtq_conn_wt_open_bidi c = wt_open True c"

definition wtq_conn_wt_enable_send_commit :: "nat \<Rightarrow> wtq_conn \<Rightarrow> wtq_result \<times> wtq_conn" where
  "wtq_conn_wt_enable_send_commit i c =
     (let es = peer c ! i
      in if closed c \<or> \<not> session_active c \<or> es_kind es \<noteq> ES_WT \<or> \<not> es_wt_local es \<or> es_wt_bidi es
            \<or> \<not> es_wt_send_open es \<or> es_wt_application_sent es
         then (WTQ_ERR_STATE, c)
         else if d_caps (drv c) AND WTQ_DCAP_SEND_COMMIT_ACK_FIN = 0 then (WTQ_ERR_UNSUPPORTED, c)
         else (WTQ_OK, upd_es i (\<lambda>es. es\<lparr>es_wt_send_commit := True\<rparr>) c))"

text \<open>A span with data, or a NULL pointer with a length.\<close>

datatype wtq_span = SPAN bytes | SPAN_NULL nat

fun span_len :: "wtq_span \<Rightarrow> nat" where
  "span_len (SPAN b) = length b"
| "span_len (SPAN_NULL n) = n"

fun span_bytes :: "wtq_span \<Rightarrow> bytes" where
  "span_bytes (SPAN b) = b"
| "span_bytes (SPAN_NULL n) = []"

text \<open>The total length of the spans, summed without wrapping a 64-bit \<^verbatim>\<open>size_t\<close>.\<close>

fun span_total :: "wtq_span list \<Rightarrow> nat \<Rightarrow> wtq_result + nat" where
  "span_total [] acc = Inr acc"
| "span_total (s # ss) acc =
     (if (case s of SPAN_NULL n \<Rightarrow> n > 0 | SPAN _ \<Rightarrow> False) then Inl WTQ_ERR_INVALID_ARG
      else if span_len s > 2 ^ 64 - 1 - acc then Inl WTQ_ERR_TOO_LARGE
      else span_total ss (acc + span_len s))"

definition wtq_conn_wt_send :: "nat \<Rightarrow> wtq_span list \<Rightarrow> bool \<Rightarrow> nat \<Rightarrow> wtq_conn \<Rightarrow> wtq_result \<times> wtq_conn" where
  "wtq_conn_wt_send i spans fin cookie c =
     (let es = peer c ! i
      in if closed c \<or> sess_state c = SS_CLOSED then (WTQ_ERR_CLOSED, c)
         else if es_kind es \<noteq> ES_WT \<or> \<not> es_wt_send_open es then (WTQ_ERR_STATE, c)
         else if \<not> d_has_send_gather (drv c) then (WTQ_ERR_STATE, c)
         else if length spans > WTQ_STREAM_MAX_SPANS then (WTQ_ERR_INVALID_ARG, c)
         else
           (case span_total spans 0 of
              Inl rc \<Rightarrow> (rc, c)
            | Inr _ \<Rightarrow>
                let c = emit (D_send_gather (es_ds es) (map span_bytes spans) fin cookie) c;
                    rc = drv_result c
                in if rc = WTQ_OK then
                     let c = upd_es i (\<lambda>es. es\<lparr>es_wt_application_sent := True\<rparr>) c
                     in if fin then
                          (rc, wt_release_if_done i
                                 (upd_es i (\<lambda>es. es\<lparr>es_wt_send_open := False,
                                                    es_wt_fin_pending := es_wt_send_commit es\<rparr>) c))
                        else (rc, c)
                   else (rc, c)))"

text \<open>
  The request that reaches the driver: the effective halves and codes, or the
  error, decided before any effect. The two modes are the whole enumeration.
\<close>

definition shutdown_effective :: "u32 \<Rightarrow> wtq_estream \<Rightarrow> wtq_shutdown \<Rightarrow> wtq_result + wtq_shutdown" where
  "shutdown_effective caps es req =
     (let send_live = (es_wt_send_open es \<or> es_wt_fin_pending es);
          only_half = req\<lparr>sh_mode := SHUTDOWN_WHOLE_STREAM,
                          sh_send_err := (if sh_abort_send req then sh_send_err req else sh_recv_err req),
                          sh_recv_err := (if sh_abort_send req then sh_send_err req else sh_recv_err req)\<rparr>
      in if sh_mode req = SHUTDOWN_WHOLE_STREAM then
           (if sh_send_err req \<noteq> sh_recv_err req then Inl WTQ_ERR_INVALID_ARG
            else if \<not> send_live \<and> \<not> es_wt_recv_open es then Inl WTQ_ERR_STATE
            else Inr (req\<lparr>sh_abort_send := send_live, sh_abort_recv := es_wt_recv_open es\<rparr>))
         else if \<not> sh_abort_send req \<and> \<not> sh_abort_recv req then Inl WTQ_ERR_INVALID_ARG
         else if sh_abort_send req \<and> \<not> send_live then Inl WTQ_ERR_STATE
         else if sh_abort_recv req \<and> \<not> es_wt_recv_open es then Inl WTQ_ERR_STATE
         else if es_wt_bidi es then
           (if sh_abort_send req \<and> sh_abort_recv req then
              (if sh_send_err req = sh_recv_err req then Inr (req\<lparr>sh_mode := SHUTDOWN_WHOLE_STREAM\<rparr>)
               else if caps AND WTQ_DCAP_SHUT_SPLIT_CODES = 0 then Inl WTQ_ERR_UNSUPPORTED
               else Inr req)
            else if es_wt_send_open es \<and> es_wt_recv_open es then
              (if caps AND (if sh_abort_send req then WTQ_DCAP_SHUT_BIDI_SEND else WTQ_DCAP_SHUT_BIDI_RECV) = 0
               then Inl WTQ_ERR_UNSUPPORTED else Inr req)
            else Inr only_half)
         else Inr only_half)"

text \<open>The driver call does not reenter the engine, so the slot it names is still this stream.\<close>

definition wt_shutdown :: "nat \<Rightarrow> wtq_shutdown \<Rightarrow> bool \<Rightarrow> wtq_conn \<Rightarrow> wtq_result \<times> wtq_conn" where
  "wt_shutdown i req app_intent c =
     (if closed c then (WTQ_ERR_CLOSED, c)
      else if es_kind (peer c ! i) \<noteq> ES_WT then (WTQ_ERR_STATE, c)
      else
        (case shutdown_effective (d_caps (drv c)) (peer c ! i) req of
           Inl rc \<Rightarrow> (rc, c)
         | Inr eff \<Rightarrow>
             let eff = eff\<lparr>sh_app_send_cancel := app_intent \<and> sh_abort_send eff\<rparr>;
                 c = emit (D_shutdown_stream (es_ds (peer c ! i)) eff) c;
                 rc = drv_result c
             in if rc = WTQ_ERR_CLOSED then (rc, c)
                else if rc \<noteq> WTQ_OK then (WTQ_ERR_BACKEND, conn_fatal WTQ_H3_INTERNAL_ERROR c)
                else
                  let c = (if sh_abort_send eff
                           then upd_es i (\<lambda>es. es\<lparr>es_wt_send_open := False, es_wt_fin_pending := False\<rparr>) c
                           else c);
                      c = (if sh_abort_recv eff
                           then upd_es i (\<lambda>es. es\<lparr>es_wt_recv_open := False, es_wt_recv_drain := True\<rparr>) c
                           else c)
                  in (WTQ_OK, wt_release_if_done i c)))"

definition wtq_conn_wt_shutdown :: "nat \<Rightarrow> wtq_shutdown \<Rightarrow> wtq_conn \<Rightarrow> wtq_result \<times> wtq_conn" where
  "wtq_conn_wt_shutdown i req c = wt_shutdown i req True c"

definition conn_app_error_to_h3 :: "u32 \<Rightarrow> wtq_conn \<Rightarrow> u64 option" where
  "conn_app_error_to_h3 app_code c =
     (if profile_latched c \<and> app_code > pol_max_outbound_app_error (conn_connect_policy (wt_profile c))
      then None else Some (wtq_app_error_to_h3 app_code))"

text \<open>A zero-initialised request.\<close>

definition shutdown_req :: "wtq_shutdown_mode \<Rightarrow> bool \<Rightarrow> bool \<Rightarrow> u64 \<Rightarrow> u64 \<Rightarrow> wtq_shutdown" where
  "shutdown_req mode abort_send abort_recv send_err recv_err =
     \<lparr>sh_mode = mode, sh_abort_send = abort_send, sh_abort_recv = abort_recv, sh_app_send_cancel = False,
      sh_send_err = send_err, sh_recv_err = recv_err\<rparr>"

definition wtq_conn_wt_reset :: "nat \<Rightarrow> u32 \<Rightarrow> wtq_conn \<Rightarrow> wtq_result \<times> wtq_conn" where
  "wtq_conn_wt_reset i app_code c =
     (case conn_app_error_to_h3 app_code c of
        None \<Rightarrow> (WTQ_ERR_INVALID_ARG, c)
      | Some wire \<Rightarrow> wtq_conn_wt_shutdown i (shutdown_req SHUTDOWN_EXACT_HALVES True False wire 0) c)"

definition wtq_conn_wt_stop :: "nat \<Rightarrow> u32 \<Rightarrow> wtq_conn \<Rightarrow> wtq_result \<times> wtq_conn" where
  "wtq_conn_wt_stop i app_code c =
     (case conn_app_error_to_h3 app_code c of
        None \<Rightarrow> (WTQ_ERR_INVALID_ARG, c)
      | Some wire \<Rightarrow> wtq_conn_wt_shutdown i (shutdown_req SHUTDOWN_EXACT_HALVES False True 0 wire) c)"

definition wtq_conn_wt_abort :: "nat \<Rightarrow> u32 \<Rightarrow> wtq_conn \<Rightarrow> wtq_result \<times> wtq_conn" where
  "wtq_conn_wt_abort i app_code c =
     (case conn_app_error_to_h3 app_code c of
        None \<Rightarrow> (WTQ_ERR_INVALID_ARG, c)
      | Some code \<Rightarrow> wtq_conn_wt_shutdown i (shutdown_req SHUTDOWN_WHOLE_STREAM False False code code) c)"

definition wtq_conn_wt_reject :: "nat \<Rightarrow> wtq_conn \<Rightarrow> wtq_conn" where
  "wtq_conn_wt_reject i c =
     (if closed c \<or> es_kind (peer c ! i) \<noteq> ES_WT then c
      else
        snd (wt_shutdown i (shutdown_req SHUTDOWN_WHOLE_STREAM False False WTQ_WT_BUFFERED_STREAM_REJECTED
               WTQ_WT_BUFFERED_STREAM_REJECTED) False (upd_es i (\<lambda>es. es\<lparr>es_user := None\<rparr>) c)))"

definition wtq_conn_wt_recv_enable :: "nat \<Rightarrow> bool \<Rightarrow> wtq_conn \<Rightarrow> wtq_result \<times> wtq_conn" where
  "wtq_conn_wt_recv_enable i enabled c =
     (let es = peer c ! i
      in if closed c then (WTQ_ERR_CLOSED, c)
         else if es_kind es \<noteq> ES_WT \<or> \<not> es_wt_recv_open es then (WTQ_ERR_STATE, c)
         else if \<not> d_has_recv_enable (drv c) then (WTQ_ERR_UNSUPPORTED, c)
         else
           let c = upd_es i (\<lambda>es. es\<lparr>es_recv_paused := \<not> enabled\<rparr>) c;
               c = emit (D_recv_enable (es_ds es) enabled) c;
               rc = drv_result c
           in (rc, if rc \<noteq> WTQ_OK then upd_es i (\<lambda>e. e\<lparr>es_recv_paused := es_recv_paused es\<rparr>) c else c))"

definition wtq_conn_recv_pause_mode :: "wtq_conn \<Rightarrow> nat" where
  "wtq_conn_recv_pause_mode c =
     (if \<not> d_has_recv_enable (drv c) then 0
      else if d_caps (drv c) AND WTQ_DCAP_RECV_FLOW_CONTROLLED \<noteq> 0 then 2
      else 1)"

definition wtq_estream_set_user :: "nat \<Rightarrow> nat option \<Rightarrow> wtq_conn \<Rightarrow> wtq_conn" where
  "wtq_estream_set_user i user c = upd_es i (\<lambda>es. es\<lparr>es_user := user\<rparr>) c"

section \<open>Datagrams\<close>

text \<open>The driver's datagram pair is one flag: a backend sets both operations or neither.\<close>

definition wtq_conn_dgram_send :: "wtq_span list \<Rightarrow> wtq_conn \<Rightarrow> wtq_result \<times> wtq_conn" where
  "wtq_conn_dgram_send spans c =
     (if length spans > WTQ_DGRAM_MAX_SPANS then (WTQ_ERR_INVALID_ARG, c)
      else if closed c \<or> sess_state c = SS_CLOSED then (WTQ_ERR_CLOSED, c)
      else if \<not> session_active c then (WTQ_ERR_STATE, c)
      else if \<not> d_has_dgram (drv c) then (WTQ_ERR_DGRAM_DISABLED, c)
      else
        let tmax = d_dgram_max_size (drv c) (trace c)
        in if tmax < length (qsid_prefix c) then (WTQ_ERR_DGRAM_DISABLED, c)
           else
             (case span_total spans 0 of
                Inl rc \<Rightarrow> (rc, c)
              | Inr n \<Rightarrow>
                  if n > tmax - length (qsid_prefix c) then (WTQ_ERR_TOO_LARGE, c)
                  else
                    let c = emit (D_dgram_send (qsid_prefix c # map span_bytes spans)) c
                    in (drv_result c, c)))"

definition wtq_conn_dgram_max_size :: "wtq_conn \<Rightarrow> nat" where
  "wtq_conn_dgram_max_size c =
     (if closed c \<or> \<not> session_active c \<or> \<not> d_has_dgram (drv c) then 0
      else
        let tmax = d_dgram_max_size (drv c) (trace c)
        in if tmax > length (qsid_prefix c) then tmax - length (qsid_prefix c) else 0)"

definition wtq_conn_session_id :: "wtq_conn \<Rightarrow> u64" where
  "wtq_conn_session_id c = (if session_established c then session_id c else - 1)"

section \<open>Admission of peer streams\<close>

text \<open>
  A provider's admission record is the one linked at its reservation: the
  operations take the reservation. \<open>None\<close> at an index is a record that is not
  linked.
\<close>

definition wtq_conn_enable_admission :: "wtq_conn \<Rightarrow> wtq_conn" where
  "wtq_conn_enable_admission c = c\<lparr>admission_enabled := True\<rparr>"

definition admission_init :: "dstream \<Rightarrow> u64 \<Rightarrow> bool \<Rightarrow> wtq_peer_admission" where
  "admission_init ds sid bidi =
     \<lparr>pa_decoder = wtq_preamble_dec_init, pa_prefix = [], pa_state = 0, pa_bidi = bidi, pa_id = sid,
      pa_session_id = 0, pa_ds = Some ds, pa_es = None\<rparr>"

definition wtq_conn_peer_admission_init ::
  "dstream \<Rightarrow> u64 \<Rightarrow> bool \<Rightarrow> nat \<Rightarrow> wtq_conn \<Rightarrow> wtq_result \<times> wtq_conn" where
  "wtq_conn_peer_admission_init ds sid bidi r c =
     (if \<not> admission_enabled c \<or> budgeted c \<or> r \<ge> 15 \<or> (if bidi then r < 8 else r \<ge> 8)
         \<or> admission_peers c ! r \<noteq> None then (WTQ_ERR_INVALID_ARG, c)
      else if closed c then (WTQ_ERR_CLOSED, c)
      else
        (case conn_open_locals_if_deferred c of
           (rc, c) \<Rightarrow>
             if rc \<noteq> WTQ_OK then (rc, c)
             else (WTQ_OK, c\<lparr>admission_peers := (admission_peers c)[r := Some (admission_init ds sid bidi)]\<rparr>)))"

definition wtq_conn_peer_admission_forget :: "nat \<Rightarrow> wtq_conn \<Rightarrow> wtq_conn" where
  "wtq_conn_peer_admission_forget r c =
     (if r < 15 then c\<lparr>admission_peers := (admission_peers c)[r := None]\<rparr> else c)"

definition upd_adm :: "nat \<Rightarrow> (wtq_peer_admission \<Rightarrow> wtq_peer_admission) \<Rightarrow> wtq_conn \<Rightarrow> wtq_conn" where
  "upd_adm r f c = c\<lparr>admission_peers := (admission_peers c)[r := map_option f (admission_peers c ! r)]\<rparr>"

text \<open>The stream entry of an admitted record; \<open>None\<close> when the slot is taken.\<close>

definition admission_entry :: "nat \<Rightarrow> nat \<Rightarrow> es_kind \<Rightarrow> wtq_conn \<Rightarrow> wtq_conn option" where
  "admission_entry r i kind c =
     (if es_kind (peer c ! i) \<noteq> ES_FREE then None
      else
        let p = the (admission_peers c ! r); gen = stream_generation c + 1;
            c = c\<lparr>stream_generation := gen\<rparr>;
            c = upd_es i (\<lambda>_. estream_zero\<lparr>es_generation := gen, es_kind := kind, es_resident := budgeted c,
                                es_ds := pa_ds p, es_id := pa_id p\<rparr>) c
        in Some (upd_adm r (\<lambda>p. p\<lparr>pa_es := Some i, pa_state := 2\<rparr>) c))"

fun admit_loop :: "nat \<Rightarrow> nat list \<Rightarrow> wtq_conn \<Rightarrow> wtq_result \<times> wtq_conn" where
  "admit_loop r [] c = (WTQ_ERR_WOULD_BLOCK, c)"
| "admit_loop r (i # is) c =
     (case admission_entry r i ES_WT c of
        None \<Rightarrow> admit_loop r is c
      | Some c' \<Rightarrow>
          let p = the (admission_peers c' ! r); c' = fst (wt_associate i (pa_session_id p) (pa_bidi p) c')
          in (if closed c' then WTQ_ERR_PROTO else WTQ_OK, c'))"

definition wtq_conn_peer_admit :: "nat \<Rightarrow> wtq_conn \<Rightarrow> wtq_result \<times> wtq_conn" where
  "wtq_conn_peer_admit r c =
     (case admission_peers c ! r of
        None \<Rightarrow> (WTQ_ERR_INVALID_ARG, c)
      | Some p \<Rightarrow>
          if pa_state p \<noteq> 1 then (WTQ_ERR_INVALID_ARG, c)
          else if closed c then (WTQ_ERR_CLOSED, c)
          else if budgeted c \<and> r \<ge> peer_capacity c then (WTQ_ERR_INVALID_ARG, c)
          else
            admit_loop r
              (if budgeted c then [r]
               else [(if persp c = PERSPECTIVE_CLIENT then 4 else 10)..<length (peer c)]) c)"

text \<open>The rest of a delivery once the record owns a stream entry.\<close>

definition admission_tail :: "nat \<Rightarrow> nat \<Rightarrow> nat \<Rightarrow> bytes \<Rightarrow> bool \<Rightarrow> wtq_conn \<Rightarrow> wtq_result \<times> nat \<times> wtq_conn" where
  "admission_tail r i used data fin c =
     (if closed c then (WTQ_ERR_PROTO, used, c)
      else if pa_es (the (admission_peers c ! r)) = None then (WTQ_OK, length data, c)
      else
        (case stream_bytes i (drop used data) fin True c of
           (rc, left, c) \<Rightarrow> (rc, used + (length data - used - left), c)))"

text \<open>A complete preamble of a WebTransport stream: it waits for admission or is turned away.\<close>

definition admission_wt ::
  "nat \<Rightarrow> wtq_preamble \<Rightarrow> nat \<Rightarrow> bytes \<Rightarrow> wtq_conn \<Rightarrow> wtq_result \<times> nat \<times> wtq_conn" where
  "admission_wt r pre used data c =
     (let p = the (admission_peers c ! r); sid = pr_session_id pre
      in if sid mod 4 \<noteq> 0 then (WTQ_ERR_PROTO, used, conn_fatal WTQ_H3_ID_ERROR c)
         else if \<not> session_active c \<or> \<not> session_established c \<or> sid \<noteq> session_id c then
           (WTQ_OK, length data,
            upd_adm r (\<lambda>p. p\<lparr>pa_state := 3\<rparr>)
              (shutdown_raw (pa_ds p) (pa_bidi p) True
                 (if session_established c \<and> sid = session_id c then WTQ_WT_SESSION_GONE
                  else WTQ_WT_BUFFERED_STREAM_REJECTED) c))
         else (WTQ_ERR_WOULD_BLOCK, used, upd_adm r (\<lambda>p. p\<lparr>pa_session_id := sid, pa_state := 1\<rparr>) c))"

text \<open>Any other stream type, read from the wire.\<close>

definition admission_other ::
  "nat \<Rightarrow> u64 \<Rightarrow> nat \<Rightarrow> bytes \<Rightarrow> bool \<Rightarrow> wtq_conn \<Rightarrow> wtq_result \<times> nat \<times> wtq_conn" where
  "admission_other r type used data fin c =
     (let p = the (admission_peers c ! r)
      in if pa_bidi p then
           (if persp c = PERSPECTIVE_CLIENT
            then (WTQ_ERR_PROTO, used, conn_fatal WTQ_H3_STREAM_CREATION_ERROR c)
            else
              let i = (if budgeted c then r else 3 + r - 8)
              in (case admission_entry r i ES_REQUEST c of
                    None \<Rightarrow> (WTQ_ERR_STATE, used, c)
                  | Some c \<Rightarrow>
                      admission_tail r i used data fin
                        (request_stream_bytes i (pa_prefix p)
                           (upd_es i (\<lambda>es. es\<lparr>es_frame_dec := wtq_h3_frame_dec_init\<rparr>) c))))
         else if type = 1 then
           (WTQ_ERR_PROTO, used,
            conn_fatal (if persp c = PERSPECTIVE_SERVER then WTQ_H3_STREAM_CREATION_ERROR else WTQ_H3_ID_ERROR) c)
         else if type \<noteq> 0 \<and> type \<noteq> 2 \<and> type \<noteq> 3 then
           (WTQ_OK, length data, upd_adm r (\<lambda>p. p\<lparr>pa_state := 3\<rparr>) c)
         else if (if type = 0 then peer_control_seen c else if type = 2 then qpack_enc_seen c
                  else qpack_dec_seen c) then
           (WTQ_ERR_PROTO, used, conn_fatal WTQ_H3_STREAM_CREATION_ERROR c)
         else
           let i = (if budgeted c then r else if type = 0 then 0 else unat type - 1)
           in (case admission_entry r i ES_TYPE c of
                 None \<Rightarrow> (WTQ_ERR_STATE, used, c)
               | Some c \<Rightarrow>
                   (case classify_uni i type c of
                      (c, ok) \<Rightarrow>
                        if \<not> ok then (WTQ_ERR_PROTO, used, c) else admission_tail r i used data fin c)))"

text \<open>The result carries the bytes consumed.\<close>

definition peer_admission_bytes :: "nat \<Rightarrow> bytes \<Rightarrow> bool \<Rightarrow> wtq_conn \<Rightarrow> wtq_result \<times> nat \<times> wtq_conn" where
  "peer_admission_bytes r data fin c =
     (let p = the (admission_peers c ! r)
      in if closed c then (WTQ_ERR_CLOSED, 0, c)
         else
           (case pa_es p of
              Some i \<Rightarrow> (case stream_bytes i data fin True c of (rc, left, c) \<Rightarrow> (rc, length data - left, c))
            | None \<Rightarrow>
                if pa_state p = 1 then (WTQ_ERR_WOULD_BLOCK, 0, c)
                else if pa_state p = 3 then (WTQ_OK, length data, c)
                else
                  (case wtq_preamble_dec_feed (if pa_bidi p then KIND_BIDI else KIND_UNI) (pa_decoder p) data of
                     (d, res, used) \<Rightarrow>
                       let c = upd_adm r (\<lambda>p. p\<lparr>pa_decoder := d, pa_prefix := pa_prefix p @ take used data\<rparr>) c
                       in (case res of
                             Inl _ \<Rightarrow>
                               if \<not> fin then (WTQ_OK, used, c)
                               else if pa_bidi p then
                                 (WTQ_ERR_PROTO, used,
                                  conn_fatal (if pd_state d = PRE_DEC_SESSION then WTQ_H3_FRAME_ERROR
                                              else if persp c = PERSPECTIVE_SERVER then WTQ_H3_REQUEST_INCOMPLETE
                                              else WTQ_H3_STREAM_CREATION_ERROR) c)
                               else (WTQ_OK, used, upd_adm r (\<lambda>p. p\<lparr>pa_state := 3\<rparr>) c)
                           | Inr (PREAMBLE_OK pre) \<Rightarrow> admission_wt r pre used data c
                           | Inr (PREAMBLE_UNEXPECTED type) \<Rightarrow> admission_other r type used data fin c))))"

definition wtq_conn_peer_admission_bytes ::
  "nat \<Rightarrow> bytes \<Rightarrow> bool \<Rightarrow> wtq_conn \<Rightarrow> wtq_result \<times> nat \<times> wtq_conn" where
  "wtq_conn_peer_admission_bytes r data fin c =
     (if budgeted c then (WTQ_ERR_INVALID_ARG, 0, c) else peer_admission_bytes r data fin c)"

definition wtq_conn_peer_admission_init_v2 ::
  "dstream \<Rightarrow> u64 \<Rightarrow> bool \<Rightarrow> nat \<Rightarrow> wtq_conn \<Rightarrow> wtq_result \<times> wtq_conn" where
  "wtq_conn_peer_admission_init_v2 ds sid bidi r c =
     (if \<not> budgeted c \<or> r \<ge> peer_capacity c \<or> (if bidi then r < peer_uni c else r \<ge> peer_uni c)
         \<or> admission_peers c ! r \<noteq> None \<or> es_resident (peer c ! r) then (WTQ_ERR_INVALID_ARG, c)
      else if closed c then (WTQ_ERR_CLOSED, c)
      else
        (case conn_open_locals_if_deferred c of
           (rc, c) \<Rightarrow>
             if rc \<noteq> WTQ_OK then (rc, c)
             else
               (WTQ_OK,
                upd_es r (\<lambda>es. es\<lparr>es_resident := True, es_ds := Some ds\<rparr>)
                  (c\<lparr>admission_peers := (admission_peers c)[r := Some (admission_init ds sid bidi)]\<rparr>))))"

definition wtq_conn_peer_admission_bytes_v2 ::
  "nat \<Rightarrow> bytes \<Rightarrow> bool \<Rightarrow> wtq_conn \<Rightarrow> wtq_result \<times> nat \<times> wtq_conn" where
  "wtq_conn_peer_admission_bytes_v2 r data fin c =
     (if \<not> budgeted c \<or> r \<ge> peer_capacity c \<or> admission_peers c ! r = None then (WTQ_ERR_INVALID_ARG, 0, c)
      else peer_admission_bytes r data fin c)"

definition wtq_conn_peer_admission_forget_v2 :: "nat \<Rightarrow> wtq_conn \<Rightarrow> wtq_conn" where
  "wtq_conn_peer_admission_forget_v2 r c =
     (if budgeted c \<and> r < peer_capacity c then c\<lparr>admission_peers := (admission_peers c)[r := None]\<rparr> else c)"

definition wtq_conn_stream_available_v2 :: "wtq_conn \<Rightarrow> nat \<Rightarrow> bool" where
  "wtq_conn_stream_available_v2 c i \<longleftrightarrow>
     budgeted c \<and> i < length (peer c) \<and> \<not> es_resident (peer c ! i) \<and> es_kind (peer c ! i) = ES_FREE"

definition wtq_conn_stream_retire_v2 :: "nat \<Rightarrow> dstream option \<Rightarrow> wtq_conn \<Rightarrow> wtq_conn" where
  "wtq_conn_stream_retire_v2 i ds c =
     (if budgeted c \<and> i < length (peer c) \<and> es_ds (peer c ! i) = ds \<and> es_kind (peer c ! i) = ES_FREE
      then upd_es i (\<lambda>es. es\<lparr>es_resident := False, es_ds := None\<rparr>) c else c)"

record wtq_stream_budget_live =
  peer_wt_live :: nat
  local_wt_live :: nat
  http_critical_live :: nat
  http_request_live :: nat
  peer_wt_waiting :: nat

definition wtq_conn_stream_budget_v2 :: "wtq_conn \<Rightarrow> wtq_stream_budget_live" where
  "wtq_conn_stream_budget_v2 c =
     \<lparr>peer_wt_live = length (filter (\<lambda>es. es_kind es = ES_WT \<and> \<not> es_wt_local es) (peer c)),
      local_wt_live = length (filter (\<lambda>es. es_kind es = ES_WT \<and> es_wt_local es) (peer c)),
      http_critical_live = length (filter (\<lambda>es. es_kind es = ES_CONTROL \<or> es_kind es = ES_QPACK) (peer c)),
      http_request_live = length (filter (\<lambda>es. es_kind es = ES_CONNECT \<or> es_kind es = ES_REQUEST) (peer c)),
      peer_wt_waiting =
        length (filter (\<lambda>p. case p of Some a \<Rightarrow> pa_state a = 1 | None \<Rightarrow> False)
                 (take (peer_capacity c) (admission_peers c)))\<rparr>"

end
