(* ===== verification/Engine_Steps.thy ===== *)
theory Engine_Steps
  imports Engine_Api
begin

text \<open>
  A transition system for the connection engine. \<open>quiet\<close> steps leave the session
  state alone; \<open>step\<close> adds the session transitions and the two ways a connection
  closes. Every rule carries the guard under which the engine takes it, and every
  engine operation is a run of these rules (\<open>Engine_Runs\<close>), so an invariant or an
  order shown for the rules holds for the engine.
\<close>

section \<open>Events of the session and of the connection's end\<close>

fun session_event :: "event \<Rightarrow> bool" where
  "session_event (CB_session_established _ _) = True"
| "session_event (CB_session_rejected _) = True"
| "session_event (CB_session_failed _) = True"
| "session_event CB_session_draining = True"
| "session_event (CB_session_closed _ _ _) = True"
| "session_event _ = False"

fun close_event :: "event \<Rightarrow> bool" where
  "close_event (D_conn_close _) = True"
| "close_event (CB_conn_error _) = True"
| "close_event _ = False"

text \<open>A new stream is announced by an index into a pool of \<open>n\<close> streams.\<close>

fun pool_event :: "nat \<Rightarrow> event \<Rightarrow> bool" where
  "pool_event n (CB_wt_stream_opened i _ _) = (i < n)"
| "pool_event n _ = True"

definition session_terminal :: "wtq_conn \<Rightarrow> bool" where
  "session_terminal c \<longleftrightarrow> sess_state c = SS_CLOSED \<or> sess_state c = SS_REJECTED \<or> sess_state c = SS_FAILED"

section \<open>What holds of a stream\<close>

text \<open>
  The buffers: a partial frame that is gathered fits the 512 bytes of \<^verbatim>\<open>set_buf\<close>,
  except on a request stream whose parked request was put back; a QPACK
  instruction fits 11 bytes. A released or draining stream no longer reads its
  buffer. \<open>over\<close> says that the connection is closed.
\<close>

definition set_cap :: "wtq_estream \<Rightarrow> nat" where
  "set_cap es = (if es_kind es = ES_REQUEST \<and> es_headers_done es then 1024 else 512)"

definition gathers :: "wtq_estream \<Rightarrow> bool" where
  "gathers es \<longleftrightarrow> es_frame_kind es = CF_SETTINGS \<or> es_frame_kind es = CF_ONE_VARINT"

definition es_buf :: "bool \<Rightarrow> wtq_estream \<Rightarrow> bool" where
  "es_buf over es \<longleftrightarrow>
     h3_frame_dec_inv (es_frame_dec es)
     \<and> (es_kind es \<noteq> ES_FREE \<and> es_kind es \<noteq> ES_DRAIN \<longrightarrow> length (es_set_buf es) \<le> set_cap es)
     \<and> (es_kind es = ES_QPACK \<longrightarrow> length (es_set_buf es) \<le> 11)
     \<and> (es_kind es = ES_TYPE \<or> es_kind es = ES_BTYPE \<longrightarrow>
          \<not> es_frame_active es \<and> es_set_buf es = [] \<and> \<not> es_is_session_stream es)
     \<and> (\<not> over \<longrightarrow> (es_kind es = ES_CONTROL \<or> (es_kind es = ES_CONNECT \<or> es_kind es = ES_REQUEST) \<and> \<not> es_request_dead es)
          \<longrightarrow> es_frame_active es
          \<longrightarrow> 0 < unat (es_frame_remaining es)
              \<and> (es_frame_kind es = CF_CAPSULE \<longrightarrow> es_is_session_stream es)
              \<and> (gathers es \<longrightarrow> unat (es_frame_remaining es) \<le> 512
                               \<and> length (es_set_buf es) + unat (es_frame_remaining es) \<le> set_cap es))"

text \<open>
  The halves of a WebTransport stream: a FIN waits for its acknowledgement, or a
  stream is set up for one, only on a unidirectional stream, and that has one half.
  An entry whose kind is another one has neither.
\<close>

definition wt_shape :: "wtq_estream \<Rightarrow> bool" where
  "wt_shape es \<longleftrightarrow>
     (es_wt_bidi es \<longrightarrow> \<not> es_wt_fin_pending es \<and> \<not> es_wt_send_commit es)
     \<and> (\<not> es_wt_bidi es \<longrightarrow> \<not> ((es_wt_send_open es \<or> es_wt_fin_pending es) \<and> es_wt_recv_open es))
     \<and> (es_kind es \<noteq> ES_FREE \<and> es_kind es \<noteq> ES_WT \<longrightarrow> \<not> es_wt_fin_pending es \<and> \<not> es_wt_send_commit es)"

definition es_inv :: "wtq_conn \<Rightarrow> nat \<Rightarrow> wtq_estream \<Rightarrow> bool" where
  "es_inv c i es \<longleftrightarrow>
     (parked_es c = Some i \<longrightarrow> es_kind es = ES_REQUEST \<and> es_headers_done es \<and> \<not> es_is_session_stream es)
     \<and> (es_kind es = ES_CONNECT \<longrightarrow>
          persp c = PERSPECTIVE_CLIENT
          \<and> (\<not> closed c \<and> \<not> es_headers_done es \<and> \<not> es_request_dead es \<longrightarrow> sess_state c = SS_SENT)
          \<and> (client_response_ok c \<longrightarrow> es_headers_done es))
     \<and> (es_kind es = ES_REQUEST \<longrightarrow>
          persp c = PERSPECTIVE_SERVER \<and> (es_is_session_stream es \<longrightarrow> es_headers_done es))
     \<and> (es_kind es = ES_CONTROL \<longrightarrow> \<not> es_is_session_stream es \<and>
          (\<not> closed c \<and> es_frame_active es \<and> es_frame_kind es = CF_SETTINGS \<longrightarrow> \<not> settings_received c))
     \<and> es_buf (closed c) es
     \<and> wt_shape es"

definition absent :: "es_kind \<Rightarrow> wtq_estream list \<Rightarrow> bool" where
  "absent k ps \<longleftrightarrow> (\<forall>i < length ps. es_kind (ps ! i) \<noteq> k)"

definition at_most_one :: "es_kind \<Rightarrow> wtq_estream list \<Rightarrow> bool" where
  "at_most_one k ps \<longleftrightarrow> (\<forall>i < length ps. \<forall>j < length ps. es_kind (ps ! i) = k \<and> es_kind (ps ! j) = k \<longrightarrow> i = j)"

text \<open>A change of one stream that a fatal error interrupts: only what a closed connection asks for.\<close>

definition fatal_upd :: "wtq_conn \<Rightarrow> nat \<Rightarrow> (wtq_estream \<Rightarrow> wtq_estream) \<Rightarrow> bool" where
  "fatal_upd c i f \<longleftrightarrow>
     (i < length (peer c) \<longrightarrow>
        es_inv (c\<lparr>closed := True\<rparr>) i (f (peer c ! i)) \<and> es_kind (f (peer c ! i)) = es_kind (peer c ! i))"

text \<open>Control and CONNECT streams come from their own rules, and a control stream stays one.\<close>

definition kind_next :: "es_kind \<Rightarrow> es_kind \<Rightarrow> bool" where
  "kind_next k k' \<longleftrightarrow> (k' = ES_CONTROL \<or> k' = ES_CONNECT \<longrightarrow> k = k') \<and> (k = ES_CONTROL \<longrightarrow> k' = ES_CONTROL)"

lemma kind_next_refl [simp]: "kind_next k k"
  by (simp add: kind_next_def)

section \<open>Quiet steps\<close>

text \<open>The fields that no rule looks at.\<close>

definition core :: "wtq_conn \<Rightarrow> wtq_conn" where
  "core c =
     c\<lparr>stream_generation := 0, admission_enabled := False, admission_peers := [], started := False,
       locals_attempted := False, qpack_enc_seen := False, qpack_dec_seen := False, connect_section := [],
       offered := [], require_protocol := False, connect_ds := None,
       client_selected_offer := None, paths := [], req_path := [], req_auth := [], selected := [],
       session_es := None, caps_dec := wtq_capsule_dec_init, close_capsule_rx := False, dgrams_dropped := 0\<rparr>"

text \<open>An admission record that owns a stream entry points into the pool.\<close>

definition adm_ok :: "nat \<Rightarrow> wtq_peer_admission option list \<Rightarrow> bool" where
  "adm_ok n ps \<longleftrightarrow> (\<forall>a i. Some a \<in> set ps \<longrightarrow> pa_es a = Some i \<longrightarrow> i < n)"

lemma adm_ok_unlink: "adm_ok n ps \<Longrightarrow> adm_ok n (map (admission_unlink i) ps)"
  by (fastforce simp: adm_ok_def admission_unlink_def split: option.splits if_splits)

lemma adm_ok_update:
  "adm_ok n ps \<Longrightarrow> (\<And>a i. p = Some a \<Longrightarrow> pa_es a = Some i \<Longrightarrow> i < n) \<Longrightarrow> adm_ok n (ps[r := p])"
  by (fastforce simp: adm_ok_def dest!: set_update_subset_insert [THEN subsetD])

definition settings_taken :: "wtq_h3_settings \<Rightarrow> wtq_conn \<Rightarrow> wtq_conn" where
  "settings_taken s c =
     (let c = c\<lparr>peer_settings := s, settings_received := True\<rparr>
      in (case wtq_h3_settings_select_profile s (persp c = PERSPECTIVE_CLIENT) (wt_profiles c) of
            Some sel \<Rightarrow> c\<lparr>wt_profile := sel, profile_latched := True, wt_supported := True\<rparr>
          | None \<Rightarrow> c\<lparr>wt_supported := False\<rparr>))"

inductive quiet :: "wtq_conn \<Rightarrow> wtq_conn \<Rightarrow> bool" where
  q_emit: "\<not> session_event e \<Longrightarrow> \<not> close_event e \<Longrightarrow> pool_event (length (peer c)) e \<Longrightarrow> quiet c (emit e c)"
| q_misc: "core c' = core c \<Longrightarrow> (started c \<longrightarrow> started c') \<Longrightarrow> (capsule_dec_inv (caps_dec c) \<longrightarrow> capsule_dec_inv (caps_dec c'))
    \<Longrightarrow> (adm_ok (length (peer c)) (admission_peers c) \<longrightarrow> adm_ok (length (peer c')) (admission_peers c')) \<Longrightarrow> quiet c c'"
| q_es: "i < length (peer c) \<Longrightarrow> es_inv c i es
    \<Longrightarrow> kind_next (es_kind (peer c ! i)) (es_kind es) \<Longrightarrow> quiet c (c\<lparr>peer := (peer c)[i := es]\<rparr>)"
| q_control: "i < length (peer c) \<Longrightarrow> es_inv c i es \<Longrightarrow> es_kind es = ES_CONTROL \<Longrightarrow> \<not> peer_control_seen c
    \<Longrightarrow> quiet c (c\<lparr>peer_control_seen := True, peer := (peer c)[i := es]\<rparr>)"
| q_connect: "i < length (peer c) \<Longrightarrow> es_inv c i es \<Longrightarrow> es_kind es = ES_CONNECT \<Longrightarrow> absent ES_CONNECT (peer c)
    \<Longrightarrow> sess_state c = SS_SENT \<Longrightarrow> es_kind (peer c ! i) = ES_FREE \<Longrightarrow> quiet c (c\<lparr>peer := (peer c)[i := es]\<rparr>)"
| q_response: "sess_state c = SS_SENT
    \<Longrightarrow> (\<forall>i < length (peer c). es_kind (peer c ! i) = ES_CONNECT \<longrightarrow> es_headers_done (peer c ! i))
    \<Longrightarrow> quiet c (c\<lparr>client_response_ok := True\<rparr>)"
| q_goaway: "(\<forall>g. goaway_id c = Some g \<longrightarrow> v \<le> g) \<Longrightarrow> quiet c (c\<lparr>goaway_id := Some v\<rparr>)"
| q_push: "(\<forall>m. max_push_id c = Some m \<longrightarrow> m \<le> v) \<Longrightarrow> quiet c (c\<lparr>max_push_id := Some v\<rparr>)"
| q_park: "(\<forall>i. p = Some i \<longrightarrow> i < length (peer c) \<and> es_kind (peer c ! i) = ES_REQUEST
        \<and> es_headers_done (peer c ! i) \<and> \<not> es_is_session_stream (peer c ! i))
    \<Longrightarrow> length b \<le> 512 \<Longrightarrow> quiet c (c\<lparr>parked_es := p, parked_buf := b, parked_fin := f\<rparr>)"
| q_latch: "transport_error c = None \<Longrightarrow> quiet c (c\<lparr>transport_error := Some e\<rparr>)"
| q_settings: "\<not> closed c \<Longrightarrow> started c \<Longrightarrow> \<not> settings_received c
    \<Longrightarrow> (\<forall>i < length (peer c). es_kind (peer c ! i) = ES_CONTROL \<longrightarrow> \<not> es_frame_active (peer c ! i))
    \<Longrightarrow> quiet c (settings_taken s c)"
| q_fatal: "session_terminal c \<Longrightarrow> \<not> closed c \<Longrightarrow> fatal_upd c i f \<Longrightarrow> quiet c (conn_fatal err (upd_es i f c))"

section \<open>Session steps\<close>

text \<open>
  The client's request changes the configured profile only before the start, or
  keeps it (\<^verbatim>\<open>wtq_conn_client_connect\<close>).
\<close>

inductive step :: "wtq_conn \<Rightarrow> wtq_conn \<Rightarrow> bool" where
  s_quiet: "quiet c c' \<Longrightarrow> step c c'"
| s_pending: "persp c = PERSPECTIVE_CLIENT \<Longrightarrow> \<not> closed c \<Longrightarrow> sess_state c = SS_IDLE
    \<Longrightarrow> (settings_received c \<longrightarrow> p = wt_profile c)
    \<Longrightarrow> step c (c\<lparr>wt_profile := p, wt_profiles := wtq_h3_wt_profile_bit p, sess_state := SS_PENDING\<rparr>)"
| s_sent: "\<not> closed c \<Longrightarrow> sess_state c = SS_PENDING \<Longrightarrow> profile_latched c \<Longrightarrow> step c (c\<lparr>sess_state := SS_SENT\<rparr>)"
| s_failed: "persp c = PERSPECTIVE_CLIENT \<Longrightarrow> \<not> closed c
    \<Longrightarrow> sess_state c = SS_PENDING \<or> sess_state c = SS_SENT
    \<Longrightarrow> (\<forall>i < length (peer c). es_kind (peer c ! i) = ES_CONNECT
          \<longrightarrow> es_headers_done (peer c ! i) \<or> es_request_dead (peer c ! i))
    \<Longrightarrow> step c (session_failed r c)"
| s_rejected: "\<not> closed c \<Longrightarrow> sess_state c = SS_SENT
    \<Longrightarrow> (\<forall>i < length (peer c). es_kind (peer c ! i) = ES_CONNECT
          \<longrightarrow> es_headers_done (peer c ! i) \<or> es_request_dead (peer c ! i))
    \<Longrightarrow> step c (emit (CB_session_rejected st) (c\<lparr>sess_state := SS_REJECTED\<rparr>))"
| s_established: "\<not> closed c \<Longrightarrow> profile_latched c
    \<Longrightarrow> (if persp c = PERSPECTIVE_CLIENT then sess_state c = SS_SENT else sess_state c = SS_IDLE)
    \<Longrightarrow> (\<forall>i < length (peer c). es_kind (peer c ! i) = ES_CONNECT
          \<longrightarrow> es_headers_done (peer c ! i) \<or> es_request_dead (peer c ! i))
    \<Longrightarrow> i < length (peer c) \<Longrightarrow> parked_es c \<noteq> Some i
    \<Longrightarrow> (es_kind (peer c ! i) = ES_CONNECT \<or> es_kind (peer c ! i) = ES_REQUEST) \<Longrightarrow> es_headers_done (peer c ! i)
    \<Longrightarrow> sid \<noteq> WTQ_STREAM_ID_UNKNOWN
    \<Longrightarrow> step c (emit (CB_session_established sel (wt_profile c))
         (c\<lparr>session_established := True, sess_state := SS_ESTABLISHED, session_id := sid,
            peer := (peer c)[i := (peer c ! i)\<lparr>es_is_session_stream := True\<rparr>],
            qsid_prefix := (case wtq_varint_encode (sid div 4) 8 of Inr b \<Rightarrow> b | Inl _ \<Rightarrow> [])\<rparr>))"
| s_draining: "\<not> closed c \<Longrightarrow> sess_state c = SS_ESTABLISHED
    \<Longrightarrow> step c (emit CB_session_draining (c\<lparr>drain_rx := True, sess_state := SS_DRAINING\<rparr>))"
| s_closed: "\<not> closed c \<Longrightarrow> session_active c \<Longrightarrow> quiet\<^sup>*\<^sup>* (c\<lparr>sess_state := SS_CLOSED\<rparr>) c'
    \<Longrightarrow> step c (emit (CB_session_closed code reason clean) c')"
| s_fatal: "\<not> closed c \<Longrightarrow> fatal_upd c i f \<Longrightarrow> step c (conn_fatal err (upd_es i f c))"
| s_conn_closed: "\<not> closed c \<Longrightarrow> step c (wtq_conn_on_conn_closed err remote c)"

section \<open>Streams under quiet steps\<close>

lemma absent_upd: "absent k ps \<Longrightarrow> i < length ps \<longrightarrow> es_kind es = k \<longrightarrow> es_kind (ps ! i) = k \<Longrightarrow> absent k (ps[i := es])"
  by (cases "i < length ps") (auto simp: absent_def nth_list_update list_update_beyond)

lemma one_upd:
  "at_most_one k ps \<Longrightarrow> i < length ps \<longrightarrow> es_kind es = k \<longrightarrow> es_kind (ps ! i) = k \<Longrightarrow> at_most_one k (ps[i := es])"
  by (cases "i < length ps") (auto simp: at_most_one_def nth_list_update list_update_beyond)

lemma one_new: "absent k ps \<Longrightarrow> at_most_one k (ps[i := es])"
  by (cases "i < length ps") (auto simp: absent_def at_most_one_def nth_list_update list_update_beyond)

lemma at_most_oneD:
  "at_most_one k ps \<Longrightarrow> i < length ps \<Longrightarrow> j < length ps \<Longrightarrow> es_kind (ps ! i) = k \<Longrightarrow> es_kind (ps ! j) = k \<Longrightarrow> j = i"
  by (simp add: at_most_one_def)

lemma emit_fields [simp]:
  "stream_generation (emit e c) = stream_generation c" "admission_enabled (emit e c) = admission_enabled c"
  "budgeted (emit e c) = budgeted c" "peer_capacity (emit e c) = peer_capacity c"
  "peer_uni (emit e c) = peer_uni c" "local_capacity (emit e c) = local_capacity c"
  "admission_peers (emit e c) = admission_peers c" "persp (emit e c) = persp c" "drv (emit e c) = drv c"
  "ecp (emit e c) = ecp c" "wt_profiles (emit e c) = wt_profiles c" "wt_profile (emit e c) = wt_profile c"
  "profile_latched (emit e c) = profile_latched c" "started (emit e c) = started c"
  "locals_attempted (emit e c) = locals_attempted c" "peer_control_seen (emit e c) = peer_control_seen c"
  "qpack_enc_seen (emit e c) = qpack_enc_seen c" "qpack_dec_seen (emit e c) = qpack_dec_seen c"
  "settings_received (emit e c) = settings_received c" "wt_supported (emit e c) = wt_supported c"
  "max_push_id (emit e c) = max_push_id c" "goaway_id (emit e c) = goaway_id c"
  "peer_settings (emit e c) = peer_settings c" "closed (emit e c) = closed c"
  "close_code (emit e c) = close_code c" "transport_error (emit e c) = transport_error c"
  "sess_state (emit e c) = sess_state c" "connect_section (emit e c) = connect_section c"
  "offered (emit e c) = offered c" "require_protocol (emit e c) = require_protocol c"
  "connect_ds (emit e c) = connect_ds c" "client_response_ok (emit e c) = client_response_ok c"
  "client_selected_offer (emit e c) = client_selected_offer c" "paths (emit e c) = paths c"
  "req_path (emit e c) = req_path c" "req_auth (emit e c) = req_auth c" "parked_es (emit e c) = parked_es c"
  "parked_buf (emit e c) = parked_buf c" "parked_fin (emit e c) = parked_fin c"
  "session_established (emit e c) = session_established c" "selected (emit e c) = selected c"
  "session_id (emit e c) = session_id c" "session_es (emit e c) = session_es c"
  "caps_dec (emit e c) = caps_dec c" "close_capsule_rx (emit e c) = close_capsule_rx c"
  "drain_rx (emit e c) = drain_rx c" "qsid_prefix (emit e c) = qsid_prefix c"
  "dgrams_dropped (emit e c) = dgrams_dropped c"
  "trace (emit e c) = trace c @ [e]" "peer (emit e c) = peer c"
  by (simp_all add: emit_def)

lemma upd_es_fields [simp]:
  "stream_generation (upd_es i f c) = stream_generation c"
  "admission_enabled (upd_es i f c) = admission_enabled c" "budgeted (upd_es i f c) = budgeted c"
  "peer_capacity (upd_es i f c) = peer_capacity c" "peer_uni (upd_es i f c) = peer_uni c"
  "local_capacity (upd_es i f c) = local_capacity c" "admission_peers (upd_es i f c) = admission_peers c"
  "persp (upd_es i f c) = persp c" "drv (upd_es i f c) = drv c" "ecp (upd_es i f c) = ecp c"
  "wt_profiles (upd_es i f c) = wt_profiles c" "wt_profile (upd_es i f c) = wt_profile c"
  "profile_latched (upd_es i f c) = profile_latched c" "started (upd_es i f c) = started c"
  "locals_attempted (upd_es i f c) = locals_attempted c"
  "peer_control_seen (upd_es i f c) = peer_control_seen c" "qpack_enc_seen (upd_es i f c) = qpack_enc_seen c"
  "qpack_dec_seen (upd_es i f c) = qpack_dec_seen c" "settings_received (upd_es i f c) = settings_received c"
  "wt_supported (upd_es i f c) = wt_supported c" "max_push_id (upd_es i f c) = max_push_id c"
  "goaway_id (upd_es i f c) = goaway_id c" "peer_settings (upd_es i f c) = peer_settings c"
  "closed (upd_es i f c) = closed c" "close_code (upd_es i f c) = close_code c"
  "transport_error (upd_es i f c) = transport_error c" "sess_state (upd_es i f c) = sess_state c"
  "connect_section (upd_es i f c) = connect_section c" "offered (upd_es i f c) = offered c"
  "require_protocol (upd_es i f c) = require_protocol c" "connect_ds (upd_es i f c) = connect_ds c"
  "client_response_ok (upd_es i f c) = client_response_ok c"
  "client_selected_offer (upd_es i f c) = client_selected_offer c" "paths (upd_es i f c) = paths c"
  "req_path (upd_es i f c) = req_path c" "req_auth (upd_es i f c) = req_auth c"
  "parked_es (upd_es i f c) = parked_es c" "parked_buf (upd_es i f c) = parked_buf c"
  "parked_fin (upd_es i f c) = parked_fin c" "session_established (upd_es i f c) = session_established c"
  "selected (upd_es i f c) = selected c" "session_id (upd_es i f c) = session_id c"
  "session_es (upd_es i f c) = session_es c" "caps_dec (upd_es i f c) = caps_dec c"
  "close_capsule_rx (upd_es i f c) = close_capsule_rx c" "drain_rx (upd_es i f c) = drain_rx c"
  "qsid_prefix (upd_es i f c) = qsid_prefix c" "dgrams_dropped (upd_es i f c) = dgrams_dropped c"
  "trace (upd_es i f c) = trace c" "length (peer (upd_es i f c)) = length (peer c)"
  by (simp_all add: upd_es_def)

lemma peer_upd_es: "peer (upd_es i f c) = (peer c)[i := f (peer c ! i)]"
  by (simp add: upd_es_def)

definition streams_ok :: "wtq_conn \<Rightarrow> bool" where
  "streams_ok c \<longleftrightarrow> (\<forall>i < length (peer c). es_inv c i (peer c ! i))"

text \<open>What \<open>es_inv\<close> reads of the connection.\<close>

definition es_view :: "wtq_conn \<Rightarrow> nat option \<times> wtq_perspective \<times> bool \<times> wtq_session_state \<times> bool \<times> bool" where
  "es_view c = (parked_es c, persp c, closed c, sess_state c, settings_received c, client_response_ok c)"

lemma es_inv_view: "es_view c = es_view c' \<Longrightarrow> es_inv c i es = es_inv c' i es"
  by (simp add: es_view_def es_inv_def)

lemma es_view_simps [simp]:
  "es_view (emit e c) = es_view c" "es_view (upd_es i f c) = es_view c"
  "es_view (c\<lparr>peer := ps\<rparr>) = es_view c"
  by (simp_all add: es_view_def)

lemma es_inv_emit [simp]: "es_inv (emit e c) i es = es_inv c i es"
  by (rule es_inv_view) simp

lemma es_inv_upd_es [simp]: "es_inv (upd_es j f c) i es = es_inv c i es"
  by (rule es_inv_view) simp

lemma es_inv_upd_peer [simp]: "es_inv (c\<lparr>peer := ps\<rparr>) i es = es_inv c i es"
  by (rule es_inv_view) simp

lemma streams_ok_view:
  "es_view c' = es_view c \<Longrightarrow> peer c' = peer c \<Longrightarrow> streams_ok c \<Longrightarrow> streams_ok c'"
  by (auto simp: streams_ok_def dest: es_inv_view)

lemma streams_ok_emit [simp]: "streams_ok (emit e c) = streams_ok c"
  by (simp add: streams_ok_def)

lemma streams_ok_upd:
  assumes "streams_ok c" "i < length (peer c) \<longrightarrow> es_inv c i (f (peer c ! i))"
  shows "streams_ok (upd_es i f c)"
  using assms by (cases "i < length (peer c)") (auto simp: streams_ok_def upd_es_def nth_list_update list_update_beyond)

lemma es_buf_over: "es_buf b es \<Longrightarrow> es_buf True es"
  by (simp add: es_buf_def)

lemma es_inv_closed: "es_inv c i es \<Longrightarrow> es_inv (c\<lparr>closed := True\<rparr>) i es"
  by (auto simp: es_inv_def dest: es_buf_over)

text \<open>The fields that \<open>es_inv\<close> does not read.\<close>

lemma wt_shape_fields [simp]:
  "wt_shape (es\<lparr>es_wt_recv_drain := b\<rparr>) = wt_shape es"
  "wt_shape (es\<lparr>es_wt_application_sent := b\<rparr>) = wt_shape es"
  "wt_shape (es\<lparr>es_recv_paused := b\<rparr>) = wt_shape es"
  "wt_shape (es\<lparr>es_native_id_pending := b\<rparr>) = wt_shape es"
  "wt_shape (es\<lparr>es_id := v\<rparr>) = wt_shape es" "wt_shape (es\<lparr>es_ds := d\<rparr>) = wt_shape es"
  "wt_shape (es\<lparr>es_user := u\<rparr>) = wt_shape es" "wt_shape (es\<lparr>es_resident := b\<rparr>) = wt_shape es"
  "wt_shape (es\<lparr>es_generation := v\<rparr>) = wt_shape es" "wt_shape (es\<lparr>es_wt_local := b\<rparr>) = wt_shape es"
  "wt_shape (es\<lparr>es_pre := q\<rparr>) = wt_shape es" "wt_shape (es\<lparr>es_btype_buf := bs\<rparr>) = wt_shape es"
  "wt_shape (es\<lparr>es_frame_type := v\<rparr>) = wt_shape es" "wt_shape (es\<lparr>es_frame_kind := k\<rparr>) = wt_shape es"
  "wt_shape (es\<lparr>es_frame_remaining := v\<rparr>) = wt_shape es" "wt_shape (es\<lparr>es_frame_active := b\<rparr>) = wt_shape es"
  "wt_shape (es\<lparr>es_set_buf := bs\<rparr>) = wt_shape es" "wt_shape (es\<lparr>es_frame_dec := fd\<rparr>) = wt_shape es"
  "wt_shape (es\<lparr>es_headers_done := b\<rparr>) = wt_shape es" "wt_shape (es\<lparr>es_trailers_done := b\<rparr>) = wt_shape es"
  "wt_shape (es\<lparr>es_is_session_stream := b\<rparr>) = wt_shape es"
  "wt_shape (es\<lparr>es_request_dead := b\<rparr>) = wt_shape es" "wt_shape (es\<lparr>es_qpack_type := v\<rparr>) = wt_shape es"
  by (simp_all add: wt_shape_def)

lemma es_inv_fields [simp]:
  "es_inv c i (es\<lparr>es_wt_recv_drain := b\<rparr>) = es_inv c i es"
  "es_inv c i (es\<lparr>es_wt_application_sent := b\<rparr>) = es_inv c i es"
  "es_inv c i (es\<lparr>es_recv_paused := b\<rparr>) = es_inv c i es"
  "es_inv c i (es\<lparr>es_native_id_pending := b\<rparr>) = es_inv c i es"
  "es_inv c i (es\<lparr>es_id := v\<rparr>) = es_inv c i es"
  "es_inv c i (es\<lparr>es_ds := d\<rparr>) = es_inv c i es"
  "es_inv c i (es\<lparr>es_user := u\<rparr>) = es_inv c i es"
  "es_inv c i (es\<lparr>es_resident := b\<rparr>) = es_inv c i es"
  "es_inv c i (es\<lparr>es_pre := q\<rparr>) = es_inv c i es"
  "es_inv c i (es\<lparr>es_btype_buf := bs\<rparr>) = es_inv c i es"
  "es_inv c i (es\<lparr>es_frame_type := v\<rparr>) = es_inv c i es"
  by (simp_all add: es_inv_def es_buf_def set_cap_def gathers_def)

text \<open>Closing a half, and the FIN that a stream set up for it leaves pending.\<close>

lemma es_buf_halves [simp]:
  "es_buf over (es\<lparr>es_wt_send_open := b\<rparr>) = es_buf over es" "es_buf over (es\<lparr>es_wt_fin_pending := b\<rparr>) = es_buf over es"
  "es_buf over (es\<lparr>es_wt_recv_open := b\<rparr>) = es_buf over es" "es_buf over (es\<lparr>es_wt_send_commit := b\<rparr>) = es_buf over es"
  by (simp_all add: es_buf_def set_cap_def gathers_def)

lemma es_inv_half:
  "es_inv c i es \<Longrightarrow> wt_shape (es\<lparr>es_wt_send_open := b\<rparr>) \<Longrightarrow> es_inv c i (es\<lparr>es_wt_send_open := b\<rparr>)"
  "es_inv c i es \<Longrightarrow> wt_shape (es\<lparr>es_wt_fin_pending := b\<rparr>) \<Longrightarrow> es_inv c i (es\<lparr>es_wt_fin_pending := b\<rparr>)"
  "es_inv c i es \<Longrightarrow> wt_shape (es\<lparr>es_wt_recv_open := b\<rparr>) \<Longrightarrow> es_inv c i (es\<lparr>es_wt_recv_open := b\<rparr>)"
  "es_inv c i es \<Longrightarrow> wt_shape (es\<lparr>es_wt_send_commit := b\<rparr>) \<Longrightarrow> es_inv c i (es\<lparr>es_wt_send_commit := b\<rparr>)"
  by (simp add: es_inv_def, blast?)+

lemma es_inv_shape: "es_inv c i es \<Longrightarrow> wt_shape es"
  by (simp add: es_inv_def)

lemma es_inv_halves [simp]:
  "es_inv c i es \<Longrightarrow> es_inv c i (es\<lparr>es_wt_send_open := False\<rparr>)"
  "es_inv c i es \<Longrightarrow> es_inv c i (es\<lparr>es_wt_fin_pending := False\<rparr>)"
  "es_inv c i es \<Longrightarrow> es_inv c i (es\<lparr>es_wt_recv_open := False\<rparr>)"
  using es_inv_shape by (intro es_inv_half; auto simp: wt_shape_def)+

lemma es_inv_send_commit:
  "es_inv c i es \<Longrightarrow> es_kind es = ES_WT \<Longrightarrow> \<not> es_wt_bidi es \<Longrightarrow> es_inv c i (es\<lparr>es_wt_send_commit := True\<rparr>)"
  using es_inv_shape by (intro es_inv_half; auto simp: wt_shape_def)

lemma es_inv_fin:
  assumes "es_inv c i es" "es_kind es = ES_WT" "es_wt_send_open es"
  shows "es_inv c i (es\<lparr>es_wt_send_open := False, es_wt_fin_pending := es_wt_send_commit es\<rparr>)"
  using assms es_inv_shape [OF assms(1)]
  by (intro es_inv_half; simp add: wt_shape_def)

lemma es_inv_free: "es_inv c i es \<Longrightarrow> parked_es c \<noteq> Some i \<Longrightarrow> es_inv c i (es\<lparr>es_kind := ES_FREE\<rparr>)"
  by (simp add: es_inv_def es_buf_def wt_shape_def)

lemma es_inv_dead: "es_inv c i es \<Longrightarrow> es_inv c i (es\<lparr>es_request_dead := True\<rparr>)"
  by (auto simp: es_inv_def es_buf_def set_cap_def gathers_def)

lemma streams_ok_at: "streams_ok c \<Longrightarrow> i < length (peer c) \<Longrightarrow> es_inv c i (peer c ! i)"
  by (simp add: streams_ok_def)

lemma q_upd_es:
  assumes "streams_ok c" "i < length (peer c) \<longrightarrow> es_inv c i (f (peer c ! i))"
    "i < length (peer c) \<longrightarrow> kind_next (es_kind (peer c ! i)) (es_kind (f (peer c ! i)))"
  shows "quiet\<^sup>*\<^sup>* c (upd_es i f c)"
proof (cases "i < length (peer c)")
  case True
  then have "quiet c (upd_es i f c)" using assms unfolding upd_es_def by (intro q_es) auto
  then show ?thesis ..
next
  case False
  then have "upd_es i f c = c" by (simp add: upd_es_def list_update_beyond)
  then show ?thesis by simp
qed

lemma q_core:
  "core c' = core c \<Longrightarrow> (started c \<longrightarrow> started c')
    \<Longrightarrow> (capsule_dec_inv (caps_dec c) \<longrightarrow> capsule_dec_inv (caps_dec c'))
    \<Longrightarrow> (adm_ok (length (peer c)) (admission_peers c) \<longrightarrow> adm_ok (length (peer c')) (admission_peers c'))
    \<Longrightarrow> quiet\<^sup>*\<^sup>* c c'"
  by (rule r_into_rtranclp) (rule q_misc)

lemma q_event: "\<not> session_event e \<Longrightarrow> \<not> close_event e \<Longrightarrow> pool_event (length (peer c)) e \<Longrightarrow> quiet\<^sup>*\<^sup>* c (emit e c)"
  by (rule r_into_rtranclp) (rule q_emit)

section \<open>Releasing and closing streams is quiet\<close>

lemma core_view:
  assumes "core c' = core c"
  shows "es_view c' = es_view c" "peer c' = peer c" "sess_state c' = sess_state c" "trace c' = trace c"
    "closed c' = closed c" "transport_error c' = transport_error c" "persp c' = persp c" "drv c' = drv c"
    "settings_received c' = settings_received c" "parked_es c' = parked_es c"
proof -
  have "sess_state (core c') = sess_state (core c)" "es_view (core c') = es_view (core c)"
    "peer (core c') = peer (core c)" "trace (core c') = trace (core c)" "closed (core c') = closed (core c)"
    "transport_error (core c') = transport_error (core c)" "persp (core c') = persp (core c)"
    "drv (core c') = drv (core c)" "settings_received (core c') = settings_received (core c)"
    "parked_es (core c') = parked_es (core c)"
    using assms by simp_all
  then show "es_view c' = es_view c" "peer c' = peer c" "sess_state c' = sess_state c" "trace c' = trace c"
    "closed c' = closed c" "transport_error c' = transport_error c" "persp c' = persp c" "drv c' = drv c"
    "settings_received c' = settings_received c" "parked_es c' = parked_es c"
    by (simp_all add: core_def es_view_def)
qed

lemma release_quiet:
  assumes "streams_ok c" "parked_es c \<noteq> Some i" "i < length (peer c) \<longrightarrow> es_kind (peer c ! i) \<noteq> ES_CONTROL"
  shows "quiet\<^sup>*\<^sup>* c (estream_release i c)"
proof -
  define c1 where "c1 = (case es_ds (peer c ! i) of Some ds \<Rightarrow> emit (D_detach ds i) c | None \<Rightarrow> c)"
  define c2 where "c2 = (if admission_enabled c1
    then c1\<lparr>admission_peers := map (admission_unlink i) (admission_peers c1)\<rparr> else c1)"
  have 1: "quiet\<^sup>*\<^sup>* c c1" by (auto simp: c1_def q_event split: option.split)
  have 2: "quiet\<^sup>*\<^sup>* c1 c2" by (rule q_core) (simp_all add: c2_def core_def adm_ok_unlink)
  have v: "es_view c2 = es_view c" "peer c2 = peer c"
    by (simp_all add: c2_def c1_def es_view_def emit_def split: option.split)
  have ok: "streams_ok c2" using assms(1) v by (auto intro: streams_ok_view)
  have "parked_es c2 = parked_es c" using v(1) by (simp add: es_view_def)
  then have "quiet\<^sup>*\<^sup>* c2 (upd_es i (\<lambda>es. es\<lparr>es_kind := ES_FREE, es_native_id_pending := False\<rparr>) c2)"
    using assms(2,3) ok v by (intro q_upd_es) (auto intro!: es_inv_free simp: kind_next_def dest: streams_ok_at)
  moreover have "estream_release i c
      = upd_es i (\<lambda>es. es\<lparr>es_kind := ES_FREE, es_native_id_pending := False\<rparr>) c2"
    by (simp add: estream_release_def c2_def c1_def Let_def)
  ultimately show ?thesis using 1 2 by (metis rtranclp_trans)
qed

lemma wt_release_quiet:
  assumes "streams_ok c"
  shows "quiet\<^sup>*\<^sup>* c (wt_release_if_done i c)"
proof (cases "wt_release_if_done i c = c")
  case False
  then have k: "es_kind (peer c ! i) = ES_WT" and r: "wt_release_if_done i c = estream_release i c"
    by (auto simp: wt_release_if_done_def Let_def split: if_splits)
  show ?thesis
  proof (cases "i < length (peer c)")
    case True
    with assms k have "parked_es c \<noteq> Some i" by (auto simp: streams_ok_def es_inv_def)
    with assms k show ?thesis unfolding r by (intro release_quiet) simp_all
  next
    case False
    define c1 where "c1 = (case es_ds (peer c ! i) of Some ds \<Rightarrow> emit (D_detach ds i) c | None \<Rightarrow> c)"
    have "quiet\<^sup>*\<^sup>* c c1" by (auto simp: c1_def q_event split: option.split)
    moreover have "quiet\<^sup>*\<^sup>* c1 (estream_release i c)"
      using False by (intro q_core)
        (simp_all add: estream_release_def c1_def core_def upd_es_def emit_def Let_def list_update_beyond
          adm_ok_unlink split: option.split)
    ultimately show ?thesis unfolding r by simp
  qed
qed simp

text \<open>The connection error without the session's outcome.\<close>

definition conn_end :: "u64 \<Rightarrow> wtq_conn \<Rightarrow> wtq_conn" where
  "conn_end err c =
     emit (D_conn_close err) ((conn_latch_error ERR_KIND_QUIC_APP err 0 0 c)\<lparr>closed := True, close_code := err\<rparr>)"

lemma conn_fatal_end:
  "\<not> closed c \<Longrightarrow> conn_fatal err c = emit (CB_conn_error err) (session_conn_lost (conn_end err c))"
  by (simp add: conn_fatal_def conn_end_def Let_def)

lemma conn_end_simps [simp]:
  "sess_state (conn_end err c) = sess_state c" "peer (conn_end err c) = peer c" "closed (conn_end err c)"
  "trace (conn_end err c) = trace c @ [D_conn_close err]" "persp (conn_end err c) = persp c"
  by (simp_all add: conn_end_def conn_latch_error_def emit_def)

lemma es_view_end: "es_view (conn_end err c) = es_view (c\<lparr>closed := True\<rparr>)"
  by (simp add: es_view_def conn_end_def conn_latch_error_def emit_def)

lemma streams_ok_end: "streams_ok c \<Longrightarrow> streams_ok (conn_end err c)"
  using es_inv_view [OF es_view_end] es_inv_closed by (simp add: streams_ok_def)

lemma lost_terminal: "session_terminal c \<Longrightarrow> session_conn_lost c = c"
  by (auto simp: session_terminal_def session_conn_lost_def)

text \<open>Quiet steps keep the streams well formed.\<close>

lemma conn_fatal_terminal:
  assumes "session_terminal c" "\<not> closed c"
  shows "conn_fatal err c = emit (CB_conn_error err) (conn_end err c)"
proof -
  have "session_terminal (conn_end err c)" using assms by (simp add: session_terminal_def)
  then show ?thesis using assms by (simp add: conn_fatal_end lost_terminal)
qed

lemma conn_end_upd_es: "conn_end err (upd_es i f c) = upd_es i f (conn_end err c)"
  by (simp add: conn_end_def conn_latch_error_def upd_es_def emit_def)

lemma session_terminal_upd_es [simp]: "session_terminal (upd_es i f c) = session_terminal c"
  by (simp add: session_terminal_def upd_es_def)

lemma settings_taken_simps [simp]:
  "peer (settings_taken s c) = peer c" "persp (settings_taken s c) = persp c"
  "closed (settings_taken s c) = closed c" "sess_state (settings_taken s c) = sess_state c"
  "parked_es (settings_taken s c) = parked_es c" "settings_received (settings_taken s c)"
  "client_response_ok (settings_taken s c) = client_response_ok c"
  "trace (settings_taken s c) = trace c"
  by (simp_all add: settings_taken_def Let_def split: option.split)

lemma quiet_streams_ok: "quiet c c' \<Longrightarrow> streams_ok c \<Longrightarrow> streams_ok c'"
proof (induction rule: quiet.induct)
  case (q_misc c' c)
  then show ?case using core_view by (metis streams_ok_view)
next
  case (q_fatal c i f err)
  have "streams_ok (upd_es i f (conn_end err c))"
    using q_fatal by (intro streams_ok_upd streams_ok_end) (simp_all add: es_inv_view [OF es_view_end] fatal_upd_def)
  then show ?case
    using q_fatal by (simp add: conn_fatal_terminal conn_end_upd_es)
next
  case (q_park p c b f)
  then show ?case by (auto simp: streams_ok_def es_inv_def)
next
  case (q_settings c s)
  then show ?case by (auto simp: streams_ok_def es_inv_def)
next
  case (q_response c)
  then show ?case by (auto simp: streams_ok_def es_inv_def)
qed (auto simp: streams_ok_def nth_list_update es_view_def intro: es_inv_view [THEN iffD1, rotated])

lemma quiets_streams_ok: "quiet\<^sup>*\<^sup>* c c' \<Longrightarrow> streams_ok c \<Longrightarrow> streams_ok c'"
  by (induction rule: rtranclp_induct) (auto intro: quiet_streams_ok)

lemma conn_fatal_session: "closed c \<Longrightarrow> conn_fatal err c = c"
  by (simp add: conn_fatal_def)

lemma quiet_session:
  "quiet c c' \<Longrightarrow> sess_state c' = sess_state c \<and> session_established c' = session_established c
     \<and> persp c' = persp c \<and> drv c' = drv c \<and> length (peer c') = length (peer c)
     \<and> (closed c \<longrightarrow> closed c') \<and> drain_rx c' = drain_rx c \<and> session_id c' = session_id c
     \<and> qsid_prefix c' = qsid_prefix c"
proof (induction rule: quiet.induct)
  case (q_misc c' c)
  from arg_cong [OF q_misc(1), of "\<lambda>c. (sess_state c, session_established c, persp c, drv c, peer c, closed c,
      drain_rx c, session_id c, qsid_prefix c)"]
  show ?case by (simp add: core_def)
next
  case (q_fatal c i f err)
  then show ?case
    by (simp add: conn_fatal_terminal conn_end_upd_es)
      (simp add: conn_end_def conn_latch_error_def upd_es_def emit_def)
qed (simp_all add: emit_def settings_taken_def Let_def split: option.split)

lemma quiets_session:
  "quiet\<^sup>*\<^sup>* c c' \<Longrightarrow> sess_state c' = sess_state c \<and> session_established c' = session_established c
     \<and> persp c' = persp c \<and> drv c' = drv c \<and> length (peer c') = length (peer c)
     \<and> (closed c \<longrightarrow> closed c') \<and> drain_rx c' = drain_rx c \<and> session_id c' = session_id c
     \<and> qsid_prefix c' = qsid_prefix c"
  by (induction rule: rtranclp_induct) (auto dest!: quiet_session)

lemma fatal_upd_id: "streams_ok c \<Longrightarrow> fatal_upd c i (\<lambda>es. es)"
  by (simp add: fatal_upd_def streams_ok_def es_inv_closed)

lemma upd_es_id [simp]: "upd_es i (\<lambda>es. es) c = c"
  by (simp add: upd_es_def)

lemma fatal_terminal_quiet:
  assumes "streams_ok c" "session_terminal c"
  shows "quiet\<^sup>*\<^sup>* c (conn_fatal err c)"
proof (cases "closed c")
  case False
  then have "quiet c (conn_fatal err (upd_es 0 (\<lambda>es. es) c))"
    using assms by (intro q_fatal fatal_upd_id)
  then show ?thesis by simp
qed (simp add: conn_fatal_session)

lemma session_terminal_emit [simp]: "session_terminal (emit e c) = session_terminal c"
  by (simp add: session_terminal_def emit_def)

lemma shutdown_terminal_quiet:
  assumes "streams_ok c" "session_terminal c"
  shows "quiet\<^sup>*\<^sup>* c (shutdown_raw ds a b code c)"
proof -
  let ?e = "D_shutdown_stream ds
    \<lparr>sh_mode = SHUTDOWN_WHOLE_STREAM, sh_abort_send = a, sh_abort_recv = b,
     sh_app_send_cancel = False, sh_send_err = code, sh_recv_err = code\<rparr>"
  have "quiet\<^sup>*\<^sup>* c (emit ?e c)" by (rule q_event) simp_all
  moreover have "quiet\<^sup>*\<^sup>* (emit ?e c) (shutdown_raw ds a b code c)"
    using assms by (auto simp: shutdown_raw_def Let_def intro: fatal_terminal_quiet)
  ultimately show ?thesis by simp
qed

lemma close_wt_quiet:
  assumes "streams_ok c" "closed c \<or> (\<forall>ds s r. quiet\<^sup>*\<^sup>* c (shut ds s r WTQ_WT_SESSION_GONE c))"
  shows "quiet\<^sup>*\<^sup>* c (close_wt_stream shut i c)"
proof (cases "es_kind (peer c ! i) = ES_WT")
  case False
  then show ?thesis by (simp add: close_wt_stream_def Let_def)
next
  case True
  let ?es = "peer c ! i"
  define c1 where "c1 = (if \<not> closed c \<and> (es_wt_send_open ?es \<or> es_wt_fin_pending ?es \<or> es_wt_recv_open ?es)
    then shut (es_ds ?es) (es_wt_send_open ?es \<or> es_wt_fin_pending ?es) (es_wt_recv_open ?es)
           WTQ_WT_SESSION_GONE c
    else c)"
  define c2 where "c2 = upd_es i (\<lambda>es. es\<lparr>es_wt_send_open := False, es_wt_fin_pending := False,
    es_wt_recv_drain := es_wt_recv_drain es \<or> es_wt_recv_open es, es_wt_recv_open := False\<rparr>) c1"
  have 1: "quiet\<^sup>*\<^sup>* c c1" using assms(2) by (auto simp: c1_def)
  then have ok1: "streams_ok c1" using assms(1) by (rule quiets_streams_ok)
  then have 2: "quiet\<^sup>*\<^sup>* c1 c2" unfolding c2_def by (intro q_upd_es) (auto intro!: es_inv_halves dest: streams_ok_at)
  then have "streams_ok c2" using ok1 by (rule quiets_streams_ok)
  then have "quiet\<^sup>*\<^sup>* c2 (wt_release_if_done i c2)" by (rule wt_release_quiet)
  moreover have "close_wt_stream shut i c = wt_release_if_done i c2"
    using True by (simp add: close_wt_stream_def c2_def c1_def Let_def)
  ultimately show ?thesis using 1 2 by (metis rtranclp_trans)
qed

lemma close_all_quiet:
  assumes "streams_ok c" "P c"
    and P: "\<And>c. streams_ok c \<Longrightarrow> P c \<Longrightarrow> closed c \<or> (\<forall>ds s r. quiet\<^sup>*\<^sup>* c (shut ds s r WTQ_WT_SESSION_GONE c))"
    and keep: "\<And>c c'. quiet\<^sup>*\<^sup>* c c' \<Longrightarrow> P c \<Longrightarrow> P c'"
  shows "quiet\<^sup>*\<^sup>* c (fold (close_wt_stream shut) is c)"
  using assms(1,2)
proof (induction "is" arbitrary: c)
  case (Cons i "is")
  then have 1: "quiet\<^sup>*\<^sup>* c (close_wt_stream shut i c)" using P close_wt_quiet by blast
  have "streams_ok (close_wt_stream shut i c)" "P (close_wt_stream shut i c)"
    using 1 Cons.prems quiets_streams_ok keep by blast+
  then show ?case using rtranclp_trans [OF 1 Cons.IH] by simp
qed simp

lemma closed_by_eq:
  "session_active c \<Longrightarrow> session_closed_by shut code reason clean c =
     emit (CB_session_closed code reason clean)
       (fold (close_wt_stream shut) [0..<length (peer c)] (c\<lparr>sess_state := SS_CLOSED\<rparr>))"
  by (simp add: session_closed_by_def Let_def)

lemma streams_ok_no_sent:
  assumes "streams_ok c" "sess_state c \<noteq> SS_SENT"
  shows "streams_ok (c\<lparr>sess_state := st\<rparr>)"
  using assms by (auto simp: streams_ok_def es_inv_def)

lemma closing_quiet:
  assumes "streams_ok c" "session_active c"
  shows "quiet\<^sup>*\<^sup>* (c\<lparr>sess_state := SS_CLOSED\<rparr>)
    (fold (close_wt_stream shutdown_raw) [0..<length (peer c)] (c\<lparr>sess_state := SS_CLOSED\<rparr>))"
proof (rule close_all_quiet [where P = session_terminal])
  show "streams_ok (c\<lparr>sess_state := SS_CLOSED\<rparr>)"
    using assms by (intro streams_ok_no_sent) (auto simp: session_active_def)
qed (auto simp: session_terminal_def dest: quiets_session intro: shutdown_terminal_quiet [unfolded session_terminal_def])

lemma closing_over_quiet:
  assumes "streams_ok c" "session_active c" "closed c"
  shows "quiet\<^sup>*\<^sup>* (c\<lparr>sess_state := SS_CLOSED\<rparr>)
    (fold (close_wt_stream shut) [0..<length (peer c)] (c\<lparr>sess_state := SS_CLOSED\<rparr>))"
proof (rule close_all_quiet [where P = closed])
  show "streams_ok (c\<lparr>sess_state := SS_CLOSED\<rparr>)"
    using assms by (intro streams_ok_no_sent) (auto simp: session_active_def)
qed (use assms quiets_session in auto)

section \<open>The session's life cycle\<close>

text \<open>
  The abstract machine that \<^verbatim>\<open>wt_driver.h\<close> documents for
  \<^verbatim>\<open>wtq_session_state_t\<close>: a transition with the callback it makes, if any.
\<close>

inductive session_step :: "wtq_session_state \<Rightarrow> event option \<Rightarrow> wtq_session_state \<Rightarrow> bool" where
  "session_step SS_IDLE None SS_PENDING"
| "session_step SS_PENDING None SS_SENT"
| "session_step SS_IDLE (Some (CB_session_established p q)) SS_ESTABLISHED"
| "session_step SS_SENT (Some (CB_session_established p q)) SS_ESTABLISHED"
| "session_step SS_SENT (Some (CB_session_rejected n)) SS_REJECTED"
| "session_step SS_IDLE (Some (CB_session_failed r)) SS_FAILED"
| "session_step SS_PENDING (Some (CB_session_failed r)) SS_FAILED"
| "session_step SS_SENT (Some (CB_session_failed r)) SS_FAILED"
| "session_step SS_ESTABLISHED (Some CB_session_draining) SS_DRAINING"
| "session_step SS_ESTABLISHED (Some (CB_session_closed a b d)) SS_CLOSED"
| "session_step SS_DRAINING (Some (CB_session_closed a b d)) SS_CLOSED"

inductive session_run :: "wtq_session_state \<Rightarrow> event list \<Rightarrow> wtq_session_state \<Rightarrow> bool" where
  run_refl: "session_run s [] s"
| run_step: "session_run s w s' \<Longrightarrow> session_step s' e s'' \<Longrightarrow> session_run s (w @ (case e of None \<Rightarrow> [] | Some x \<Rightarrow> [x])) s''"

inductive_simps session_step_from:
  "session_step SS_CLOSED e s" "session_step SS_REJECTED e s" "session_step SS_FAILED e s"

lemma session_run_trans:
  assumes "session_run s w s'" "session_run s' v s''"
  shows "session_run s (w @ v) s''"
  using assms(2,1)
proof (induction rule: session_run.induct)
  case (run_step s1 v s2 e s3)
  then show ?case using session_run.run_step [of s "w @ v" s2 e s3] by simp
qed simp

lemma session_run_single:
  "session_step s (Some e) s' \<Longrightarrow> session_run s [e] s'" "session_step s None s' \<Longrightarrow> session_run s [] s'"
  using session_run.run_step [OF run_refl, of s "Some e" s'] session_run.run_step [OF run_refl, of s None s']
  by simp_all

text \<open>The callbacks of a run: nothing, or one refusal, or an established session and its end.\<close>

fun outcome :: "event \<Rightarrow> bool" where
  "outcome (CB_session_rejected _) = True"
| "outcome (CB_session_failed _) = True"
| "outcome (CB_session_closed _ _ _) = True"
| "outcome _ = False"

lemma session_run_words:
  assumes "session_run SS_IDLE w s"
  shows "case s of
      SS_IDLE \<Rightarrow> w = []
    | SS_PENDING \<Rightarrow> w = []
    | SS_SENT \<Rightarrow> w = []
    | SS_ESTABLISHED \<Rightarrow> \<exists>p q. w = [CB_session_established p q]
    | SS_DRAINING \<Rightarrow> \<exists>p q. w = [CB_session_established p q, CB_session_draining]
    | SS_CLOSED \<Rightarrow> \<exists>p q a b d. w = [CB_session_established p q, CB_session_closed a b d]
        \<or> w = [CB_session_established p q, CB_session_draining, CB_session_closed a b d]
    | SS_REJECTED \<Rightarrow> \<exists>n. w = [CB_session_rejected n]
    | SS_FAILED \<Rightarrow> \<exists>r. w = [CB_session_failed r]"
proof -
  have "s0 = SS_IDLE \<Longrightarrow> ?thesis" if "session_run s0 w s" for s0
    using that by (induction rule: session_run.induct) (auto elim!: session_step.cases)
  then show ?thesis using assms by blast
qed

section \<open>What a run keeps\<close>

definition keeps :: "wtq_conn \<Rightarrow> wtq_conn \<Rightarrow> bool" where
  "keeps c c' \<longleftrightarrow>
     length (peer c') = length (peer c) \<and> persp c' = persp c \<and> drv c' = drv c
     \<and> budgeted c' = budgeted c \<and> peer_capacity c' = peer_capacity c \<and> local_capacity c' = local_capacity c
     \<and> (adm_ok (length (peer c)) (admission_peers c) \<longrightarrow> adm_ok (length (peer c')) (admission_peers c'))
     \<and> (closed c \<longrightarrow> closed c') \<and> (started c \<longrightarrow> started c')
     \<and> (settings_received c \<longrightarrow> settings_received c') \<and> (profile_latched c \<longrightarrow> profile_latched c')
     \<and> (\<forall>i < length (peer c). es_kind (peer c ! i) = ES_CONTROL \<longrightarrow> es_kind (peer c' ! i) = ES_CONTROL)"

lemma keeps_refl [simp]: "keeps c c"
  by (simp add: keeps_def)

lemma keeps_trans: "keeps c1 c2 \<Longrightarrow> keeps c2 c3 \<Longrightarrow> keeps c1 c3"
  by (auto simp: keeps_def)

lemma keeps_upd_es:
  assumes "i < length (peer c) \<longrightarrow> kind_next (es_kind (peer c ! i)) (es_kind (f (peer c ! i)))"
  shows "keeps c (upd_es i f c)"
proof (cases "i < length (peer c)")
  case True
  then have "es_kind (peer c ! i) = ES_CONTROL \<longrightarrow> es_kind (f (peer c ! i)) = ES_CONTROL"
    using assms unfolding kind_next_def by blast
  then show ?thesis unfolding keeps_def peer_upd_es using True by (simp add: nth_list_update)
qed (simp add: keeps_def peer_upd_es list_update_beyond)

lemma keeps_emit [simp]: "keeps c (emit e c)"
  by (simp add: keeps_def)

lemma keeps_end [simp]: "keeps c (conn_end err c)"
  by (simp add: keeps_def) (simp add: conn_end_def conn_latch_error_def)

lemma quiet_keeps: "quiet c c' \<Longrightarrow> keeps c c'"
proof (induction rule: quiet.induct)
  case (q_misc c' c)
  from arg_cong [OF q_misc(1), of "\<lambda>c. (peer c, persp c, drv c, closed c, settings_received c,
      profile_latched c, budgeted c, peer_capacity c, local_capacity c)"]
  show ?case using q_misc(2-) by (simp add: core_def keeps_def)
next
  case (q_es i c es)
  then show ?case by (auto simp: keeps_def kind_next_def nth_list_update)
next
  case (q_control i c es)
  then show ?case by (auto simp: keeps_def nth_list_update)
next
  case (q_connect i c es)
  then show ?case by (auto simp: keeps_def nth_list_update)
next
  case (q_fatal c i f err)
  have "keeps c (upd_es i f (conn_end err c))"
    using q_fatal(3) keeps_end by (intro keeps_trans [OF keeps_end keeps_upd_es]) (simp add: fatal_upd_def)
  then have "keeps c (emit (CB_conn_error err) (upd_es i f (conn_end err c)))" using keeps_emit keeps_trans by blast
  then show ?case using q_fatal(1,2) by (simp add: conn_fatal_terminal conn_end_upd_es)
qed (simp_all add: keeps_def settings_taken_def Let_def split: option.split)

lemma quiets_keeps: "quiet\<^sup>*\<^sup>* c c' \<Longrightarrow> keeps c c'"
  by (induction rule: rtranclp_induct) (auto intro: quiet_keeps keeps_trans)

lemma lost_keeps:
  assumes "streams_ok c" "closed c"
  shows "keeps c (session_conn_lost c)"
proof (cases "session_active c")
  case True
  let ?q = "fold (close_wt_stream (\<lambda>ds s r code c. c)) [0..<length (peer c)] (c\<lparr>sess_state := SS_CLOSED\<rparr>)"
  have "keeps c (c\<lparr>sess_state := SS_CLOSED\<rparr>)" by (simp add: keeps_def)
  moreover have "keeps (c\<lparr>sess_state := SS_CLOSED\<rparr>) ?q" using assms True by (intro quiets_keeps closing_over_quiet)
  moreover have "session_conn_lost c = emit (CB_session_closed 0 [] False) ?q"
    using True closed_by_eq [OF True] by (auto simp: session_conn_lost_def session_active_def)
  ultimately show ?thesis using keeps_trans [OF keeps_trans keeps_emit] by simp
next
  case False
  then show ?thesis
    by (cases "sess_state c") (auto simp: session_conn_lost_def session_active_def session_failed_def keeps_def)
qed

lemma step_keeps:
  assumes "step c c'" "streams_ok c"
  shows "keeps c c'"
  using assms
proof (induction rule: step.induct)
  case (s_quiet c c')
  then show ?case by (simp add: quiet_keeps)
next
  case (s_established c i sid sel)
  then show ?case by (auto simp: keeps_def nth_list_update)
next
  case (s_closed c c' code reason clean)
  have "keeps c (c\<lparr>sess_state := SS_CLOSED\<rparr>)" by (simp add: keeps_def)
  then show ?case using quiets_keeps [OF s_closed(3)] keeps_trans keeps_emit by blast
next
  case (s_fatal c i f err)
  have k: "keeps c (conn_end err (upd_es i f c))"
    using s_fatal(2) by (intro keeps_trans [OF keeps_upd_es keeps_end]) (simp add: fatal_upd_def)
  have "streams_ok (conn_end err (upd_es i f c))"
    unfolding conn_end_upd_es using s_fatal
    by (intro streams_ok_upd streams_ok_end) (simp_all add: es_inv_view [OF es_view_end] fatal_upd_def)
  then have "keeps (conn_end err (upd_es i f c)) (session_conn_lost (conn_end err (upd_es i f c)))"
    by (intro lost_keeps) simp_all
  then have "keeps c (emit (CB_conn_error err) (session_conn_lost (conn_end err (upd_es i f c))))"
    using k keeps_emit keeps_trans by blast
  then show ?case using s_fatal(1) by (simp add: conn_fatal_end)
next
  case (s_conn_closed c err remote)
  let ?c = "(conn_latch_error (if remote then ERR_KIND_QUIC_APP else ERR_KIND_LOCAL) err 0 0 c)
    \<lparr>closed := True, close_code := err\<rparr>"
  have p: "peer ?c = peer c" "es_view ?c = es_view (c\<lparr>closed := True\<rparr>)"
    by (simp_all add: es_view_def conn_latch_error_def)
  then have "streams_ok ?c"
    using s_conn_closed(2) by (simp add: streams_ok_def es_inv_view [OF p(2)] es_inv_closed)
  then have "keeps ?c (session_conn_lost ?c)" by (intro lost_keeps) simp_all
  moreover have "keeps c ?c" by (simp add: keeps_def conn_latch_error_def)
  ultimately have "keeps c (emit (CB_conn_error err) (session_conn_lost ?c))"
    using keeps_emit keeps_trans by blast
  then show ?case using s_conn_closed(1) by (simp add: wtq_conn_on_conn_closed_def Let_def)
qed (simp_all add: keeps_def session_failed_def)

end
