(* ===== verification/Engine_Inv.thy ===== *)
theory Engine_Inv
  imports Engine_Steps
begin

text \<open>
  The invariants of the engine's transition system: the session's state agrees
  with its callbacks, with the flags and with the end of the connection, and the
  streams are well formed.
\<close>

section \<open>The session\<close>

definition session_events :: "wtq_conn \<Rightarrow> event list" where
  "session_events c = filter session_event (trace c)"

fun conn_error_event :: "event \<Rightarrow> bool" where
  "conn_error_event (CB_conn_error _) = True"
| "conn_error_event _ = False"

fun conn_close_event :: "event \<Rightarrow> bool" where
  "conn_close_event (D_conn_close _) = True"
| "conn_close_event _ = False"

definition was_established :: "wtq_session_state \<Rightarrow> bool" where
  "was_established st \<longleftrightarrow> st = SS_ESTABLISHED \<or> st = SS_DRAINING \<or> st = SS_CLOSED"

definition session_inv :: "wtq_conn \<Rightarrow> bool" where
  "session_inv c \<longleftrightarrow>
     session_established c = was_established (sess_state c)
     \<and> (sess_state c = SS_DRAINING \<longrightarrow> drain_rx c)
     \<and> (closed c \<longrightarrow> session_terminal c \<and> transport_error c \<noteq> None)
     \<and> (persp c = PERSPECTIVE_SERVER \<longrightarrow>
          sess_state c = SS_IDLE \<or> was_established (sess_state c) \<or> sess_state c = SS_FAILED \<and> closed c)
     \<and> (was_established (sess_state c) \<or> sess_state c = SS_SENT \<or> sess_state c = SS_REJECTED \<longrightarrow> profile_latched c)
     \<and> (was_established (sess_state c) \<longrightarrow>
          qsid_prefix c = (case wtq_varint_encode (session_id c div 4) 8 of Inr b \<Rightarrow> b | Inl _ \<Rightarrow> []))
     \<and> (settings_received c \<longrightarrow> started c) \<and> (wt_supported c \<longrightarrow> profile_latched c)
     \<and> (profile_latched c \<longrightarrow> settings_received c
          \<and> wtq_h3_settings_select_profile (peer_settings c) (persp c = PERSPECTIVE_CLIENT) (wt_profiles c)
              = Some (wt_profile c))"

text \<open>The callbacks so far are a run of the life cycle that ends in the present state.\<close>

definition life_inv :: "wtq_conn \<Rightarrow> bool" where
  "life_inv c \<longleftrightarrow> session_run SS_IDLE (session_events c) (sess_state c)"

text \<open>The connection's error callback comes exactly when it closes, its close call at most once.\<close>

definition end_inv :: "wtq_conn \<Rightarrow> bool" where
  "end_inv c \<longleftrightarrow>
     length (filter conn_error_event (trace c)) = (if closed c then 1 else 0)
     \<and> length (filter conn_close_event (trace c)) \<le> (if closed c then 1 else 0)"

lemma session_inv_emit [simp]: "session_inv (emit e c) = session_inv c"
  by (simp add: session_inv_def)

lemma life_inv_emit [simp]: "\<not> session_event e \<Longrightarrow> life_inv (emit e c) = life_inv c"
  by (simp add: life_inv_def session_events_def)

lemma quiet_session_inv: "quiet c c' \<Longrightarrow> session_inv c \<Longrightarrow> session_inv c'"
proof (induction rule: quiet.induct)
  case (q_misc c' c)
  from arg_cong [OF q_misc(1), of "\<lambda>c. (sess_state c, session_established c, persp c, closed c, drain_rx c,
      transport_error c, profile_latched c, settings_received c, peer_settings c, wt_profiles c, wt_profile c,
      session_id c, qsid_prefix c, wt_supported c)"]
  show ?case using q_misc(2-) by (simp add: core_def session_inv_def session_terminal_def)
next
  case (q_fatal c i f err)
  then show ?case
    by (simp add: conn_fatal_terminal conn_end_upd_es)
      (auto simp: conn_end_def conn_latch_error_def upd_es_def emit_def session_inv_def session_terminal_def)
next
  case (q_settings c s)
  then show ?case
    by (auto simp: session_inv_def session_terminal_def settings_taken_def Let_def split: option.split)
qed (auto simp: session_inv_def session_terminal_def emit_def)

lemma quiet_trace:
  "quiet c c' \<Longrightarrow> session_events c' = session_events c \<and> (\<exists>tr. trace c' = trace c @ tr)"
proof (induction rule: quiet.induct)
  case (q_misc c' c)
  from core_view(4) [OF q_misc(1)] show ?case by (simp add: session_events_def)
next
  case (q_fatal c i f err)
  then show ?case
    by (simp add: conn_fatal_terminal conn_end_upd_es)
      (simp add: conn_end_def conn_latch_error_def upd_es_def emit_def session_events_def)
qed (auto simp: emit_def session_events_def)

lemma quiet_life_inv: "quiet c c' \<Longrightarrow> life_inv c \<Longrightarrow> life_inv c'"
  using quiet_trace [of c c'] quiet_session [of c c'] by (simp add: life_inv_def)

lemma close_event_cases: "close_event e = (conn_error_event e \<or> conn_close_event e)"
  by (cases e) simp_all

lemma quiet_end_inv: "quiet c c' \<Longrightarrow> end_inv c \<Longrightarrow> end_inv c'"
proof (induction rule: quiet.induct)
  case (q_misc c' c)
  then show ?case using core_view(4,5) [OF q_misc(1)] by (simp add: end_inv_def)
next
  case (q_fatal c i f err)
  then show ?case
    by (simp add: conn_fatal_terminal conn_end_upd_es)
      (simp add: conn_end_def conn_latch_error_def upd_es_def emit_def end_inv_def)
qed (auto simp: emit_def end_inv_def close_event_cases)

section \<open>The streams\<close>

definition stream_inv :: "wtq_conn \<Rightarrow> bool" where
  "stream_inv c \<longleftrightarrow>
     streams_ok c
     \<and> at_most_one ES_CONTROL (peer c) \<and> at_most_one ES_CONNECT (peer c)
     \<and> (\<not> peer_control_seen c \<longrightarrow> absent ES_CONTROL (peer c))
     \<and> (sess_state c = SS_IDLE \<or> sess_state c = SS_PENDING \<longrightarrow> absent ES_CONNECT (peer c) \<and> \<not> client_response_ok c)
     \<and> (\<forall>r. parked_es c = Some r \<longrightarrow> r < length (peer c))
     \<and> length (parked_buf c) \<le> 512
     \<and> capsule_dec_inv (caps_dec c)"

lemma stream_inv_emit [simp]: "stream_inv (emit e c) = stream_inv c"
  by (simp add: stream_inv_def)

lemma stream_inv_upd:
  assumes "stream_inv c" "streams_ok (c\<lparr>peer := (peer c)[i := es]\<rparr>)"
    "i < length (peer c) \<longrightarrow> es_kind es = ES_CONTROL \<or> es_kind es = ES_CONNECT \<longrightarrow> es_kind (peer c ! i) = es_kind es"
  shows "stream_inv (c\<lparr>peer := (peer c)[i := es]\<rparr>)"
  using assms unfolding stream_inv_def by (auto intro!: one_upd absent_upd)

text \<open>The fields of \<open>stream_inv\<close> beside the streams' own invariant.\<close>

lemma stream_inv_cong:
  assumes "stream_inv c" "streams_ok c'" "peer c' = peer c" "sess_state c' = sess_state c"
    "peer_control_seen c' = peer_control_seen c" "parked_es c' = parked_es c" "parked_buf c' = parked_buf c"
    "client_response_ok c' = client_response_ok c" "capsule_dec_inv (caps_dec c')"
  shows "stream_inv c'"
  using assms by (simp add: stream_inv_def)

lemma quiet_stream_inv:
  assumes "quiet c c'" "stream_inv c"
  shows "stream_inv c'"
proof -
  have ok: "streams_ok c'" using quiet_streams_ok [OF assms(1)] assms(2) by (simp add: stream_inv_def)
  have cap: "capsule_dec_inv (caps_dec c)" using assms(2) by (simp add: stream_inv_def)
  from assms ok cap show ?thesis
  proof (induction rule: quiet.induct)
    case (q_misc c' c)
    from arg_cong [OF q_misc(1), of "\<lambda>c. (sess_state c, peer c, peer_control_seen c, parked_es c, parked_buf c, client_response_ok c)"]
    show ?case using q_misc(2-) by (intro stream_inv_cong [of c c']) (simp_all add: core_def)
  next
    case (q_es i c es)
    have "es_kind es = ES_CONTROL \<or> es_kind es = ES_CONNECT \<longrightarrow> es_kind (peer c ! i) = es_kind es"
      using q_es(3) unfolding kind_next_def by blast
    then show ?case by (intro stream_inv_upd q_es(4,5) impI) blast
  next
    case (q_control i c es)
    then show ?case
      using one_new [of ES_CONTROL "peer c" i es] one_upd [of ES_CONNECT "peer c" i es]
        absent_upd [of ES_CONNECT "peer c" i es] by (simp add: stream_inv_def)
  next
    case (q_connect i c es)
    then show ?case
      using one_new [of ES_CONNECT "peer c" i es] one_upd [of ES_CONTROL "peer c" i es]
        absent_upd [of ES_CONTROL "peer c" i es] by (simp add: stream_inv_def)
  next
    case (q_fatal c i f err)
    let ?c = "c\<lparr>peer := (peer c)[i := f (peer c ! i)]\<rparr>"
    have "at_most_one ES_CONTROL (peer ?c) \<and> at_most_one ES_CONNECT (peer ?c)
      \<and> (\<not> peer_control_seen c \<longrightarrow> absent ES_CONTROL (peer ?c))
      \<and> (sess_state c = SS_IDLE \<or> sess_state c = SS_PENDING \<longrightarrow> absent ES_CONNECT (peer ?c))"
      using q_fatal by (auto simp: stream_inv_def fatal_upd_def intro!: one_upd absent_upd)
    then show ?case
      using q_fatal unfolding stream_inv_def
      by (simp add: conn_fatal_terminal conn_end_upd_es)
        (simp add: conn_end_def conn_latch_error_def upd_es_def emit_def)
  next
    case (q_park p c b f)
    then show ?case by (simp add: stream_inv_def)
  qed (simp_all add: stream_inv_def emit_def settings_taken_def Let_def split: option.splits)
qed

section \<open>The session steps\<close>

definition conn_inv :: "wtq_conn \<Rightarrow> bool" where
  "conn_inv c \<longleftrightarrow> session_inv c \<and> stream_inv c \<and> life_inv c \<and> end_inv c"

lemma quiets_inv: "quiet\<^sup>*\<^sup>* c c' \<Longrightarrow> conn_inv c \<Longrightarrow> conn_inv c'"
  by (induction rule: rtranclp_induct)
    (auto simp: conn_inv_def intro: quiet_session_inv quiet_stream_inv quiet_life_inv quiet_end_inv)

text \<open>
  A closed connection before its session's outcome: everything but the outcome
  holds.
\<close>

definition ended :: "wtq_conn \<Rightarrow> bool" where
  "ended c \<longleftrightarrow>
     closed c \<and> transport_error c \<noteq> None \<and> session_inv (c\<lparr>closed := False\<rparr>) \<and> stream_inv c \<and> life_inv c
     \<and> length (filter conn_error_event (trace c)) = 0 \<and> length (filter conn_close_event (trace c)) \<le> 1"

lemma profile_bits_disjoint: "wtq_h3_wt_profile_bit p AND wtq_h3_wt_profile_bit q \<noteq> 0 \<longleftrightarrow> p = q"
  by (cases p; cases q) (simp_all add: WTQ_H3_WT_PROFILES_CURRENT_def
      WTQ_H3_WT_PROFILES_D13_14_COMPAT_def WTQ_H3_WT_PROFILES_D02_RFC9297_COMPAT_def)

text \<open>A client that narrows its set to the selected profile selects it again.\<close>

lemma select_singleton:
  assumes "wtq_h3_settings_select_profile s cl profs = Some p"
  shows "wtq_h3_settings_select_profile s cl (wtq_h3_wt_profile_bit p) = Some p"
  using assms by (auto simp: select_profile_iff profile_eligible_def profile_bits_disjoint)

lemma life_event:
  "life_inv c \<Longrightarrow> session_step (sess_state c) (Some e) st \<Longrightarrow> session_event e
    \<Longrightarrow> session_events c' = session_events c @ [e] \<Longrightarrow> sess_state c' = st \<Longrightarrow> life_inv c'"
  using session_run_trans session_run_single(1) by (fastforce simp: life_inv_def)

lemma end_inv_emit: "session_event e \<Longrightarrow> end_inv c \<Longrightarrow> end_inv (emit e (c\<lparr>sess_state := st\<rparr>))"
  by (cases e) (simp_all add: end_inv_def emit_def)

lemma closed_event_inv:
  assumes inv: "session_inv c" "stream_inv c" "life_inv (c\<lparr>sess_state := st\<rparr>)" "st = SS_ESTABLISHED \<or> st = SS_DRAINING"
    and c: "sess_state c = SS_CLOSED"
  shows "session_inv (emit (CB_session_closed a b d) c) \<and> stream_inv (emit (CB_session_closed a b d) c)
    \<and> life_inv (emit (CB_session_closed a b d) c)"
proof -
  have "session_inv (emit (CB_session_closed a b d) c)"
    using inv(1) by (simp add: session_inv_def emit_def session_terminal_def)
  moreover have "stream_inv (emit (CB_session_closed a b d) c)"
    using inv(2) by simp
  moreover have "life_inv (emit (CB_session_closed a b d) c)"
    by (rule life_event [OF inv(3), of "CB_session_closed a b d" SS_CLOSED])
      (use inv(4) c in \<open>auto simp: emit_def session_events_def intro: session_step.intros\<close>)
  ultimately show ?thesis by blast
qed

lemma session_inv_closing:
  assumes "session_inv c" "session_active c"
  shows "session_inv (c\<lparr>sess_state := SS_CLOSED\<rparr>)"
  using assms by (auto simp: session_inv_def session_active_def was_established_def session_terminal_def)

lemma stream_inv_state:
  assumes "stream_inv c" "streams_ok (c\<lparr>sess_state := st\<rparr>)" "st \<noteq> SS_IDLE"
    "st = SS_PENDING \<longrightarrow> absent ES_CONNECT (peer c) \<and> \<not> client_response_ok c"
  shows "stream_inv (c\<lparr>sess_state := st\<rparr>)"
  using assms by (simp add: stream_inv_def)

lemma streams_ok_over:
  assumes "streams_ok c" "closed c"
  shows "streams_ok (c\<lparr>sess_state := st\<rparr>)"
  using assms by (auto simp: streams_ok_def es_inv_def)

text \<open>Closing an active session, from quiet steps after the state change.\<close>

lemma closing_inv:
  assumes inv: "session_inv (c\<lparr>sess_state := SS_CLOSED\<rparr>)" "stream_inv (c\<lparr>sess_state := SS_CLOSED\<rparr>)" "life_inv c"
    and act: "session_active c" and q: "quiet\<^sup>*\<^sup>* (c\<lparr>sess_state := SS_CLOSED\<rparr>) c'"
  shows "session_inv (emit (CB_session_closed a b d) c') \<and> stream_inv (emit (CB_session_closed a b d) c')
    \<and> life_inv (emit (CB_session_closed a b d) c')"
proof (rule closed_event_inv)
  show "session_inv c'"
    using q inv(1) by (induction rule: rtranclp_induct) (auto intro: quiet_session_inv)
  show "stream_inv c'"
    using q inv(2) by (induction rule: rtranclp_induct) (auto intro: quiet_stream_inv)
  have "session_events c' = session_events (c\<lparr>sess_state := SS_CLOSED\<rparr>)"
    using q by (induction rule: rtranclp_induct) (auto dest!: quiet_trace)
  then show "life_inv (c'\<lparr>sess_state := sess_state c\<rparr>)"
    using inv(3) by (simp add: life_inv_def session_events_def)
  show "sess_state c' = SS_CLOSED" using quiets_session [OF q] by simp
  show "sess_state c = SS_ESTABLISHED \<or> sess_state c = SS_DRAINING" using act by (simp add: session_active_def)
qed

lemma session_inv_over:
  assumes "session_inv (c\<lparr>closed := False\<rparr>)" "session_terminal c" "transport_error c \<noteq> None"
  shows "session_inv c"
  using assms unfolding session_inv_def by (simp add: session_terminal_def) blast

lemma session_inv_failed:
  assumes "session_inv (c\<lparr>closed := False\<rparr>)" "sess_state c \<in> {SS_IDLE, SS_PENDING, SS_SENT}"
    "transport_error c \<noteq> None" "closed c"
  shows "session_inv (session_failed r c)"
  using assms unfolding session_inv_def
  by (elim conjE insertE emptyE)
    (simp_all add: session_terminal_def session_failed_def emit_def was_established_def)

lemma lost_failed:
  assumes li: "life_inv c" and pre: "sess_state c \<in> {SS_IDLE, SS_PENDING, SS_SENT}"
  shows "session_conn_lost c = session_failed FAIL_CONNECTION c" "life_inv (session_failed r c)"
proof -
  show "session_conn_lost c = session_failed FAIL_CONNECTION c" using pre by (auto simp: session_conn_lost_def)
  show "life_inv (session_failed r c)"
    by (rule life_event [OF li, of "CB_session_failed r" SS_FAILED])
      (use pre in \<open>auto simp: session_failed_def emit_def session_events_def intro: session_step.intros\<close>)
qed

lemma stream_inv_failed:
  assumes "stream_inv c" "streams_ok (c\<lparr>sess_state := SS_FAILED\<rparr>)"
  shows "stream_inv (session_failed r c)"
  using stream_inv_state [OF assms] by (simp add: session_failed_def)

lemma lost_closed_inv:
  assumes inv: "session_inv (c\<lparr>closed := False\<rparr>)" "stream_inv c" "life_inv c"
    and c: "session_active c" "transport_error c \<noteq> None" "closed c"
  shows "session_inv (session_conn_lost c) \<and> stream_inv (session_conn_lost c) \<and> life_inv (session_conn_lost c)
    \<and> closed (session_conn_lost c)"
proof -
  let ?q = "fold (close_wt_stream (\<lambda>ds s r code c. c)) [0..<length (peer c)] (c\<lparr>sess_state := SS_CLOSED\<rparr>)"
  have ok: "streams_ok c" using inv(2) by (simp add: stream_inv_def)
  have eq: "session_conn_lost c = emit (CB_session_closed 0 [] False) ?q"
    using c(1) closed_by_eq [OF c(1)] by (auto simp: session_conn_lost_def session_active_def)
  have q: "quiet\<^sup>*\<^sup>* (c\<lparr>sess_state := SS_CLOSED\<rparr>) ?q" using ok c(1,3) by (rule closing_over_quiet)
  have "session_inv ((c\<lparr>closed := False\<rparr>)\<lparr>sess_state := SS_CLOSED\<rparr>)"
    using inv(1) c(1) by (intro session_inv_closing) (simp_all add: session_active_def)
  then have 1: "session_inv (c\<lparr>sess_state := SS_CLOSED\<rparr>)"
    using c by - (rule session_inv_over, simp_all add: session_terminal_def session_inv_def)
  have 2: "stream_inv (c\<lparr>sess_state := SS_CLOSED\<rparr>)"
    using inv(2) ok c by (intro stream_inv_state streams_ok_over) simp_all
  show ?thesis using closing_inv [OF 1 2 inv(3) c(1) q] eq quiets_session [OF q] c(3) by simp
qed

lemma lost_inv:
  assumes "ended c"
  shows "session_inv (session_conn_lost c) \<and> stream_inv (session_conn_lost c) \<and> life_inv (session_conn_lost c)
    \<and> closed (session_conn_lost c)"
proof -
  from assms have c: "closed c" "transport_error c \<noteq> None" and inv: "session_inv (c\<lparr>closed := False\<rparr>)"
    "stream_inv c" "life_inv c" and ok: "streams_ok c"
    by (simp_all add: ended_def stream_inv_def)
  consider (t) "session_terminal c" | (pre) "sess_state c \<in> {SS_IDLE, SS_PENDING, SS_SENT}" | (act) "session_active c"
    by (cases "sess_state c") (auto simp: session_terminal_def session_active_def)
  then show ?thesis
  proof cases
    case t
    then show ?thesis using c inv session_inv_over by (simp add: lost_terminal)
  next
    case pre
    then show ?thesis
      using session_inv_failed [OF inv(1) pre c(2,1)] lost_failed [OF inv(3) pre]
        stream_inv_failed [OF inv(2) streams_ok_over [OF ok c(1)]] c(1)
      by (simp add: session_failed_def)
  next
    case act
    then show ?thesis using lost_closed_inv inv c by blast
  qed
qed

text \<open>The end of the connection adds its error callback, whatever the session's outcome was.\<close>

lemma quiet_over_trace:
  "quiet c c' \<Longrightarrow> closed c \<Longrightarrow> \<exists>tr. trace c' = trace c @ tr \<and> filter close_event tr = []"
proof (induction rule: quiet.induct)
  case (q_misc c' c)
  then show ?case using core_view(4) [OF q_misc(1)] by simp
qed simp_all

lemma quiets_over_trace:
  "quiet\<^sup>*\<^sup>* c c' \<Longrightarrow> closed c \<Longrightarrow> \<exists>tr. trace c' = trace c @ tr \<and> filter close_event tr = []"
proof (induction rule: rtranclp_induct)
  case (step c1 c2)
  then obtain t1 where 1: "trace c1 = trace c @ t1" "filter close_event t1 = []" by blast
  have "closed c1" using quiets_session [OF step(1)] step.prems by blast
  then obtain t2 where "trace c2 = trace c1 @ t2" "filter close_event t2 = []"
    using quiet_over_trace [OF step(2)] by blast
  with 1 show ?case by (intro exI [of _ "t1 @ t2"]) simp
qed simp

lemma lost_trace:
  assumes "streams_ok c" "closed c"
  shows "\<exists>tr. trace (session_conn_lost c) = trace c @ tr \<and> filter close_event tr = []"
proof (cases "session_active c")
  case True
  let ?q = "fold (close_wt_stream (\<lambda>ds s r code c. c)) [0..<length (peer c)] (c\<lparr>sess_state := SS_CLOSED\<rparr>)"
  have "quiet\<^sup>*\<^sup>* (c\<lparr>sess_state := SS_CLOSED\<rparr>) ?q" using assms True by (intro closing_over_quiet)
  with assms obtain tr where "trace ?q = trace c @ tr" "filter close_event tr = []"
    using quiets_over_trace by fastforce
  moreover have "session_conn_lost c = emit (CB_session_closed 0 [] False) ?q"
    using True closed_by_eq [OF True] by (auto simp: session_conn_lost_def session_active_def)
  ultimately show ?thesis by simp
next
  case False
  then show ?thesis
    by (cases "sess_state c") (auto simp: session_conn_lost_def session_active_def session_failed_def)
qed

lemma filter_close:
  "filter close_event xs = [] \<Longrightarrow> filter conn_error_event xs = [] \<and> filter conn_close_event xs = []"
  by (auto simp: filter_empty_conv close_event_cases)

lemma ended_end:
  assumes "ended c"
  shows "conn_inv (emit (CB_conn_error err) (session_conn_lost c))"
proof -
  have ok: "streams_ok c" "closed c" using assms by (simp_all add: ended_def stream_inv_def)
  obtain tr where tr: "trace (session_conn_lost c) = trace c @ tr" "filter close_event tr = []"
    using lost_trace [OF ok] by blast
  have "end_inv (emit (CB_conn_error err) (session_conn_lost c))"
    using assms tr(1) filter_close [OF tr(2)] lost_inv [OF assms]
    by (simp add: end_inv_def ended_def)
  then show ?thesis
    using lost_inv [OF assms] by (simp add: conn_inv_def)
qed

lemma fatal_inv:
  assumes "conn_inv c" "\<not> closed c" "fatal_upd c i f"
  shows "conn_inv (conn_fatal err (upd_es i f c))"
proof -
  have inv: "session_inv c" "stream_inv c" "life_inv c" "end_inv c" using assms(1) by (simp_all add: conn_inv_def)
  let ?c = "conn_end err (upd_es i f c)"
  have "streams_ok ?c"
    unfolding conn_end_upd_es using inv(2) assms(3)
    by (intro streams_ok_upd streams_ok_end) (simp_all add: stream_inv_def es_inv_view [OF es_view_end] fatal_upd_def)
  then have "stream_inv ?c"
    using inv(2) assms(3)
    by (auto simp: stream_inv_def conn_end_def conn_latch_error_def upd_es_def fatal_upd_def
        intro!: one_upd absent_upd)
  moreover have "session_inv (?c\<lparr>closed := False\<rparr>)" "transport_error ?c \<noteq> None"
    using inv(1) assms(2) by (auto simp: session_inv_def session_terminal_def conn_end_def conn_latch_error_def)
  moreover have "life_inv ?c" using inv(3) by (simp add: life_inv_def session_events_def)
  moreover have "length (filter conn_error_event (trace ?c)) = 0 \<and> length (filter conn_close_event (trace ?c)) \<le> 1"
    using inv(4) assms(2) by (simp add: end_inv_def)
  ultimately have "ended ?c" by (simp add: ended_def)
  then show ?thesis using assms(2) by (simp add: conn_fatal_end ended_end)
qed

definition conn_over :: "u64 \<Rightarrow> bool \<Rightarrow> wtq_conn \<Rightarrow> wtq_conn" where
  "conn_over err remote c =
     (conn_latch_error (if remote then ERR_KIND_QUIC_APP else ERR_KIND_LOCAL) err 0 0 c)
       \<lparr>closed := True, close_code := err\<rparr>"

lemma on_conn_closed_over:
  "\<not> closed c \<Longrightarrow>
     wtq_conn_on_conn_closed err remote c = emit (CB_conn_error err) (session_conn_lost (conn_over err remote c))"
  by (simp add: wtq_conn_on_conn_closed_def conn_over_def Let_def)

lemma es_view_over: "es_view (conn_over err remote c) = es_view (c\<lparr>closed := True\<rparr>)"
  by (simp add: es_view_def conn_over_def conn_latch_error_def)

lemma peer_over [simp]: "peer (conn_over err remote c) = peer c"
  by (simp add: conn_over_def conn_latch_error_def)

lemma conn_closed_inv:
  assumes "conn_inv c" "\<not> closed c"
  shows "conn_inv (wtq_conn_on_conn_closed err remote c)"
proof -
  have inv: "session_inv c" "stream_inv c" "life_inv c" "end_inv c" using assms(1) by (simp_all add: conn_inv_def)
  let ?c = "conn_over err remote c"
  have "streams_ok ?c"
    using inv(2) by (simp add: streams_ok_def stream_inv_def es_inv_view [OF es_view_over] es_inv_closed)
  then have "stream_inv ?c"
    using inv(2) by (simp add: stream_inv_def conn_over_def conn_latch_error_def)
  moreover have "session_inv (?c\<lparr>closed := False\<rparr>)" "transport_error ?c \<noteq> None"
    using inv(1) assms(2) by (auto simp: session_inv_def session_terminal_def conn_over_def conn_latch_error_def)
  moreover have "life_inv ?c" "closed ?c"
    using inv(3) by (simp_all add: life_inv_def session_events_def conn_over_def conn_latch_error_def)
  moreover have "length (filter conn_error_event (trace ?c)) = 0 \<and> length (filter conn_close_event (trace ?c)) \<le> 1"
    using inv(4) assms(2) by (simp add: end_inv_def conn_over_def conn_latch_error_def)
  ultimately have "ended ?c" by (simp add: ended_def)
  then show ?thesis using assms(2) by (simp add: on_conn_closed_over ended_end)
qed

lemma end_inv_session [simp]: "session_event e \<Longrightarrow> end_inv (emit e c) = end_inv c"
  by (cases e) (simp_all add: end_inv_def)

lemma end_inv_state [simp]: "end_inv (c\<lparr>sess_state := st\<rparr>) = end_inv c"
  by (simp add: end_inv_def)

lemma streams_ok_state:
  assumes "streams_ok c" "\<forall>i < length (peer c). es_kind (peer c ! i) = ES_CONNECT
    \<longrightarrow> es_headers_done (peer c ! i) \<or> es_request_dead (peer c ! i)"
  shows "streams_ok (c\<lparr>sess_state := st\<rparr>)"
  using assms by (auto simp: streams_ok_def es_inv_def)

lemma life_next:
  "life_inv c \<Longrightarrow> session_step (sess_state c) (Some e) st \<Longrightarrow> session_event e
    \<Longrightarrow> life_inv (emit e (c\<lparr>sess_state := st\<rparr>))"
  by (rule life_event) (simp_all add: session_events_def)

lemma life_silent: "life_inv c \<Longrightarrow> session_step (sess_state c) None st \<Longrightarrow> life_inv (c\<lparr>sess_state := st\<rparr>)"
  using session_run_trans session_run_single(2) by (fastforce simp: life_inv_def session_events_def)

lemma es_inv_session:
  assumes "es_inv c i es" "parked_es c \<noteq> Some i" "es_kind es = ES_CONNECT \<or> es_kind es = ES_REQUEST" "es_headers_done es"
  shows "es_inv c i (es\<lparr>es_is_session_stream := True\<rparr>)"
proof -
  have "es_buf b es \<Longrightarrow> es_buf b (es\<lparr>es_is_session_stream := True\<rparr>)" for b
    using assms(3) by (elim disjE) (simp_all add: es_buf_def set_cap_def gathers_def)
  then show ?thesis using assms by (auto simp: es_inv_def)
qed

lemma established_inv:
  assumes inv: "conn_inv c"
    and c: "\<not> closed c" "profile_latched c"
      "if persp c = PERSPECTIVE_CLIENT then sess_state c = SS_SENT else sess_state c = SS_IDLE"
      "\<forall>i < length (peer c). es_kind (peer c ! i) = ES_CONNECT
        \<longrightarrow> es_headers_done (peer c ! i) \<or> es_request_dead (peer c ! i)"
      "i < length (peer c)" "parked_es c \<noteq> Some i"
      "es_kind (peer c ! i) = ES_CONNECT \<or> es_kind (peer c ! i) = ES_REQUEST" "es_headers_done (peer c ! i)"
  shows "conn_inv (emit (CB_session_established sel prof)
    (c\<lparr>session_established := True, sess_state := SS_ESTABLISHED, session_id := sid,
       peer := (peer c)[i := (peer c ! i)\<lparr>es_is_session_stream := True\<rparr>],
       qsid_prefix := (case wtq_varint_encode (sid div 4) 8 of Inr b \<Rightarrow> b | Inl _ \<Rightarrow> [])\<rparr>))"
    (is "conn_inv (emit _ ?c)")
proof -
  have i: "session_inv c" "stream_inv c" "life_inv c" "end_inv c" using inv by (simp_all add: conn_inv_def)
  have "streams_ok (c\<lparr>sess_state := SS_ESTABLISHED\<rparr>)" using i(2) c(4) by (intro streams_ok_state) (simp add: stream_inv_def)
  then have "streams_ok (upd_es i (\<lambda>es. es\<lparr>es_is_session_stream := True\<rparr>) (c\<lparr>sess_state := SS_ESTABLISHED\<rparr>))"
    using c(5-8) by (intro streams_ok_upd) (auto intro!: es_inv_session dest: streams_ok_at)
  then have "streams_ok ?c" by (rule streams_ok_view [rotated 2]) (simp_all add: es_view_def upd_es_def)
  then have "stream_inv ?c" using i(2) by (auto simp: stream_inv_def intro!: one_upd absent_upd)
  moreover have "session_inv ?c"
    using i(1) c(1,2) by (auto simp: session_inv_def was_established_def)
  moreover have "life_inv (emit (CB_session_established sel prof) (c\<lparr>sess_state := SS_ESTABLISHED\<rparr>))"
    using i(3) c(3) by (intro life_next) (auto intro: session_step.intros split: if_splits)
  then have "life_inv (emit (CB_session_established sel prof) ?c)"
    by (simp add: life_inv_def session_events_def)
  moreover have "end_inv ?c" using i(4) by (simp add: end_inv_def)
  ultimately show ?thesis by (simp add: conn_inv_def)
qed

lemma step_inv:
  assumes "step c c'" "conn_inv c"
  shows "conn_inv c'"
proof -
  have i: "session_inv c" "stream_inv c" "life_inv c" "end_inv c" and ok: "streams_ok c"
    using assms(2) by (simp_all add: conn_inv_def stream_inv_def)
  from assms(1) assms(2) i ok show ?thesis
  proof (induction rule: step.induct)
    case (s_quiet c c')
    then show ?case using quiets_inv by blast
  next
    case (s_pending c p)
    let ?c = "c\<lparr>wt_profile := p, wt_profiles := wtq_h3_wt_profile_bit p, sess_state := SS_PENDING\<rparr>"
    have "streams_ok (c\<lparr>sess_state := SS_PENDING\<rparr>)" using s_pending by (intro streams_ok_no_sent) simp_all
    then have "streams_ok ?c" by (rule streams_ok_view [rotated 2]) (simp_all add: es_view_def)
    then have "stream_inv ?c" using s_pending by (simp add: stream_inv_def)
    moreover have "session_inv ?c"
      using s_pending select_singleton by (auto simp: session_inv_def was_established_def)
    moreover have "life_inv (c\<lparr>sess_state := SS_PENDING\<rparr>)"
      using s_pending by (intro life_silent) (auto intro: session_step.intros)
    ultimately show ?case using s_pending by (simp add: conn_inv_def life_inv_def session_events_def end_inv_def)
  next
    case (s_sent c)
    have "streams_ok (c\<lparr>sess_state := SS_SENT\<rparr>)" using s_sent by (intro streams_ok_no_sent) simp_all
    then have "stream_inv (c\<lparr>sess_state := SS_SENT\<rparr>)" using s_sent by (intro stream_inv_state) simp_all
    moreover have "session_inv (c\<lparr>sess_state := SS_SENT\<rparr>)"
      using s_sent by (auto simp: session_inv_def was_established_def)
    moreover have "life_inv (c\<lparr>sess_state := SS_SENT\<rparr>)"
      using s_sent by (intro life_silent) (auto intro: session_step.intros)
    ultimately show ?case using s_sent by (simp add: conn_inv_def)
  next
    case (s_failed c r)
    have "session_inv (session_failed r c)"
      using s_failed(1-3,6) unfolding session_inv_def
      by (elim disjE conjE) (simp_all add: was_established_def session_failed_def)
    moreover have "stream_inv (session_failed r c)"
      using s_failed by (intro stream_inv_failed streams_ok_state)
    moreover have "life_inv (session_failed r c)" using s_failed by (intro lost_failed) auto
    ultimately show ?case using s_failed by (simp add: conn_inv_def session_failed_def)
  next
    case (s_rejected c st)
    have "session_inv (c\<lparr>sess_state := SS_REJECTED\<rparr>)"
      using s_rejected by (auto simp: session_inv_def was_established_def)
    moreover have "stream_inv (c\<lparr>sess_state := SS_REJECTED\<rparr>)"
      using s_rejected by (intro stream_inv_state streams_ok_state) simp_all
    moreover have "life_inv (emit (CB_session_rejected st) (c\<lparr>sess_state := SS_REJECTED\<rparr>))"
      using s_rejected by (intro life_next) (auto intro: session_step.intros)
    ultimately show ?case using s_rejected by (simp add: conn_inv_def)
  next
    case (s_established c i sid sel)
    then show ?case by (intro established_inv)
  next
    case (s_draining c)
    let ?c = "c\<lparr>drain_rx := True, sess_state := SS_DRAINING\<rparr>"
    have "streams_ok (c\<lparr>sess_state := SS_DRAINING\<rparr>)" using s_draining by (intro streams_ok_no_sent) simp_all
    then have "streams_ok ?c" by (rule streams_ok_view [rotated 2]) (simp_all add: es_view_def)
    then have "stream_inv ?c" using s_draining by (simp add: stream_inv_def)
    moreover have "session_inv ?c" using s_draining by (auto simp: session_inv_def was_established_def)
    moreover have "life_inv (emit CB_session_draining (c\<lparr>sess_state := SS_DRAINING\<rparr>))"
      using s_draining by (intro life_next) (auto intro: session_step.intros)
    ultimately show ?case
      using s_draining by (simp add: conn_inv_def life_inv_def session_events_def end_inv_def)
  next
    case (s_closed c c' code reason clean)
    have 1: "session_inv (c\<lparr>sess_state := SS_CLOSED\<rparr>)" using s_closed by (intro session_inv_closing)
    have 2: "stream_inv (c\<lparr>sess_state := SS_CLOSED\<rparr>)"
      using s_closed by (intro stream_inv_state streams_ok_no_sent) (auto simp: session_active_def)
    have "end_inv c'"
      using s_closed(3) end_inv_state [of SS_CLOSED c] s_closed(8)
      by (induction rule: rtranclp_induct) (auto intro: quiet_end_inv)
    then show ?case
      using closing_inv [OF 1 2 s_closed(7) s_closed(2,3)] by (simp add: conn_inv_def)
  next
    case (s_fatal c i f err)
    then show ?case by (intro fatal_inv)
  next
    case (s_conn_closed c err remote)
    then show ?case by (intro conn_closed_inv)
  qed
qed

lemma runs_inv: "step\<^sup>*\<^sup>* c c' \<Longrightarrow> conn_inv c \<Longrightarrow> conn_inv c'"
  by (induction rule: rtranclp_induct) (auto intro: step_inv)

lemma quiets_runs: "quiet\<^sup>*\<^sup>* c c' \<Longrightarrow> step\<^sup>*\<^sup>* c c'"
  by (rule mono_rtranclp [rule_format, of quiet step]) (auto intro: s_quiet)

end
