(* ===== verification/Engine_Runs.thy ===== *)
theory Engine_Runs
  imports Engine_Inv
begin

text \<open>
  Every function of the engine is a run of the transition system, from any state
  that satisfies the invariant.
\<close>

section \<open>Simulation\<close>

definition sim :: "wtq_conn \<Rightarrow> wtq_conn \<Rightarrow> bool" where
  "sim c c' \<longleftrightarrow> (conn_inv c \<longrightarrow> step\<^sup>*\<^sup>* c c')"

lemma sim_refl [simp, intro]: "sim c c"
  by (simp add: sim_def)

lemma sim_trans [trans]: "sim c1 c2 \<Longrightarrow> sim c2 c3 \<Longrightarrow> sim c1 c3"
  unfolding sim_def using runs_inv rtranclp_trans by metis

lemma sim_inv: "sim c c' \<Longrightarrow> conn_inv c \<Longrightarrow> conn_inv c'"
  unfolding sim_def using runs_inv by blast

lemma conn_inv_ok: "conn_inv c \<Longrightarrow> streams_ok c"
  by (simp add: conn_inv_def stream_inv_def)

lemma conn_inv_session:
  assumes "conn_inv c"
  shows "closed c \<Longrightarrow> session_terminal c" "session_established c = was_established (sess_state c)"
    "sess_state c = SS_DRAINING \<Longrightarrow> drain_rx c"
    "persp c = PERSPECTIVE_SERVER \<Longrightarrow>
       sess_state c = SS_IDLE \<or> was_established (sess_state c) \<or> sess_state c = SS_FAILED \<and> closed c"
    "was_established (sess_state c) \<or> sess_state c = SS_SENT \<or> sess_state c = SS_REJECTED \<Longrightarrow> profile_latched c"
    "settings_received c \<Longrightarrow> started c" "wt_supported c \<Longrightarrow> profile_latched c"
  using assms unfolding conn_inv_def session_inv_def by blast+

lemma active_open: "conn_inv c \<Longrightarrow> session_active c \<Longrightarrow> \<not> closed c"
  using conn_inv_session(1) [of c] by (auto simp: session_terminal_def session_active_def)

lemma sim_keeps: "sim c c' \<Longrightarrow> conn_inv c \<Longrightarrow> keeps c c'"
proof -
  assume s: "sim c c'" and i: "conn_inv c"
  then have "step\<^sup>*\<^sup>* c c'" by (simp add: sim_def)
  then show "keeps c c'" using i
  proof (induction rule: rtranclp_induct)
    case (step c1 c2)
    then have "streams_ok c1" using runs_inv conn_inv_ok by blast
    then show ?case using step step_keeps keeps_trans by blast
  qed simp
qed

lemma sim_quiet: "(conn_inv c \<Longrightarrow> quiet\<^sup>*\<^sup>* c c') \<Longrightarrow> sim c c'"
  by (auto simp: sim_def intro: quiets_runs)

lemma sim_step: "(conn_inv c \<Longrightarrow> step c c') \<Longrightarrow> sim c c'"
  by (auto simp: sim_def)

text \<open>A simulation that may use the invariant of its first state.\<close>

lemma simI: "(conn_inv c \<Longrightarrow> sim c c') \<Longrightarrow> sim c c'"
  by (auto simp: sim_def)

lemma sim_event: "\<not> session_event e \<Longrightarrow> \<not> close_event e \<Longrightarrow> pool_event (length (peer c)) e \<Longrightarrow> sim c (emit e c)"
  by (rule sim_quiet) (rule q_event)

lemma sim_core:
  "core c' = core c \<Longrightarrow> (started c \<longrightarrow> started c') \<Longrightarrow> (capsule_dec_inv (caps_dec c) \<longrightarrow> capsule_dec_inv (caps_dec c'))
    \<Longrightarrow> (adm_ok (length (peer c)) (admission_peers c) \<longrightarrow> adm_ok (length (peer c')) (admission_peers c')) \<Longrightarrow> sim c c'"
  by (rule sim_quiet) (rule q_core)

lemma sim_upd:
  assumes "conn_inv c \<Longrightarrow> i < length (peer c) \<Longrightarrow> es_inv c i (peer c ! i) \<Longrightarrow> es_inv c i (f (peer c ! i))"
    and "i < length (peer c) \<Longrightarrow> kind_next (es_kind (peer c ! i)) (es_kind (f (peer c ! i)))"
  shows "sim c (upd_es i f c)"
  using assms by (intro sim_quiet q_upd_es) (auto dest: conn_inv_ok streams_ok_at)

lemma sim_fatal: "sim c (conn_fatal err c)"
proof (rule simI, cases "closed c")
  assume inv: "conn_inv c"
  case False
  then have "step c (conn_fatal err (upd_es 0 (\<lambda>es. es) c))"
    using inv by (intro s_fatal fatal_upd_id conn_inv_ok)
  then show ?thesis by (intro sim_step) simp
qed (simp add: conn_fatal_session)

lemma sim_fatal_upd:
  assumes "\<not> closed c" "conn_inv c \<Longrightarrow> fatal_upd c i f"
  shows "sim c (conn_fatal err (upd_es i f c))"
  using assms by (intro sim_step s_fatal)

lemma sim_release:
  assumes "parked_es c \<noteq> Some i" "i < length (peer c) \<longrightarrow> es_kind (peer c ! i) \<noteq> ES_CONTROL"
  shows "sim c (estream_release i c)"
  using assms by (intro sim_quiet release_quiet conn_inv_ok)

lemma sim_wt_release: "sim c (wt_release_if_done i c)"
  by (intro sim_quiet wt_release_quiet conn_inv_ok)

lemma sim_shutdown: "sim c (shutdown_raw ds a b code c)"
  unfolding shutdown_raw_def Let_def by (auto intro: sim_trans [OF sim_event sim_fatal] sim_event)

lemma sim_closed: "sim c (session_closed code reason clean c)"
proof (rule simI, cases "session_active c")
  assume inv: "conn_inv c"
  case True
  then have "\<not> closed c" using inv active_open by blast
  then have "step c (session_closed code reason clean c)"
    unfolding session_closed_def closed_by_eq [OF True]
    using True inv by (intro s_closed closing_quiet conn_inv_ok)
  then show ?thesis by (intro sim_step)
qed (simp add: session_closed_def session_closed_by_def)

lemma sim_draining: "sim c (session_draining c)"
proof (rule simI)
  assume inv: "conn_inv c"
  show "sim c (session_draining c)"
  proof (cases "closed c \<or> drain_rx c \<or> \<not> session_active c")
    case False
    then have "sess_state c = SS_ESTABLISHED"
      using conn_inv_session(3) [OF inv] by (auto simp: session_active_def)
    then show ?thesis
      using False s_draining [of c] by (intro sim_step) (simp add: session_draining_def Let_def)
  qed (simp add: session_draining_def)
qed

section \<open>Streams that the ends of sessions and connections leave alone\<close>

text \<open>A stream with no FIN pending and none to be acknowledged.\<close>

definition no_fin :: "wtq_estream \<Rightarrow> bool" where
  "no_fin es \<longleftrightarrow> \<not> es_wt_fin_pending es \<and> \<not> es_wt_send_commit es"

definition calm :: "wtq_conn \<Rightarrow> wtq_conn \<Rightarrow> bool" where
  "calm c c' \<longleftrightarrow>
     length (peer c') = length (peer c) \<and> parked_es c' = parked_es c \<and> parked_fin c' = parked_fin c
     \<and> settings_received c' = settings_received c \<and> started c' = started c \<and> profile_latched c' = profile_latched c
     \<and> persp c' = persp c \<and> session_es c' = session_es c \<and> session_established c' = session_established c
     \<and> (\<forall>i. es_kind (peer c ! i) \<noteq> ES_WT \<longrightarrow> peer c' ! i = peer c ! i)
     \<and> (\<forall>i. es_kind (peer c ! i) = ES_WT \<longrightarrow> es_kind (peer c' ! i) = ES_WT \<or> es_kind (peer c' ! i) = ES_FREE)
     \<and> (\<forall>i. no_fin (peer c ! i) \<longrightarrow> no_fin (peer c' ! i))"

lemma calm_refl [simp, intro]: "calm c c"
  by (simp add: calm_def)

lemma calm_trans: "calm c1 c2 \<Longrightarrow> calm c2 c3 \<Longrightarrow> calm c1 c3"
  unfolding calm_def by metis

lemma calm_emit [simp]: "calm c (emit e c)"
  by (simp add: calm_def)

lemma calm_upd_wt:
  assumes c: "calm c c1" "es_kind (peer c ! i) = ES_WT"
    and f: "es_kind (f (peer c1 ! i)) = es_kind (peer c1 ! i) \<or> es_kind (f (peer c1 ! i)) = ES_FREE"
      "no_fin (peer c1 ! i) \<longrightarrow> no_fin (f (peer c1 ! i))"
  shows "calm c (upd_es i f c1)"
proof -
  have n: "peer (upd_es i f c1) ! j = peer c1 ! j" if "j \<noteq> i" for j
    using that unfolding peer_upd_es by simp
  have k: "es_kind (peer c1 ! i) = ES_WT \<or> es_kind (peer c1 ! i) = ES_FREE" using c by (simp add: calm_def)
  then have "es_kind (peer (upd_es i f c1) ! i) = ES_WT \<or> es_kind (peer (upd_es i f c1) ! i) = ES_FREE"
    using f by (cases "i < length (peer c1)") (auto simp: peer_upd_es list_update_beyond)
  moreover have "no_fin (peer c1 ! i) \<longrightarrow> no_fin (peer (upd_es i f c1) ! i)"
    using f by (cases "i < length (peer c1)") (auto simp: peer_upd_es list_update_beyond)
  ultimately show ?thesis using c n unfolding calm_def upd_es_fields by metis
qed

lemma calm_release_wt:
  assumes "calm c c1" "es_kind (peer c ! i) = ES_WT"
  shows "calm c (estream_release i c1)"
proof -
  define c2 where "c2 = (case es_ds (peer c1 ! i) of Some ds \<Rightarrow> emit (D_detach ds i) c1 | None \<Rightarrow> c1)"
  define c3 where "c3 = (if admission_enabled c2
    then c2\<lparr>admission_peers := map (admission_unlink i) (admission_peers c2)\<rparr> else c2)"
  have "calm c c3" using assms(1) by (simp add: c3_def c2_def calm_def split: option.split)
  then have "calm c (upd_es i (\<lambda>es. es\<lparr>es_kind := ES_FREE, es_native_id_pending := False\<rparr>) c3)"
    using assms(2) by (rule calm_upd_wt) (simp_all add: no_fin_def)
  moreover have "estream_release i c1
      = upd_es i (\<lambda>es. es\<lparr>es_kind := ES_FREE, es_native_id_pending := False\<rparr>) c3"
    by (simp add: estream_release_def c3_def c2_def Let_def)
  ultimately show ?thesis by simp
qed

lemma calm_close_wt:
  assumes "\<And>ds a b code c. calm c (shut ds a b code c)"
  shows "calm c (close_wt_stream shut i c)"
proof (cases "es_kind (peer c ! i) = ES_WT")
  case True
  let ?es = "peer c ! i"
  define c1 where "c1 = upd_es i (\<lambda>es. es\<lparr>es_wt_send_open := False, es_wt_fin_pending := False,
      es_wt_recv_drain := es_wt_recv_drain es \<or> es_wt_recv_open es, es_wt_recv_open := False\<rparr>)
    (if \<not> closed c \<and> (es_wt_send_open ?es \<or> es_wt_fin_pending ?es \<or> es_wt_recv_open ?es)
     then shut (es_ds ?es) (es_wt_send_open ?es \<or> es_wt_fin_pending ?es) (es_wt_recv_open ?es)
            WTQ_WT_SESSION_GONE c
     else c)"
  have "calm c c1" unfolding c1_def using True assms by (intro calm_upd_wt) (simp_all add: no_fin_def)
  then have "calm c (wt_release_if_done i c1)"
    using True calm_release_wt by (simp add: wt_release_if_done_def Let_def)
  then show ?thesis using True by (simp add: close_wt_stream_def c1_def Let_def)
qed (simp add: close_wt_stream_def)

lemma calm_closed_by:
  assumes "\<And>ds a b code c. calm c (shut ds a b code c)"
  shows "calm c (session_closed_by shut code reason clean c)"
proof (cases "session_active c")
  case True
  have "calm c' (fold (close_wt_stream shut) is c')" for "is" c'
  proof (induction "is" arbitrary: c')
    case (Cons i "is")
    have "calm c' (close_wt_stream shut i c')" using assms by (rule calm_close_wt)
    then show ?case using Cons calm_trans by fastforce
  qed simp
  moreover have "calm c (c\<lparr>sess_state := SS_CLOSED\<rparr>)" by (simp add: calm_def)
  ultimately show ?thesis unfolding closed_by_eq [OF True] by (metis calm_emit calm_trans)
qed (simp add: session_closed_by_def)

lemma calm_failed [simp]: "calm c (session_failed r c)"
  by (simp add: calm_def session_failed_def)

lemma calm_lost: "calm c (session_conn_lost c)"
  by (cases "sess_state c") (auto simp: session_conn_lost_def intro: calm_closed_by)

lemma calm_fatal [simp]: "calm c (conn_fatal err c)"
proof (cases "closed c")
  case False
  have "calm c (conn_end err c)" by (simp add: calm_def) (simp add: conn_end_def conn_latch_error_def)
  then show ?thesis using False calm_lost calm_emit calm_trans by (metis conn_fatal_end)
qed (simp add: conn_fatal_session)

lemma calm_shutdown [simp]: "calm c (shutdown_raw ds a b code c)"
  unfolding shutdown_raw_def Let_def by (auto intro: calm_trans [OF calm_emit calm_fatal])

lemma calm_closed [simp]: "calm c (session_closed code reason clean c)"
  unfolding session_closed_def by (rule calm_closed_by) simp

lemma calm_draining [simp]: "calm c (session_draining c)"
  by (simp add: session_draining_def calm_def Let_def)

lemma calm_fields:
  assumes "calm c c'"
  shows "length (peer c') = length (peer c)" "parked_es c' = parked_es c" "parked_fin c' = parked_fin c"
    "settings_received c' = settings_received c"
    "started c' = started c" "profile_latched c' = profile_latched c" "persp c' = persp c" "session_es c' = session_es c"
    "session_established c' = session_established c"
  using assms by (simp_all add: calm_def)

lemma calm_stream: "calm c c' \<Longrightarrow> es_kind (peer c ! i) \<noteq> ES_WT \<Longrightarrow> peer c' ! i = peer c ! i"
  by (simp add: calm_def)

section \<open>Session establishment\<close>

lemma sim_send_headers: "send_headers ds body fin c = (c', ok) \<Longrightarrow> sim c c' \<and> calm c c'"
  unfolding send_headers_def Let_def
  by (auto split: if_splits intro: sim_trans [OF sim_event sim_fatal] sim_trans [OF sim_event sim_trans [OF sim_event sim_fatal]]
      sim_trans [OF sim_event sim_event] calm_trans [OF calm_emit calm_fatal] calm_trans [OF calm_emit calm_trans [OF calm_emit calm_fatal]]
      calm_trans [OF calm_emit calm_emit])

lemma sim_send_response:
  "sim c (server_send_response ds status sel c) \<and> calm c (server_send_response ds status sel c)"
  using sim_send_headers [of ds _ "status \<ge> 300" c]
  by (auto simp: server_send_response_def Let_def sim_fatal split: sum.split) (metis prod.collapse)+

lemma sim_established:
  assumes "\<not> closed c" "profile_latched c"
    and st: "if persp c = PERSPECTIVE_CLIENT then sess_state c = SS_SENT else sess_state c = SS_IDLE"
    and hd: "\<forall>i < length (peer c). es_kind (peer c ! i) = ES_CONNECT
          \<longrightarrow> es_headers_done (peer c ! i) \<or> es_request_dead (peer c ! i)"
    and i: "i < length (peer c)" "parked_es c \<noteq> Some i"
      "es_kind (peer c ! i) = ES_CONNECT \<or> es_kind (peer c ! i) = ES_REQUEST" "es_headers_done (peer c ! i)"
  shows "sim c (conn_session_established i sel c)"
proof (cases "length sel > WTQ_CONN_PROTOCOL_STORAGE")
  case False
  let ?c = "c\<lparr>selected := sel\<rparr>"
  have s: "sim c ?c" by (rule sim_core) (simp_all add: core_def)
  show ?thesis
  proof (cases "es_id (peer c ! i) = WTQ_STREAM_ID_UNKNOWN")
    case True
    then show ?thesis
      using False sim_trans [OF s sim_fatal] by (simp add: conn_session_established_def Let_def)
  next
    case known: False
    define c1 where "c1 = emit (CB_session_established sel (wt_profile ?c))
         (?c\<lparr>session_established := True, sess_state := SS_ESTABLISHED, session_id := es_id (peer c ! i),
            peer := (peer ?c)[i := (peer ?c ! i)\<lparr>es_is_session_stream := True\<rparr>],
            qsid_prefix := (case wtq_varint_encode (es_id (peer c ! i) div 4) 8 of Inr b \<Rightarrow> b | Inl _ \<Rightarrow> [])\<rparr>)"
    have "sim ?c c1" unfolding c1_def
      by (rule sim_step, rule s_established) (use assms known in simp_all)
    moreover define c2 where "c2 = c1\<lparr>session_es := Some i, caps_dec := wtq_capsule_dec_init\<rparr>"
    have "sim c1 c2" by (rule sim_core) (simp_all add: c2_def core_def)
    moreover have "c\<lparr>selected := sel, session_established := True, sess_state := SS_ESTABLISHED,
        session_id := es_id (peer c ! i), session_es := Some i,
        peer := (peer c)[i := (peer c ! i)\<lparr>es_is_session_stream := True\<rparr>], caps_dec := wtq_capsule_dec_init,
        qsid_prefix := (case wtq_varint_encode (es_id (peer c ! i) div 4) 8 of Inr b \<Rightarrow> b | Inl _ \<Rightarrow> []),
        trace := trace c @ [CB_session_established sel (wt_profile c)]\<rparr> = c2"
      by (rule wtq_conn.equality) (simp_all add: c2_def c1_def)
    then have "conn_session_established i sel c = (if goaway_id c \<noteq> None then session_draining c2 else c2)"
      using False known by (simp add: conn_session_established_def Let_def upd_es_def emit_def)
    ultimately show ?thesis using s sim_trans sim_draining by (metis (full_types))
  qed
qed (simp add: conn_session_established_def sim_fatal)

text \<open>What the answer to a request leaves of its stream.\<close>

definition served :: "nat \<Rightarrow> wtq_conn \<Rightarrow> wtq_conn \<Rightarrow> bool" where
  "served i c c' \<longleftrightarrow>
     length (peer c') = length (peer c) \<and> es_kind (peer c' ! i) = es_kind (peer c ! i)
     \<and> (settings_received c \<longrightarrow> parked_es c' = parked_es c)
     \<and> settings_received c' = settings_received c \<and> started c' = started c \<and> persp c' = persp c"

lemma served_refl [simp]: "served i c c"
  by (simp add: served_def)

lemma served_trans: "served i c1 c2 \<Longrightarrow> served i c2 c3 \<Longrightarrow> served i c1 c3"
  by (auto simp: served_def)

lemma calm_served: "calm c c' \<Longrightarrow> es_kind (peer c ! i) \<noteq> ES_WT \<Longrightarrow> served i c c'"
  by (simp add: served_def calm_def)

lemma served_upd: "(i < length (peer c) \<Longrightarrow> es_kind (f (peer c ! i)) = es_kind (peer c ! i)) \<Longrightarrow> served i c (upd_es i f c)"
  by (cases "i < length (peer c)") (simp_all add: served_def peer_upd_es list_update_beyond)

lemma sim_dead: "sim c (upd_es i (\<lambda>es. es\<lparr>es_request_dead := True\<rparr>) c)"
  by (rule sim_upd) (simp_all add: es_inv_dead)

lemma sim_refuse: "sim c (request_stream_refuse_err i err c)"
  unfolding request_stream_refuse_err_def using sim_trans [OF sim_shutdown sim_dead] .

lemma served_refuse: "es_kind (peer c ! i) \<noteq> ES_WT \<Longrightarrow> served i c (request_stream_refuse_err i err c)"
  unfolding request_stream_refuse_err_def
  by (rule served_trans [OF calm_served [OF calm_shutdown] served_upd]) simp_all

lemma sim_respond_dead: "sim c (respond_dead i status c)"
  unfolding respond_dead_def using sim_trans [OF conjunct1 [OF sim_send_response] sim_dead] .

lemma served_respond_dead: "es_kind (peer c ! i) \<noteq> ES_WT \<Longrightarrow> served i c (respond_dead i status c)"
  unfolding respond_dead_def
  by (rule served_trans [OF calm_served [OF conjunct2 [OF sim_send_response]] served_upd]) simp_all

lemma served_established:
  assumes "es_kind (peer c ! i) \<noteq> ES_WT"
  shows "served i c (conn_session_established i sel c)"
proof -
  define c1 where "c1 = (upd_es i (\<lambda>es. es\<lparr>es_is_session_stream := True\<rparr>)
      (c\<lparr>selected := sel, session_established := True, sess_state := SS_ESTABLISHED,
         session_id := es_id (peer c ! i), session_es := Some i\<rparr>))"
  define c2 where "c2 = emit (CB_session_established (selected c1) (wt_profile c1)) (c1\<lparr>caps_dec := wtq_capsule_dec_init,
      qsid_prefix := (case wtq_varint_encode (session_id c1 div 4) 8 of Inr b \<Rightarrow> b | Inl _ \<Rightarrow> [])\<rparr>)"
  have "served i c c1"
    by (cases "i < length (peer c)") (simp_all add: c1_def served_def peer_upd_es list_update_beyond)
  then have 1: "served i c c2" by (simp add: c2_def served_def)
  then have k: "es_kind (peer c2 ! i) \<noteq> ES_WT" using assms by (simp add: served_def)
  have "conn_session_established i sel c =
      (if length sel > WTQ_CONN_PROTOCOL_STORAGE then conn_fatal WTQ_H3_INTERNAL_ERROR c
       else if es_id (peer c ! i) = WTQ_STREAM_ID_UNKNOWN then conn_fatal WTQ_H3_INTERNAL_ERROR (c\<lparr>selected := sel\<rparr>)
       else if goaway_id c2 \<noteq> None then session_draining c2 else c2)"
    by (simp add: conn_session_established_def c2_def c1_def Let_def)
  moreover have "served i c (conn_fatal WTQ_H3_INTERNAL_ERROR (c\<lparr>selected := sel\<rparr>))"
    using assms by (intro served_trans [OF _ calm_served [OF calm_fatal]]) (simp_all add: served_def)
  ultimately show ?thesis
    using 1 assms served_trans [OF 1 calm_served [OF calm_draining k]] calm_served [OF calm_fatal assms] by simp
qed

text \<open>The only CONNECT stream of a connection.\<close>

lemma only_connect:
  assumes "conn_inv c" "i < length (peer c)" "es_kind (peer c ! i) = ES_CONNECT" "P (peer c ! i)"
  shows "\<forall>j < length (peer c). es_kind (peer c ! j) = ES_CONNECT \<longrightarrow> P (peer c ! j)"
  using assms unfolding conn_inv_def stream_inv_def by (metis at_most_oneD)

lemma server_no_connect:
  assumes "conn_inv c" "persp c \<noteq> PERSPECTIVE_CLIENT"
  shows "\<forall>j < length (peer c). es_kind (peer c ! j) = ES_CONNECT \<longrightarrow> P (peer c ! j)"
  using assms by (auto simp: conn_inv_def stream_inv_def streams_ok_def es_inv_def)

lemma inv_at: "conn_inv c \<Longrightarrow> i < length (peer c) \<Longrightarrow> es_inv c i (peer c ! i)"
  using conn_inv_ok streams_ok_at by blast

text \<open>A request of a server that its SETTINGS let it answer.\<close>

lemma sim_server_accept:
  assumes i: "i < length (peer c)" "es_kind (peer c ! i) = ES_REQUEST" "es_headers_done (peer c ! i)"
    and c: "parked_es c \<noteq> Some i" "profile_latched c"
  shows "sim c (server_accept i pol req offers c) \<and> served i c (server_accept i pol req offers c)"
proof -
  have w: "es_kind (peer c ! i) \<noteq> ES_WT" using i by simp
  have base: "sim c (respond_dead i st c) \<and> served i c (respond_dead i st c)"
    "sim c (request_stream_refuse i c) \<and> served i c (request_stream_refuse i c)"
    "sim c (conn_fatal err c) \<and> served i c (conn_fatal err c)" for st err
    using w by (simp_all add: sim_respond_dead served_respond_dead request_stream_refuse_def sim_refuse served_refuse
        sim_fatal calm_served)
  have acc: "sim c (let c = c\<lparr>req_path := cr_path req, req_auth := cr_authority req\<rparr>;
          c = server_send_response (es_ds (peer c ! i)) 200 sel c
        in if \<not> closed c then conn_session_established i s c else c)
      \<and> served i c (let c = c\<lparr>req_path := cr_path req, req_auth := cr_authority req\<rparr>;
          c = server_send_response (es_ds (peer c ! i)) 200 sel c
        in if \<not> closed c then conn_session_established i s c else c)"
    if ne: "\<not> session_established c" for sel s
  proof -
    define c0 where "c0 = c\<lparr>req_path := cr_path req, req_auth := cr_authority req\<rparr>"
    define c1 where "c1 = server_send_response (es_ds (peer c0 ! i)) 200 sel c0"
    have 0: "sim c c0" "calm c c0" by (rule sim_core; simp add: c0_def core_def) (simp add: c0_def calm_def)
    have 1: "sim c0 c1" "calm c0 c1" using sim_send_response by (simp_all add: c1_def)
    have s: "sim c c1" and m: "calm c c1" using 0 1 sim_trans calm_trans by blast+
    have p: "peer c1 ! i = peer c ! i" using calm_stream [OF m w] .
    have e: "sim c (if \<not> closed c1 then conn_session_established i s c1 else c1)"
    proof (rule simI, cases "closed c1")
      assume inv: "conn_inv c"
      case False
      have inv1: "conn_inv c1" using sim_inv [OF s inv] .
      have sv: "persp c = PERSPECTIVE_SERVER" using inv_at [OF inv i(1)] i(2) by (simp add: es_inv_def)
      have ne1: "\<not> session_established c1" using ne calm_fields(9) [OF m] by simp
      have "sess_state c1 = SS_IDLE"
        using conn_inv_session(2,4) [OF inv1] ne1 False sv calm_fields(7) [OF m] by (auto simp: was_established_def)
      then have "sim c1 (conn_session_established i s c1)"
        using False i c sv p calm_fields [OF m] server_no_connect [OF inv1]
        by (intro sim_established) simp_all
      then show ?thesis using False s sim_trans by simp
    qed (use s in simp)
    have "served i c (if \<not> closed c1 then conn_session_established i s c1 else c1)"
      using calm_served [OF m w] served_established [of c1 i s] p w by (auto intro: served_trans)
    with e show ?thesis unfolding Let_def c0_def [symmetric] c1_def [symmetric] by (rule conjI)
  qed
  show ?thesis
    unfolding server_accept_def Let_def using base acc [unfolded Let_def]
    by (simp split: option.split)
qed

lemma sim_cancel: "sim c (parked_request_cancel c)"
  unfolding parked_request_cancel_def by (intro sim_quiet r_into_rtranclp q_park) simp_all

lemma sim_server_request:
  assumes i: "i < length (peer c)" "es_kind (peer c ! i) = ES_REQUEST" "es_headers_done (peer c ! i)"
    and c: "parked_es c \<noteq> Some i" "\<not> settings_received c \<longrightarrow>
        \<not> es_is_session_stream (peer c ! i) \<and> length (es_set_buf (peer c ! i)) \<le> 512"
  shows "sim c (server_request_done i c) \<and> served i c (server_request_done i c)"
proof -
  have w: "es_kind (peer c ! i) \<noteq> ES_WT" using i by simp
  have base: "sim c (respond_dead i st c) \<and> served i c (respond_dead i st c)"
    "sim c (request_stream_refuse_err i err c) \<and> served i c (request_stream_refuse_err i err c)"
    "sim c (conn_fatal err c) \<and> served i c (conn_fatal err c)" for st err
    using w by (simp_all add: sim_respond_dead served_respond_dead sim_refuse served_refuse sim_fatal calm_served)
  have "sim c (c\<lparr>parked_es := Some i, parked_buf := es_set_buf (peer c ! i)\<rparr>)" if "\<not> settings_received c"
  proof -
    have "quiet c (c\<lparr>parked_es := Some i, parked_buf := es_set_buf (peer c ! i), parked_fin := parked_fin c\<rparr>)"
      using that i c by (intro q_park) simp_all
    then show ?thesis by (intro sim_quiet) simp
  qed
  moreover have "served i c (c\<lparr>parked_es := Some i, parked_buf := es_set_buf (peer c ! i)\<rparr>)"
    if "\<not> settings_received c" using that by (simp add: served_def)
  ultimately show ?thesis
    unfolding server_request_done_def request_stream_refuse_def Let_def
    using base sim_server_accept [OF i c(1)]
    by (auto split: sum.split wtq_connect_status.split)
qed

section \<open>The client's response\<close>

lemma sim_fail:
  assumes "persp c = PERSPECTIVE_CLIENT" "\<not> closed c" "sess_state c = SS_PENDING \<or> sess_state c = SS_SENT"
    and "conn_inv c \<Longrightarrow> \<forall>i < length (peer c). es_kind (peer c ! i) = ES_CONNECT
          \<longrightarrow> es_headers_done (peer c ! i) \<or> es_request_dead (peer c ! i)"
  shows "sim c (session_failed r c)"
  using assms by (intro sim_step s_failed)

lemma sim_maybe_establish:
  assumes i: "i < length (peer c)" "es_kind (peer c ! i) = ES_CONNECT"
    and c: "\<not> closed c" "persp c = PERSPECTIVE_CLIENT"
  shows "sim c (client_maybe_establish i c) \<and> served i c (client_maybe_establish i c)"
proof -
  let ?d = "upd_es i (\<lambda>es. es\<lparr>es_request_dead := True\<rparr>) c"
  let ?f = "session_failed FAIL_CONNECTION ?d"
  have w: "es_kind (peer c ! i) \<noteq> ES_WT" using i by simp
  have d: "peer ?d ! i = (peer c ! i)\<lparr>es_request_dead := True\<rparr>" using i by (simp add: peer_upd_es)
  have 1: "sim ?d ?f" if "sess_state c = SS_SENT"
    using that c d i only_connect [of ?d i "\<lambda>es. es_headers_done es \<or> es_request_dead es"]
    by (intro sim_fail) simp_all
  have v1: "served i c ?f"
    using w d i by (intro served_trans [OF served_upd calm_served [OF calm_failed]]) simp_all
  have k: "es_kind (peer ?f ! i) \<noteq> ES_WT" using v1 w by (simp add: served_def)
  have 2: "sim ?f (shutdown_raw ds a b code ?f) \<and> served i ?f (shutdown_raw ds a b code ?f)" for ds a b code
    using calm_served [OF calm_shutdown k] sim_shutdown by blast
  have e: "sim c (conn_session_established i s c)"
    if "sess_state c = SS_SENT" "client_response_ok c" for s
  proof (rule simI)
    assume inv: "conn_inv c"
    have hd: "es_headers_done (peer c ! i)" using inv_at [OF inv i(1)] that i(2) by (simp add: es_inv_def)
    show "sim c (conn_session_established i s c)"
    proof (rule sim_established)
      show "profile_latched c" using inv that by (simp add: conn_inv_def session_inv_def)
      show "parked_es c \<noteq> Some i" using inv_at [OF inv i(1)] i(2) by (simp add: es_inv_def)
      show "\<forall>i < length (peer c). es_kind (peer c ! i) = ES_CONNECT
          \<longrightarrow> es_headers_done (peer c ! i) \<or> es_request_dead (peer c ! i)"
        using only_connect [OF inv i, of "\<lambda>es. es_headers_done es \<or> es_request_dead es"] hd by blast
    qed (use c that i hd in simp_all)
  qed
  have 3: "sim c ?f" if "sess_state c = SS_SENT" using sim_trans [OF sim_dead 1 [OF that]] .
  have 4: "sim c (shutdown_raw ds a b code ?f)" if "sess_state c = SS_SENT" for ds a b code
    using sim_trans [OF 3 [OF that]] 2 by blast
  have 5: "served i c (shutdown_raw ds a b code ?f)" for ds a b code using served_trans [OF v1] 2 by blast
  show ?thesis
    unfolding client_maybe_establish_def Let_def
    using e served_established [OF w] 3 4 5 v1 by (simp split: option.split)
qed

lemma sim_client_response:
  assumes i: "i < length (peer c)" "es_kind (peer c ! i) = ES_CONNECT" "es_headers_done (peer c ! i)"
    and c: "\<not> closed c" "persp c = PERSPECTIVE_CLIENT" "sess_state c = SS_SENT" "\<not> client_response_ok c"
  shows "sim c (client_response_done i c) \<and> served i c (client_response_done i c)"
proof -
  have w: "es_kind (peer c ! i) \<noteq> ES_WT" using i by simp
  have hd: "conn_inv c \<Longrightarrow> \<forall>i < length (peer c). es_kind (peer c ! i) = ES_CONNECT \<longrightarrow> es_headers_done (peer c ! i)"
    using only_connect [OF _ i(1,2), of es_headers_done] i(3) by blast
  have f: "sim c (session_failed r c) \<and> served i c (session_failed r c)" for r
    using c hd calm_served [OF calm_failed w] by (auto intro!: sim_fail)
  have ff: "sim c (conn_fatal e (session_failed r c)) \<and> served i c (conn_fatal e (session_failed r c))" for e r
  proof -
    have "es_kind (peer (session_failed r c) ! i) \<noteq> ES_WT" using w by (simp add: session_failed_def)
    then show ?thesis
      using f sim_trans [OF _ sim_fatal] served_trans [OF _ calm_served [OF calm_fatal]] by blast
  qed
  have interim: "sim c (upd_es i (\<lambda>es. es\<lparr>es_headers_done := False\<rparr>) c)"
    using c i by (intro sim_upd) (auto simp: es_inv_def es_buf_def set_cap_def gathers_def)
  have rej: "sim c (emit (CB_session_rejected st) (c\<lparr>sess_state := SS_REJECTED\<rparr>))" for st
    using c hd by (intro sim_step s_rejected) auto
  have rej': "served i c (emit (CB_session_rejected st) (c\<lparr>sess_state := SS_REJECTED\<rparr>))" for st
    by (simp add: served_def)
  have ok: "sim c (client_maybe_establish i (c\<lparr>client_response_ok := True, client_selected_offer := sel\<rparr>))
      \<and> served i c (client_maybe_establish i (c\<lparr>client_response_ok := True, client_selected_offer := sel\<rparr>))" for sel
  proof -
    let ?c = "c\<lparr>client_response_ok := True, client_selected_offer := sel\<rparr>"
    have "sim c (c\<lparr>client_response_ok := True\<rparr>)" using c hd by (intro sim_quiet r_into_rtranclp q_response)
    also have "sim (c\<lparr>client_response_ok := True\<rparr>) ?c" by (rule sim_core) (simp_all add: core_def)
    finally have "sim c ?c" .
    moreover have "sim ?c (client_maybe_establish i ?c) \<and> served i ?c (client_maybe_establish i ?c)"
      using i c by (intro sim_maybe_establish) simp_all
    moreover have "served i c ?c" by (simp add: served_def)
    ultimately show ?thesis using sim_trans served_trans by blast
  qed
  show ?thesis
    unfolding client_response_done_def Let_def
    using f ff interim rej rej' ok served_upd [of i c "\<lambda>es. es\<lparr>es_headers_done := False\<rparr>"]
    by (simp split: sum.split option.split)
qed

end
