(* ===== verification/Runs_Capsule.thy ===== *)
theory Runs_Capsule
  imports Engine_Runs
begin

text \<open>
  The walk over a delivery and the capsules of the session stream as runs of the
  transition system.
\<close>

section \<open>The end of a request stream\<close>

lemma closed_fatal: "streams_ok c \<Longrightarrow> closed (conn_fatal err c)"
proof (cases "closed c")
  case False
  assume "streams_ok c"
  then have "keeps (conn_end err c) (session_conn_lost (conn_end err c))"
    by (intro lost_keeps streams_ok_end) simp_all
  then show ?thesis using False by (simp add: conn_fatal_end keeps_def)
qed (simp add: conn_fatal_session)

lemma release_kind: "i < length (peer c) \<Longrightarrow> es_kind (peer (estream_release i c) ! i) = ES_FREE"
  by (simp add: estream_release_def Let_def peer_upd_es split: option.split)

lemma sim_session_es: "sim c (if b then c\<lparr>session_es := None\<rparr> else c)"
  by (auto intro!: sim_core simp: core_def)

definition request_kind :: "es_kind \<Rightarrow> bool" where
  "request_kind k \<longleftrightarrow> k = ES_CONNECT \<or> k = ES_REQUEST"

lemma request_kind_simps [simp]:
  "request_kind ES_CONNECT" "request_kind ES_REQUEST" "\<not> request_kind ES_FREE" "\<not> request_kind ES_WT"
  "\<not> request_kind ES_CONTROL"
  by (simp_all add: request_kind_def)

lemma shutdown_upd_es:
  "shutdown_raw ds a b code (upd_es i f c) =
     (let e = D_shutdown_stream ds
                \<lparr>sh_mode = SHUTDOWN_WHOLE_STREAM, sh_abort_send = a, sh_abort_recv = b,
                 sh_app_send_cancel = False, sh_send_err = code, sh_recv_err = code\<rparr>;
          c1 = emit e c
      in if drv_result c1 \<noteq> WTQ_OK \<and> drv_result c1 \<noteq> WTQ_ERR_CLOSED
         then conn_fatal WTQ_H3_INTERNAL_ERROR (upd_es i f c1) else upd_es i f c1)"
proof -
  have "emit e (upd_es i f c) = upd_es i f (emit e c)" for e
    by (simp add: emit_def upd_es_def)
  then show ?thesis by (simp add: shutdown_raw_def Let_def drv_result_def)
qed

lemma upd_es_twice: "i < length (peer c) \<Longrightarrow> upd_es i g (upd_es i f c) = upd_es i (\<lambda>es. g (f es)) c"
  by (simp add: upd_es_def)

text \<open>A refusal in the middle of a frame header.\<close>

lemma sim_refuse_upd:
  assumes i: "i < length (peer c)" "\<not> closed c" "es_kind (f (peer c ! i)) = es_kind (peer c ! i)"
    and f: "conn_inv c \<Longrightarrow> fatal_upd c i f" "conn_inv c \<Longrightarrow> es_inv c i ((f (peer c ! i))\<lparr>es_request_dead := True\<rparr>)"
  shows "sim c (request_stream_refuse_err i err (upd_es i f c))"
proof -
  let ?e = "\<lambda>ds. D_shutdown_stream ds
    \<lparr>sh_mode = SHUTDOWN_WHOLE_STREAM, sh_abort_send = True, sh_abort_recv = True,
     sh_app_send_cancel = False, sh_send_err = err, sh_recv_err = err\<rparr>"
  let ?dead = "upd_es i (\<lambda>es. es\<lparr>es_request_dead := True\<rparr>)"
  define c1 where "c1 = emit (?e (es_ds (peer (upd_es i f c) ! i))) c"
  have s: "sim c c1" by (simp add: c1_def sim_event)
  have eq: "request_stream_refuse_err i err (upd_es i f c) =
      ?dead (if drv_result c1 \<noteq> WTQ_OK \<and> drv_result c1 \<noteq> WTQ_ERR_CLOSED
             then conn_fatal WTQ_H3_INTERNAL_ERROR (upd_es i f c1) else upd_es i f c1)"
    by (simp add: request_stream_refuse_err_def shutdown_upd_es c1_def Let_def)
  have inv: "conn_inv c1 \<Longrightarrow> conn_inv c"
    by (simp add: c1_def conn_inv_def end_inv_def)
  have "sim c1 (conn_fatal WTQ_H3_INTERNAL_ERROR (upd_es i f c1))"
  proof (rule sim_fatal_upd)
    show "\<not> closed c1" using i by (simp add: c1_def)
    assume "conn_inv c1"
    then have "fatal_upd c i f" using inv f by blast
    then show "fatal_upd c1 i f"
      by (simp add: fatal_upd_def c1_def es_inv_view [of "(emit (?e ds) c)\<lparr>closed := True\<rparr>" "c\<lparr>closed := True\<rparr>" for ds]
          es_view_def)
  qed
  then have 1: "sim c (?dead (conn_fatal WTQ_H3_INTERNAL_ERROR (upd_es i f c1)))"
    using s sim_dead sim_trans by blast
  have "sim c1 (upd_es i (\<lambda>es. (f es)\<lparr>es_request_dead := True\<rparr>) c1)"
    using i inv f by (intro sim_upd) (simp_all add: c1_def)
  then have 2: "sim c (?dead (upd_es i f c1))"
    using s sim_trans i by (simp add: upd_es_twice c1_def)
  show ?thesis unfolding eq using 1 2 by simp
qed

text \<open>The rest of a failing request stream, from any refusal.\<close>

lemma sim_fail_tail:
  assumes i: "i < length (peer c)" "request_kind (es_kind (peer c ! i))"
  shows "sim c (let c = (if parked_es c = Some i then parked_request_cancel c else c)
      in if es_is_session_stream (peer c ! i) then
           let c = (if session_es c = Some i then c\<lparr>session_es := None\<rparr> else c);
               c = estream_release i c
           in session_closed 0 [] False c
         else c)"
proof -
  define c1 where "c1 = (if parked_es c = Some i then parked_request_cancel c else c)"
  define c2 where "c2 = (if session_es c1 = Some i then c1\<lparr>session_es := None\<rparr> else c1)"
  have 1: "sim c c1" by (simp add: c1_def sim_cancel)
  have 2: "sim c1 c2" by (simp add: c2_def sim_session_es)
  have p: "parked_es c2 \<noteq> Some i" "peer c2 = peer c" by (simp_all add: c2_def c1_def parked_request_cancel_def)
  have 3: "sim c2 (estream_release i c2)" using p i by (intro sim_release) (auto simp: request_kind_def)
  have "sim c1 (session_closed 0 [] False (estream_release i c2))"
    using sim_trans [OF 2 sim_trans [OF 3 sim_closed]] .
  then show ?thesis using 1 sim_trans unfolding Let_def c1_def [symmetric] c2_def [symmetric] by simp
qed

lemma request_stream_fail_eq:
  "request_stream_fail i err c =
     (let c = request_stream_refuse_err i err c;
          c = (if parked_es c = Some i then parked_request_cancel c else c)
      in if es_is_session_stream (peer c ! i) then
           let c = (if session_es c = Some i then c\<lparr>session_es := None\<rparr> else c);
               c = estream_release i c
           in session_closed 0 [] False c
         else c)"
  by (simp add: request_stream_fail_def)

lemma sim_request_fail:
  assumes "i < length (peer c)" "request_kind (es_kind (peer c ! i))"
  shows "sim c (request_stream_fail i err c)"
proof -
  let ?c = "request_stream_refuse_err i err c"
  have "served i c ?c" using assms by (intro served_refuse) (auto simp: request_kind_def)
  then have "sim ?c (let c = (if parked_es ?c = Some i then parked_request_cancel ?c else ?c)
      in if es_is_session_stream (peer c ! i) then
           let c = (if session_es c = Some i then c\<lparr>session_es := None\<rparr> else c);
               c = estream_release i c
           in session_closed 0 [] False c
         else c)"
    using assms by (intro sim_fail_tail) (simp_all add: served_def)
  then show ?thesis unfolding request_stream_fail_eq Let_def using sim_trans [OF sim_refuse] by blast
qed

lemma request_kind_wt: "request_kind k \<Longrightarrow> k \<noteq> ES_WT" "request_kind k \<Longrightarrow> k \<noteq> ES_CONTROL" "request_kind k \<Longrightarrow> k \<noteq> ES_FREE"
  by (auto simp: request_kind_def)

lemma refuse_stream:
  assumes "i < length (peer c)" "request_kind (es_kind (peer c ! i))"
  shows "peer (request_stream_refuse_err i err c) ! i = (peer c ! i)\<lparr>es_request_dead := True\<rparr>"
proof -
  let ?c = "shutdown_raw (es_ds (peer c ! i)) True True err c"
  have "peer ?c ! i = peer c ! i" "length (peer ?c) = length (peer c)"
    using assms calm_stream [OF calm_shutdown] calm_fields(1) [OF calm_shutdown] request_kind_wt by blast+
  then show ?thesis using assms by (simp add: request_stream_refuse_err_def peer_upd_es)
qed

lemma refuse_length [simp]: "length (peer (request_stream_refuse_err i err c)) = length (peer c)"
  using calm_fields(1) [OF calm_shutdown] by (simp add: request_stream_refuse_err_def)

lemma cancel_simps [simp]:
  "peer (parked_request_cancel c) = peer c" "parked_es (parked_request_cancel c) = None"
  "session_es (parked_request_cancel c) = session_es c"
  by (simp_all add: parked_request_cancel_def)

lemma fail_frees:
  assumes "i < length (peer c)" "request_kind (es_kind (peer c ! i))" "es_is_session_stream (peer c ! i)"
  shows "es_kind (peer (request_stream_fail i err c) ! i) = ES_FREE"
proof -
  define c1 where "c1 = request_stream_refuse_err i err c"
  define c2 where "c2 = (if parked_es c1 = Some i then parked_request_cancel c1 else c1)"
  define c3 where "c3 = estream_release i (if session_es c2 = Some i then c2\<lparr>session_es := None\<rparr> else c2)"
  have p: "peer c2 = peer c1" by (simp add: c2_def parked_request_cancel_def)
  have k: "es_kind (peer c3 ! i) = ES_FREE"
    unfolding c3_def using assms p by (subst release_kind) (auto simp: c1_def)
  have "request_stream_fail i err c = session_closed 0 [] False c3"
    using assms p refuse_stream [OF assms(1,2)]
    by (simp add: request_stream_fail_def c3_def c2_def c1_def Let_def)
  then show ?thesis using calm_stream [OF calm_closed, of c3 i] k by simp
qed

section \<open>Walks\<close>

lemma walk_sim:
  assumes turn: "\<And>data c c' r. J c \<Longrightarrow> data \<noteq> [] \<Longrightarrow> \<not> closed c \<Longrightarrow> turn data c = (c', r)
      \<Longrightarrow> sim c c' \<and> (r \<noteq> None \<longrightarrow> closed c' \<or> J c')"
    and "J c"
  shows "sim c (walk turn data c)"
proof -
  have "J c \<Longrightarrow> sim c (walk turn data c)" for c data
  proof (induction "length data" arbitrary: data c rule: less_induct)
    case less
    show ?case
    proof (cases "data = [] \<or> closed c")
      case False
      obtain c' r where t: "turn data c = (c', r)" by (cases "turn data c")
      then have s: "sim c c'" "r \<noteq> None \<longrightarrow> closed c' \<or> J c'" using turn less.prems False by blast+
      show ?thesis
      proof (cases r)
        case None
        then show ?thesis using False t s by (simp add: walk.simps)
      next
        case (Some rest)
        have "sim c' (walk turn rest c')" if "length rest < length data"
        proof (cases "closed c'")
          case True
          then show ?thesis by (simp add: walk.simps)
        qed (use less.hyps [OF that] s Some in simp)
        then show ?thesis using False t s(1) Some sim_trans by (auto simp: walk.simps [of turn data])
      qed
    qed (simp add: walk.simps)
  qed
  then show ?thesis using assms(2) by blast
qed

text \<open>What a walk leaves: the invariant of its turns, or what a turn that returns leaves.\<close>

lemma walk_post:
  assumes turn: "\<And>data c c' r. J c \<Longrightarrow> data \<noteq> [] \<Longrightarrow> \<not> closed c \<Longrightarrow> turn data c = (c', r)
      \<Longrightarrow> (if r = None then P c' else J c' \<or> closed c' \<and> P c')"
    and stuck: "\<And>c. J c \<Longrightarrow> P c"
    and "J c"
  shows "P (walk turn data c)"
proof -
  have "J c \<Longrightarrow> P (walk turn data c)" for c data
  proof (induction "length data" arbitrary: data c rule: less_induct)
    case less
    show ?case
    proof (cases "data = [] \<or> closed c")
      case False
      obtain c' r where t: "turn data c = (c', r)" by (cases "turn data c")
      then have s: "if r = None then P c' else J c' \<or> closed c' \<and> P c'" using turn less.prems False by blast
      show ?thesis
      proof (cases r)
        case None
        then show ?thesis using False t s by (simp add: walk.simps)
      next
        case (Some rest)
        have "P (walk turn rest c')" if "length rest < length data"
        proof (cases "J c'")
          case False
          then show ?thesis using s Some by (simp add: walk.simps)
        qed (use less.hyps [OF that] in simp)
        then show ?thesis using False t s Some stuck by (auto simp: walk.simps [of turn data])
      qed
    qed (use less stuck in \<open>simp add: walk.simps\<close>)
  qed
  then show ?thesis using assms(3) by blast
qed

section \<open>Capsules\<close>

definition capsule_ready :: "nat \<Rightarrow> wtq_estream \<Rightarrow> wtq_conn \<Rightarrow> bool" where
  "capsule_ready i es c \<longleftrightarrow>
     conn_inv c \<and> i < length (peer c) \<and> peer c ! i = es \<and> request_kind (es_kind es) \<and> es_is_session_stream es
     \<and> parked_es c \<noteq> Some i"

definition capsule_left :: "nat \<Rightarrow> wtq_estream \<Rightarrow> wtq_conn \<Rightarrow> bool" where
  "capsule_left i es c \<longleftrightarrow> closed c \<or> es_kind (peer c ! i) = ES_FREE \<or> peer c ! i = es"

lemma sim_poisoned:
  assumes "i < length (peer c)" "request_kind (es_kind (peer c ! i))" "parked_es c \<noteq> Some i"
  shows "sim c (session_stream_poisoned i c)" "es_kind (peer (session_stream_poisoned i c) ! i) = ES_FREE"
proof -
  define c1 where "c1 = shutdown_raw (es_ds (peer c ! i)) True True WTQ_H3_MESSAGE_ERROR c"
  define c2 where "c2 = (if session_es c1 = Some i then c1\<lparr>session_es := None\<rparr> else c1)"
  have m: "calm c c1" by (simp add: c1_def)
  have 1: "sim c c1" by (simp add: c1_def sim_shutdown)
  have 2: "sim c1 c2" by (simp add: c2_def sim_session_es)
  have p: "peer c2 ! i = peer c ! i" "parked_es c2 = parked_es c" "i < length (peer c2)"
    using calm_stream [OF m, of i] calm_fields [OF m] assms request_kind_wt by (auto simp: c2_def)
  have "sim c2 (estream_release i c2)" using p assms request_kind_wt by (intro sim_release) auto
  with 1 2 have "sim c (estream_release i c2)" using sim_trans by blast
  moreover have eq: "session_stream_poisoned i c = estream_release i c2"
    unfolding session_stream_poisoned_def c2_def c1_def Let_def ..
  ultimately show "sim c (session_stream_poisoned i c)" by simp
  show "es_kind (peer (session_stream_poisoned i c) ! i) = ES_FREE" using release_kind [OF p(3)] eq by simp
qed

lemma capsule_ready_sim:
  assumes "capsule_ready i es c" "sim c c'" "calm c c'"
  shows "capsule_ready i es c'"
  using assms sim_inv [OF assms(2)] calm_stream [OF assms(3), of i] calm_fields [OF assms(3)] request_kind_wt
  by (auto simp: capsule_ready_def)

lemma capsule_turn_sim:
  assumes J: "capsule_ready i es c" and t: "capsule_turn i data c = (c', r)"
  shows "sim c c' \<and> (if r = None then capsule_left i es c' else capsule_ready i es c')"
proof -
  obtain d res n where f: "wtq_capsule_dec_feed (caps_dec c) data = (d, res, n)" by (metis prod_cases3)
  define c1 where "c1 = c\<lparr>caps_dec := d\<rparr>"
  have s1: "sim c c1"
    using f capsule.inv_feed by (intro sim_core) (auto simp: c1_def core_def)
  have m1: "calm c c1" by (simp add: c1_def calm_def)
  have J1: "capsule_ready i es c1" using J s1 m1 by (rule capsule_ready_sim)
  then have k: "i < length (peer c1)" "request_kind (es_kind (peer c1 ! i))" "parked_es c1 \<noteq> Some i"
    "es_is_session_stream (peer c1 ! i)" "streams_ok c1" "peer c1 ! i = es"
    by (auto simp: capsule_ready_def conn_inv_ok)
  show ?thesis
  proof (cases res)
    case (Inl st)
    have fail: "sim c (request_stream_fail i e c1)" "capsule_left i es (request_stream_fail i e c1)" for e
      using sim_trans [OF s1 sim_request_fail] fail_frees k by (auto simp: capsule_left_def)
    have fatal: "sim c (conn_fatal e c1)" "capsule_left i es (conn_fatal e c1)" for e
      using sim_trans [OF s1 sim_fatal] closed_fatal k by (auto simp: capsule_left_def)
    have "capsule_left i es c1" using k by (simp add: capsule_left_def)
    then show ?thesis
      using t f Inl s1 fail fatal by (auto simp: capsule_turn_def c1_def [symmetric] Let_def split: wtq_status.splits if_splits)
  next
    case (Inr cap)
    define c2 where "c2 = c1\<lparr>close_capsule_rx := True\<rparr>"
    define c3 where "c3 = (if sess_state c = SS_CLOSED then c2 else session_closed (cap_close_code cap) (cap_reason cap) True c2)"
    have "sim c1 c2" by (rule sim_core) (simp_all add: c2_def core_def)
    moreover have "sim c2 c3" by (simp add: c3_def sim_closed)
    ultimately have s3: "sim c c3" using s1 sim_trans by blast
    have "calm c1 c2" "calm c2 c3" by (simp_all add: c2_def c3_def) (simp add: calm_def)
    then have m3: "calm c c3" using m1 calm_trans by blast
    have J3: "capsule_ready i es c3" using J s3 m3 by (rule capsule_ready_sim)
    have pz: "sim c (session_stream_poisoned i c3)" "capsule_left i es (session_stream_poisoned i c3)"
      using J3 sim_poisoned [of i c3] s3 sim_trans by (auto simp: capsule_ready_def capsule_left_def)
    have dr: "sim c (session_draining c1)" "capsule_ready i es (session_draining c1)"
      using sim_trans [OF s1 sim_draining] capsule_ready_sim [OF J1 sim_draining calm_draining] by blast+
    show ?thesis
      using t f Inr s1 s3 J1 J3 pz dr
      by (auto simp: capsule_turn_def c1_def [symmetric] c2_def [symmetric] c3_def [symmetric] Let_def split: if_splits)
  qed
qed

lemma sim_capsule_bytes:
  assumes "capsule_ready i es c"
  shows "sim c (session_capsule_bytes i data c)" "capsule_left i es (session_capsule_bytes i data c)"
proof -
  have k: "i < length (peer c)" "request_kind (es_kind (peer c ! i))" "parked_es c \<noteq> Some i"
    using assms by (auto simp: capsule_ready_def)
  have 1: "sim c (walk (capsule_turn i) data c)"
    by (rule walk_sim [where J = "capsule_ready i es"]) (use assms capsule_turn_sim in \<open>fastforce split: if_splits\<close>)+
  have 2: "capsule_left i es (walk (capsule_turn i) data c)"
    by (rule walk_post [where J = "capsule_ready i es"])
      (use assms capsule_turn_sim in \<open>(fastforce simp: capsule_ready_def capsule_left_def split: if_splits)+\<close>)
  show "sim c (session_capsule_bytes i data c)" "capsule_left i es (session_capsule_bytes i data c)"
    using 1 2 sim_poisoned [OF k] by (auto simp: session_capsule_bytes_def capsule_left_def)
qed

end
