(* ===== verification/Runs_Request.thy ===== *)
theory Runs_Request
  imports Runs_Capsule
begin

text \<open>
  Frames on request and CONNECT streams as runs of the transition system.
\<close>

section \<open>Frames on request streams\<close>

definition request_ready :: "nat \<Rightarrow> wtq_conn \<Rightarrow> bool" where
  "request_ready i c \<longleftrightarrow>
     conn_inv c \<and> i < length (peer c) \<and> request_kind (es_kind (peer c ! i)) \<and> \<not> es_request_dead (peer c ! i)"

text \<open>What a delivery leaves of the stream's kind.\<close>

definition kept :: "nat \<Rightarrow> es_kind \<Rightarrow> wtq_conn \<Rightarrow> bool" where
  "kept i k c \<longleftrightarrow> closed c \<or> es_kind (peer c ! i) = ES_FREE \<or> es_kind (peer c ! i) = k"

lemma kept_served: "served i c c' \<Longrightarrow> es_kind (peer c ! i) = k \<Longrightarrow> kept i k c'"
  by (simp add: served_def kept_def)

lemma kept_fatal: "es_kind (peer c ! i) = k \<Longrightarrow> k \<noteq> ES_WT \<Longrightarrow> kept i k (conn_fatal err c)"
  using kept_served [OF calm_served [OF calm_fatal]] by blast

lemma kept_refuse: "es_kind (peer c ! i) = k \<Longrightarrow> k \<noteq> ES_WT \<Longrightarrow> kept i k (request_stream_refuse_err i err c)"
  using kept_served [OF served_refuse] by blast

lemma kept_fail:
  assumes "i < length (peer c)" "es_kind (peer c ! i) = k" "request_kind k"
  shows "kept i k (request_stream_fail i err c)"
proof (cases "es_is_session_stream (peer c ! i)")
  case True
  then show ?thesis using fail_frees assms by (simp add: kept_def)
next
  case False
  then show ?thesis
    using refuse_stream [of i c err] assms by (simp add: request_stream_fail_def kept_def Let_def)
qed

text \<open>A complete HEADERS frame.\<close>

lemma es_inv_headers:
  "es_inv c i es \<Longrightarrow> \<not> es_frame_active es \<Longrightarrow> es_inv c i (es\<lparr>es_headers_done := True\<rparr>)"
  by (cases "es_kind es") (simp_all add: es_inv_def es_buf_def set_cap_def split: if_splits)

lemma es_inv_trailers:
  "es_inv c i es \<Longrightarrow> \<not> es_frame_active es \<Longrightarrow> es_inv c i (es\<lparr>es_trailers_done := True, es_set_buf := []\<rparr>)"
  by (cases "es_kind es") (simp_all add: es_inv_def es_buf_def set_cap_def)

lemma sim_headers_end:
  assumes J: "request_ready i c" and c: "\<not> closed c" "\<not> es_frame_active (peer c ! i)"
    and e: "request_headers_end i c = (c', go)"
  shows "sim c c' \<and> kept i (es_kind (peer c ! i)) c'
    \<and> (go \<longrightarrow> \<not> closed c' \<longrightarrow> \<not> es_request_dead (peer c' ! i) \<longrightarrow> request_ready i c')"
proof -
  have inv: "conn_inv c" and i: "i < length (peer c)" and k: "request_kind (es_kind (peer c ! i))"
    using J by (simp_all add: request_ready_def)
  have es: "es_inv c i (peer c ! i)" using inv_at [OF inv i] .
  have w: "es_kind (peer c ! i) \<noteq> ES_WT" using k request_kind_wt by blast
  have ready: "request_ready i c1" if "sim c c1" "served i c c1" "\<not> es_request_dead (peer c1 ! i)" for c1
    using that sim_inv [OF that(1) inv] i k by (simp add: request_ready_def served_def)
  show ?thesis
  proof (cases "es_headers_done (peer c ! i)")
    case False
    define c1 where "c1 = upd_es i (\<lambda>es. es\<lparr>es_headers_done := True\<rparr>) c"
    have s1: "sim c c1" unfolding c1_def using c(2) by (intro sim_upd es_inv_headers) simp_all
    have v1: "served i c c1" unfolding c1_def by (rule served_upd) simp
    have p1: "peer c1 ! i = (peer c ! i)\<lparr>es_headers_done := True\<rparr>" using i by (simp add: c1_def peer_upd_es)
    have "sim c1 (if es_kind (peer c1 ! i) = ES_CONNECT then client_response_done i c1 else server_request_done i c1)
      \<and> served i c1 (if es_kind (peer c1 ! i) = ES_CONNECT then client_response_done i c1 else server_request_done i c1)"
    proof (cases "es_kind (peer c ! i) = ES_CONNECT")
      case True
      have "sim c1 (client_response_done i c1) \<and> served i c1 (client_response_done i c1)"
      proof (rule sim_client_response)
        show "sess_state c1 = SS_SENT" "persp c1 = PERSPECTIVE_CLIENT" "\<not> client_response_ok c1"
          using es True False c J by (simp_all add: c1_def es_inv_def request_ready_def)
      qed (use i True p1 c in \<open>simp_all add: c1_def\<close>)
      then show ?thesis using True p1 by simp
    next
      case server: False
      then have r: "es_kind (peer c ! i) = ES_REQUEST" using k by (simp add: request_kind_def)
      have "sim c1 (server_request_done i c1) \<and> served i c1 (server_request_done i c1)"
      proof (rule sim_server_request)
        show "parked_es c1 \<noteq> Some i" using es False r by (auto simp add: c1_def es_inv_def)
        show "\<not> settings_received c1 \<longrightarrow>
            \<not> es_is_session_stream (peer c1 ! i) \<and> length (es_set_buf (peer c1 ! i)) \<le> 512"
          using es False r p1 by (simp add: es_inv_def es_buf_def set_cap_def)
      qed (use i r p1 in \<open>simp_all add: c1_def\<close>)
      then show ?thesis using server p1 by simp
    qed
    moreover have "c' = (if es_kind (peer c1 ! i) = ES_CONNECT then client_response_done i c1 else server_request_done i c1)"
      using e False by (simp add: request_headers_end_def c1_def [symmetric] Let_def del: if_split)
    ultimately have "sim c c'" "served i c c'" using sim_trans [OF s1] served_trans [OF v1] by simp_all
    then show ?thesis using ready kept_served by blast
  next
    case True
    define c1 where "c1 = upd_es i (\<lambda>es. es\<lparr>es_trailers_done := True, es_set_buf := []\<rparr>) c"
    have s1: "sim c c1" unfolding c1_def using c(2) by (intro sim_upd es_inv_trailers) simp_all
    have v1: "served i c c1" unfolding c1_def by (rule served_upd) simp
    have "sim c (conn_fatal err c1)" "sim c (request_stream_fail i err c1)" for err
      using sim_trans [OF s1 sim_fatal] sim_trans [OF s1 sim_request_fail] v1 i k by (simp_all add: served_def)
    moreover have "kept i (es_kind (peer c ! i)) c1" "kept i (es_kind (peer c ! i)) (conn_fatal err c1)"
      "kept i (es_kind (peer c ! i)) (request_stream_fail i err c1)" for err
      using v1 w i k kept_served [OF v1] kept_fatal kept_fail by (simp_all add: served_def)
    moreover have "request_ready i c1 \<or> es_request_dead (peer c1 ! i)" using ready s1 v1 by blast
    moreover have "c' = c1 \<or> (\<exists>err. c' = conn_fatal err c1 \<and> \<not> go) \<or> (\<exists>err. c' = request_stream_fail i err c1 \<and> \<not> go)"
      using e True unfolding request_headers_end_def Let_def c1_def [symmetric]
      by (simp split: option.splits wtq_connect_status.splits) blast+
    ultimately show ?thesis using s1 by blast
  qed
qed

text \<open>
  The payload of a frame that has just begun: the stream is what it will be once
  the frame is over, and a gathered frame fits.
\<close>

definition frame_open :: "wtq_conn \<Rightarrow> nat \<Rightarrow> nat \<Rightarrow> wtq_estream \<Rightarrow> bool" where
  "frame_open c i n es \<longleftrightarrow>
     (request_kind (es_kind es) \<or> es_kind es = ES_CONTROL)
     \<and> es_inv c i (es\<lparr>es_frame_active := False\<rparr>) \<and> es_frame_active es \<and> n \<le> unat (es_frame_remaining es)
     \<and> (es_frame_kind es = CF_CAPSULE \<longrightarrow> es_is_session_stream es)
     \<and> (es_kind es = ES_CONTROL \<and> es_frame_kind es = CF_SETTINGS \<longrightarrow> \<not> settings_received c)
     \<and> (gathers es \<longrightarrow> unat (es_frame_remaining es) \<le> 512 + n
          \<and> length (es_set_buf es) + (unat (es_frame_remaining es) - n) \<le> set_cap es)"

lemma frame_fields [simp]:
  "gathers (es\<lparr>es_frame_remaining := r\<rparr>) = gathers es" "set_cap (es\<lparr>es_frame_remaining := r\<rparr>) = set_cap es"
  "gathers (es\<lparr>es_set_buf := b\<rparr>) = gathers es" "set_cap (es\<lparr>es_set_buf := b\<rparr>) = set_cap es"
  "gathers (es\<lparr>es_frame_dec := d\<rparr>) = gathers es" "set_cap (es\<lparr>es_frame_dec := d\<rparr>) = set_cap es"
  "gathers (es\<lparr>es_frame_active := a\<rparr>) = gathers es" "set_cap (es\<lparr>es_frame_active := a\<rparr>) = set_cap es"
  by (simp_all add: gathers_def set_cap_def)

lemma es_inv_active:
  assumes "es_inv c i (es\<lparr>es_frame_active := False\<rparr>)" "request_kind (es_kind es) \<or> es_kind es = ES_CONTROL"
    and "0 < unat (es_frame_remaining es)" "es_frame_kind es = CF_CAPSULE \<longrightarrow> es_is_session_stream es"
    and "es_kind es = ES_CONTROL \<and> es_frame_kind es = CF_SETTINGS \<longrightarrow> \<not> settings_received c"
    and "gathers es \<longrightarrow> unat (es_frame_remaining es) \<le> 512
           \<and> length (es_set_buf es) + unat (es_frame_remaining es) \<le> set_cap es"
  shows "es_inv c i es"
  using assms unfolding request_kind_def es_inv_def es_buf_def gathers_def set_cap_def
  by (elim disjE) simp_all

lemma es_inv_frame:
  assumes "frame_open c i n es" "es_frame_remaining es \<noteq> of_nat n"
  shows "es_inv c i (es\<lparr>es_frame_remaining := es_frame_remaining es - of_nat n\<rparr>)"
proof (rule es_inv_active)
  have r: "unat (es_frame_remaining es - of_nat n) = unat (es_frame_remaining es) - n"
    using assms(1) by (intro unat_minus_of_nat) (simp add: frame_open_def)
  have "unat (es_frame_remaining es) \<noteq> n" using assms(2) by auto
  then show "0 < unat (es_frame_remaining (es\<lparr>es_frame_remaining := es_frame_remaining es - of_nat n\<rparr>))"
    using r assms(1) by (simp add: frame_open_def)
  have "es_inv c i (es\<lparr>es_frame_active := False\<rparr>)" using assms(1) by (simp add: frame_open_def)
  then show "es_inv c i (es\<lparr>es_frame_remaining := es_frame_remaining es - of_nat n, es_frame_active := False\<rparr>)"
    by (simp add: es_inv_def es_buf_def set_cap_def)
  show "gathers (es\<lparr>es_frame_remaining := es_frame_remaining es - of_nat n\<rparr>) \<longrightarrow>
      unat (es_frame_remaining (es\<lparr>es_frame_remaining := es_frame_remaining es - of_nat n\<rparr>)) \<le> 512
      \<and> length (es_set_buf (es\<lparr>es_frame_remaining := es_frame_remaining es - of_nat n\<rparr>))
          + unat (es_frame_remaining (es\<lparr>es_frame_remaining := es_frame_remaining es - of_nat n\<rparr>))
        \<le> set_cap (es\<lparr>es_frame_remaining := es_frame_remaining es - of_nat n\<rparr>)"
    using r assms(1) by (auto simp: frame_open_def)
qed (use assms(1) in \<open>simp_all add: frame_open_def\<close>)

lemma es_inv_frame_end:
  assumes "frame_open c i n es"
  shows "es_inv c i (es\<lparr>es_frame_remaining := v, es_frame_active := False\<rparr>)"
  using assms by (cases "es_kind es") (simp_all add: frame_open_def es_inv_def es_buf_def set_cap_def)

lemma es_inv_inactive: "es_inv c i es \<Longrightarrow> es_inv c i (es\<lparr>es_frame_active := False\<rparr>)"
  by (cases "es_kind es") (simp_all add: es_inv_def es_buf_def set_cap_def)

lemma frame_open_real:
  assumes "es_inv c i es" "\<not> closed c" "es_frame_active es" "n \<le> unat (es_frame_remaining es)"
    and "request_kind (es_kind es) \<and> \<not> es_request_dead es \<or> es_kind es = ES_CONTROL"
  shows "frame_open c i n es"
proof -
  have "request_kind (es_kind es) \<or> es_kind es = ES_CONTROL" using assms(5) by blast
  moreover have "(es_frame_kind es = CF_CAPSULE \<longrightarrow> es_is_session_stream es)
      \<and> (es_kind es = ES_CONTROL \<and> es_frame_kind es = CF_SETTINGS \<longrightarrow> \<not> settings_received c)
      \<and> (gathers es \<longrightarrow> unat (es_frame_remaining es) \<le> 512
          \<and> length (es_set_buf es) + unat (es_frame_remaining es) \<le> set_cap es)"
    using assms unfolding es_inv_def es_buf_def request_kind_def by (elim disjE conjE) simp_all
  ultimately show ?thesis
    using assms(3,4) es_inv_inactive [OF assms(1)] unfolding frame_open_def by auto
qed

lemma frame_open_mono:
  "frame_open c i 0 es \<Longrightarrow> n \<le> unat (es_frame_remaining es) \<Longrightarrow> frame_open c i n es"
  unfolding frame_open_def by auto

lemma frame_open_gather:
  assumes "frame_open c i 0 es" "gathers es" "length b \<le> unat (es_frame_remaining es)"
  shows "frame_open c i (length b) (es\<lparr>es_set_buf := es_set_buf es @ b\<rparr>)"
proof -
  let ?es = "es\<lparr>es_set_buf := es_set_buf es @ b\<rparr>"
  have k: "request_kind (es_kind es) \<or> es_kind es = ES_CONTROL" and i: "es_inv c i (es\<lparr>es_frame_active := False\<rparr>)"
    and l: "length (es_set_buf es) + length b \<le> set_cap es"
    using assms by (simp_all add: frame_open_def)
  have "es_inv c i (es\<lparr>es_set_buf := es_set_buf es @ b, es_frame_active := False\<rparr>)"
    using i k l unfolding es_inv_def es_buf_def request_kind_def set_cap_def by (elim disjE) simp_all
  then show ?thesis using assms unfolding frame_open_def by simp
qed

lemma sim_const:
  assumes "es_inv c i es" "i < length (peer c)" "es_kind es = es_kind (peer c ! i)"
  shows "sim c (upd_es i (\<lambda>_. es) c)"
  using assms by (intro sim_upd) simp_all

lemma sim_payload_end:
  assumes inv: "conn_inv c" and i: "i < length (peer c)" and c: "\<not> closed c"
    and es: "frame_open c i n es" "es_kind es = es_kind (peer c ! i)" "request_kind (es_kind es)" "\<not> es_request_dead es"
    and e: "request_payload_end i n rest (upd_es i (\<lambda>_. es) c) = (c', r)"
  shows "sim c c' \<and> kept i (es_kind es) c' \<and> (r \<noteq> None \<longrightarrow> request_ready i c')"
proof -
  define e1 where "e1 = es\<lparr>es_frame_remaining := es_frame_remaining es - of_nat n\<rparr>"
  have u: "upd_es i f (upd_es i (\<lambda>_. x) c) = upd_es i (\<lambda>_. f x) c" for f x
    using i by (simp add: upd_es_twice)
  have p: "peer (upd_es i (\<lambda>_. x) c) ! i = x" for x using i by (simp add: peer_upd_es)
  have ready: "sim c (upd_es i (\<lambda>_. x) c) \<and> request_ready i (upd_es i (\<lambda>_. x) c)"
    if "es_inv c i x" "es_kind x = es_kind es" "\<not> es_request_dead x" for x
    using sim_inv [OF sim_const inv, of i x] sim_const [of c i x] that i es p by (simp add: request_ready_def)
  have a: "es_frame_active e1" using es(1) by (simp add: e1_def frame_open_def)
  show ?thesis
  proof (cases "es_frame_remaining e1 = 0")
    case False
    then have "es_inv c i e1" unfolding e1_def using es(1) by (intro es_inv_frame) auto
    moreover have "c' = upd_es i (\<lambda>_. e1) c"
      using e False by (simp add: request_payload_end_def u p e1_def Let_def)
    ultimately show ?thesis using ready [of e1] es p by (simp add: e1_def kept_def)
  next
    case True
    let ?e2 = "e1\<lparr>es_frame_active := False\<rparr>"
    let ?c2 = "upd_es i (\<lambda>_. ?e2) c"
    have "es_inv c i ?e2" unfolding e1_def using es(1) by (simp add: es_inv_frame_end)
    then have s2: "sim c ?c2" "request_ready i ?c2" using ready [of ?e2] es by (simp_all add: e1_def)
    show ?thesis
    proof (cases "es_frame_type es = WTQ_H3_FRAME_HEADERS")
      case False
      then have "c' = ?c2"
        using e True a by (simp add: request_payload_end_def u p e1_def Let_def)
      then show ?thesis using s2 p by (simp add: kept_def e1_def)
    next
      case h: True
      obtain c3 go where h3: "request_headers_end i ?c2 = (c3, go)" by fastforce
      then have "sim ?c2 c3 \<and> kept i (es_kind (peer ?c2 ! i)) c3 \<and> (go \<longrightarrow> \<not> closed c3 \<longrightarrow> \<not> es_request_dead (peer c3 ! i) \<longrightarrow> request_ready i c3)"
        using s2(2) c p by (intro sim_headers_end) simp_all
      moreover have "c' = c3 \<and> (r \<noteq> None \<longrightarrow> go \<and> \<not> closed c3 \<and> \<not> es_request_dead (peer c3 ! i))"
        using e True a h h3 by (simp add: request_payload_end_def u p e1_def Let_def split: if_splits)
      ultimately show ?thesis using sim_trans [OF s2(1)] p by (simp add: e1_def)
    qed
  qed
qed

lemma frame_take_le: "frame_take r data \<le> unat r" "frame_take r data \<le> length data"
  by (simp_all add: frame_take_def)

lemma sim_payload:
  assumes inv: "conn_inv c" and i: "i < length (peer c)" and c: "\<not> closed c"
    and es: "frame_open c i 0 es" "es_kind es = es_kind (peer c ! i)" "request_kind (es_kind es)" "\<not> es_request_dead es"
    and e: "request_payload i data (upd_es i (\<lambda>_. es) c) = (c', r)"
  shows "sim c c' \<and> kept i (es_kind es) c' \<and> (r \<noteq> None \<longrightarrow> request_ready i c')"
proof -
  define n where "n = frame_take (es_frame_remaining es) data"
  let ?v = "upd_es i (\<lambda>_. es) c"
  have n: "n \<le> unat (es_frame_remaining es)" "n \<le> length data" by (simp_all add: n_def frame_take_le)
  have p: "peer ?v ! i = es" using i by (simp add: peer_upd_es)
  have u: "upd_es i f ?v = upd_es i (\<lambda>_. f es) c" for f using i by (simp add: upd_es_twice)
  consider (gather) "es_frame_kind es = CF_SETTINGS" "n > 0" | (capsule) "es_frame_kind es = CF_CAPSULE" "n > 0"
    | (skip) "\<not> (es_frame_kind es = CF_SETTINGS \<and> n > 0)" "\<not> (es_frame_kind es = CF_CAPSULE \<and> n > 0)"
    by blast
  then show ?thesis
  proof cases
    case gather
    let ?es = "es\<lparr>es_set_buf := es_set_buf es @ take n data\<rparr>"
    have "frame_open c i n ?es"
      using frame_open_gather [OF es(1), of "take n data"] gather n by (simp add: gathers_def)
    moreover have "request_payload_end i n (drop n data) (upd_es i (\<lambda>_. ?es) c) = (c', r)"
      using e gather by (simp add: request_payload_def p u n_def Let_def)
    ultimately show ?thesis using inv i c es sim_payload_end [of c i n ?es] by simp
  next
    case skip
    have "frame_open c i n es" using frame_open_mono [OF es(1) n(1)] .
    moreover have "request_payload_end i n (drop n data) ?v = (c', r)"
      using e skip by (auto simp: request_payload_def p n_def Let_def)
    ultimately show ?thesis using inv i c es sim_payload_end [of c i n es] by simp
  next
    case capsule
    have ss: "es_is_session_stream es" and ei: "es_inv c i es"
      using es(1) capsule n by (auto simp: frame_open_def gathers_def intro!: es_inv_active)
    have sv: "sim c ?v" using ei i es(2) by (rule sim_const)
    have rv: "capsule_ready i es ?v"
      using sim_inv [OF sv inv] i p es ss ei by (auto simp: capsule_ready_def es_inv_def)
    define c1 where "c1 = session_capsule_bytes i (take n data) ?v"
    have s1: "sim ?v c1" "capsule_left i es c1" using sim_capsule_bytes [OF rv] by (simp_all add: c1_def)
    have i1: "conn_inv c1" "i < length (peer c1)"
      using sim_inv [OF s1(1)] sim_inv [OF sv inv] sim_keeps [OF s1(1)] i by (simp_all add: keeps_def)
    show ?thesis
    proof (cases "closed c1 \<or> es_kind (peer c1 ! i) = ES_FREE")
      case True
      then have "c' = c1 \<and> r = None"
        using e capsule by (simp add: request_payload_def p n_def c1_def Let_def)
      then show ?thesis using sim_trans [OF sv s1(1)] True by (auto simp: kept_def)
    next
      case False
      then have p1: "peer c1 ! i = es" using s1(2) by (simp add: capsule_left_def)
      then have "upd_es i (\<lambda>_. es) c1 = c1" by (simp add: upd_es_def list_update_id flip: p1)
      then have "request_payload_end i n (drop n data) (upd_es i (\<lambda>_. es) c1) = (c', r)"
        using e False capsule by (simp add: request_payload_def p n_def c1_def Let_def)
      moreover have "frame_open c1 i n es"
        using inv_at [OF i1] p1 False n es by (intro frame_open_real) (simp_all add: frame_open_def)
      ultimately have "sim c1 c' \<and> kept i (es_kind es) c' \<and> (r \<noteq> None \<longrightarrow> request_ready i c')"
        using i1 False p1 es by (intro sim_payload_end) simp_all
      then show ?thesis using sim_trans [OF sv sim_trans [OF s1(1)]] by simp
    qed
  qed
qed

text \<open>A complete frame header.\<close>

definition begun :: "wtq_h3_frame_dec \<Rightarrow> wtq_h3_frame \<Rightarrow> wtq_estream \<Rightarrow> wtq_estream" where
  "begun d hdr es = es\<lparr>es_frame_dec := d, es_frame_type := fr_type hdr, es_frame_remaining := fr_length hdr,
                      es_frame_active := True, es_set_buf := []\<rparr>"

lemma begun_fields [simp]:
  "es_kind (begun d hdr es) = es_kind es" "es_request_dead (begun d hdr es) = es_request_dead es"
  "es_headers_done (begun d hdr es) = es_headers_done es" "es_trailers_done (begun d hdr es) = es_trailers_done es"
  "es_is_session_stream (begun d hdr es) = es_is_session_stream es" "es_frame_active (begun d hdr es)"
  "es_frame_remaining (begun d hdr es) = fr_length hdr" "es_set_buf (begun d hdr es) = []"
  "es_frame_dec (begun d hdr es) = d" "es_frame_kind (begun d hdr es) = es_frame_kind es"
  "wt_shape (begun d hdr es) = wt_shape es"
  by (simp_all add: begun_def)

lemma es_inv_begun:
  assumes "es_inv c i es" "h3_frame_dec_inv d" "request_kind (es_kind es) \<or> es_kind es = ES_CONTROL"
  shows "es_inv c i ((begun d hdr es)\<lparr>es_frame_kind := k, es_frame_active := False\<rparr>)"
    and "es_inv (c\<lparr>closed := True\<rparr>) i (begun d hdr es)"
    and "request_kind (es_kind es) \<Longrightarrow> es_inv c i ((begun d hdr es)\<lparr>es_request_dead := True\<rparr>)"
  using assms unfolding es_inv_def es_buf_def request_kind_def
  by (elim disjE, simp_all)+

lemma frame_open_begun:
  assumes "es_inv c i es" "h3_frame_dec_inv d" "request_kind (es_kind es) \<or> es_kind es = ES_CONTROL"
    and "k = CF_CAPSULE \<longrightarrow> es_is_session_stream es"
    and "es_kind es = ES_CONTROL \<and> k = CF_SETTINGS \<longrightarrow> \<not> settings_received c"
    and "k = CF_SETTINGS \<or> k = CF_ONE_VARINT \<longrightarrow> fr_length hdr \<le> 512"
  shows "frame_open c i 0 ((begun d hdr es)\<lparr>es_frame_kind := k\<rparr>)"
proof -
  have "unat (fr_length hdr) \<le> 512" if "fr_length hdr \<le> 512" using that by (simp add: word_le_nat_alt)
  then show ?thesis
    using assms(3-) es_inv_begun(1) [OF assms(1-3), where hdr = hdr and k = k]
    unfolding frame_open_def gathers_def set_cap_def by force
qed

lemma begin_frame_begun:
  "i < length (peer c) \<Longrightarrow>
     begin_frame i hdr (upd_es i (\<lambda>es. es\<lparr>es_frame_dec := d\<rparr>) c) = upd_es i (begun d hdr) c"
  by (simp add: begin_frame_def upd_es_twice) (simp add: begun_def [abs_def])

lemma upd_es_const: "upd_es i f c = upd_es i (\<lambda>_. f (peer c ! i)) c"
  by (simp add: upd_es_def)

lemma sim_header:
  assumes J: "request_ready i c" and c: "\<not> closed c" and d: "h3_frame_dec_inv d"
    and e: "request_header i hdr (upd_es i (\<lambda>es. es\<lparr>es_frame_dec := d\<rparr>) c) = (c', go)"
  shows "if go then \<exists>k. c' = upd_es i (\<lambda>_. (begun d hdr (peer c ! i))\<lparr>es_frame_kind := k\<rparr>) c
               \<and> frame_open c i 0 ((begun d hdr (peer c ! i))\<lparr>es_frame_kind := k\<rparr>)
         else sim c c' \<and> kept i (es_kind (peer c ! i)) c'"
proof -
  let ?es = "peer c ! i" and ?v = "upd_es i (begun d hdr) c"
  have inv: "conn_inv c" and i: "i < length (peer c)" and k: "request_kind (es_kind ?es)"
    using J by (simp_all add: request_ready_def)
  note es = inv_at [OF inv i] and kk = disjI1 [OF k, of "es_kind ?es = ES_CONTROL"]
  have p: "peer ?v ! i = begun d hdr ?es" using i by (simp add: peer_upd_es)
  have fu: "fatal_upd c i (begun d hdr)" using es_inv_begun(2) [OF es d kk] by (simp add: fatal_upd_def)
  have w: "es_kind ?es \<noteq> ES_WT" "es_kind (peer ?v ! i) = es_kind ?es" using k request_kind_wt p by auto
  have fatal: "sim c (conn_fatal err ?v)" "kept i (es_kind ?es) (conn_fatal err ?v)" for err
    using sim_fatal_upd [OF c fu] kept_fatal w by blast+
  have ref: "sim c (request_stream_refuse_err i err ?v)" for err
    using i c fu es_inv_begun(3) [OF es d kk k] by (intro sim_refuse_upd) simp_all
  have fk: "kept i (es_kind ?es) (request_stream_fail i err ?v)" for err using w k i by (intro kept_fail) simp_all
  have fail: "sim c (request_stream_fail i err ?v)" for err
  proof -
    have "request_kind (es_kind (peer (request_stream_refuse_err i err ?v) ! i))"
      using refuse_stream [of i ?v err] i k p by simp
    then show ?thesis
      unfolding request_stream_fail_eq Let_def using i
      by (intro sim_trans [OF ref sim_fail_tail [unfolded Let_def]]) simp_all
  qed
  have cancel: "sim c (parked_request_cancel (request_stream_refuse i ?v))"
    "kept i (es_kind ?es) (parked_request_cancel (request_stream_refuse i ?v))"
    unfolding request_stream_refuse_def using sim_trans [OF ref sim_cancel] kept_refuse [OF w(2,1)]
    by (simp_all add: kept_def parked_request_cancel_def)
  have kind: "upd_es i (\<lambda>es. es\<lparr>es_frame_kind := q es\<rparr>) ?v
      = upd_es i (\<lambda>_. (begun d hdr ?es)\<lparr>es_frame_kind := q (begun d hdr ?es)\<rparr>) c" for q
    using i by (subst upd_es_twice) (simp_all add: upd_es_const [of i "\<lambda>es. (begun d hdr es)\<lparr>es_frame_kind := q (begun d hdr es)\<rparr>"])
  have ctl: "es_kind ?es \<noteq> ES_CONTROL" using k request_kind_wt by blast
  have op: "\<exists>k. upd_es i (\<lambda>_. (begun d hdr ?es)\<lparr>es_frame_kind := q\<rparr>) c
        = upd_es i (\<lambda>_. (begun d hdr ?es)\<lparr>es_frame_kind := k\<rparr>) c
      \<and> frame_open c i 0 ((begun d hdr ?es)\<lparr>es_frame_kind := k\<rparr>)"
    if "q = CF_CAPSULE \<longrightarrow> es_is_session_stream ?es" "q = CF_SETTINGS \<or> q = CF_ONE_VARINT \<longrightarrow> fr_length hdr \<le> 512" for q
    using that ctl by (intro exI [of _ q] conjI refl frame_open_begun es d kk) simp_all
  show ?thesis
    using e unfolding request_header_def begin_frame_begun [OF i] Let_def p WTQ_CONN_SETTINGS_CAP_def
    by (simp add: kind not_less split: if_splits) (clarify, simp add: fatal fail fk cancel op)+
qed

lemma sim_turn:
  assumes J: "request_ready i c" and c: "\<not> closed c" and t: "request_turn i data c = (c', r)"
  shows "sim c c' \<and> kept i (es_kind (peer c ! i)) c' \<and> (r \<noteq> None \<longrightarrow> request_ready i c')"
proof -
  let ?es = "peer c ! i"
  have inv: "conn_inv c" and i: "i < length (peer c)" and k: "request_kind (es_kind ?es)" "\<not> es_request_dead ?es"
    using J by (simp_all add: request_ready_def)
  note es = inv_at [OF inv i]
  show ?thesis
  proof (cases "es_frame_active ?es")
    case True
    have "frame_open c i 0 ?es" using es c True k by (intro frame_open_real) simp_all
    moreover have "upd_es i (\<lambda>_. ?es) c = c" by (simp add: upd_es_def)
    ultimately show ?thesis
      using sim_payload [OF inv i c, of ?es data c' r] k t True by (simp add: request_turn_def)
  next
    case False
    obtain d res n where f: "wtq_h3_frame_dec_feed (es_frame_dec ?es) data = (d, res, n)" by (metis prod_cases3)
    have d: "h3_frame_dec_inv d" using h3_frame.inv_feed [OF _ f] es by (simp add: es_inv_def es_buf_def)
    show ?thesis
    proof (cases res)
      case (Inl st)
      have "es_inv c i (?es\<lparr>es_frame_dec := d\<rparr>)"
        using es d k(1) unfolding request_kind_def es_inv_def es_buf_def by (elim disjE) simp_all
      then have "sim c (upd_es i (\<lambda>es. es\<lparr>es_frame_dec := d\<rparr>) c)" by (intro sim_upd) simp_all
      then show ?thesis using t False f Inl i by (auto simp: request_turn_def Let_def kept_def peer_upd_es)
    next
      case (Inr hdr)
      let ?v = "upd_es i (\<lambda>es. es\<lparr>es_frame_dec := d\<rparr>) c"
      obtain c1 go where h: "request_header i hdr ?v = (c1, go)" by fastforce
      note sh = sim_header [OF J c d h]
      show ?thesis
      proof (cases go)
        case go: True
        then obtain q where q: "c1 = upd_es i (\<lambda>_. (begun d hdr ?es)\<lparr>es_frame_kind := q\<rparr>) c"
          "frame_open c i 0 ((begun d hdr ?es)\<lparr>es_frame_kind := q\<rparr>)" using sh by auto
        have "request_payload i (drop n data) (upd_es i (\<lambda>_. (begun d hdr ?es)\<lparr>es_frame_kind := q\<rparr>) c) = (c', r)"
          using t False f Inr h go q by (simp add: request_turn_def)
        then show ?thesis using sim_payload [OF inv i c q(2)] k by simp
      qed (use t False f Inr h sh in \<open>simp add: request_turn_def\<close>)
    qed
  qed
qed

lemma sim_request_bytes:
  assumes inv: "conn_inv c" and i: "i < length (peer c)" "request_kind (es_kind (peer c ! i))"
  shows "sim c (request_stream_bytes i data c) \<and> kept i (es_kind (peer c ! i)) (request_stream_bytes i data c)"
proof (cases "es_request_dead (peer c ! i)")
  case False
  let ?J = "\<lambda>c'. request_ready i c' \<and> kept i (es_kind (peer c ! i)) c'"
  have J: "?J c" using False assms by (simp add: request_ready_def kept_def)
  have t: "sim c1 c' \<and> kept i (es_kind (peer c ! i)) c' \<and> (r \<noteq> None \<longrightarrow> ?J c')"
    if "?J c1" "\<not> closed c1" "request_turn i data c1 = (c', r)" for c1 c' r data
    using sim_turn [OF _ that(2,3)] that(1,2) by (auto simp: kept_def request_ready_def)
  have "sim c (walk (request_turn i) data c)"
    by (rule walk_sim [where J = ?J]) (use t J in blast)+
  moreover have "kept i (es_kind (peer c ! i)) (walk (request_turn i) data c)"
  proof (rule walk_post [where J = ?J])
    fix data' c1 c' r assume "?J c1" "\<not> closed c1" "request_turn i data' c1 = (c', r)"
    from t [OF this] show "if r = None then kept i (es_kind (peer c ! i)) c'
        else ?J c' \<or> closed c' \<and> kept i (es_kind (peer c ! i)) c'" by simp
  qed (use J in simp_all)
  ultimately show ?thesis using False by (simp add: request_stream_bytes_def)
qed (simp add: request_stream_bytes_def kept_def)

section \<open>The end of a request stream\<close>

text \<open>
  A CONNECT whose response never came fails the session. The failure and the
  release (or the fatal error) that follow it are one run: the stream is marked
  dead before the failure and unmarked after.
\<close>

lemma sim_pending_failed:
  assumes inv: "conn_inv c" and i: "i < length (peer c)" "es_kind (peer c ! i) = ES_CONNECT"
    and c: "\<not> closed c" "sess_state c = SS_SENT"
  shows "sim c (session_failed r (upd_es i (\<lambda>es. es\<lparr>es_request_dead := True\<rparr>) c))"
proof -
  let ?d = "upd_es i (\<lambda>es. es\<lparr>es_request_dead := True\<rparr>) c"
  have d: "peer ?d ! i = (peer c ! i)\<lparr>es_request_dead := True\<rparr>" using i by (simp add: peer_upd_es)
  have "persp c = PERSPECTIVE_CLIENT" using inv_at [OF inv i(1)] i(2) by (simp add: es_inv_def)
  then have "sim ?d (session_failed r ?d)"
    using c d i only_connect [of ?d i "\<lambda>es. es_headers_done es \<or> es_request_dead es"]
    by (intro sim_fail) simp_all
  then show ?thesis using sim_trans [OF sim_dead] by blast
qed

lemma es_inv_free_dead: "es_kind es = ES_FREE \<Longrightarrow> es_inv c i es \<Longrightarrow> es_inv c i (es\<lparr>es_request_dead := b\<rparr>)"
  by (simp add: es_inv_def es_buf_def)

lemma sim_failed_release:
  assumes inv: "conn_inv c" and i: "i < length (peer c)" "es_kind (peer c ! i) = ES_CONNECT"
    and c: "\<not> closed c" "sess_state c = SS_SENT"
  shows "sim c (estream_release i (session_failed r c))"
proof -
  let ?f = "session_failed r (upd_es i (\<lambda>es. es\<lparr>es_request_dead := True\<rparr>) c)"
  let ?b = "upd_es i (\<lambda>es. es\<lparr>es_request_dead := es_request_dead (peer c ! i)\<rparr>)"
  have p: "parked_es c \<noteq> Some i" using inv_at [OF inv i(1)] i(2) by (auto simp: es_inv_def)
  have f: "parked_es ?f = parked_es c" "length (peer ?f) = length (peer c)" "es_kind (peer ?f ! i) = ES_CONNECT"
    using i by (simp_all add: session_failed_def peer_upd_es)
  have s: "sim c (estream_release i ?f)"
    using sim_trans [OF sim_pending_failed [OF assms] sim_release [of ?f i]] p f by simp
  have k: "es_kind (peer (estream_release i ?f) ! i) = ES_FREE" using release_kind f i by simp
  have "sim (estream_release i ?f) (?b (estream_release i ?f))"
    using k by (intro sim_upd es_inv_free_dead) simp_all
  moreover have "?b (estream_release i ?f) = estream_release i (session_failed r c)"
    using i by (rule_tac wtq_conn.equality)
      (simp_all add: estream_release_def session_failed_def upd_es_def emit_def Let_def split: option.split)
  ultimately show ?thesis using sim_trans [OF s] by simp
qed

lemma sim_failed_fatal:
  assumes inv: "conn_inv c" and i: "i < length (peer c)" "es_kind (peer c ! i) = ES_CONNECT"
    and c: "\<not> closed c" "sess_state c = SS_SENT"
  shows "sim c (conn_fatal err (session_failed r c))"
proof -
  let ?f = "session_failed r (upd_es i (\<lambda>es. es\<lparr>es_request_dead := True\<rparr>) c)"
  let ?b = "\<lambda>es. es\<lparr>es_request_dead := es_request_dead (peer c ! i)\<rparr>"
  have f: "peer ?f ! i = (peer c ! i)\<lparr>es_request_dead := True\<rparr>" using i by (simp add: session_failed_def peer_upd_es)
  have "sim ?f (conn_fatal err (upd_es i ?b ?f))"
  proof (rule sim_fatal_upd)
    have "es_inv (c\<lparr>closed := True\<rparr>) i (peer c ! i)" using es_inv_closed [OF inv_at [OF inv i(1)]] .
    then have "es_inv (?f\<lparr>closed := True\<rparr>) i (peer c ! i)" by (simp add: session_failed_def es_inv_def)
    then show "fatal_upd ?f i ?b" unfolding fatal_upd_def f by simp
  qed (use c in \<open>simp add: session_failed_def\<close>)
  moreover have "upd_es i ?b ?f = session_failed r c"
    using i by (rule_tac wtq_conn.equality) (simp_all add: session_failed_def upd_es_def emit_def)
  ultimately show ?thesis using sim_trans [OF sim_pending_failed [OF assms]] by simp
qed

definition close_session_es :: "nat \<Rightarrow> wtq_conn \<Rightarrow> wtq_conn" where
  "close_session_es i c = (if session_es c = Some i then c\<lparr>session_es := None\<rparr> else c)"

lemma sim_close_session_es [simp]: "sim c (close_session_es i c)"
  by (simp add: close_session_es_def sim_session_es)

lemma close_session_es_fields [simp]:
  "peer (close_session_es i c) = peer c" "parked_es (close_session_es i c) = parked_es c"
  "closed (close_session_es i c) = closed c"
  by (simp_all add: close_session_es_def)

lemma sim_end_release:
  assumes s: "sim c c1" and v: "length (peer c1) = length (peer c)" "es_kind (peer c1 ! i) = es_kind (peer c ! i)"
      "parked_es c1 = parked_es c"
    and i: "request_kind (es_kind (peer c ! i))" "parked_es c \<noteq> Some i"
  shows "sim c (estream_release i (close_session_es i c1))"
proof -
  have "sim (close_session_es i c1) (estream_release i (close_session_es i c1))"
    using v i by (intro sim_release) (auto simp: request_kind_def)
  then show ?thesis using s sim_trans [OF sim_close_session_es] sim_trans by blast
qed

lemma sim_fin_release:
  assumes inv: "conn_inv c" and i: "i < length (peer c)" "request_kind (es_kind (peer c ! i))" "parked_es c \<noteq> Some i"
    and c: "\<not> closed c"
  shows "sim c (estream_release i (close_session_es i (request_stream_fin i c)))"
proof -
  let ?es = "peer c ! i"
  have w: "es_kind ?es \<noteq> ES_WT" using i request_kind_wt by blast
  have calm: "sim c (estream_release i (close_session_es i c1))" if "sim c c1" "calm c c1" for c1
    using that calm_fields [OF that(2)] calm_stream [OF that(2) w] i by (intro sim_end_release) simp_all
  have calm': "sim c (estream_release i (close_session_es i c1))"
    if "sim (close_session_es i c) c1" "calm (close_session_es i c) c1" for c1
    using that calm_fields [OF that(2)] calm_stream [OF that(2), of i] i w
    by (intro sim_end_release sim_trans [OF sim_close_session_es that(1)]) simp_all
  have ref: "sim c (estream_release i (close_session_es i (request_stream_refuse_err i err (close_session_es i c))))" for err
  proof -
    let ?c = "close_session_es i c"
    have "parked_es (request_stream_refuse_err i err ?c) = parked_es c"
      using calm_fields(2) [OF calm_shutdown] by (simp add: request_stream_refuse_err_def)
    then show ?thesis
      using refuse_stream [of i ?c err] i by (intro sim_end_release sim_trans [OF sim_close_session_es sim_refuse]) simp_all
  qed
  have pf: "sim c (estream_release i (close_session_es i (conn_fatal err (session_failed r c))))"
    "sim c (estream_release i (close_session_es i (session_failed r c)))"
    if "es_kind ?es = ES_CONNECT" "sess_state c = SS_SENT" for err r
  proof -
    show "sim c (estream_release i (close_session_es i (conn_fatal err (session_failed r c))))"
      using that inv i c calm_trans [OF calm_failed calm_fatal] by (intro calm sim_failed_fatal) simp_all
    have "estream_release i (close_session_es i (session_failed r c))
        = close_session_es i (estream_release i (session_failed r c))"
      by (rule wtq_conn.equality)
        (simp_all add: close_session_es_def estream_release_def session_failed_def upd_es_def emit_def Let_def split: option.split)
    then show "sim c (estream_release i (close_session_es i (session_failed r c)))"
      using sim_trans [OF sim_failed_release [OF inv i(1) that(1) c that(2)] sim_close_session_es] by simp
  qed
  show ?thesis
    unfolding request_stream_fin_def close_session_es_def [of i c, symmetric] Let_def
    using calm [OF sim_refl] calm [OF sim_fatal] calm' [OF sim_refl] calm' [OF sim_fatal] calm' [OF sim_closed] ref pf
    by simp
qed

end
