(* ===== verification/Runs_Control.thy ===== *)
theory Runs_Control
  imports Runs_Request
begin

text \<open>
  The peer's control stream as runs of the transition system: GOAWAY and the push
  limits, the SETTINGS with what waits for them (the client's CONNECT, the server's
  parked request), and the walk over its frames.
\<close>

section \<open>GOAWAY and push limits\<close>

lemma sim_goaway:
  assumes inv: "conn_inv c" and c: "\<not> closed c"
  shows "sim c (control_goaway v c)"
proof (cases "(persp c = PERSPECTIVE_CLIENT \<and> v AND 3 \<noteq> 0) \<or> (case goaway_id c of Some g \<Rightarrow> v > g | None \<Rightarrow> False)")
  case True
  then show ?thesis by (simp add: control_goaway_def sim_fatal)
next
  case False
  define c1 where "c1 = c\<lparr>goaway_id := Some v\<rparr>"
  have "\<forall>g. goaway_id c = Some g \<longrightarrow> v \<le> g" using False by (auto split: option.splits)
  then have s1: "sim c c1" unfolding c1_def by (intro sim_quiet r_into_rtranclp q_goaway)
  have inv1: "conn_inv c1" using sim_inv [OF s1 inv] .
  let ?f = "find (\<lambda>i. es_kind (peer c1 ! i) = ES_CONNECT \<and> \<not> es_native_id_pending (peer c1 ! i)
      \<and> es_id (peer c1 ! i) \<ge> v) [0..<length (peer c1)]"
  define c2 where "c2 = (if persp c1 = PERSPECTIVE_CLIENT \<and> sess_state c1 = SS_SENT then
      (case ?f of
         None \<Rightarrow> c1
       | Some i \<Rightarrow>
           let c = upd_es i (\<lambda>es. es\<lparr>es_request_dead := True\<rparr>) c1;
               c = session_failed FAIL_CONNECTION c
           in if \<not> closed c then shutdown_raw (es_ds (peer c ! i)) True True WTQ_H3_REQUEST_REJECTED c else c)
      else c1)"
  have "sim c1 c2"
  proof (cases "persp c1 = PERSPECTIVE_CLIENT \<and> sess_state c1 = SS_SENT")
    case sent: True
    show ?thesis
    proof (cases ?f)
      case (Some i)
      then have i: "i < length (peer c1)" "es_kind (peer c1 ! i) = ES_CONNECT"
        by (auto simp: find_Some_iff)
      have "sim c1 (session_failed FAIL_CONNECTION (upd_es i (\<lambda>es. es\<lparr>es_request_dead := True\<rparr>) c1))"
        using c sent by (intro sim_pending_failed inv1 i) (simp_all add: c1_def)
      then show ?thesis using sent Some sim_trans [OF _ sim_shutdown] by (simp add: c2_def Let_def)
    qed (use sent in \<open>simp add: c2_def\<close>)
  next
    case False
    then show ?thesis by (auto simp: c2_def)
  qed
  moreover have "control_goaway v c = session_draining c2"
    using False unfolding control_goaway_def c2_def c1_def Let_def by auto
  ultimately show ?thesis using sim_trans [OF s1 sim_trans [OF _ sim_draining]] by simp
qed

lemma sim_varint:
  assumes inv: "conn_inv c" and c: "\<not> closed c"
  shows "sim c (control_varint type buf c)"
proof -
  have "sim c (c\<lparr>max_push_id := Some v\<rparr>)"
    if "\<not> (case max_push_id c of Some m \<Rightarrow> v < m | None \<Rightarrow> False)" for v
    using that by (intro sim_quiet r_into_rtranclp q_push) (auto split: option.splits)
  then show ?thesis
    unfolding control_varint_def using sim_goaway [OF assms] sim_fatal
    by (auto split: sum.split prod.split)
qed

section \<open>The client's CONNECT\<close>

text \<open>A connection that fails while the request goes out reports the same, sent or not.\<close>

lemma conn_fatal_sent:
  "sess_state c = SS_PENDING \<Longrightarrow> \<not> closed c \<Longrightarrow> conn_fatal err (c\<lparr>sess_state := SS_SENT\<rparr>) = conn_fatal err c"
  by (simp add: conn_fatal_end session_conn_lost_def session_failed_def)
    (simp add: conn_end_def conn_latch_error_def emit_def)

lemma drv_result_state [simp]: "drv_result (c\<lparr>sess_state := st\<rparr>) = drv_result c"
  by (simp add: drv_result_def)

lemma send_headers_sent:
  assumes "sess_state c = SS_PENDING" "\<not> closed c"
  shows "send_headers ds body fin (c\<lparr>sess_state := SS_SENT\<rparr>) =
    (case send_headers ds body fin c of (c', ok) \<Rightarrow> (if ok then c'\<lparr>sess_state := SS_SENT\<rparr> else c', ok))"
proof -
  have e: "emit e (c\<lparr>sess_state := SS_SENT\<rparr>) = (emit e c)\<lparr>sess_state := SS_SENT\<rparr>" for e c by (simp add: emit_def)
  show ?thesis using assms by (simp add: send_headers_def Let_def e conn_fatal_sent)
qed

text \<open>The pool: its ranges and the entries of the admission records lie in it.\<close>

definition pool_ok :: "wtq_conn \<Rightarrow> bool" where
  "pool_ok c \<longleftrightarrow>
     (if budgeted c
      then peer_capacity c + local_capacity c + (if persp c = PERSPECTIVE_CLIENT then 1 else 0) = length (peer c)
      else length (peer c) = 16)
     \<and> adm_ok (length (peer c)) (admission_peers c)"

lemma keeps_pool: "keeps c c' \<Longrightarrow> pool_ok c \<Longrightarrow> pool_ok c'"
  unfolding keeps_def pool_ok_def by metis

lemma connect_range_pool:
  "pool_ok c \<Longrightarrow> persp c = PERSPECTIVE_CLIENT \<Longrightarrow> i \<in> set (connect_range c) \<Longrightarrow> i < length (peer c)"
  by (auto simp: connect_range_def pool_ok_def Let_def split: if_splits)

lemma free_slotD:
  "free_slot c is = Some i \<Longrightarrow> i \<in> set is \<and> es_kind (peer c ! i) = ES_FREE"
  by (auto simp: free_slot_def find_Some_iff)

definition connect_stream :: "u64 \<Rightarrow> bool \<Rightarrow> wtq_estream" where
  "connect_stream gen res =
     estream_zero\<lparr>es_generation := gen, es_kind := ES_CONNECT, es_resident := res, es_id := WTQ_STREAM_ID_UNKNOWN\<rparr>"

definition connect_opened :: "nat \<Rightarrow> wtq_conn \<Rightarrow> wtq_conn" where
  "connect_opened i c =
     emit (D_open_bidi (Some i))
       (upd_es i (\<lambda>_. connect_stream (stream_generation c + 1) (budgeted c))
          (c\<lparr>stream_generation := stream_generation c + 1\<rparr>))"

definition connect_begun :: "nat \<Rightarrow> wtq_conn \<Rightarrow> wtq_conn" where
  "connect_begun i c =
     (let (ds, sid) = d_open (drv c) (trace c)
      in upd_es i (\<lambda>es. es\<lparr>es_ds := Some ds, es_id := sid, es_native_id_pending := (sid = WTQ_STREAM_ID_UNKNOWN)\<rparr>)
           (c\<lparr>connect_ds := Some ds\<rparr>))"

lemma client_send_connect_eq:
  "client_send_connect c =
     (if goaway_id c \<noteq> None then session_failed FAIL_CONNECTION c
      else
        (case free_slot c (connect_range c) of
           None \<Rightarrow> conn_fatal WTQ_H3_INTERNAL_ERROR c
         | Some i \<Rightarrow>
             let c = connect_opened i c
             in if drv_result c \<noteq> WTQ_OK then conn_fatal WTQ_H3_INTERNAL_ERROR (estream_release i c)
                else (case send_headers (Some (fst (d_open (drv c) (trace c)))) (connect_section c) False (connect_begun i c) of
                        (c, ok) \<Rightarrow> if ok then c\<lparr>sess_state := SS_SENT\<rparr> else c)))"
  unfolding client_send_connect_def connect_opened_def connect_begun_def connect_stream_def Let_def
  by (simp add: split_beta split: option.split)

lemma sent_opened: "connect_opened i (c\<lparr>sess_state := st\<rparr>) = (connect_opened i c)\<lparr>sess_state := st\<rparr>"
  by (simp add: connect_opened_def emit_def upd_es_def)

lemma sent_begun: "connect_begun i (c\<lparr>sess_state := st\<rparr>) = (connect_begun i c)\<lparr>sess_state := st\<rparr>"
  by (simp add: connect_begun_def upd_es_def split_beta)

lemma sent_release: "estream_release i (c\<lparr>sess_state := st\<rparr>) = (estream_release i c)\<lparr>sess_state := st\<rparr>"
  by (simp add: estream_release_def emit_def upd_es_def Let_def split: option.split)

lemma sim_opened:
  assumes inv: "conn_inv c" and i: "i < length (peer c)" "es_kind (peer c ! i) = ES_FREE"
    and c: "sess_state c = SS_PENDING" "\<not> closed c" "persp c = PERSPECTIVE_CLIENT" "profile_latched c"
  shows "sim c (connect_opened i (c\<lparr>sess_state := SS_SENT\<rparr>))"
proof -
  let ?s = "c\<lparr>sess_state := SS_SENT\<rparr>"
  let ?g = "?s\<lparr>stream_generation := stream_generation c + 1\<rparr>"
  let ?e = "connect_stream (stream_generation c + 1) (budgeted c)"
  have s: "sim c ?s" using c by (intro sim_step s_sent)
  have g: "sim ?s ?g" by (rule sim_core) (simp_all add: core_def)
  have st: "absent ES_CONNECT (peer c)" "\<not> client_response_ok c" using inv c(1) by (simp_all add: conn_inv_def stream_inv_def)
  have pk: "parked_es c \<noteq> Some i" using inv_at [OF inv i(1)] i(2) by (auto simp: es_inv_def)
  have "es_inv ?g i ?e"
    using pk c(3) st(2) by (simp add: es_inv_def es_buf_def wt_shape_def connect_stream_def estream_zero_def)
  then have "quiet ?g (?g\<lparr>peer := (peer ?g)[i := ?e]\<rparr>)"
    using i st by (intro q_connect) (simp_all add: connect_stream_def)
  then have "sim ?g (upd_es i (\<lambda>_. ?e) ?g)" unfolding upd_es_def by (intro sim_quiet) simp
  moreover have "connect_opened i ?s = emit (D_open_bidi (Some i)) (upd_es i (\<lambda>_. ?e) ?g)"
    by (simp add: connect_opened_def)
  ultimately show ?thesis using sim_trans [OF s sim_trans [OF g sim_trans [OF _ sim_event]]] by simp
qed

lemma sim_begun: "sim c (connect_begun i c)"
proof -
  obtain ds sid where o: "d_open (drv c) (trace c) = (ds, sid)" by fastforce
  have "sim c (c\<lparr>connect_ds := Some ds\<rparr>)" by (rule sim_core) (simp_all add: core_def)
  moreover have "sim (c\<lparr>connect_ds := Some ds\<rparr>) (connect_begun i c)"
    unfolding connect_begun_def o prod.case Let_def by (rule sim_upd) simp_all
  ultimately show ?thesis using sim_trans by blast
qed

lemma sim_send_connect:
  assumes inv: "conn_inv c" and pool: "pool_ok c"
    and c: "sess_state c = SS_PENDING" "\<not> closed c" "persp c = PERSPECTIVE_CLIENT" "profile_latched c"
  shows "sim c (client_send_connect c)"
proof -
  have ab: "absent ES_CONNECT (peer c)" using inv c(1) by (simp add: conn_inv_def stream_inv_def)
  have gone: "sim c (session_failed FAIL_CONNECTION c)"
    using c ab by (intro sim_fail) (simp_all add: absent_def)
  have slot: "sim c (client_send_connect c)" if "goaway_id c = None" "free_slot c (connect_range c) = Some i" for i
  proof -
    have i: "i < length (peer c)" "es_kind (peer c ! i) = ES_FREE"
      using free_slotD [OF that(2)] connect_range_pool [OF pool c(3)] by blast+
    define c1 where "c1 = connect_opened i c"
    define s1 where "s1 = connect_opened i (c\<lparr>sess_state := SS_SENT\<rparr>)"
    have s1: "sim c s1" unfolding s1_def using assms i by (intro sim_opened)
    have e1: "s1 = c1\<lparr>sess_state := SS_SENT\<rparr>" by (simp add: s1_def c1_def sent_opened)
    have f1: "sess_state c1 = SS_PENDING" "\<not> closed c1" "peer c1 ! i = connect_stream (stream_generation c + 1) (budgeted c)"
      "parked_es c1 = parked_es c" "length (peer c1) = length (peer c)"
      using c i by (simp_all add: c1_def connect_opened_def peer_upd_es)
    have pk: "parked_es c \<noteq> Some i" using inv_at [OF inv i(1)] i(2) by (auto simp: es_inv_def)
    have "sim s1 (estream_release i s1)"
      using e1 f1 pk by (intro sim_release) (simp_all add: connect_stream_def)
    then have 1: "sim c (conn_fatal WTQ_H3_INTERNAL_ERROR (estream_release i c1))"
    proof -
      assume "sim s1 (estream_release i s1)"
      then have "sim c (conn_fatal WTQ_H3_INTERNAL_ERROR (estream_release i s1))"
        using s1 sim_trans sim_fatal by blast
      moreover have "sess_state (estream_release i c1) = SS_PENDING" "\<not> closed (estream_release i c1)"
        using f1 by (simp_all add: estream_release_def Let_def split: option.split)
      ultimately show ?thesis by (simp add: e1 sent_release conn_fatal_sent)
    qed
    define c2 where "c2 = connect_begun i c1"
    obtain c3 ok where h: "send_headers (Some (fst (d_open (drv c1) (trace c1)))) (connect_section c1) False c2 = (c3, ok)"
      by fastforce
    have f2: "sess_state c2 = SS_PENDING" "\<not> closed c2" using f1 by (simp_all add: c2_def connect_begun_def split_beta)
    have "sim s1 (c2\<lparr>sess_state := SS_SENT\<rparr>)" using sim_begun [of s1 i] by (simp add: e1 sent_begun c2_def)
    moreover have "send_headers (Some (fst (d_open (drv c1) (trace c1)))) (connect_section c1) False
        (c2\<lparr>sess_state := SS_SENT\<rparr>) = (if ok then c3\<lparr>sess_state := SS_SENT\<rparr> else c3, ok)"
      unfolding send_headers_sent [OF f2] h by simp
    then have "sim (c2\<lparr>sess_state := SS_SENT\<rparr>) (if ok then c3\<lparr>sess_state := SS_SENT\<rparr> else c3)"
      using sim_send_headers by blast
    ultimately have "sim c (if ok then c3\<lparr>sess_state := SS_SENT\<rparr> else c3)" using s1 sim_trans by blast
    then show ?thesis
      using 1 that h by (simp add: client_send_connect_eq c1_def [symmetric] c2_def [symmetric] Let_def)
  qed
  show ?thesis
  proof (cases "goaway_id c \<noteq> None \<or> free_slot c (connect_range c) = None")
    case True
    then show ?thesis using gone sim_fatal by (auto simp: client_send_connect_eq)
  next
    case False
    then show ?thesis using slot by auto
  qed
qed

section \<open>SETTINGS\<close>

lemma es_inv_put_back:
  assumes "es_inv c i es" "es_kind es = ES_REQUEST" "es_headers_done es" "length b \<le> 512"
  shows "es_inv (c\<lparr>parked_es := p, parked_buf := b', parked_fin := f\<rparr>) i (es\<lparr>es_set_buf := b\<rparr>)
    \<longleftrightarrow> (p = Some i \<longrightarrow> \<not> es_is_session_stream es)"
  using assms unfolding es_inv_def es_buf_def set_cap_def gathers_def by auto

lemma sim_release_parked:
  assumes inv: "conn_inv c" and r: "parked_es c = Some r" and c: "settings_received c" "\<not> closed c"
  shows "sim c (release_parked r c)"
proof -
  let ?b = "parked_buf c"
  have i: "r < length (peer c)" and b: "length ?b \<le> 512" using inv r by (simp_all add: conn_inv_def stream_inv_def)
  note es = inv_at [OF inv i]
  have k: "es_kind (peer c ! r) = ES_REQUEST" "es_headers_done (peer c ! r)" using es r by (simp_all add: es_inv_def)
  define c1 where "c1 = parked_request_cancel c"
  define c2 where "c2 = upd_es r (\<lambda>es. es\<lparr>es_set_buf := ?b\<rparr>) c1"
  have s1: "sim c c1" unfolding c1_def by (rule sim_cancel)
  have "es_inv c1 r ((peer c ! r)\<lparr>es_set_buf := ?b\<rparr>)"
    unfolding c1_def parked_request_cancel_def using es_inv_put_back [OF es k b, where p = None] by simp
  then have s2: "sim c1 c2" unfolding c2_def by (intro sim_upd) (simp_all add: c1_def)
  have inv2: "conn_inv c2" using sim_inv [OF sim_trans [OF s1 s2] inv] .
  have f2: "peer c2 ! r = (peer c ! r)\<lparr>es_set_buf := ?b\<rparr>" "parked_es c2 = None" "settings_received c2" "\<not> closed c2"
    "r < length (peer c2)"
    using i c by (simp_all add: c2_def c1_def peer_upd_es parked_request_cancel_def)
  define c3 where "c3 = server_request_done r c2"
  have s3: "sim c2 c3" "served r c2 c3"
    unfolding c3_def using sim_server_request [of r c2] f2 k by simp_all
  have inv3: "conn_inv c3" using sim_inv [OF s3(1) inv2] .
  have "sim c3 (estream_release r (close_session_es r (request_stream_fin r c3)))" if "\<not> closed c3"
    using that inv3 s3(2) f2 k by (intro sim_fin_release) (simp_all add: served_def)
  moreover have "release_parked r c =
      (if parked_fin c \<and> \<not> closed c3 \<and> es_kind (peer c3 ! r) \<noteq> ES_FREE
       then estream_release r (close_session_es r (request_stream_fin r c3)) else c3)"
    by (simp add: release_parked_def c3_def c2_def c1_def close_session_es_def Let_def)
  moreover have "sim c c3" using sim_trans [OF s1 sim_trans [OF s2 s3(1)]] .
  ultimately show ?thesis using sim_trans by (metis (full_types))
qed

lemma control_settings_taken:
  "control_settings buf c =
     (case wtq_h3_settings_decode buf of
        Inl ERR_SETTING \<Rightarrow> conn_fatal WTQ_H3_SETTINGS_ERROR c
      | Inl _ \<Rightarrow> conn_fatal WTQ_H3_FRAME_ERROR c
      | Inr s \<Rightarrow>
          let c = emit (CB_peer_settings (wt_supported (settings_taken s c))) (settings_taken s c);
              c = (if persp c = PERSPECTIVE_CLIENT \<and> sess_state c = SS_PENDING then
                     (if \<not> wt_supported c then session_failed FAIL_NO_WT_SUPPORT c else client_send_connect c)
                   else c)
          in (if persp c = PERSPECTIVE_SERVER then
                (case parked_es c of Some r \<Rightarrow> release_parked r c | None \<Rightarrow> c)
              else c))"
  unfolding control_settings_def settings_taken_def Let_def ..

lemma sim_settings:
  assumes inv: "conn_inv c" and pool: "pool_ok c" and c: "started c" "\<not> closed c" "\<not> settings_received c"
    and act: "\<forall>i < length (peer c). es_kind (peer c ! i) = ES_CONTROL \<longrightarrow> \<not> es_frame_active (peer c ! i)"
  shows "sim c (control_settings buf c)"
proof -
  have "sim c (let c = emit (CB_peer_settings (wt_supported (settings_taken s c))) (settings_taken s c);
              c = (if persp c = PERSPECTIVE_CLIENT \<and> sess_state c = SS_PENDING then
                     (if \<not> wt_supported c then session_failed FAIL_NO_WT_SUPPORT c else client_send_connect c)
                   else c)
          in (if persp c = PERSPECTIVE_SERVER then
                (case parked_es c of Some r \<Rightarrow> release_parked r c | None \<Rightarrow> c)
              else c))" for s
  proof -
    define c1 where "c1 = emit (CB_peer_settings (wt_supported (settings_taken s c))) (settings_taken s c)"
    have "quiet c (settings_taken s c)" using c act by (intro q_settings)
    then have s1: "sim c c1"
      unfolding c1_def using sim_trans [OF sim_quiet sim_event] by (simp add: r_into_rtranclp)
    have inv1: "conn_inv c1" using sim_inv [OF s1 inv] .
    have pool1: "pool_ok c1" using keeps_pool [OF sim_keeps [OF s1 inv] pool] .
    have f1: "\<not> closed c1" "settings_received c1" "persp c1 = persp c" using c by (simp_all add: c1_def)
    have fail: "sim c1 (session_failed FAIL_NO_WT_SUPPORT c1)"
      if "persp c1 = PERSPECTIVE_CLIENT" "sess_state c1 = SS_PENDING"
      using that f1 inv1 by (intro sim_fail) (simp_all add: conn_inv_def stream_inv_def absent_def)
    have send: "sim c1 (client_send_connect c1)"
      if "persp c1 = PERSPECTIVE_CLIENT" "sess_state c1 = SS_PENDING" "wt_supported c1"
      using that f1 conn_inv_session(7) [OF inv1] by (intro sim_send_connect inv1 pool1) simp_all
    have park: "sim c1 (case parked_es c1 of Some r \<Rightarrow> release_parked r c1 | None \<Rightarrow> c1)"
      using f1 sim_release_parked [OF inv1] by (simp split: option.split)
    show ?thesis
    proof (cases "persp c1 = PERSPECTIVE_CLIENT")
      case True
      define c2 where "c2 = (if sess_state c1 = SS_PENDING then
          (if \<not> wt_supported c1 then session_failed FAIL_NO_WT_SUPPORT c1 else client_send_connect c1) else c1)"
      have s2: "sim c1 c2" using fail send True by (simp add: c2_def)
      have "persp c2 = PERSPECTIVE_CLIENT" using sim_keeps [OF s2 inv1] True by (simp add: keeps_def)
      then show ?thesis
        using True sim_trans [OF s1 s2] unfolding Let_def c1_def [symmetric] by (simp add: c2_def [symmetric])
    next
      case False
      then have "persp c1 = PERSPECTIVE_SERVER" by (cases "persp c1") simp_all
      then show ?thesis using sim_trans [OF s1 park] unfolding Let_def c1_def [symmetric] by simp
    qed
  qed
  then show ?thesis
    unfolding control_settings_taken using sim_fatal by (simp split: sum.split wtq_status.split)
qed

section \<open>The walk\<close>

definition control_ready :: "nat \<Rightarrow> wtq_conn \<Rightarrow> bool" where
  "control_ready i c \<longleftrightarrow>
     conn_inv c \<and> pool_ok c \<and> started c \<and> i < length (peer c) \<and> es_kind (peer c ! i) = ES_CONTROL"

lemma control_ready_sim: "control_ready i c \<Longrightarrow> sim c c' \<Longrightarrow> control_ready i c'"
  using sim_keeps [of c c'] sim_inv [of c c'] keeps_pool [of c c'] unfolding control_ready_def keeps_def by metis

lemma only_control:
  assumes "conn_inv c" "i < length (peer c)" "es_kind (peer c ! i) = ES_CONTROL" "P (peer c ! i)"
  shows "\<forall>j < length (peer c). es_kind (peer c ! j) = ES_CONTROL \<longrightarrow> P (peer c ! j)"
  using assms unfolding conn_inv_def stream_inv_def by (metis at_most_oneD)

lemma sim_control_payload:
  assumes J: "control_ready i c" and c: "\<not> closed c"
    and es: "frame_open c i 0 es" "es_kind es = ES_CONTROL"
    and e: "control_payload i data (upd_es i (\<lambda>_. es) c) = (c', r)"
  shows "sim c c'"
proof -
  define n where "n = frame_take (es_frame_remaining es) data"
  have inv: "conn_inv c" and i: "i < length (peer c)" "es_kind (peer c ! i) = ES_CONTROL"
    using J by (simp_all add: control_ready_def)
  define e1 where "e1 = es\<lparr>es_set_buf := (if es_frame_kind es \<noteq> CF_SKIP then es_set_buf es @ take n data else es_set_buf es)\<rparr>"
  define e2 where "e2 = e1\<lparr>es_frame_remaining := es_frame_remaining e1 - of_nat n\<rparr>"
  have n: "n \<le> unat (es_frame_remaining es)" "n \<le> length data" by (simp_all add: n_def frame_take_le)
  have "\<not> es_is_session_stream es" using es by (simp add: frame_open_def es_inv_def)
  then have "gathers es" if "es_frame_kind es \<noteq> CF_SKIP"
    using that es(1) by (cases "es_frame_kind es") (simp_all add: frame_open_def gathers_def)
  then have o: "frame_open c i n e1"
    using frame_open_gather [OF es(1), of "take n data"] frame_open_mono [OF es(1) n(1)] n
    by (simp add: e1_def split: if_splits)
  have p: "peer (upd_es i (\<lambda>_. x) c) ! i = x" for x using i by (simp add: peer_upd_es)
  have u: "upd_es i f (upd_es i (\<lambda>_. x) c) = upd_es i (\<lambda>_. f x) c" for f x using i by (simp add: upd_es_twice)
  have t: "es\<lparr>es_set_buf := (if es_frame_kind es \<noteq> CF_SKIP then es_set_buf es @ take n data else es_set_buf es),
      es_frame_remaining := es_frame_remaining es - of_nat n\<rparr> = e2"
    by (simp add: e2_def e1_def)
  have eq: "fst (control_payload i data (upd_es i (\<lambda>_. es) c)) =
      (if es_frame_remaining e2 = 0 then
         (let c = upd_es i (\<lambda>_. e2\<lparr>es_frame_active := False\<rparr>) c
          in if es_frame_kind e2 = CF_ONE_VARINT then control_varint (es_frame_type e2) (es_set_buf e2) c
             else if es_frame_kind e2 = CF_SETTINGS then control_settings (es_set_buf e2) c else c)
       else upd_es i (\<lambda>_. e2) c)"
    unfolding control_payload_def Let_def p u n_def [symmetric] t by simp
  show ?thesis
  proof (cases "es_frame_remaining e2 = 0")
    case False
    then have "es_inv c i e2" unfolding e2_def using o by (intro es_inv_frame) auto
    then have "sim c (upd_es i (\<lambda>_. e2) c)" using i es by (intro sim_const) (simp_all add: e2_def e1_def)
    moreover have "c' = upd_es i (\<lambda>_. e2) c"
      using eq e False by simp
    ultimately show ?thesis by simp
  next
    case True
    let ?e3 = "e2\<lparr>es_frame_active := False\<rparr>"
    let ?c3 = "upd_es i (\<lambda>_. ?e3) c"
    have "es_inv c i ?e3" unfolding e2_def using o by (intro es_inv_frame_end)
    then have s3: "sim c ?c3" using i es by (intro sim_const) (simp_all add: e2_def e1_def)
    have J3: "control_ready i ?c3" using control_ready_sim [OF J s3] .
    then have inv3: "conn_inv ?c3" "pool_ok ?c3" "started ?c3" by (simp_all add: control_ready_def)
    have k: "es_frame_kind e2 = es_frame_kind es" "es_kind e2 = ES_CONTROL" using es by (simp_all add: e2_def e1_def)
    have set: "sim ?c3 (control_settings b ?c3)" if "es_frame_kind es = CF_SETTINGS" for b
    proof (rule sim_settings [OF inv3])
      show "\<not> settings_received ?c3" using es that by (simp add: frame_open_def)
      show "\<forall>i < length (peer ?c3). es_kind (peer ?c3 ! i) = ES_CONTROL \<longrightarrow> \<not> es_frame_active (peer ?c3 ! i)"
        using inv3(1) i p k(2) by (intro only_control [of ?c3 i]) simp_all
    qed (use c in simp)
    have var: "sim ?c3 (control_varint ty b ?c3)" for ty b using c by (intro sim_varint inv3) simp
    have "c' = (if es_frame_kind es = CF_ONE_VARINT then control_varint (es_frame_type e2) (es_set_buf e2) ?c3
        else if es_frame_kind es = CF_SETTINGS then control_settings (es_set_buf e2) ?c3 else ?c3)"
      using eq e True k by (simp add: Let_def)
    then show ?thesis using s3 sim_trans [OF s3 set] sim_trans [OF s3 var] by simp
  qed
qed

lemma sim_control_header:
  assumes J: "control_ready i c" and c: "\<not> closed c" and d: "h3_frame_dec_inv d"
    and e: "control_header i hdr (upd_es i (\<lambda>es. es\<lparr>es_frame_dec := d\<rparr>) c) = (c', go)"
  shows "if go then \<exists>k. c' = upd_es i (\<lambda>_. (begun d hdr (peer c ! i))\<lparr>es_frame_kind := k\<rparr>) c
               \<and> frame_open c i 0 ((begun d hdr (peer c ! i))\<lparr>es_frame_kind := k\<rparr>)
         else sim c c'"
proof -
  let ?es = "peer c ! i" and ?v = "upd_es i (begun d hdr) c"
  have inv: "conn_inv c" and i: "i < length (peer c)" and k: "es_kind ?es = ES_CONTROL"
    using J by (simp_all add: control_ready_def)
  note es = inv_at [OF inv i] and kk = disjI2 [OF k, of "request_kind (es_kind ?es)"]
  have fu: "fatal_upd c i (begun d hdr)" using es_inv_begun(2) [OF es d kk] by (simp add: fatal_upd_def)
  have fatal: "sim c (conn_fatal err ?v)" for err using sim_fatal_upd [OF c fu] .
  have kind: "upd_es i (\<lambda>es. es\<lparr>es_frame_kind := q\<rparr>) ?v
      = upd_es i (\<lambda>_. (begun d hdr ?es)\<lparr>es_frame_kind := q\<rparr>) c" for q
    using i by (subst upd_es_twice) (simp_all add: upd_es_const [of i "\<lambda>es. (begun d hdr es)\<lparr>es_frame_kind := q\<rparr>"])
  have op: "\<exists>k. upd_es i (\<lambda>_. (begun d hdr ?es)\<lparr>es_frame_kind := q\<rparr>) c
        = upd_es i (\<lambda>_. (begun d hdr ?es)\<lparr>es_frame_kind := k\<rparr>) c
      \<and> frame_open c i 0 ((begun d hdr ?es)\<lparr>es_frame_kind := k\<rparr>)"
    if "q \<noteq> CF_CAPSULE" "q = CF_SETTINGS \<longrightarrow> \<not> settings_received c"
      "q = CF_SETTINGS \<or> q = CF_ONE_VARINT \<longrightarrow> fr_length hdr \<le> 512" for q
    using that by (intro exI [of _ q] conjI refl frame_open_begun es d kk) simp_all
  have "fr_length hdr \<le> 8 \<Longrightarrow> fr_length hdr \<le> 512" by (simp add: word_le_nat_alt)
  then show ?thesis
    using e unfolding control_header_def begin_frame_begun [OF i] Let_def WTQ_CONN_SETTINGS_CAP_def
    by (simp add: kind not_less split: if_splits) (clarify, simp add: fatal op)+
qed

lemma sim_control_turn:
  assumes J: "control_ready i c" and c: "\<not> closed c" and t: "control_turn i data c = (c', r)"
  shows "sim c c'"
proof -
  let ?es = "peer c ! i"
  have inv: "conn_inv c" and i: "i < length (peer c)" and k: "es_kind ?es = ES_CONTROL"
    using J by (simp_all add: control_ready_def)
  note es = inv_at [OF inv i]
  show ?thesis
  proof (cases "es_frame_active ?es")
    case True
    have "frame_open c i 0 ?es" using es c True k by (intro frame_open_real) simp_all
    moreover have "upd_es i (\<lambda>_. ?es) c = c" by (simp add: upd_es_def)
    ultimately show ?thesis
      using sim_control_payload [OF J c, of ?es data c' r] k t True by (simp add: control_turn_def)
  next
    case False
    obtain d res n where f: "wtq_h3_frame_dec_feed (es_frame_dec ?es) data = (d, res, n)" by (metis prod_cases3)
    have d: "h3_frame_dec_inv d" using h3_frame.inv_feed [OF _ f] es by (simp add: es_inv_def es_buf_def)
    show ?thesis
    proof (cases res)
      case (Inl st)
      have "es_inv c i (?es\<lparr>es_frame_dec := d\<rparr>)" using es d k False by (simp add: es_inv_def es_buf_def)
      then have "sim c (upd_es i (\<lambda>es. es\<lparr>es_frame_dec := d\<rparr>) c)" by (intro sim_upd) simp_all
      then show ?thesis using t False f Inl by (auto simp: control_turn_def Let_def)
    next
      case (Inr hdr)
      let ?v = "upd_es i (\<lambda>es. es\<lparr>es_frame_dec := d\<rparr>) c"
      obtain c1 go where h: "control_header i hdr ?v = (c1, go)" by fastforce
      note sh = sim_control_header [OF J c d h]
      show ?thesis
      proof (cases go)
        case go: True
        then obtain q where q: "c1 = upd_es i (\<lambda>_. (begun d hdr ?es)\<lparr>es_frame_kind := q\<rparr>) c"
          "frame_open c i 0 ((begun d hdr ?es)\<lparr>es_frame_kind := q\<rparr>)" using sh by auto
        have "control_payload i (drop n data) (upd_es i (\<lambda>_. (begun d hdr ?es)\<lparr>es_frame_kind := q\<rparr>) c) = (c', r)"
          using t False f Inr h go q by (simp add: control_turn_def)
        then show ?thesis using sim_control_payload [OF J c q(2)] k by simp
      qed (use t False f Inr h sh in \<open>simp add: control_turn_def\<close>)
    qed
  qed
qed

lemma sim_control_bytes:
  assumes "control_ready i c"
  shows "sim c (control_bytes i data c)"
  unfolding control_bytes_def
proof (rule walk_sim [where J = "control_ready i"])
  fix data c c' r assume "control_ready i c" "\<not> closed c" "control_turn i data c = (c', r)"
  then show "sim c c' \<and> (r \<noteq> None \<longrightarrow> closed c' \<or> control_ready i c')"
    using sim_control_turn control_ready_sim by blast
qed (rule assms)

end
