(* ===== verification/Runs_Input.thy ===== *)
theory Runs_Input
  imports Runs_Control
begin

text \<open>
  The inputs of the engine as runs of the transition system: the bytes of every
  kind of stream, stream and connection ends, native identifiers, datagrams.
\<close>

section \<open>QPACK streams and classification\<close>

lemma sim_set_buf:
  assumes "es_kind (peer c ! i) = ES_QPACK" "length b \<le> 11"
  shows "sim c (upd_es i (\<lambda>es. es\<lparr>es_set_buf := b\<rparr>) c)"
  using assms by (intro sim_upd) (simp_all add: es_inv_def es_buf_def set_cap_def)

definition qpack_left :: "nat \<Rightarrow> wtq_conn \<Rightarrow> wtq_conn \<Rightarrow> bool" where
  "qpack_left i c c' \<longleftrightarrow> sim c c' \<and> (conn_inv c \<longrightarrow> closed c' \<or> es_kind (peer c' ! i) = ES_QPACK)"

lemma qpack_leftI: "(conn_inv c \<Longrightarrow> qpack_left i c c') \<Longrightarrow> qpack_left i c c'"
  by (auto simp: qpack_left_def sim_def)

lemma qpack_left_bytes:
  assumes "i < length (peer c)" "es_kind (peer c ! i) = ES_QPACK"
  shows "qpack_left i c (qpack_bytes i data c)"
  using assms
proof (induction data arbitrary: c)
  case (Cons b bs)
  let ?buf = "es_set_buf (peer c ! i) @ [b]"
  let ?u = "\<lambda>x. upd_es i (\<lambda>es. es\<lparr>es_set_buf := x\<rparr>) c"
  have u: "i < length (peer (?u x))" "es_kind (peer (?u x) ! i) = ES_QPACK" for x
    using Cons.prems by (simp_all add: peer_upd_es)
  have go: "qpack_left i c (qpack_bytes i bs (?u x))" if "length x \<le> 11" for x
    using Cons.IH [OF u, of x] sim_trans [OF sim_set_buf [OF Cons.prems(2) that]]
      sim_inv [OF sim_set_buf [OF Cons.prems(2) that]] by (simp add: qpack_left_def)
  have fatal: "qpack_left i c (conn_fatal err c1)" if "sim c c1" "es_kind (peer c1 ! i) = ES_QPACK" for err c1
    using sim_trans [OF that(1) sim_fatal] calm_stream [OF calm_fatal, of c1 i] that by (simp add: qpack_left_def)
  have bad: "qpack_left i c (conn_fatal err (?u ?buf))" if "length ?buf \<le> 11" for err
    using sim_set_buf [OF Cons.prems(2) that] u by (intro fatal)
  show ?case
  proof (rule qpack_leftI)
    assume "conn_inv c"
    then have "length (es_set_buf (peer c ! i)) \<le> 11"
      using inv_at Cons.prems by (simp add: es_inv_def es_buf_def)
    then show "qpack_left i c (qpack_bytes i (b # bs) c)"
      using go [of "[]"] go [of ?buf] bad fatal [OF sim_refl Cons.prems(2)]
      by (simp add: Let_def split: sum.split wtq_status.split)
  qed
qed (simp add: qpack_left_def)

text \<open>A new kind for a stream whose type has just been read.\<close>

definition untyped :: "wtq_conn \<Rightarrow> nat \<Rightarrow> bool" where
  "untyped c i \<longleftrightarrow> i < length (peer c) \<and> (es_kind (peer c ! i) = ES_TYPE \<or> es_kind (peer c ! i) = ES_BTYPE)"

lemma es_inv_untyped:
  assumes "conn_inv c" "untyped c i"
  shows "parked_es c \<noteq> Some i" "\<not> es_frame_active (peer c ! i)" "es_set_buf (peer c ! i) = []"
    "\<not> es_is_session_stream (peer c ! i)" "h3_frame_dec_inv (es_frame_dec (peer c ! i))"
    "\<And>k. wt_shape ((peer c ! i)\<lparr>es_kind := k\<rparr>)"
    "\<not> es_wt_fin_pending (peer c ! i) \<and> \<not> es_wt_send_commit (peer c ! i)"
proof -
  have "es_inv c i (peer c ! i)" "es_kind (peer c ! i) = ES_TYPE \<or> es_kind (peer c ! i) = ES_BTYPE"
    using inv_at [OF assms(1), of i] assms(2) by (simp_all add: untyped_def)
  then have "parked_es c \<noteq> Some i \<and> \<not> es_frame_active (peer c ! i) \<and> es_set_buf (peer c ! i) = []
      \<and> \<not> es_is_session_stream (peer c ! i) \<and> h3_frame_dec_inv (es_frame_dec (peer c ! i))"
    unfolding es_inv_def es_buf_def by (elim disjE) simp_all
  then show "parked_es c \<noteq> Some i" "\<not> es_frame_active (peer c ! i)" "es_set_buf (peer c ! i) = []"
    "\<not> es_is_session_stream (peer c ! i)" "h3_frame_dec_inv (es_frame_dec (peer c ! i))" by simp_all
  show "wt_shape ((peer c ! i)\<lparr>es_kind := k\<rparr>)" for k
    using es_inv_shape [OF inv_at [OF assms(1)]] assms(2) unfolding wt_shape_def untyped_def by auto
  show "\<not> es_wt_fin_pending (peer c ! i) \<and> \<not> es_wt_send_commit (peer c ! i)"
    using es_inv_shape [OF inv_at [OF assms(1)]] assms(2) unfolding wt_shape_def untyped_def by auto
qed

lemma untyped_next: "untyped c i \<Longrightarrow> k \<noteq> ES_CONTROL \<Longrightarrow> k \<noteq> ES_CONNECT \<Longrightarrow> kind_next (es_kind (peer c ! i)) k"
  by (auto simp: untyped_def kind_next_def)

lemma sim_classify_uni:
  assumes "untyped c i"
  shows "sim c (fst (classify_uni i type c))"
proof (rule simI)
  assume inv: "conn_inv c"
  note es = es_inv_untyped [OF inv assms]
  have i: "i < length (peer c)" using assms by (simp add: untyped_def)
  let ?ctl = "(peer c ! i)\<lparr>es_kind := ES_CONTROL, es_frame_dec := wtq_h3_frame_dec_init\<rparr>"
  have "es_inv c i ?ctl" using es by (simp add: es_inv_def es_buf_def)
  then have ctl: "sim c (upd_es i (\<lambda>es. es\<lparr>es_kind := ES_CONTROL, es_frame_dec := wtq_h3_frame_dec_init\<rparr>)
      (c\<lparr>peer_control_seen := True\<rparr>))" if "\<not> peer_control_seen c"
    using q_control [OF i, of ?ctl] that by (intro sim_quiet r_into_rtranclp) (simp add: upd_es_def)
  have qp: "sim c (upd_es i (\<lambda>es. es\<lparr>es_kind := ES_QPACK, es_qpack_type := t\<rparr>) q)"
    if "sim c q" "peer q = peer c" "es_view q = es_view c" for q t
  proof -
    have "sim q (upd_es i (\<lambda>es. es\<lparr>es_kind := ES_QPACK, es_qpack_type := t\<rparr>) q)"
    proof (rule sim_upd)
      have "es_inv c i ((peer c ! i)\<lparr>es_kind := ES_QPACK, es_qpack_type := t\<rparr>)"
        using es by (simp add: es_inv_def es_buf_def)
      then show "es_inv q i ((peer q ! i)\<lparr>es_kind := ES_QPACK, es_qpack_type := t\<rparr>)"
        unfolding es_inv_view [OF that(3)] that(2) .
    qed (use that untyped_next [OF assms, of ES_QPACK] in simp)
    then show ?thesis using that(1) sim_trans by blast
  qed
  have en: "sim c (c\<lparr>qpack_enc_seen := True\<rparr>)" "sim c (c\<lparr>qpack_dec_seen := True\<rparr>)"
    by (rule sim_core; simp add: core_def)+
  have dr: "sim c (upd_es i (\<lambda>es. es\<lparr>es_kind := ES_DRAIN\<rparr>) c)"
  proof (rule sim_upd)
    show "es_inv c i ((peer c ! i)\<lparr>es_kind := ES_DRAIN\<rparr>)" using es by (simp add: es_inv_def es_buf_def)
  qed (simp add: untyped_next [OF assms])
  show "sim c (fst (classify_uni i type c))"
    unfolding classify_uni_def
    using ctl dr sim_fatal qp [OF en(1)] qp [OF en(2)] by (simp add: es_view_def)
qed

section \<open>WebTransport streams of the peer\<close>

text \<open>A stream that is associated, or turned away.\<close>

lemma sim_associate:
  assumes "untyped c i \<or> i < length (peer c) \<and> es_kind (peer c ! i) = ES_WT
      \<and> \<not> es_wt_fin_pending (peer c ! i) \<and> \<not> es_wt_send_commit (peer c ! i)"
  shows "sim c (fst (wt_associate i sid bidi c))"
proof (rule simI)
  assume inv: "conn_inv c"
  have i: "i < length (peer c)" using assms by (auto simp: untyped_def)
  have "parked_es c \<noteq> Some i \<and> length (es_set_buf (peer c ! i)) \<le> 512 \<and> h3_frame_dec_inv (es_frame_dec (peer c ! i))
      \<and> \<not> es_wt_fin_pending (peer c ! i) \<and> \<not> es_wt_send_commit (peer c ! i)"
    using assms
  proof
    assume "untyped c i"
    then show ?thesis using es_inv_untyped [OF inv] by simp
  next
    assume "i < length (peer c) \<and> es_kind (peer c ! i) = ES_WT
      \<and> \<not> es_wt_fin_pending (peer c ! i) \<and> \<not> es_wt_send_commit (peer c ! i)"
    then show ?thesis using inv_at [OF inv i] by (simp add: es_inv_def es_buf_def set_cap_def)
  qed
  then have pk: "parked_es c \<noteq> Some i" and set: "length (es_set_buf (peer c ! i)) \<le> 512" "h3_frame_dec_inv (es_frame_dec (peer c ! i))"
    and fin: "\<not> es_wt_fin_pending (peer c ! i)" "\<not> es_wt_send_commit (peer c ! i)"
    by simp_all
  define c1 where "c1 = upd_es i (\<lambda>es. es\<lparr>es_kind := ES_WT, es_wt_bidi := bidi, es_wt_local := False,
      es_wt_recv_open := True, es_wt_send_open := bidi\<rparr>) c"
  have "es_inv c i ((peer c ! i)\<lparr>es_kind := ES_WT, es_wt_bidi := bidi, es_wt_local := False,
      es_wt_recv_open := True, es_wt_send_open := bidi\<rparr>)"
    using pk set fin by (simp add: es_inv_def es_buf_def set_cap_def wt_shape_def)
  then have s1: "sim c c1"
    unfolding c1_def using assms by (intro sim_upd) (auto simp: untyped_def kind_next_def)
  then have wt: "sim c (emit (CB_wt_stream_opened i bidi (es_id (peer c1 ! i))) c1)"
    using i by (intro sim_trans [OF _ sim_event]) (simp_all add: c1_def)
  have drain: "sim c (upd_es i (\<lambda>es. es\<lparr>es_kind := ES_DRAIN\<rparr>) (shutdown_raw ds bidi True code c))" for ds code
  proof -
    let ?c = "shutdown_raw ds bidi True code c"
    have inv2: "conn_inv ?c" using sim_inv [OF sim_shutdown inv] .
    have i2: "i < length (peer ?c)" "parked_es ?c \<noteq> Some i" using i pk calm_fields [OF calm_shutdown] by simp_all
    have k0: "es_kind (peer ?c ! i) = es_kind (peer c ! i) \<or> es_kind (peer ?c ! i) = ES_FREE"
      using calm_shutdown [of c ds bidi True code] unfolding calm_def by metis
    have f: "no_fin (peer ?c ! i)"
      using calm_shutdown [of c ds bidi True code] fin unfolding calm_def no_fin_def by blast
    from k0 have k: "es_kind (peer ?c ! i) \<noteq> ES_CONTROL" using assms by (auto simp: untyped_def)
    have "sim ?c (upd_es i (\<lambda>es. es\<lparr>es_kind := ES_DRAIN\<rparr>) ?c)"
    proof (rule sim_upd)
      assume "es_inv ?c i (peer ?c ! i)"
      moreover from this have "wt_shape ((peer ?c ! i)\<lparr>es_kind := ES_DRAIN\<rparr>)"
        using f es_inv_shape by (auto simp: wt_shape_def no_fin_def)
      ultimately show "es_inv ?c i ((peer ?c ! i)\<lparr>es_kind := ES_DRAIN\<rparr>)" using i2 by (simp add: es_inv_def es_buf_def)
    qed (use k in \<open>simp add: kind_next_def\<close>)
    then show ?thesis using sim_trans [OF sim_shutdown] by blast
  qed
  show "sim c (fst (wt_associate i sid bidi c))"
    unfolding wt_associate_def using wt drain sim_fatal by (simp add: c1_def [symmetric] Let_def)
qed

text \<open>A change of the fields that the invariant does not read, then the release.\<close>

lemma sim_wt_done:
  assumes "\<And>es. es_kind (f es) = es_kind es" "\<And>c i es. es_inv c i es \<Longrightarrow> es_inv c i (f es)"
  shows "sim c (wt_release_if_done i (upd_es i f c))"
  using assms by (intro sim_trans [OF sim_upd sim_wt_release]) simp_all

lemma sim_deliver: "sim c (wt_deliver i data fin c)"
proof -
  let ?e = "if data \<noteq> [] \<or> fin then emit (CB_wt_stream_data i data fin) c else c"
  have e: "sim c ?e" by (simp add: sim_event)
  have "sim c (wt_release_if_done i (upd_es i (\<lambda>es. es\<lparr>es_wt_recv_drain := False\<rparr>) c))" by (rule sim_wt_done) simp_all
  moreover have "sim ?e (wt_release_if_done i
      (upd_es i (\<lambda>es. es\<lparr>es_wt_recv_open := False, es_wt_recv_drain := False\<rparr>) ?e))"
    by (rule sim_wt_done) simp_all
  ultimately show ?thesis
    unfolding wt_deliver_def Let_def using e sim_trans [OF e] by (auto simp del: es_inv_fields)
qed

lemma sim_accounted: "accounted_loop i g data fin c = (rc, n, c') \<Longrightarrow> sim c c'"
proof (induction "length data" arbitrary: data c rule: less_induct)
  case less
  define m where "m = (if length data > 65535 then 65535 else length data)"
  define c1 where "c1 = wt_deliver i (take m data) (fin \<and> m = length data) c"
  have s: "sim c c1" unfolding c1_def by (rule sim_deliver)
  have "c' = c \<or> c' = c1 \<or> m \<noteq> length data \<and> accounted_loop i g (drop m data) fin c1 = (rc, n, c')"
    using less.prems unfolding accounted_loop.simps [of i g data] Let_def m_def [symmetric] c1_def [symmetric]
    by (auto split: if_splits)
  moreover have "sim c1 c'" if "m \<noteq> length data" "accounted_loop i g (drop m data) fin c1 = (rc, n, c')"
    using that by (intro less.hyps [of "drop m data"]) (auto simp: m_def split: if_splits)
  ultimately show ?case using s sim_trans [OF s] by blast
qed

section \<open>Deliveries\<close>

lemma sim_request_delivery:
  assumes i: "i < length (peer c)" "request_kind (es_kind (peer c ! i))" and c: "\<not> closed c"
    and d: "request_delivery i data fin c = (rc, c')"
  shows "sim c c'"
proof (rule simI)
  assume inv: "conn_inv c"
  define c1 where "c1 = (if data \<noteq> [] then request_stream_bytes i data c else c)"
  have s1: "sim c c1" "kept i (es_kind (peer c ! i)) c1"
    using sim_request_bytes [OF inv i] by (simp_all add: c1_def) (simp add: kept_def)
  have inv1: "conn_inv c1" and i1: "i < length (peer c1)"
    using sim_inv [OF s1(1) inv] sim_keeps [OF s1(1) inv] i by (simp_all add: keeps_def)
  have poisoned: "sim c (session_stream_poisoned i c)" if "es_is_session_stream (peer c ! i)"
    using that inv_at [OF inv i(1)] i by (intro sim_poisoned) (auto simp: es_inv_def)
  have fin: "sim c1 (estream_release i (close_session_es i (request_stream_fin i c1)))"
    if "\<not> closed c1" "es_kind (peer c1 ! i) \<noteq> ES_FREE" "parked_es c1 \<noteq> Some i"
    using that s1(2) i inv1 i1 by (intro sim_fin_release) (simp_all add: kept_def)
  have park: "sim c1 (c1\<lparr>parked_fin := True\<rparr>)" if "parked_es c1 = Some i"
  proof -
    have "quiet c1 (c1\<lparr>parked_es := Some i, parked_buf := parked_buf c1, parked_fin := True\<rparr>)"
    proof (rule q_park)
      show "length (parked_buf c1) \<le> 512" using inv1 by (simp add: conn_inv_def stream_inv_def)
    qed (use inv_at [OF inv1 i1] that i1 in \<open>simp add: es_inv_def\<close>)
    moreover have "c1\<lparr>parked_es := Some i, parked_buf := parked_buf c1, parked_fin := True\<rparr> = c1\<lparr>parked_fin := True\<rparr>"
      using that by (intro wtq_conn.equality) simp_all
    ultimately show ?thesis by (intro sim_quiet) simp
  qed
  show "sim c c'"
  proof (cases "es_is_session_stream (peer c ! i) \<and> close_capsule_rx c \<and> data \<noteq> []")
    case True
    then show ?thesis using d poisoned by (auto simp: request_delivery_def)
  next
    case False
    then have "c' = c1 \<or> c' = conn_fatal WTQ_H3_FRAME_ERROR c1 \<or> parked_es c1 = Some i \<and> c' = c1\<lparr>parked_fin := True\<rparr>
      \<or> \<not> closed c1 \<and> es_kind (peer c1 ! i) \<noteq> ES_FREE \<and> parked_es c1 \<noteq> Some i
        \<and> c' = estream_release i (close_session_es i (request_stream_fin i c1))"
      using d unfolding request_delivery_def c1_def [symmetric] close_session_es_def [symmetric] Let_def
      by (auto split: if_splits)
    then show ?thesis using fin park sim_trans [OF s1(1)] sim_trans [OF s1(1) sim_fatal] s1(1) by blast
  qed
qed

lemma sim_uni_classify:
  assumes i: "i < length (peer c)" and u: "uni_classify i data c = (c', rest, ok)"
    and k: "es_kind (peer c ! i) \<noteq> ES_REQUEST"
  shows "sim c c' \<and> es_kind (peer c' ! i) \<noteq> ES_REQUEST"
proof (cases "es_kind (peer c ! i) = ES_TYPE \<and> data \<noteq> []")
  case True
  obtain d r n where f: "wtq_preamble_dec_feed KIND_UNI (es_pre (peer c ! i)) data = (d, r, n)" by (metis prod_cases3)
  define c1 where "c1 = upd_es i (\<lambda>es. es\<lparr>es_pre := d\<rparr>) c"
  have s1: "sim c c1" unfolding c1_def by (rule sim_upd) simp_all
  have k1: "es_kind (peer c1 ! i) = ES_TYPE" "i < length (peer c1)" using True i by (simp_all add: c1_def peer_upd_es)
  then have t1: "untyped c1 i" by (simp add: untyped_def)
  have fk: "es_kind (peer (conn_fatal e c1) ! i) = ES_TYPE" "es_kind (peer (shutdown_raw ds a b e c1) ! i) = ES_TYPE"
    "length (peer (shutdown_raw ds a b e c1)) = length (peer c1)" for e ds a b
    using calm_stream [OF calm_fatal, of c1 i] calm_stream [OF calm_shutdown, of c1 i] calm_fields(1) [OF calm_shutdown] k1
    by simp_all
  have a: "sim c (fst (wt_associate i sid False c1))" "es_kind (peer (fst (wt_associate i sid False c1)) ! i) \<noteq> ES_REQUEST" for sid
    using sim_trans [OF s1 sim_associate] t1 k1 fk by (simp_all add: wt_associate_def peer_upd_es Let_def)
  have b: "sim c (fst (classify_uni i t c1))" "es_kind (peer (fst (classify_uni i t c1)) ! i) \<noteq> ES_REQUEST" for t
    using sim_trans [OF s1 sim_classify_uni [OF t1]] k1 fk by (simp_all add: classify_uni_def peer_upd_es)
  have "c' = c1 \<or> (\<exists>sid. c' = fst (wt_associate i sid False c1)) \<or> (\<exists>t. c' = fst (classify_uni i t c1))"
    using u True f unfolding uni_classify_def c1_def
    by (auto simp: Let_def split: sum.splits preamble_result.splits prod.splits) (metis fst_conv)+
  then show ?thesis using a b s1 k1 by auto
qed (use u k in \<open>auto simp: uni_classify_def\<close>)

lemma unparked:
  assumes "conn_inv c" "i < length (peer c)" "es_kind (peer c ! i) \<noteq> ES_REQUEST"
  shows "parked_es c \<noteq> Some i"
  using inv_at [OF assms(1,2)] assms(3) by (auto simp: es_inv_def)

lemma sim_other_delivery:
  assumes pool: "pool_ok c" "started c" and i: "i < length (peer c)" "es_kind (peer c ! i) \<noteq> ES_REQUEST"
    and d: "other_delivery i g data fin acc c = (rc, n, c')"
  shows "sim c c'"
proof (rule simI)
  assume inv: "conn_inv c"
  define c1 where "c1 = (if \<not> closed c \<and> es_kind (peer c ! i) = ES_CONTROL \<and> data \<noteq> [] then control_bytes i data c else c)"
  define c2 where "c2 = (if \<not> closed c1 \<and> es_kind (peer c1 ! i) = ES_QPACK \<and> data \<noteq> [] then qpack_bytes i data c1 else c1)"
  have s1: "sim c c1"
    using sim_control_bytes [of i c data] inv pool i by (simp add: c1_def control_ready_def)
  have inv1: "conn_inv c1" and i1: "i < length (peer c1)"
    using sim_inv [OF s1 inv] sim_keeps [OF s1 inv] i by (simp_all add: keeps_def)
  have k1: "es_kind (peer c1 ! i) \<noteq> ES_REQUEST"
    using sim_keeps [OF s1 inv] i by (auto simp: c1_def keeps_def split: if_splits)
  have s2: "sim c1 c2" "closed c2 \<or> es_kind (peer c2 ! i) \<noteq> ES_REQUEST"
    using qpack_left_bytes [OF i1, of data] inv1 k1 by (auto simp: c2_def qpack_left_def)
  have inv2: "conn_inv c2" and i2: "i < length (peer c2)"
    using sim_inv [OF s2(1) inv1] sim_keeps [OF s2(1) inv1] i1 by (simp_all add: keeps_def)
  have rel: "sim c2 (estream_release i c2)" if "\<not> closed c2" "es_kind (peer c2 ! i) \<noteq> ES_CONTROL"
    using that unparked [OF inv2 i2] s2(2) by (intro sim_release) simp_all
  have s: "sim c c2" using sim_trans [OF s1 s2(1)] .
  have "c' = c \<or> c' = wt_deliver i data fin c \<or> accounted_loop i g data fin c = (rc, n, c') \<or> c' = c2
    \<or> c' = conn_fatal WTQ_H3_CLOSED_CRITICAL_STREAM c2
    \<or> \<not> closed c2 \<and> es_kind (peer c2 ! i) \<noteq> ES_CONTROL \<and> c' = estream_release i c2"
    using d unfolding other_delivery_def Let_def c1_def [symmetric] c2_def [symmetric] by (auto split: if_splits)
  then show "sim c c'"
    using sim_deliver sim_accounted s sim_trans [OF s sim_fatal] sim_trans [OF s rel] by blast
qed

lemma sim_classified:
  assumes pool: "pool_ok c" "started c" and i: "i < length (peer c)" and c: "\<not> closed c"
    and d: "classified_bytes i g data fin acc c = (rc, n, c')"
  shows "sim c c'"
proof (rule simI)
  assume inv: "conn_inv c"
  show "sim c c'"
  proof (cases "request_kind (es_kind (peer c ! i))")
    case True
    obtain rc1 c1 where r: "request_delivery i data fin c = (rc1, c1)" by fastforce
    then show ?thesis
      using sim_request_delivery [OF i True c r] d True by (simp add: classified_bytes_def request_kind_def)
  next
    case False
    obtain c1 rest ok where u: "uni_classify i data c = (c1, rest, ok)" by (metis prod_cases3)
    have k: "es_kind (peer c ! i) \<noteq> ES_REQUEST" using False by (auto simp: request_kind_def)
    note s1 = sim_uni_classify [OF i u k]
    have keep: "keeps c c1" using sim_keeps s1 inv by blast
    have "sim c1 c'" if "other_delivery i g rest fin acc c1 = (rc, n, c')"
      using keeps_pool [OF keep pool(1)] keep pool(2) i s1 that by (intro sim_other_delivery) (simp_all add: keeps_def)
    moreover have "c' = c1 \<or> other_delivery i g rest fin acc c1 = (rc, n, c')"
      using d False u by (auto simp: classified_bytes_def request_kind_def split: if_splits)
    ultimately show ?thesis using s1 sim_trans by blast
  qed
qed

lemma sim_bidi_classify:
  assumes i: "i < length (peer c)" and u: "bidi_classify_bytes i data c = (c', rest, ok)"
  shows "sim c c'"
proof (rule simI)
  assume inv: "conn_inv c"
  show "sim c c'"
  proof (cases "data = [] \<or> es_kind (peer c ! i) \<noteq> ES_BTYPE \<or> closed c")
    case True
    then show ?thesis using u by (auto simp: bidi_classify_bytes_def)
  next
    case False
    obtain d r n where f: "wtq_preamble_dec_feed KIND_BIDI (es_pre (peer c ! i)) data = (d, r, n)" by (metis prod_cases3)
    define c1 where "c1 = upd_es i (\<lambda>es. es\<lparr>es_pre := d, es_btype_buf := take 8 (es_btype_buf es @ take n data)\<rparr>) c"
    define c2 where "c2 = upd_es i (\<lambda>es. es\<lparr>es_btype_buf := []\<rparr>) c1"
    define c3 where "c3 = upd_es i (\<lambda>es. es\<lparr>es_kind := ES_REQUEST, es_frame_dec := wtq_h3_frame_dec_init, es_btype_buf := []\<rparr>) c1"
    have s1: "sim c c1" unfolding c1_def by (rule sim_upd) simp_all
    have s2: "sim c1 c2" unfolding c2_def by (rule sim_upd) simp_all
    have inv1: "conn_inv c1" using sim_inv [OF s1 inv] .
    have t: "untyped c1 i" "untyped c2 i" "\<not> closed c1" "persp c1 = persp c" "i < length (peer c3)"
      using False i by (simp_all add: untyped_def c3_def c2_def c1_def peer_upd_es)
    note es = es_inv_untyped [OF inv1 t(1)]
    have s3: "sim c1 c3" if "persp c1 \<noteq> PERSPECTIVE_CLIENT"
    proof -
      have "persp c1 = PERSPECTIVE_SERVER" using that by (cases "persp c1") simp_all
      then have "es_inv c1 i ((peer c1 ! i)\<lparr>es_kind := ES_REQUEST, es_frame_dec := wtq_h3_frame_dec_init, es_btype_buf := []\<rparr>)"
        using es by (simp add: es_inv_def es_buf_def)
      then show ?thesis unfolding c3_def using untyped_next [OF t(1), of ES_REQUEST] by (intro sim_upd) simp_all
    qed
    have "es_kind (peer c3 ! i) = ES_REQUEST" using i by (simp add: c3_def c1_def peer_upd_es)
    then have req: "sim c1 (request_stream_bytes i b c3)" if "persp c1 \<noteq> PERSPECTIVE_CLIENT" for b
      using sim_trans [OF s3 [OF that] conjunct1 [OF sim_request_bytes [OF sim_inv [OF s3 [OF that] inv1] t(5)]]] by simp
    have ass: "sim c1 (fst (wt_associate i sid True c2))" for sid
      using sim_trans [OF s2 sim_associate] t(2) by blast
    have "c' = c1 \<or> (\<exists>sid. c' = fst (wt_associate i sid True c2)) \<or> c' = conn_fatal WTQ_H3_STREAM_CREATION_ERROR c1
      \<or> persp c1 \<noteq> PERSPECTIVE_CLIENT \<and> (\<exists>b. c' = request_stream_bytes i b c3)"
      using u False f unfolding bidi_classify_bytes_def c3_def c2_def c1_def
      by (auto simp: Let_def split: sum.splits preamble_result.splits if_splits)
    then show ?thesis using s1 sim_trans [OF s1] sim_fatal ass req by blast
  qed
qed

lemma sim_stream_bytes:
  assumes pool: "pool_ok c" "started c" and i: "i < length (peer c)"
    and d: "stream_bytes i data fin acc c = (rc, n, c')"
  shows "sim c c'"
proof (rule simI)
  assume inv: "conn_inv c"
  let ?g = "es_generation (peer c ! i)"
  obtain c1 rest ok where u: "bidi_classify_bytes i data c = (c1, rest, ok)" by (metis prod_cases3)
  have s1: "sim c c1" using sim_bidi_classify [OF i u] .
  have keep: "keeps c c1" using sim_keeps s1 inv by blast
  have ok: "\<not> closed c1" if ok
    using u that unfolding bidi_classify_bytes_def
    by (auto simp: Let_def split: prod.splits sum.splits preamble_result.splits if_splits)
  have cl: "sim c1 c'" if "classified_bytes i ?g rest fin acc c1 = (rc, n, c')" ok
    using keeps_pool [OF keep pool(1)] keep pool(2) i that ok by (intro sim_classified) (simp_all add: keeps_def)
  have "c' = c \<or> \<not> closed c \<and> classified_bytes i ?g data fin acc c = (rc, n, c') \<or> c' = c1
    \<or> (\<exists>err. c' = conn_fatal err c1) \<or> ok \<and> classified_bytes i ?g rest fin acc c1 = (rc, n, c')"
    using d u unfolding stream_bytes_def by (auto simp: Let_def split: if_splits)
  then show "sim c c'"
    using sim_classified [OF pool i] s1 sim_trans [OF s1 sim_fatal] sim_trans [OF s1 cl] by blast
qed

section \<open>Start and peer streams\<close>

lemma sim_open_local:
  assumes "open_local b c = (rc, c')"
  shows "sim c c'"
proof -
  have "sim c (emit (D_open_uni None) c)" by (simp add: sim_event)
  moreover from this have "sim c (emit (D_send ds b False) (emit (D_open_uni None) c))" for ds
    by (rule sim_trans) (simp add: sim_event)
  ultimately show ?thesis using assms by (auto simp: open_local_def Let_def split: if_splits)
qed

lemma sim_open_local_all: "open_local_all bs c = (rc, c') \<Longrightarrow> sim c c'"
proof (induction bs arbitrary: c)
  case (Cons b bs)
  obtain rc1 c1 where o: "open_local b c = (rc1, c1)" by fastforce
  then show ?case using Cons sim_open_local [OF o] sim_trans by (auto split: if_splits)
qed simp

lemma sim_open_locals: "conn_open_locals c = (rc, c') \<Longrightarrow> sim c c'"
proof -
  assume o: "conn_open_locals c = (rc, c')"
  have "sim c (c\<lparr>locals_attempted := True\<rparr>)" by (rule sim_core) (simp_all add: core_def)
  then show "sim c c'"
    using o sim_open_local_all sim_trans unfolding conn_open_locals_def
    by (auto simp del: open_local_all.simps split: sum.splits)
qed

lemma sim_start: "wtq_conn_start c = (rc, c') \<Longrightarrow> sim c c'"
proof -
  assume o: "wtq_conn_start c = (rc, c')"
  have "sim c (c\<lparr>started := True\<rparr>)" by (rule sim_core) (simp_all add: core_def)
  then show "sim c c'"
    using o sim_open_locals sim_trans unfolding wtq_conn_start_def by (auto simp: Let_def split: if_splits)
qed

lemma sim_deferred: "conn_open_locals_if_deferred c = (rc, c') \<Longrightarrow> sim c c'"
proof -
  assume o: "conn_open_locals_if_deferred c = (rc, c')"
  obtain rc1 c1 where l: "conn_open_locals c = (rc1, c1)" by fastforce
  then show "sim c c'"
    using o sim_open_locals [OF l] sim_trans [OF _ sim_fatal]
    unfolding conn_open_locals_if_deferred_def by (auto split: if_splits)
qed

lemma sim_fresh:
  assumes "i < length (peer c)" "es_kind (peer c ! i) = ES_FREE" "k \<noteq> ES_CONTROL" "k \<noteq> ES_CONNECT"
    and "k = ES_REQUEST \<longrightarrow> persp c = PERSPECTIVE_SERVER"
    and "es_kind es = k" "es_set_buf es = []" "\<not> es_frame_active es" "\<not> es_is_session_stream es"
      "h3_frame_dec_inv (es_frame_dec es)"
    and "\<not> es_wt_fin_pending es" "\<not> es_wt_send_commit es" "\<not> es_wt_recv_open es"
  shows "sim c (upd_es i (\<lambda>_. es) c)"
proof (rule sim_upd)
  assume "es_inv c i (peer c ! i)"
  then have "parked_es c \<noteq> Some i" using assms(2) by (auto simp: es_inv_def)
  then show "es_inv c i es" using assms by (simp add: es_inv_def es_buf_def wt_shape_def)
qed (use assms in \<open>simp add: kind_next_def\<close>)

lemma sim_generation: "sim c (c\<lparr>stream_generation := g\<rparr>)"
  by (rule sim_core) (simp_all add: core_def)

lemma estream_zero_fields [simp]:
  "es_kind estream_zero = ES_FREE" "es_set_buf estream_zero = []" "\<not> es_frame_active estream_zero"
  "\<not> es_is_session_stream estream_zero" "es_frame_dec estream_zero = wtq_h3_frame_dec_init"
  "\<not> es_wt_fin_pending estream_zero" "\<not> es_wt_send_commit estream_zero" "\<not> es_wt_recv_open estream_zero"
  by (simp_all add: estream_zero_def)

lemma sim_peer_opened:
  assumes "kind = ES_TYPE \<or> kind = ES_BTYPE" "peer_opened kind a ds sid c = (rc, r, c')"
  shows "sim c c'"
proof (cases "closed c")
  case False
  obtain rc1 c1 where d: "conn_open_locals_if_deferred c = (rc1, c1)" by fastforce
  have s1: "sim c c1" using sim_deferred [OF d] .
  have new: "sim c1 (upd_es i (\<lambda>_. estream_zero\<lparr>es_generation := g, es_kind := kind, es_ds := Some ds, es_id := sid\<rparr>)
      (c1\<lparr>stream_generation := g'\<rparr>))"
    if "free_slot c1 [0..<length (peer c1)] = Some i" for i g g'
    by (rule sim_trans [OF sim_generation sim_fresh [where k = kind]]) (use assms(1) free_slotD [OF that] in auto)
  show ?thesis
    using assms(2) False d s1 sim_trans [OF s1 new] sim_trans [OF s1 sim_shutdown]
    by (auto simp: peer_opened_def Let_def split: if_splits option.splits)
qed (use assms(2) in \<open>simp add: peer_opened_def\<close>)

section \<open>Stream ends\<close>

lemma sim_cancel_if: "sim c (if parked_es c = Some i then parked_request_cancel c else c)"
  by (simp add: sim_cancel)

lemma sim_terminal:
  assumes i: "i < length (peer c)" and t: "wtq_conn_on_stream_terminal i c = (rc, c')"
  shows "sim c c'"
proof (rule simI)
  assume inv: "conn_inv c"
  note pk = unparked [OF inv i]
  let ?f = "\<lambda>es. es\<lparr>es_wt_recv_drain := False, es_wt_send_open := False, es_wt_fin_pending := False, es_wt_recv_open := False\<rparr>"
  let ?p = "if parked_es c = Some i then parked_request_cancel c else c"
  have drain: "sim c (estream_release i c)" if "es_kind (peer c ! i) = ES_DRAIN"
    using that pk by (intro sim_release) simp_all
  have req: "sim c (estream_release i ?p)" if "es_kind (peer c ! i) = ES_REQUEST"
    using that by (intro sim_trans [OF sim_cancel_if sim_release]) auto
  have wt: "sim c (estream_release i (if b then emit (CB_wt_stream_terminal i) (upd_es i ?f c) else upd_es i ?f c))"
    if "es_kind (peer c ! i) = ES_WT" for b
  proof -
    have "sim c (if b then emit (CB_wt_stream_terminal i) (upd_es i ?f c) else upd_es i ?f c)"
      using sim_upd [of c i ?f] sim_trans [OF _ sim_event] by (simp del: upd_es_fields)
    then show ?thesis by (rule sim_trans) (use that pk i in \<open>intro sim_release; simp add: peer_upd_es\<close>)
  qed
  show "sim c c'"
    using t drain req wt [of True] wt [of False] unfolding wtq_conn_on_stream_terminal_def by (auto simp: Let_def split: if_splits)
qed

lemma sim_reset:
  assumes i: "i < length (peer c)" and t: "wtq_conn_on_stream_reset i e c = (rc, c')"
  shows "sim c c'"
proof (rule simI)
  assume inv: "conn_inv c"
  let ?es = "peer c ! i"
  have es: "es_inv c i ?es" using inv_at [OF inv i] .
  have sess: "sim c (session_closed 0 [] False (estream_release i (close_session_es i c)))"
    if "es_is_session_stream ?es" "es_kind ?es \<noteq> ES_CONTROL"
    by (rule sim_trans [OF sim_close_session_es sim_trans [OF sim_release sim_closed]])
      (use that es in \<open>auto simp: es_inv_def\<close>)
  have wt: "sim c (wt_release_if_done i (upd_es i (\<lambda>es. es\<lparr>es_wt_recv_drain := False\<rparr>) c))" by (rule sim_wt_done) simp_all
  have wt': "sim c (wt_release_if_done i (emit (CB_wt_stream_reset i a) (upd_es i (\<lambda>es. es\<lparr>es_wt_recv_open := False\<rparr>) c)))" for a
    by (rule sim_trans [OF sim_upd sim_trans [OF sim_event sim_wt_release]]) simp_all
  have fail: "sim c (estream_release i (session_failed FAIL_BAD_RESPONSE c))" "parked_es (session_failed FAIL_BAD_RESPONSE c) \<noteq> Some i"
    if "es_kind ?es = ES_CONNECT" "sess_state c = SS_SENT" "\<not> closed c"
    using sim_failed_release [OF inv i that(1,3,2)] unparked [OF inv i] that(1) by (simp_all add: session_failed_def)
  have rel: "sim c (estream_release i (if parked_es c = Some i then parked_request_cancel c else c))" if "es_kind ?es \<noteq> ES_CONTROL"
    using that by (intro sim_trans [OF sim_cancel_if sim_release]) auto
  show "sim c c'"
    using t sess wt wt' fail rel sim_fatal unfolding wtq_conn_on_stream_reset_def close_session_es_def [symmetric]
    by (auto simp: Let_def split: if_splits)
qed

lemma sim_conn_closed: "sim c (wtq_conn_on_conn_closed err remote c)"
proof (cases "closed c")
  case False
  then show ?thesis by (intro sim_step s_conn_closed)
qed (simp add: wtq_conn_on_conn_closed_def)

lemma sim_latch: "sim c (conn_latch_error k q d n c)"
  unfolding conn_latch_error_def by (auto intro!: sim_quiet r_into_rtranclp q_latch)

lemma sim_set_error: "sim c (wtq_conn_set_transport_error k q d n c)"
  unfolding wtq_conn_set_transport_error_def using sim_latch by (simp split: option.split)

lemma sim_stop:
  assumes i: "i < length (peer c)" and t: "wtq_conn_on_stop_sending i e c = (rc, c')"
  shows "sim c c'"
proof (rule simI)
  assume inv: "conn_inv c"
  let ?f = "\<lambda>es. es\<lparr>es_wt_send_open := False, es_wt_fin_pending := False\<rparr>"
  define c1 where "c1 = parked_request_cancel (request_stream_refuse i c)"
  have s1: "sim c c1" unfolding c1_def request_stream_refuse_def using sim_trans [OF sim_refuse sim_cancel] .
  have rel: "sim c (estream_release i c1)" if "parked_es c = Some i"
  proof -
    have "es_kind (peer c ! i) = ES_REQUEST" using inv_at [OF inv i] that by (simp add: es_inv_def)
    then have "es_kind (peer c1 ! i) \<noteq> ES_CONTROL" "parked_es c1 = None"
      using refuse_stream [OF i, of WTQ_H3_REQUEST_REJECTED] by (simp_all add: c1_def request_stream_refuse_def)
    then show ?thesis by (intro sim_trans [OF s1 sim_release]) simp_all
  qed
  have "sim c (wt_release_if_done i (emit (CB_wt_stream_stop i a) (upd_es i ?f c)))" for a
    by (rule sim_trans [OF sim_upd sim_trans [OF sim_event sim_wt_release]]) simp_all
  then show "sim c c'"
    using t s1 rel sim_event unfolding wtq_conn_on_stop_sending_def c1_def [symmetric]
    by (auto simp: Let_def split: if_splits)
qed

lemma sim_send_shutdown: "sim c (wtq_conn_on_stream_send_shutdown_v1 i ds g graceful c)"
proof -
  have "sim c (wt_release_if_done i (emit e (upd_es i (\<lambda>es. es\<lparr>es_wt_fin_pending := False, es_wt_send_open := False\<rparr>) c)))"
    if "\<not> session_event e" "\<not> close_event e" "\<And>n. pool_event n e" for e
    by (rule sim_trans [OF sim_upd sim_trans [OF sim_event [OF that] sim_wt_release]]) simp_all
  then show ?thesis unfolding wtq_conn_on_stream_send_shutdown_v1_def by (simp add: Let_def)
qed

lemma sim_send_complete: "sim c (wtq_conn_on_send_complete k b c)"
  unfolding wtq_conn_on_send_complete_def by (simp add: sim_event)

lemma sim_writable: "sim c (wtq_conn_on_stream_writable i c)"
  unfolding wtq_conn_on_stream_writable_def by (simp add: sim_event)

lemma sim_native_id:
  assumes i: "i < length (peer c)"
  shows "sim c (wtq_conn_on_stream_native_id i n c)"
proof (cases "closed c \<or> \<not> native_id_valid i n c")
  case True
  then show ?thesis by (auto simp: wtq_conn_on_stream_native_id_def sim_fatal)
next
  case False
  define c1 where "c1 = upd_es i (\<lambda>es. es\<lparr>es_id := n, es_native_id_pending := False\<rparr>) c"
  have s1: "sim c c1" unfolding c1_def by (rule sim_upd) simp_all
  have "sim c1 (client_maybe_establish i c1)"
    if "es_kind (peer c1 ! i) = ES_CONNECT" "persp c1 = PERSPECTIVE_CLIENT"
    using that i False sim_maybe_establish [of i c1] by (simp add: c1_def)
  then show ?thesis
    using False s1 sim_trans [OF s1] unfolding wtq_conn_on_stream_native_id_def c1_def [symmetric] by (simp add: Let_def)
qed

lemma sim_datagram: "wtq_conn_on_datagram data c = (rc, c') \<Longrightarrow> sim c c'"
proof -
  assume d: "wtq_conn_on_datagram data c = (rc, c')"
  obtain rc1 c1 where l: "conn_open_locals_if_deferred c = (rc1, c1)" by fastforce
  have s1: "sim c c1" using sim_deferred [OF l] .
  have drop: "sim c1 (c1\<lparr>dgrams_dropped := n\<rparr>)" for n by (rule sim_core) (simp_all add: core_def)
  show "sim c c'"
    using d l s1 sim_trans [OF s1 sim_fatal] sim_trans [OF s1 sim_event] sim_trans [OF s1 drop]
    unfolding wtq_conn_on_datagram_def by (auto split: if_splits sum.splits)
qed

end
