(* ===== verification/Runs_Api.thy ===== *)
theory Runs_Api
  imports Runs_Input
begin

text \<open>
  The operations that the layers above and the admission providers call, as runs
  of the transition system.
\<close>

section \<open>The client's connect and the server's paths\<close>

lemma sim_commit:
  assumes inv: "conn_inv c" and pool: "pool_ok c"
    and c: "persp c = PERSPECTIVE_CLIENT" "\<not> closed c" "sess_state c = SS_IDLE" "settings_received c \<longrightarrow> p = wt_profile c"
  shows "sim c (client_commit p offers req sec c)"
proof -
  define c1 where "c1 = c\<lparr>wt_profile := p, wt_profiles := wtq_h3_wt_profile_bit p, sess_state := SS_PENDING\<rparr>"
  define c2 where "c2 = c\<lparr>wt_profile := p, wt_profiles := wtq_h3_wt_profile_bit p, offered := offers,
      require_protocol := req, connect_section := sec, client_response_ok := False,
      client_selected_offer := None, sess_state := SS_PENDING\<rparr>"
  have "step c c1" unfolding c1_def using c by (intro s_pending)
  then have s1: "sim c c1" by (intro sim_step)
  have "\<not> client_response_ok c" using inv c(3) by (simp add: conn_inv_def stream_inv_def)
  then have "sim c1 c2" by (intro sim_core) (simp_all add: c1_def c2_def core_def)
  then have s2: "sim c c2" using sim_trans [OF s1] by blast
  have inv2: "conn_inv c2" and pool2: "pool_ok c2"
    using sim_inv [OF s2 inv] keeps_pool [OF sim_keeps [OF s2 inv] pool] by simp_all
  have f2: "sess_state c2 = SS_PENDING" "\<not> closed c2" "persp c2 = PERSPECTIVE_CLIENT"
    using c by (simp_all add: c2_def)
  have fail: "sim c2 (session_failed r c2)" for r
    using f2 inv2 by (intro sim_fail) (simp_all add: conn_inv_def stream_inv_def absent_def)
  have send: "sim c2 (client_send_connect c2)" if "wt_supported c2"
    using that f2 conn_inv_session(7) [OF inv2] by (intro sim_send_connect inv2 pool2)
  have "client_commit p offers req sec c =
      (if settings_received c2 then if \<not> wt_supported c2 then session_failed FAIL_NO_WT_SUPPORT c2 else client_send_connect c2 else c2)"
    unfolding client_commit_def c2_def Let_def ..
  then show ?thesis using s2 sim_trans [OF s2 fail] sim_trans [OF s2 send] by simp
qed

lemma sim_client_connect:
  assumes pool: "pool_ok c" and e: "wtq_conn_client_connect cfg c = (rc, c')"
  shows "sim c c'"
proof (rule simI)
  assume inv: "conn_inv c"
  have "c' = c \<or> (\<exists>p offers req sec. persp c = PERSPECTIVE_CLIENT \<and> \<not> closed c \<and> sess_state c = SS_IDLE
      \<and> \<not> (started c \<and> p \<noteq> wt_profile c) \<and> c' = client_commit p offers req sec c)"
    using e unfolding wtq_conn_client_connect_def
    by (auto simp: Let_def split: option.splits if_splits sum.splits)
  then show "sim c c'"
    using sim_commit [OF inv pool] conn_inv_session(6) [OF inv] by auto
qed

lemma sim_set_paths: "wtq_conn_server_set_paths ps c = (rc, c') \<Longrightarrow> sim c c'"
proof -
  have "sim c (c\<lparr>paths := xs\<rparr>)" for xs by (rule sim_core) (simp_all add: core_def)
  then show "wtq_conn_server_set_paths ps c = (rc, c') \<Longrightarrow> sim c c'"
    unfolding wtq_conn_server_set_paths_def by (auto simp: Let_def split: if_splits)
qed

section \<open>The session\<close>

lemma sim_send_capsule: "session_send_capsule cap fin c = (rc, c') \<Longrightarrow> sim c c'"
  unfolding session_send_capsule_def Let_def
  using sim_event [of "D_send ds b fin" c for ds b] sim_trans [OF sim_event sim_fatal, of "D_send ds b fin" c for ds b]
  by (auto split: sum.splits if_splits)

lemma sim_session_close: "wtq_conn_session_close code reason c = (rc, c') \<Longrightarrow> sim c c'"
proof -
  assume e: "wtq_conn_session_close code reason c = (rc, c')"
  have "c' = c \<or> (\<exists>cap rc1 c1. session_send_capsule cap True c = (rc1, c1) \<and> (c' = c1 \<or> c' = session_closed code reason True c1))"
    using e unfolding wtq_conn_session_close_def by (auto split: sum.splits if_splits prod.splits)
  then show "sim c c'" using sim_send_capsule sim_trans [OF _ sim_closed] by blast
qed

lemma sim_session_drain: "wtq_conn_session_drain c = (rc, c') \<Longrightarrow> sim c c'"
  unfolding wtq_conn_session_drain_def using sim_send_capsule by (auto split: sum.splits if_splits)

section \<open>Local streams\<close>

text \<open>A stream that carries no frames yet or any more.\<close>

definition idle_kind :: "es_kind \<Rightarrow> bool" where
  "idle_kind k \<longleftrightarrow> k = ES_FREE \<or> k = ES_RESERVED \<or> k = ES_WT"

definition idle :: "nat \<Rightarrow> wtq_conn \<Rightarrow> bool" where
  "idle i c \<longleftrightarrow> i < length (peer c) \<and> idle_kind (es_kind (peer c ! i)) \<and> es_set_buf (peer c ! i) = []
     \<and> h3_frame_dec_inv (es_frame_dec (peer c ! i))
     \<and> \<not> es_wt_fin_pending (peer c ! i) \<and> \<not> es_wt_send_commit (peer c ! i)
     \<and> (es_wt_recv_open (peer c ! i) \<longrightarrow> es_wt_bidi (peer c ! i) \<or> \<not> es_wt_send_open (peer c ! i))"

lemma sim_idle:
  assumes "i < length (peer c)" "idle_kind (es_kind (peer c ! i))" "idle_kind (es_kind (f (peer c ! i)))"
    "es_set_buf (f (peer c ! i)) = []" "h3_frame_dec_inv (es_frame_dec (f (peer c ! i)))"
    "\<not> es_wt_fin_pending (f (peer c ! i))" "\<not> es_wt_send_commit (f (peer c ! i))"
    "es_wt_recv_open (f (peer c ! i)) \<longrightarrow> es_wt_bidi (f (peer c ! i)) \<or> \<not> es_wt_send_open (f (peer c ! i))"
  shows "sim c (upd_es i f c) \<and> idle i (upd_es i f c)"
proof
  show "sim c (upd_es i f c)"
  proof (rule simI)
    assume inv: "conn_inv c"
    have "parked_es c \<noteq> Some i" using unparked [OF inv assms(1)] assms(2) by (auto simp: idle_kind_def)
    then have "es_inv c i (f (peer c ! i))"
      using assms(3-8) unfolding idle_kind_def by (elim disjE) (auto simp add: es_inv_def es_buf_def wt_shape_def)
    then show "sim c (upd_es i f c)" using assms(2,3) by (intro sim_upd) (auto simp: kind_next_def idle_kind_def)
  qed
  show "idle i (upd_es i f c)" using assms by (simp add: idle_def peer_upd_es)
qed

lemma idle_fields: "idle i c \<Longrightarrow> i < length (peer c) \<and> idle_kind (es_kind (peer c ! i)) \<and> es_set_buf (peer c ! i) = []
    \<and> h3_frame_dec_inv (es_frame_dec (peer c ! i))
    \<and> \<not> es_wt_fin_pending (peer c ! i) \<and> \<not> es_wt_send_commit (peer c ! i)
    \<and> (es_wt_recv_open (peer c ! i) \<longrightarrow> es_wt_bidi (peer c ! i) \<or> \<not> es_wt_send_open (peer c ! i))"
  by (simp add: idle_def)

lemma idle_emit [simp]: "idle i (emit e c) = idle i c"
  by (simp add: idle_def)

lemma sim_idle_release: "idle i c \<Longrightarrow> sim c (estream_release i c)"
proof (rule simI)
  assume "idle i c" "conn_inv c"
  then show "sim c (estream_release i c)"
    using unparked [of c i] by (intro sim_release) (auto simp: idle_def idle_kind_def)
qed

lemma local_range_pool: "pool_ok c \<Longrightarrow> i \<in> set (local_range c) \<Longrightarrow> i < length (peer c)"
  by (auto simp: local_range_def pool_ok_def Let_def split: if_splits)

definition open_reserved :: "bool \<Rightarrow> nat \<Rightarrow> wtq_conn \<Rightarrow> wtq_conn" where
  "open_reserved bidi i c =
     (let gen = stream_generation c + 1; c = c\<lparr>stream_generation := gen\<rparr>
      in emit ((if bidi then D_open_bidi else D_open_uni) (Some i))
           (upd_es i (\<lambda>_. estream_zero\<lparr>es_generation := gen, es_id := WTQ_STREAM_ID_UNKNOWN,
                       es_resident := budgeted c,
                       es_kind := (if admission_enabled c then ES_RESERVED else ES_FREE)\<rparr>) c))"

definition open_named :: "nat \<Rightarrow> wtq_conn \<Rightarrow> wtq_conn" where
  "open_named i c = upd_es i (\<lambda>es. es\<lparr>es_ds := Some (fst (d_open (drv c) (trace c)))\<rparr>) c"

definition open_wt :: "bool \<Rightarrow> nat \<Rightarrow> u64 \<Rightarrow> wtq_conn \<Rightarrow> wtq_conn" where
  "open_wt bidi i sid c =
     upd_es i (\<lambda>es. es\<lparr>es_id := sid, es_native_id_pending := (sid = WTQ_STREAM_ID_UNKNOWN), es_kind := ES_WT,
                       es_wt_bidi := bidi, es_wt_local := True, es_wt_send_open := True,
                       es_wt_recv_open := bidi\<rparr>) c"

lemma wt_open_eq:
  "wt_open bidi c =
     (if closed c then (WTQ_ERR_CLOSED, None, c)
      else if \<not> session_active c then (WTQ_ERR_STATE, None, c)
      else if admission_enabled c \<and> \<not> budgeted c \<and> admission_waiting c then (WTQ_ERR_WOULD_BLOCK, None, c)
      else
        (case find (\<lambda>i. es_kind (peer c ! i) = ES_FREE \<and> \<not> es_resident (peer c ! i)) (local_range c) of
           None \<Rightarrow> (if admission_enabled c then WTQ_ERR_WOULD_BLOCK else WTQ_ERR_STREAM_LIMIT, None, c)
         | Some i \<Rightarrow>
             let c1 = open_reserved bidi i c; c2 = open_named i c1;
                 c3 = open_wt bidi i (snd (d_open (drv c1) (trace c1))) c2;
                 failed = (\<lambda>c. (WTQ_ERR_BACKEND, None, conn_fatal WTQ_H3_INTERNAL_ERROR (estream_release i c)))
             in if drv_result c1 \<noteq> WTQ_OK
                then (drv_result c1, None, upd_es i (\<lambda>es. es\<lparr>es_kind := ES_FREE, es_resident := False\<rparr>) c1)
                else if admission_enabled c2 \<and> (closed c2 \<or> \<not> session_active c2)
                then (WTQ_ERR_CLOSED, None, estream_release i c2)
                else
                  (case wtq_preamble_encode (if bidi then KIND_BIDI else KIND_UNI) (session_id c3) 16 of
                     Inl _ \<Rightarrow> failed c3
                   | Inr pre \<Rightarrow>
                       let c4 = emit (D_send (Some (fst (d_open (drv c1) (trace c1)))) pre False) c3
                       in if drv_result c4 \<noteq> WTQ_OK then failed c4 else (WTQ_OK, Some i, c4))))"
  unfolding wt_open_def open_reserved_def open_named_def open_wt_def Let_def split_beta ..

lemma sim_wt_open:
  assumes pool: "pool_ok c" and o: "wt_open bidi c = (rc, r, c')"
  shows "sim c c'"
proof -
  let ?find = "find (\<lambda>i. es_kind (peer c ! i) = ES_FREE \<and> \<not> es_resident (peer c ! i)) (local_range c)"
  show ?thesis
  proof (cases ?find)
    case None
    then show ?thesis using o by (auto simp: wt_open_eq split: if_splits)
  next
    case (Some i)
    then have i: "i < length (peer c)" "es_kind (peer c ! i) = ES_FREE"
      using local_range_pool [OF pool] by (auto simp: find_Some_iff)
    define c1 where "c1 = open_reserved bidi i c"
    define c2 where "c2 = open_named i c1"
    define c3 where "c3 = open_wt bidi i (snd (d_open (drv c1) (trace c1))) c2"
    have "sim c (c\<lparr>stream_generation := stream_generation c + 1\<rparr>)" by (rule sim_generation)
    moreover have "sim (c\<lparr>stream_generation := stream_generation c + 1\<rparr>) c1 \<and> idle i c1"
      unfolding c1_def open_reserved_def Let_def
      using sim_idle [of i "c\<lparr>stream_generation := stream_generation c + 1\<rparr>"
          "\<lambda>_. estream_zero\<lparr>es_generation := stream_generation c + 1, es_id := WTQ_STREAM_ID_UNKNOWN,
             es_resident := budgeted c, es_kind := (if admission_enabled c then ES_RESERVED else ES_FREE)\<rparr>"]
        i sim_trans [OF _ sim_event] by (simp add: idle_kind_def)
    ultimately have s1: "sim c c1" "idle i c1" using sim_trans by blast+
    have f1: "sim c1 (upd_es i (\<lambda>es. es\<lparr>es_kind := ES_FREE, es_resident := False\<rparr>) c1)"
      using idle_fields [OF s1(2)] by (intro conjunct1 [OF sim_idle]) (simp_all add: idle_kind_def)
    have s2: "sim c1 c2" "idle i c2"
      unfolding c2_def open_named_def
      using idle_fields [OF s1(2)] sim_idle [of i c1 "\<lambda>es. es\<lparr>es_ds := Some (fst (d_open (drv c1) (trace c1)))\<rparr>"] by simp_all
    have s3: "sim c2 c3" "idle i c3"
      unfolding c3_def open_wt_def
      using idle_fields [OF s2(2)] sim_idle [of i c2 "\<lambda>es. es\<lparr>es_id := sid,
          es_native_id_pending := (sid = WTQ_STREAM_ID_UNKNOWN), es_kind := ES_WT,
          es_wt_bidi := bidi, es_wt_local := True, es_wt_send_open := True, es_wt_recv_open := bidi\<rparr>" for sid]
      by (simp_all add: idle_kind_def)
    have f3: "sim c3 (conn_fatal err (estream_release i c3))"
      "sim c3 (conn_fatal err (estream_release i (emit (D_send ds b False) c3)))" for err ds b
      using s3(2) sim_trans [OF sim_idle_release sim_fatal]
        sim_trans [OF sim_event [of "D_send ds b False"] sim_trans [OF sim_idle_release sim_fatal]] by simp_all
    have "c' = c \<or> c' = upd_es i (\<lambda>es. es\<lparr>es_kind := ES_FREE, es_resident := False\<rparr>) c1 \<or> c' = estream_release i c2
      \<or> c' = conn_fatal WTQ_H3_INTERNAL_ERROR (estream_release i c3)
      \<or> (\<exists>ds b. c' = conn_fatal WTQ_H3_INTERNAL_ERROR (estream_release i (emit (D_send ds b False) c3)))
      \<or> (\<exists>ds b. c' = emit (D_send ds b False) c3)"
      using o unfolding wt_open_eq Some option.case Let_def c1_def [symmetric] c2_def [symmetric] c3_def [symmetric]
      by (auto split: if_splits sum.splits)
    then show ?thesis
      using s1(1) sim_trans [OF s1(1) f1] sim_trans [OF s1(1) sim_trans [OF s2(1) sim_idle_release [OF s2(2)]]]
        sim_trans [OF s1(1) sim_trans [OF s2(1) sim_trans [OF s3(1) f3(1)]]]
        sim_trans [OF s1(1) sim_trans [OF s2(1) sim_trans [OF s3(1) f3(2)]]]
        sim_trans [OF s1(1) sim_trans [OF s2(1) sim_trans [OF s3(1) sim_event]]] by auto
  qed
qed

section \<open>Operations on streams\<close>

lemma sim_send_commit: "wtq_conn_wt_enable_send_commit i c = (rc, c') \<Longrightarrow> sim c c'"
  unfolding wtq_conn_wt_enable_send_commit_def
  using sim_upd [of c i "\<lambda>es. es\<lparr>es_wt_send_commit := True\<rparr>"]
  by (auto simp: Let_def es_inv_send_commit split: if_splits)

lemma sim_wt_send: "wtq_conn_wt_send i spans fin cookie c = (rc, c') \<Longrightarrow> sim c c'"
proof -
  assume s: "wtq_conn_wt_send i spans fin cookie c = (rc, c')"
  let ?e = "emit (D_send_gather (es_ds (peer c ! i)) (map span_bytes spans) fin cookie) c"
  let ?u = "upd_es i (\<lambda>es. es\<lparr>es_wt_application_sent := True\<rparr>) ?e"
  have e: "sim c ?e" by (simp add: sim_event)
  have u: "sim c ?u" by (rule sim_trans [OF e sim_upd]) simp_all
  have "sim c (wt_release_if_done i (upd_es i (\<lambda>es. es\<lparr>es_wt_send_open := False, es_wt_fin_pending := es_wt_send_commit es\<rparr>) ?u))"
    if "es_kind (peer c ! i) = ES_WT" "es_wt_send_open (peer c ! i)"
  proof (rule sim_trans [OF u sim_trans [OF sim_upd sim_wt_release]])
    assume "es_inv ?u i (peer ?u ! i)" "i < length (peer ?u)"
    then show "es_inv ?u i ((peer ?u ! i)\<lparr>es_wt_send_open := False, es_wt_fin_pending := es_wt_send_commit (peer ?u ! i)\<rparr>)"
      using that by (intro es_inv_fin) (simp_all add: peer_upd_es)
  qed simp
  then show "sim c c'"
    using s e u unfolding wtq_conn_wt_send_def by (auto simp: Let_def split: if_splits sum.splits)
qed

lemma sim_wt_shutdown: "wt_shutdown i req app c = (rc, c') \<Longrightarrow> sim c c'"
proof -
  assume s: "wt_shutdown i req app c = (rc, c')"
  let ?a = "\<lambda>b c. if b then upd_es i (\<lambda>es. es\<lparr>es_wt_send_open := False, es_wt_fin_pending := False\<rparr>) c else c"
  let ?r = "\<lambda>b c. if b then upd_es i (\<lambda>es. es\<lparr>es_wt_recv_open := False, es_wt_recv_drain := True\<rparr>) c else c"
  have a: "sim c (?a b c)" "sim c (?r b c)" for b c using sim_upd [of c i] by simp_all
  have w: "sim c (wt_release_if_done i (?r b (?a b' c)))" for b b' c
    using sim_trans [OF a(1) sim_trans [OF a(2) sim_wt_release]] .
  have "c' = c \<or> (\<exists>eff b b'. c' = emit (D_shutdown_stream (es_ds (peer c ! i)) eff) c
      \<or> c' = conn_fatal WTQ_H3_INTERNAL_ERROR (emit (D_shutdown_stream (es_ds (peer c ! i)) eff) c)
      \<or> c' = wt_release_if_done i (?r b (?a b' (emit (D_shutdown_stream (es_ds (peer c ! i)) eff) c))))"
    using s unfolding wt_shutdown_def Let_def
    by (simp split: if_splits sum.splits del: if_split) blast+
  moreover have "sim c (emit (D_shutdown_stream ds eff) c)" for ds eff by (simp add: sim_event)
  ultimately show "sim c c'" using sim_trans [OF _ sim_fatal] sim_trans [OF _ w] by (elim disjE exE) blast+
qed

lemma sim_shutdown_ops:
  "wtq_conn_wt_shutdown i req c = (rc, c') \<Longrightarrow> sim c c'" "wtq_conn_wt_reset i a c = (rc, c') \<Longrightarrow> sim c c'"
  "wtq_conn_wt_stop i a c = (rc, c') \<Longrightarrow> sim c c'" "wtq_conn_wt_abort i a c = (rc, c') \<Longrightarrow> sim c c'"
  unfolding wtq_conn_wt_shutdown_def wtq_conn_wt_reset_def wtq_conn_wt_stop_def wtq_conn_wt_abort_def
  using sim_wt_shutdown by (auto split: option.splits)

lemma sim_reject: "sim c (wtq_conn_wt_reject i c)"
proof -
  have "sim c (upd_es i (\<lambda>es. es\<lparr>es_user := None\<rparr>) c)" by (rule sim_upd) simp_all
  then have "sim c (snd (wt_shutdown i req b (upd_es i (\<lambda>es. es\<lparr>es_user := None\<rparr>) c)))" for req b
    using sim_trans [OF _ sim_wt_shutdown] by (metis prod.collapse)
  then show ?thesis by (simp add: wtq_conn_wt_reject_def)
qed

lemma sim_recv_enable: "wtq_conn_wt_recv_enable i b c = (rc, c') \<Longrightarrow> sim c c'"
proof -
  assume r: "wtq_conn_wt_recv_enable i b c = (rc, c')"
  let ?u = "emit (D_recv_enable (es_ds (peer c ! i)) b) (upd_es i (\<lambda>es. es\<lparr>es_recv_paused := \<not> b\<rparr>) c)"
  have u: "sim c ?u" by (rule sim_trans [OF sim_upd sim_event]) simp_all
  have "sim c (upd_es i (\<lambda>e. e\<lparr>es_recv_paused := es_recv_paused (peer c ! i)\<rparr>) ?u)"
    by (rule sim_trans [OF u sim_upd]) simp_all
  then show "sim c c'" using r u unfolding wtq_conn_wt_recv_enable_def by (auto simp: Let_def split: if_splits)
qed

lemma sim_set_user: "sim c (wtq_estream_set_user i u c)"
  unfolding wtq_estream_set_user_def by (rule sim_upd) simp_all

lemma sim_dgram_send: "wtq_conn_dgram_send spans c = (rc, c') \<Longrightarrow> sim c c'"
  unfolding wtq_conn_dgram_send_def using sim_event [of "D_dgram_send x" c for x]
  by (auto simp: Let_def split: if_splits sum.splits)

section \<open>Admission\<close>

lemma sim_admission:
  assumes "adm_ok (length (peer c)) (admission_peers c) \<Longrightarrow> adm_ok (length (peer c)) ps"
  shows "sim c (c\<lparr>admission_peers := ps\<rparr>)"
  using assms by (intro sim_core) (simp_all add: core_def)

lemma sim_upd_adm:
  assumes "\<And>a. pa_es (f a) = pa_es a \<or> (\<exists>i < length (peer c). pa_es (f a) = Some i)"
  shows "sim c (upd_adm r f c)"
  unfolding upd_adm_def
proof (rule sim_admission)
  assume ok: "adm_ok (length (peer c)) (admission_peers c)"
  show "adm_ok (length (peer c)) ((admission_peers c)[r := map_option f (admission_peers c ! r)])"
  proof (cases "r < length (admission_peers c)")
    case True
    then have m: "admission_peers c ! r \<in> set (admission_peers c)" by simp
    show ?thesis
    proof (rule adm_ok_update [OF ok])
      fix a i assume "map_option f (admission_peers c ! r) = Some a" "pa_es a = Some i"
      then obtain b where b: "admission_peers c ! r = Some b" "pa_es (f b) = Some i" by auto
      then show "i < length (peer c)" using assms [of b] ok m by (auto simp: adm_ok_def)
    qed
  qed (use ok in \<open>simp add: list_update_beyond\<close>)
qed

lemma sim_enable_admission: "sim c (wtq_conn_enable_admission c)"
  unfolding wtq_conn_enable_admission_def by (rule sim_core) (simp_all add: core_def)

lemma sim_link: "sim c (c\<lparr>admission_peers := (admission_peers c)[r := Some (admission_init ds sid b)]\<rparr>)"
  by (rule sim_admission) (rule adm_ok_update, auto simp: admission_init_def)

lemma sim_unlink: "sim c (c\<lparr>admission_peers := (admission_peers c)[r := None]\<rparr>)"
  by (rule sim_admission) (rule adm_ok_update, simp_all)

lemma sim_admission_init: "wtq_conn_peer_admission_init ds sid b r c = (rc, c') \<Longrightarrow> sim c c'"
proof -
  assume e: "wtq_conn_peer_admission_init ds sid b r c = (rc, c')"
  obtain rc1 c1 where d: "conn_open_locals_if_deferred c = (rc1, c1)" by fastforce
  then show "sim c c'"
    using e sim_deferred [OF d] sim_trans [OF sim_deferred [OF d] sim_link]
    unfolding wtq_conn_peer_admission_init_def by (auto split: if_splits)
qed

lemma sim_admission_init_v2: "wtq_conn_peer_admission_init_v2 ds sid b r c = (rc, c') \<Longrightarrow> sim c c'"
proof -
  assume e: "wtq_conn_peer_admission_init_v2 ds sid b r c = (rc, c')"
  obtain rc1 c1 where d: "conn_open_locals_if_deferred c = (rc1, c1)" by fastforce
  have "sim c (upd_es r (\<lambda>es. es\<lparr>es_resident := True, es_ds := Some ds\<rparr>)
      (c1\<lparr>admission_peers := (admission_peers c1)[r := Some (admission_init ds sid b)]\<rparr>))"
    by (rule sim_trans [OF sim_deferred [OF d] sim_trans [OF sim_link sim_upd]]) simp_all
  then show "sim c c'"
    using e d sim_deferred [OF d] unfolding wtq_conn_peer_admission_init_v2_def by (auto split: if_splits)
qed

lemma sim_forget: "sim c (wtq_conn_peer_admission_forget r c)" "sim c (wtq_conn_peer_admission_forget_v2 r c)"
  unfolding wtq_conn_peer_admission_forget_def wtq_conn_peer_admission_forget_v2_def using sim_unlink by simp_all

lemma sim_retire: "sim c (wtq_conn_stream_retire_v2 i ds c)"
  unfolding wtq_conn_stream_retire_v2_def using sim_upd [of c i "\<lambda>es. es\<lparr>es_resident := False, es_ds := None\<rparr>"] by simp

lemma sim_entry:
  assumes i: "i < length (peer c)" and k: "k = ES_WT \<or> k = ES_TYPE \<or> k = ES_REQUEST \<and> persp c = PERSPECTIVE_SERVER"
    and e: "admission_entry r i k c = Some c'"
  shows "sim c c' \<and> es_kind (peer c' ! i) = k \<and> i < length (peer c')
    \<and> \<not> es_wt_fin_pending (peer c' ! i) \<and> \<not> es_wt_send_commit (peer c' ! i)"
proof -
  define c1 where "c1 = c\<lparr>stream_generation := stream_generation c + 1\<rparr>"
  define c2 where "c2 = upd_es i (\<lambda>_. estream_zero\<lparr>es_generation := stream_generation c + 1, es_kind := k,
      es_resident := budgeted c1, es_ds := pa_ds (the (admission_peers c ! r)), es_id := pa_id (the (admission_peers c ! r))\<rparr>) c1"
  have f: "es_kind (peer c ! i) = ES_FREE" and c': "c' = upd_adm r (\<lambda>p. p\<lparr>pa_es := Some i, pa_state := 2\<rparr>) c2"
    using e by (auto simp: admission_entry_def c2_def c1_def Let_def split: if_splits)
  have "sim c c1" by (simp add: c1_def sim_generation)
  moreover have "sim c1 c2" unfolding c2_def by (rule sim_fresh [where k = k]) (use i k f in \<open>auto simp: c1_def\<close>)
  moreover have "sim c2 c'" unfolding c' by (rule sim_upd_adm) (use i in \<open>simp add: c2_def c1_def\<close>)
  ultimately have "sim c c'" using sim_trans by blast
  then show ?thesis using i by (simp add: c' upd_adm_def c2_def c1_def peer_upd_es)
qed

lemma sim_admit_loop:
  assumes "\<forall>i \<in> set is. i < length (peer c)" "admit_loop r is c = (rc, c')"
  shows "sim c c'"
  using assms
proof (induction "is")
  case (Cons i "is")
  show ?case
  proof (cases "admission_entry r i ES_WT c")
    case (Some c1)
    then have "sim c c1 \<and> es_kind (peer c1 ! i) = ES_WT \<and> i < length (peer c1)
        \<and> \<not> es_wt_fin_pending (peer c1 ! i) \<and> \<not> es_wt_send_commit (peer c1 ! i)"
      using Cons.prems by (intro sim_entry) simp_all
    then have "sim c (fst (wt_associate i sid b c1))" for sid b
      using sim_trans [OF _ sim_associate] by blast
    then show ?thesis using Cons.prems(2) Some by (auto simp: Let_def)
  qed (use Cons in simp)
qed simp

lemma sim_admit:
  assumes pool: "pool_ok c" and a: "wtq_conn_peer_admit r c = (rc, c')"
  shows "sim c c'"
proof -
  define js where "js = (if budgeted c then [r] else [(if persp c = PERSPECTIVE_CLIENT then 4 else 10)..<length (peer c)])"
  have "c' = c \<or> admit_loop r js c = (rc, c') \<and> (budgeted c \<longrightarrow> r < peer_capacity c)"
    using a unfolding wtq_conn_peer_admit_def js_def [symmetric] by (auto split: option.splits if_splits)
  moreover have "\<forall>i \<in> set js. i < length (peer c)" if "budgeted c \<longrightarrow> r < peer_capacity c"
    using that pool by (auto simp: js_def pool_ok_def split: if_splits)
  ultimately show ?thesis using sim_admit_loop by blast
qed

text \<open>The reservation of a linked record.\<close>

definition linked :: "nat \<Rightarrow> wtq_conn \<Rightarrow> bool" where
  "linked r c \<longleftrightarrow> r < length (admission_peers c) \<and> admission_peers c ! r \<noteq> None
     \<and> (if budgeted c then r < peer_capacity c else r < 15)"

definition fed :: "wtq_conn \<Rightarrow> bool" where
  "fed c \<longleftrightarrow> pool_ok c \<and> started c"

lemma fed_sim: "conn_inv c \<Longrightarrow> sim c c' \<Longrightarrow> fed c \<Longrightarrow> fed c'"
  using sim_keeps [of c c'] keeps_pool [of c c'] unfolding fed_def keeps_def by metis

lemma sim_tail:
  assumes "fed c" "i < length (peer c)" "admission_tail r i used data fin c = (rc, n, c')"
  shows "sim c c'"
proof -
  obtain rc1 l c1 where s: "stream_bytes i (drop used data) fin True c = (rc1, l, c1)" by (metis prod_cases3)
  then show ?thesis
    using assms sim_stream_bytes [OF _ _ _ s] by (auto simp: fed_def admission_tail_def split: if_splits)
qed

lemma sim_admission_wt: "admission_wt r pre used data c = (rc, n, c') \<Longrightarrow> sim c c'"
proof -
  have u: "sim c (upd_adm r f c)" if "\<And>a. pa_es (f a) = pa_es a" for f c using that by (intro sim_upd_adm) simp
  show "admission_wt r pre used data c = (rc, n, c') \<Longrightarrow> sim c c'"
    unfolding admission_wt_def using sim_fatal u sim_trans [OF sim_shutdown u] by (auto simp: Let_def split: if_splits)
qed

lemma sim_admission_other:
  assumes fed: "fed c" and r: "if budgeted c then r < peer_capacity c else r < 15"
    and e: "admission_other r type used data fin c = (rc, n, c')"
  shows "sim c c'"
proof (rule simI)
  assume inv: "conn_inv c"
  have len: "if budgeted c then peer_capacity c \<le> length (peer c) else length (peer c) = 16"
    using fed by (auto simp: fed_def pool_ok_def split: if_splits)
  define ib where "ib = (if budgeted c then r else 3 + r - 8)"
  define iu where "iu = (if budgeted c then r else if type = 0 then 0 else unat type - 1)"
  have ib: "ib < length (peer c)" using r len by (auto simp: ib_def split: if_splits)
  have iu: "iu < length (peer c)" if "type = 0 \<or> type = 2 \<or> type = 3" using that r len by (auto simp: iu_def split: if_splits)
  have tail: "sim c1 c'" if "sim c c1" "i < length (peer c)" "admission_tail r i used data fin c1 = (rc, n, c')" for c1 i
    using that fed_sim [OF inv that(1) fed] sim_keeps [OF that(1) inv] by (intro sim_tail) (simp_all add: keeps_def)
  have bidi: "sim c (request_stream_bytes ib b (upd_es ib (\<lambda>es. es\<lparr>es_frame_dec := wtq_h3_frame_dec_init\<rparr>) c1))"
    if "admission_entry r ib ES_REQUEST c = Some c1" "persp c \<noteq> PERSPECTIVE_CLIENT" for b c1
  proof -
    let ?u = "upd_es ib (\<lambda>es. es\<lparr>es_frame_dec := wtq_h3_frame_dec_init\<rparr>) c1"
    have "persp c = PERSPECTIVE_SERVER" using that(2) by (cases "persp c") simp_all
    then have 1: "sim c c1" "es_kind (peer c1 ! ib) = ES_REQUEST" "ib < length (peer c1)"
      using sim_entry [OF ib _ that(1)] by simp_all
    have "sim c1 ?u" using 1(2)
      by (intro sim_upd) (simp_all add: es_inv_def es_buf_def)
    then have 2: "sim c ?u" using 1(1) sim_trans by blast
    have "request_kind (es_kind (peer ?u ! ib))" "ib < length (peer ?u)" using 1 by (simp_all add: peer_upd_es)
    then show ?thesis using sim_trans [OF 2] sim_request_bytes [OF sim_inv [OF 2 inv]] by blast
  qed
  have uni: "sim c (fst (classify_uni iu type c1))"
    if "admission_entry r iu ES_TYPE c = Some c1" "type = 0 \<or> type = 2 \<or> type = 3" for c1
    using sim_entry [OF iu [OF that(2)] _ that(1)] sim_trans [OF _ sim_classify_uni] by (simp add: untyped_def)
  have "c' = c \<or> (\<exists>err. c' = conn_fatal err c) \<or> c' = upd_adm r (\<lambda>p. p\<lparr>pa_state := 3\<rparr>) c
    \<or> (\<exists>c1 b. persp c \<noteq> PERSPECTIVE_CLIENT \<and> admission_entry r ib ES_REQUEST c = Some c1
         \<and> admission_tail r ib used data fin
             (request_stream_bytes ib b (upd_es ib (\<lambda>es. es\<lparr>es_frame_dec := wtq_h3_frame_dec_init\<rparr>) c1)) = (rc, n, c'))
    \<or> (\<exists>c1. (type = 0 \<or> type = 2 \<or> type = 3) \<and> admission_entry r iu ES_TYPE c = Some c1
         \<and> (c' = fst (classify_uni iu type c1)
            \<or> admission_tail r iu used data fin (fst (classify_uni iu type c1)) = (rc, n, c')))"
    using e unfolding admission_other_def Let_def ib_def [symmetric] iu_def [symmetric]
    by (simp split: if_splits option.splits prod.splits) (metis fst_conv)+
  moreover have "sim c (upd_adm r (\<lambda>p. p\<lparr>pa_state := 3\<rparr>) c)" by (rule sim_upd_adm) simp
  ultimately show "sim c c'"
    using sim_fatal sim_trans [OF bidi tail] sim_trans [OF uni tail] uni ib iu bidi by blast
qed

lemma sim_admission_bytes:
  assumes fed: "fed c" and r: "linked r c" and e: "peer_admission_bytes r data fin c = (rc, n, c')"
  shows "sim c c'"
proof -
  obtain p where p: "admission_peers c ! r = Some p" "Some p \<in> set (admission_peers c)"
    using r by (auto simp: linked_def) (metis nth_mem)
  have pool: "pool_ok c" "started c" using fed by (simp_all add: fed_def)
  show ?thesis
  proof (cases "pa_es p")
    case (Some i)
    then have i: "i < length (peer c)" using p(2) pool(1) by (auto simp: pool_ok_def adm_ok_def)
    obtain rc1 l c1 where s: "stream_bytes i data fin True c = (rc1, l, c1)" by (metis prod_cases3)
    then show ?thesis
      using e Some p(1) sim_stream_bytes [OF pool i s] by (auto simp: peer_admission_bytes_def split: if_splits)
  next
    case None
    obtain d res used where f: "wtq_preamble_dec_feed (if pa_bidi p then KIND_BIDI else KIND_UNI) (pa_decoder p) data = (d, res, used)"
      by (metis prod_cases3)
    define c1 where "c1 = upd_adm r (\<lambda>p. p\<lparr>pa_decoder := d, pa_prefix := pa_prefix p @ take used data\<rparr>) c"
    have s1: "sim c c1" unfolding c1_def by (rule sim_upd_adm) simp
    have u: "sim c1 (upd_adm r (\<lambda>p. p\<lparr>pa_state := 3\<rparr>) c1)" by (rule sim_upd_adm) simp
    have r1: "if budgeted c1 then r < peer_capacity c1 else r < 15" using r by (simp add: linked_def c1_def upd_adm_def)
    have other: "sim c c'" if "admission_other r t used data fin c1 = (rc, n, c')" for t
    proof (rule simI)
      assume "conn_inv c"
      then have "sim c1 c'" using sim_admission_other [OF fed_sim [OF _ s1 fed] r1 that] by blast
      then show "sim c c'" using sim_trans [OF s1] by blast
    qed
    have "c' = c \<or> c' = c1 \<or> (\<exists>err. c' = conn_fatal err c1) \<or> c' = upd_adm r (\<lambda>p. p\<lparr>pa_state := 3\<rparr>) c1
      \<or> (\<exists>pre. admission_wt r pre used data c1 = (rc, n, c')) \<or> (\<exists>t. admission_other r t used data fin c1 = (rc, n, c'))"
      using e None f unfolding peer_admission_bytes_def Let_def p(1) option.sel c1_def
      by (auto split: if_splits sum.splits preamble_result.splits)
    then show ?thesis
      using s1 sim_trans [OF s1 sim_fatal] sim_trans [OF s1 u] sim_trans [OF s1 sim_admission_wt] other by blast
  qed
qed

end
