(* ===== verification/Engine_System.thy ===== *)
theory Engine_System
  imports Runs_Api
begin

text \<open>
  The engine as a whole: the states it reaches from a created connection by any
  sequence of its public functions, in any order the interface allows, over any
  driver.
\<close>

section \<open>The public functions\<close>

text \<open>
  One rule per function that changes the connection. The guards are the
  interface's: a stream handle is one the engine gave out (an index into the
  pool), bytes and admissions come after \<^verbatim>\<open>wtq_conn_start\<close>, an admission record is
  linked at its reservation.
\<close>

inductive conn_op :: "wtq_conn \<Rightarrow> wtq_conn \<Rightarrow> bool" where
  op_start: "wtq_conn_start c = (rc, c') \<Longrightarrow> conn_op c c'"
| op_connect: "wtq_conn_client_connect cfg c = (rc, c') \<Longrightarrow> conn_op c c'"
| op_paths: "wtq_conn_server_set_paths ps c = (rc, c') \<Longrightarrow> conn_op c c'"
| op_peer_uni: "started c \<Longrightarrow> wtq_conn_on_peer_uni_opened ds sid c = (rc, r, c') \<Longrightarrow> conn_op c c'"
| op_peer_bidi: "started c \<Longrightarrow> wtq_conn_on_peer_bidi_opened ds sid c = (rc, r, c') \<Longrightarrow> conn_op c c'"
| op_bytes: "started c \<Longrightarrow> i < length (peer c) \<Longrightarrow> wtq_conn_on_stream_bytes i data fin c = (rc, c') \<Longrightarrow> conn_op c c'"
| op_accounted: "started c \<Longrightarrow> i < length (peer c) \<Longrightarrow> wtq_conn_on_stream_bytes_accounted i data fin c = (rc, n, c')
    \<Longrightarrow> conn_op c c'"
| op_terminal: "i < length (peer c) \<Longrightarrow> wtq_conn_on_stream_terminal i c = (rc, c') \<Longrightarrow> conn_op c c'"
| op_reset: "i < length (peer c) \<Longrightarrow> wtq_conn_on_stream_reset i e c = (rc, c') \<Longrightarrow> conn_op c c'"
| op_stop: "i < length (peer c) \<Longrightarrow> wtq_conn_on_stop_sending i e c = (rc, c') \<Longrightarrow> conn_op c c'"
| op_native_id: "i < length (peer c) \<Longrightarrow> conn_op c (wtq_conn_on_stream_native_id i nid c)"
| op_conn_closed: "conn_op c (wtq_conn_on_conn_closed err remote c)"
| op_set_error: "conn_op c (wtq_conn_set_transport_error k q d n c)"
| op_seal_error: "conn_op c (wtq_conn_seal_transport_error c)"
| op_send_shutdown: "conn_op c (wtq_conn_on_stream_send_shutdown_v1 i ds g graceful c)"
| op_send_complete: "conn_op c (wtq_conn_on_send_complete cookie canceled c)"
| op_writable: "i < length (peer c) \<Longrightarrow> conn_op c (wtq_conn_on_stream_writable i c)"
| op_datagram: "wtq_conn_on_datagram data c = (rc, c') \<Longrightarrow> conn_op c c'"
| op_close: "wtq_conn_session_close code reason c = (rc, c') \<Longrightarrow> conn_op c c'"
| op_drain: "wtq_conn_session_drain c = (rc, c') \<Longrightarrow> conn_op c c'"
| op_open_uni: "wtq_conn_wt_open_uni c = (rc, r, c') \<Longrightarrow> conn_op c c'"
| op_open_bidi: "wtq_conn_wt_open_bidi c = (rc, r, c') \<Longrightarrow> conn_op c c'"
| op_send_commit: "i < length (peer c) \<Longrightarrow> wtq_conn_wt_enable_send_commit i c = (rc, c') \<Longrightarrow> conn_op c c'"
| op_send: "i < length (peer c) \<Longrightarrow> wtq_conn_wt_send i spans fin cookie c = (rc, c') \<Longrightarrow> conn_op c c'"
| op_shutdown: "i < length (peer c) \<Longrightarrow> wtq_conn_wt_shutdown i req c = (rc, c') \<Longrightarrow> conn_op c c'"
| op_wt_reset: "i < length (peer c) \<Longrightarrow> wtq_conn_wt_reset i app c = (rc, c') \<Longrightarrow> conn_op c c'"
| op_wt_stop: "i < length (peer c) \<Longrightarrow> wtq_conn_wt_stop i app c = (rc, c') \<Longrightarrow> conn_op c c'"
| op_wt_abort: "i < length (peer c) \<Longrightarrow> wtq_conn_wt_abort i app c = (rc, c') \<Longrightarrow> conn_op c c'"
| op_reject: "i < length (peer c) \<Longrightarrow> conn_op c (wtq_conn_wt_reject i c)"
| op_recv_enable: "i < length (peer c) \<Longrightarrow> wtq_conn_wt_recv_enable i enabled c = (rc, c') \<Longrightarrow> conn_op c c'"
| op_set_user: "i < length (peer c) \<Longrightarrow> conn_op c (wtq_estream_set_user i user c)"
| op_dgram_send: "wtq_conn_dgram_send spans c = (rc, c') \<Longrightarrow> conn_op c c'"
| op_enable_admission: "conn_op c (wtq_conn_enable_admission c)"
| op_admission_init: "wtq_conn_peer_admission_init ds sid bidi r c = (rc, c') \<Longrightarrow> conn_op c c'"
| op_admission_init_v2: "wtq_conn_peer_admission_init_v2 ds sid bidi r c = (rc, c') \<Longrightarrow> conn_op c c'"
| op_admission_bytes: "started c \<Longrightarrow> linked r c \<Longrightarrow> wtq_conn_peer_admission_bytes r data fin c = (rc, n, c') \<Longrightarrow> conn_op c c'"
| op_admission_bytes_v2: "started c \<Longrightarrow> linked r c \<Longrightarrow> wtq_conn_peer_admission_bytes_v2 r data fin c = (rc, n, c')
    \<Longrightarrow> conn_op c c'"
| op_admit: "wtq_conn_peer_admit r c = (rc, c') \<Longrightarrow> conn_op c c'"
| op_forget: "conn_op c (wtq_conn_peer_admission_forget r c)"
| op_forget_v2: "conn_op c (wtq_conn_peer_admission_forget_v2 r c)"
| op_retire: "conn_op c (wtq_conn_stream_retire_v2 i mds c)"

text \<open>A created connection, under a plan that the session constructor accepts if there is one.\<close>

definition created :: "wtq_conn \<Rightarrow> bool" where
  "created c \<longleftrightarrow>
     (\<exists>L sz cfg d plan. wtq_conn_create_budget_v2 L sz cfg d plan = Inr c
        \<and> (\<forall>p. plan = Some p \<longrightarrow> plan_accepted L (cfg_perspective cfg = PERSPECTIVE_CLIENT) p))"

inductive reachable :: "wtq_conn \<Rightarrow> bool" where
  reach_init: "created c \<Longrightarrow> reachable c"
| reach_op: "reachable c \<Longrightarrow> conn_op c c' \<Longrightarrow> reachable c'"

section \<open>Every function is a run of the transition system\<close>

lemma sim_prod: "f c = (x, c') \<Longrightarrow> (\<And>y c1. f c = (y, c1) \<Longrightarrow> sim c c1) \<Longrightarrow> sim c c'"
  by blast

lemma op_sim:
  assumes "conn_op c c'" "pool_ok c"
  shows "sim c c'"
  using assms
proof (induction rule: conn_op.induct)
  case (op_bytes c i data fin rc c')
  obtain rc1 n c1 where "stream_bytes i data fin False c = (rc1, n, c1)" by (metis prod_cases3)
  then show ?case using op_bytes sim_stream_bytes by (fastforce simp: wtq_conn_on_stream_bytes_def)
next
  case (op_accounted c i data fin rc n c')
  obtain rc1 n1 c1 where "stream_bytes i data fin True c = (rc1, n1, c1)" by (metis prod_cases3)
  then show ?case using op_accounted sim_stream_bytes by (fastforce simp: wtq_conn_on_stream_bytes_accounted_def)
next
  case (op_admission_bytes c r data fin rc n c')
  then show ?case
    using sim_admission_bytes [of c r] by (auto simp: wtq_conn_peer_admission_bytes_def fed_def split: if_splits)
next
  case (op_admission_bytes_v2 c r data fin rc n c')
  then show ?case
    using sim_admission_bytes [of c r] by (auto simp: wtq_conn_peer_admission_bytes_v2_def fed_def split: if_splits)
next
  case (op_seal_error c)
  then show ?case by (simp add: wtq_conn_seal_transport_error_def sim_latch)
qed (auto simp: wtq_conn_on_peer_uni_opened_def wtq_conn_on_peer_bidi_opened_def wtq_conn_wt_open_uni_def
    wtq_conn_wt_open_bidi_def
    intro: sim_start sim_client_connect sim_set_paths sim_peer_opened sim_terminal sim_reset sim_stop sim_native_id
      sim_conn_closed sim_set_error sim_send_shutdown sim_send_complete sim_writable sim_datagram sim_session_close
      sim_session_drain sim_wt_open sim_send_commit sim_wt_send sim_shutdown_ops sim_reject sim_recv_enable sim_set_user
      sim_dgram_send sim_enable_admission sim_admission_init sim_admission_init_v2 sim_admit sim_forget sim_retire)

lemma created_inv:
  assumes "created c"
  shows "conn_inv c" "pool_ok c"
proof -
  obtain L sz cfg d plan where c: "wtq_conn_create_budget_v2 L sz cfg d plan = Inr c"
    and plan: "\<forall>p. plan = Some p \<longrightarrow> plan_accepted L (cfg_perspective cfg = PERSPECTIVE_CLIENT) p"
    using assms by (auto simp: created_def)
  have f: "sess_state c = SS_IDLE \<and> \<not> closed c \<and> \<not> session_established c \<and> \<not> settings_received c \<and> \<not> wt_supported c
      \<and> \<not> profile_latched c \<and> trace c = [] \<and> parked_es c = None \<and> parked_buf c = [] \<and> \<not> client_response_ok c
      \<and> caps_dec c = wtq_capsule_dec_init \<and> persp c = cfg_perspective cfg
      \<and> (\<exists>n. peer c = replicate n estream_zero)
      \<and> length (peer c) = unat (case plan of Some b \<Rightarrow> pl_engine_capacity b | None \<Rightarrow> WTQ_CONN_LEGACY_STREAMS)
      \<and> budgeted c = (plan \<noteq> None) \<and> (\<forall>b. plan = Some b \<longrightarrow> peer_capacity c = unat (pl_uni b + pl_bidi b)
          \<and> local_capacity c = unat (pl_local b))
      \<and> (\<exists>n. admission_peers c = replicate n None)"
    using c unfolding wtq_conn_create_budget_v2_def by (auto simp: Let_def split: option.splits if_splits)
  then obtain n where p: "peer c = replicate n estream_zero" by blast
  have "session_inv c" using f by (simp add: session_inv_def was_established_def)
  moreover have "es_inv c i estream_zero" for i using f by (simp add: es_inv_def es_buf_def wt_shape_def)
  then have "stream_inv c"
    using f p by (simp add: stream_inv_def streams_ok_def at_most_one_def absent_def)
  moreover have "life_inv c" using f run_refl by (simp add: life_inv_def session_events_def)
  moreover have "end_inv c" using f by (simp add: end_inv_def)
  ultimately show "conn_inv c" by (simp add: conn_inv_def)
  have "adm_ok m (replicate k None)" for m k by (simp add: adm_ok_def)
  then have adm: "adm_ok (length (peer c)) (admission_peers c)" using f by metis
  show "pool_ok c"
  proof (cases plan)
    case None
    then show ?thesis using f adm by (simp add: pool_ok_def WTQ_CONN_LEGACY_STREAMS_def)
  next
    case (Some b)
    then have acc: "wtq_stream_counts_valid (pl_uni b) (pl_bidi b) (pl_local b)"
      "pl_engine_capacity b = pl_uni b + pl_bidi b + pl_local b + (if persp c = PERSPECTIVE_CLIENT then 1 else 0)"
      using plan f by (simp_all add: plan_accepted_def Let_def)
    note k = stream_counts_nat [OF acc(1)]
    have "unat (pl_engine_capacity b) = unat (pl_uni b + pl_bidi b) + unat (pl_local b) + (if persp c = PERSPECTIVE_CLIENT then 1 else 0)"
      unfolding acc(2) using k by (simp add: unat_word_ariths(1) [of "pl_uni b + pl_bidi b + pl_local b"])
    then show ?thesis using f adm Some by (simp add: pool_ok_def)
  qed
qed

lemma reachable_inv: "reachable c \<Longrightarrow> conn_inv c \<and> pool_ok c"
proof (induction rule: reachable.induct)
  case (reach_op c c')
  then have "sim c c'" using op_sim by blast
  then show ?case using reach_op sim_inv sim_keeps keeps_pool by blast
qed (simp add: created_inv)

text \<open>Later states, with the pool and the configuration of the earlier one.\<close>

lemma ops_keep:
  assumes "conn_op\<^sup>*\<^sup>* c c'" "reachable c"
  shows "reachable c' \<and> keeps c c'"
  using assms
proof (induction rule: rtranclp_induct)
  case (step y z)
  then have y: "reachable y" "keeps c y" by simp_all
  then have "keeps y z" using op_sim [OF step(2)] reachable_inv sim_keeps by blast
  then show ?case using reach_op [OF y(1) step(2)] keeps_trans [OF y(2)] by blast
qed simp

lemma op_run:
  assumes "reachable c" "conn_op c c'"
  shows "step\<^sup>*\<^sup>* c c'"
  using op_sim [OF assms(2)] reachable_inv [OF assms(1)] by (simp add: sim_def)

end
