(* ===== verification/Engine_Orders.thy ===== *)
theory Engine_Orders
  imports Engine_System
begin

text \<open>
  What only grows: an order on connections that every step of the transition
  system respects is respected by every sequence of public calls. The locale
  carries an order from the steps to the calls; it is interpreted for the
  session's life cycle and for the facts a connection never takes back.
\<close>

section \<open>Orders that the engine respects\<close>

locale engine_order =
  fixes le :: "wtq_conn \<Rightarrow> wtq_conn \<Rightarrow> bool"
  assumes le_refl: "le c c"
    and le_trans: "le c1 c2 \<Longrightarrow> le c2 c3 \<Longrightarrow> le c1 c3"
    and le_step: "conn_inv c \<Longrightarrow> step c c' \<Longrightarrow> le c c'"
begin

lemma run_le: "step\<^sup>*\<^sup>* c c' \<Longrightarrow> conn_inv c \<Longrightarrow> le c c'"
proof (induction rule: rtranclp_induct)
  case (step c1 c2)
  then show ?case using runs_inv le_step le_trans by blast
qed (rule le_refl)

lemma op_le: "reachable c \<Longrightarrow> conn_op c c' \<Longrightarrow> le c c'"
  using op_run reachable_inv run_le by blast

lemma ops_le: "conn_op\<^sup>*\<^sup>* c c' \<Longrightarrow> reachable c \<Longrightarrow> le c c' \<and> reachable c'"
proof (induction rule: rtranclp_induct)
  case (step c1 c2)
  then show ?case using op_le reach_op le_trans by blast
qed (simp add: le_refl)

end

section \<open>The session's life cycle\<close>

text \<open>The calls in between append to the trace, and their session callbacks are a run of the life cycle.\<close>

definition lives_on :: "wtq_conn \<Rightarrow> wtq_conn \<Rightarrow> bool" where
  "lives_on c c' \<longleftrightarrow>
     (\<exists>tr. trace c' = trace c @ tr \<and> session_run (sess_state c) (filter session_event tr) (sess_state c'))"

lemma lives_refl: "lives_on c c"
  by (auto simp: lives_on_def intro: run_refl)

lemma lives_trans:
  assumes "lives_on c1 c2" "lives_on c2 c3"
  shows "lives_on c1 c3"
proof -
  obtain t u where "trace c2 = trace c1 @ t" "session_run (sess_state c1) (filter session_event t) (sess_state c2)"
    "trace c3 = trace c2 @ u" "session_run (sess_state c2) (filter session_event u) (sess_state c3)"
    using assms by (auto simp: lives_on_def)
  then show ?thesis using session_run_trans by (fastforce simp: lives_on_def)
qed

text \<open>A change that makes at most its own callback.\<close>

lemma lives_silent:
  "trace c' = trace c \<Longrightarrow> session_step (sess_state c) None (sess_state c') \<Longrightarrow> lives_on c c'"
  by (auto simp: lives_on_def intro: session_run_single)

lemma lives_event:
  "trace c' = trace c @ [e] \<Longrightarrow> session_event e \<Longrightarrow> session_step (sess_state c) (Some e) (sess_state c')
    \<Longrightarrow> lives_on c c'"
  by (auto simp: lives_on_def intro: session_run_single)

lemma lives_other:
  "trace c' = trace c @ tr \<Longrightarrow> filter session_event tr = [] \<Longrightarrow> sess_state c' = sess_state c \<Longrightarrow> lives_on c c'"
  using run_refl by (auto simp: lives_on_def)

lemma quiet_lives:
  assumes "quiet c c'"
  shows "lives_on c c'"
proof -
  obtain tr where "trace c' = trace c @ tr" "session_events c' = session_events c"
    using quiet_trace [OF assms] by blast
  then show ?thesis using quiet_session [OF assms] by (intro lives_other) (auto simp: session_events_def)
qed

lemma quiets_lives: "quiet\<^sup>*\<^sup>* c c' \<Longrightarrow> lives_on c c'"
  by (induction rule: rtranclp_induct) (auto intro: lives_refl quiet_lives lives_trans)

text \<open>Closing: the streams are torn down quietly and the one callback follows.\<close>

lemma closing_lives:
  assumes "session_active c" "quiet\<^sup>*\<^sup>* (c\<lparr>sess_state := SS_CLOSED\<rparr>) c'"
  shows "lives_on c (emit (CB_session_closed a b d) c')"
proof -
  obtain tr where tr: "trace c' = trace c @ tr" "session_run SS_CLOSED (filter session_event tr) (sess_state c')"
    using quiets_lives [OF assms(2)] by (auto simp: lives_on_def)
  moreover have st: "sess_state c' = SS_CLOSED" using quiets_session [OF assms(2)] by simp
  moreover have "w = []" if "session_run SS_CLOSED w s" for w s
  proof -
    have "s0 = SS_CLOSED \<Longrightarrow> w = [] \<and> s = SS_CLOSED" if "session_run s0 w s" for s0 w s
      using that by (induction rule: session_run.induct) (auto simp: session_step_from)
    then show ?thesis using that by blast
  qed
  ultimately have "filter session_event tr = []" by blast
  moreover have "session_run (sess_state c) [CB_session_closed a b d] SS_CLOSED"
    using assms(1) by (auto simp: session_active_def intro!: session_run_single session_step.intros)
  ultimately show ?thesis using tr(1) st by (auto simp: lives_on_def)
qed

lemma lost_lives:
  assumes "streams_ok c" "closed c"
  shows "lives_on c (session_conn_lost c)"
proof (cases "session_active c")
  case True
  then have "session_conn_lost c = emit (CB_session_closed 0 [] False)
      (fold (close_wt_stream (\<lambda>ds s r code c. c)) [0..<length (peer c)] (c\<lparr>sess_state := SS_CLOSED\<rparr>))"
    using closed_by_eq [OF True] by (auto simp: session_conn_lost_def session_active_def)
  then show ?thesis using closing_lives [OF True closing_over_quiet] assms True by simp
next
  case False
  then show ?thesis
    by (cases "sess_state c")
      (auto simp: session_conn_lost_def session_active_def session_failed_def
        intro!: lives_refl lives_event [where e = "CB_session_failed FAIL_CONNECTION"] session_step.intros)
qed

lemma emit_lives: "\<not> session_event e \<Longrightarrow> lives_on c (emit e c)"
  by (intro lives_other [where tr = "[e]"]) simp_all

lemma fatal_lives:
  assumes "streams_ok c" "\<not> closed c" "fatal_upd c i f"
  shows "lives_on c (conn_fatal err (upd_es i f c))"
proof -
  let ?c = "conn_end err (upd_es i f c)"
  have "streams_ok ?c"
    unfolding conn_end_upd_es using assms
    by (intro streams_ok_upd streams_ok_end) (simp_all add: es_inv_view [OF es_view_end] fatal_upd_def)
  then have "lives_on ?c (session_conn_lost ?c)" by (intro lost_lives) simp_all
  moreover have "lives_on c ?c" by (intro lives_other [where tr = "[D_conn_close err]"]) simp_all
  moreover have "lives_on (session_conn_lost ?c) (emit (CB_conn_error err) (session_conn_lost ?c))"
    by (rule emit_lives) simp
  ultimately have "lives_on c (emit (CB_conn_error err) (session_conn_lost ?c))" using lives_trans by blast
  then show ?thesis using assms(2) by (simp add: conn_fatal_end)
qed

lemma conn_closed_lives:
  assumes "streams_ok c" "\<not> closed c"
  shows "lives_on c (wtq_conn_on_conn_closed err remote c)"
proof -
  let ?c = "conn_over err remote c"
  have f: "closed ?c" "trace ?c = trace c" "sess_state ?c = sess_state c"
    by (simp_all add: conn_over_def conn_latch_error_def)
  have "streams_ok ?c"
    using assms(1) by (simp add: streams_ok_def es_inv_view [OF es_view_over] es_inv_closed)
  then have "lives_on ?c (session_conn_lost ?c)" using f(1) by (intro lost_lives)
  moreover have "lives_on c ?c" using f by (intro lives_other [where tr = "[]"]) simp_all
  moreover have "lives_on (session_conn_lost ?c) (emit (CB_conn_error err) (session_conn_lost ?c))"
    by (rule emit_lives) simp
  ultimately show ?thesis using assms(2) lives_trans unfolding on_conn_closed_over [OF assms(2)] by blast
qed

lemma step_lives:
  assumes "conn_inv c" "step c c'"
  shows "lives_on c c'"
  using assms(2,1)
proof (induction rule: step.induct)
  case (s_quiet c c')
  then show ?case by (simp add: quiet_lives)
next
  case (s_failed c r)
  then show ?case
    by (intro lives_event [where e = "CB_session_failed r"]) (auto simp: session_failed_def intro: session_step.intros)
next
  case (s_established c i sid sel)
  then show ?case
    by (intro lives_event [where e = "CB_session_established sel (wt_profile c)"])
      (auto intro: session_step.intros split: if_splits)
next
  case (s_closed c c' code reason clean)
  then show ?case by (intro closing_lives)
next
  case (s_fatal c i f err)
  then show ?case by (intro fatal_lives conn_inv_ok)
next
  case (s_conn_closed c err remote)
  then show ?case by (intro conn_closed_lives conn_inv_ok)
next
  case (s_rejected c st)
  then show ?case
    by (intro lives_event [where e = "CB_session_rejected st"]) (auto intro: session_step.intros)
next
  case (s_draining c)
  then show ?case
    by (intro lives_event [where e = CB_session_draining]) (auto intro: session_step.intros)
qed (auto intro!: lives_silent session_step.intros)

interpretation life: engine_order lives_on
  by unfold_locales (rule lives_refl, erule (1) lives_trans, erule (1) step_lives)

section \<open>What a connection never takes back\<close>

text \<open>
  A closed connection stays closed and its first error stays the error; the peer's
  SETTINGS, the latched profile, and the id of an established session never
  change; a GOAWAY limit only falls and a push limit only rises.
\<close>

definition holds_on :: "wtq_conn \<Rightarrow> wtq_conn \<Rightarrow> bool" where
  "holds_on c c' \<longleftrightarrow>
     (closed c \<longrightarrow> closed c')
     \<and> (\<forall>e. transport_error c = Some e \<longrightarrow> transport_error c' = Some e)
     \<and> (settings_received c \<longrightarrow> settings_received c' \<and> peer_settings c' = peer_settings c)
     \<and> (profile_latched c \<longrightarrow> profile_latched c' \<and> wt_profile c' = wt_profile c)
     \<and> (session_established c \<longrightarrow>
          session_established c' \<and> session_id c' = session_id c \<and> qsid_prefix c' = qsid_prefix c)
     \<and> (\<forall>g. goaway_id c = Some g \<longrightarrow> (\<exists>g'. goaway_id c' = Some g' \<and> g' \<le> g))
     \<and> (\<forall>m. max_push_id c = Some m \<longrightarrow> (\<exists>m'. max_push_id c' = Some m' \<and> m \<le> m'))"

lemma holds_refl [simp]: "holds_on c c"
  by (simp add: holds_on_def)

lemma holds_trans: "holds_on c1 c2 \<Longrightarrow> holds_on c2 c3 \<Longrightarrow> holds_on c1 c3"
  by (fastforce simp: holds_on_def)

lemma holds_emit [simp]: "holds_on c (emit e c)"
  by (simp add: holds_on_def)

lemma holds_upd [simp]: "holds_on c (upd_es i f c)"
  by (simp add: holds_on_def)

lemma holds_state [simp]: "holds_on c (c\<lparr>sess_state := st\<rparr>)"
  by (simp add: holds_on_def)

lemma holds_end [simp]: "holds_on c (conn_end err c)"
  by (simp add: holds_on_def conn_end_def conn_latch_error_def)

lemma holds_over [simp]: "holds_on c (conn_over err remote c)"
  by (simp add: holds_on_def conn_over_def conn_latch_error_def)

definition latch_inv :: "wtq_conn \<Rightarrow> bool" where
  "latch_inv c \<longleftrightarrow> (profile_latched c \<longrightarrow> settings_received c)"

lemma quiet_holds: "quiet c c' \<Longrightarrow> latch_inv c \<Longrightarrow> holds_on c c' \<and> latch_inv c'"
proof (induction rule: quiet.induct)
  case (q_misc c' c)
  from arg_cong [OF q_misc(1), of "\<lambda>c. (closed c, transport_error c, settings_received c, peer_settings c,
      profile_latched c, wt_profile c, session_established c, session_id c, qsid_prefix c, goaway_id c, max_push_id c)"]
  show ?case using q_misc by (simp add: core_def holds_on_def latch_inv_def)
next
  case (q_fatal c i f err)
  then have "conn_fatal err (upd_es i f c) = emit (CB_conn_error err) (upd_es i f (conn_end err c))"
    by (simp add: conn_fatal_terminal conn_end_upd_es)
  moreover have "latch_inv (upd_es i f (conn_end err c))"
    using q_fatal(4) by (simp add: latch_inv_def) (simp add: conn_end_def conn_latch_error_def)
  ultimately show ?case
    using holds_trans [OF holds_end holds_trans [OF holds_upd holds_emit]] by (simp add: latch_inv_def)
qed (auto simp: holds_on_def latch_inv_def settings_taken_def Let_def split: option.split)

lemma quiets_holds: "quiet\<^sup>*\<^sup>* c c' \<Longrightarrow> latch_inv c \<Longrightarrow> holds_on c c'"
proof -
  assume "quiet\<^sup>*\<^sup>* c c'" "latch_inv c"
  then have "holds_on c c' \<and> latch_inv c'"
    by (induction rule: rtranclp_induct) (auto dest: quiet_holds intro: holds_trans)
  then show ?thesis ..
qed

lemma inv_latch: "conn_inv c \<Longrightarrow> latch_inv c"
  by (simp add: conn_inv_def session_inv_def latch_inv_def)

lemma lost_holds:
  assumes "streams_ok c" "closed c" "latch_inv c"
  shows "holds_on c (session_conn_lost c)"
proof (cases "session_active c")
  case True
  let ?q = "fold (close_wt_stream (\<lambda>ds s r code c. c)) [0..<length (peer c)] (c\<lparr>sess_state := SS_CLOSED\<rparr>)"
  have "session_conn_lost c = emit (CB_session_closed 0 [] False) ?q"
    using True closed_by_eq [OF True] by (auto simp: session_conn_lost_def session_active_def)
  moreover have "holds_on (c\<lparr>sess_state := SS_CLOSED\<rparr>) ?q"
    using assms True by (intro quiets_holds closing_over_quiet) (simp_all add: latch_inv_def)
  ultimately show ?thesis using holds_trans [OF holds_state] holds_trans [OF _ holds_emit] by metis
next
  case False
  then show ?thesis
    by (cases "sess_state c") (auto simp: session_conn_lost_def session_active_def session_failed_def holds_on_def)
qed

lemma ending_holds:
  assumes "streams_ok c1" "closed c1" "latch_inv c1" "holds_on c c1"
  shows "holds_on c (emit (CB_conn_error err) (session_conn_lost c1))"
  using assms lost_holds holds_trans holds_emit by blast

lemma step_holds:
  assumes "conn_inv c" "step c c'"
  shows "holds_on c c'"
  using assms(2,1)
proof (induction rule: step.induct)
  case (s_quiet c c')
  then show ?case using quiet_holds inv_latch by blast
next
  case (s_pending c p)
  then show ?case using inv_latch [of c] by (auto simp: holds_on_def latch_inv_def)
next
  case (s_established c i sid sel)
  then have "\<not> session_established c"
    using conn_inv_session(2) [of c] by (auto simp: was_established_def split: if_splits)
  then show ?case by (simp add: holds_on_def)
next
  case (s_closed c c' code reason clean)
  have "holds_on (c\<lparr>sess_state := SS_CLOSED\<rparr>) c'"
    using s_closed inv_latch [of c] by (intro quiets_holds) (simp_all add: latch_inv_def)
  then show ?case using holds_trans [OF holds_state] holds_trans [OF _ holds_emit] by blast
next
  case (s_fatal c i f err)
  have "streams_ok (conn_end err (upd_es i f c))"
    unfolding conn_end_upd_es using s_fatal conn_inv_ok [of c]
    by (intro streams_ok_upd streams_ok_end) (simp_all add: es_inv_view [OF es_view_end] fatal_upd_def)
  moreover have "latch_inv (conn_end err (upd_es i f c))"
    using inv_latch [OF s_fatal(3)] by (simp add: latch_inv_def conn_end_def conn_latch_error_def)
  ultimately show ?case
    using s_fatal(1) holds_trans [OF holds_upd holds_end] by (simp add: conn_fatal_end ending_holds)
next
  case (s_conn_closed c err remote)
  have "streams_ok (conn_over err remote c)"
    using conn_inv_ok [OF s_conn_closed(2)] by (simp add: streams_ok_def es_inv_view [OF es_view_over] es_inv_closed)
  moreover have "latch_inv (conn_over err remote c)" "closed (conn_over err remote c)"
    using inv_latch [OF s_conn_closed(2)] by (simp_all add: latch_inv_def conn_over_def conn_latch_error_def)
  ultimately show ?case using s_conn_closed(1) by (simp add: on_conn_closed_over ending_holds)
qed (auto simp: session_failed_def holds_on_def)

interpretation hold: engine_order holds_on
  by unfold_locales (rule holds_refl, erule (1) holds_trans, erule (1) step_holds)

section \<open>The growing trace\<close>

text \<open>
  The pool keeps its size, the trace only grows, and every stream that is announced
  is an entry of the pool.
\<close>

definition grows_on :: "wtq_conn \<Rightarrow> wtq_conn \<Rightarrow> bool" where
  "grows_on c c' \<longleftrightarrow>
     length (peer c') = length (peer c)
     \<and> (\<exists>tr. trace c' = trace c @ tr \<and> list_all (pool_event (length (peer c))) tr)"

lemma grows_refl: "grows_on c c"
  by (simp add: grows_on_def)

lemma grows_trans: "grows_on c1 c2 \<Longrightarrow> grows_on c2 c3 \<Longrightarrow> grows_on c1 c3"
  by (fastforce simp: grows_on_def)

lemma grows_silent: "trace c' = trace c \<Longrightarrow> length (peer c') = length (peer c) \<Longrightarrow> grows_on c c'"
  by (simp add: grows_on_def)

lemma grows_event:
  "trace c' = trace c @ [e] \<Longrightarrow> length (peer c') = length (peer c) \<Longrightarrow> pool_event (length (peer c)) e \<Longrightarrow> grows_on c c'"
  by (simp add: grows_on_def)

lemma grows_emit: "pool_event (length (peer c)) e \<Longrightarrow> grows_on c (emit e c)"
  by (simp add: grows_event)

lemma grows_upd: "grows_on c (upd_es i f c)"
  by (simp add: grows_silent peer_upd_es)

lemma grows_end: "grows_on c (conn_end err c)"
  by (rule grows_event [where e = "D_conn_close err"]) (simp_all add: conn_end_def conn_latch_error_def)

lemma quiet_grows: "quiet c c' \<Longrightarrow> grows_on c c'"
proof (induction rule: quiet.induct)
  case (q_misc c' c)
  from arg_cong [OF q_misc(1), of "\<lambda>c. (trace c, peer c)"] show ?case by (simp add: core_def grows_on_def)
next
  case (q_fatal c i f err)
  have "grows_on c (emit (CB_conn_error err) (upd_es i f (conn_end err c)))"
    using grows_trans [OF grows_trans [OF grows_end grows_upd] grows_emit] by simp
  then show ?case using q_fatal(1,2) by (simp add: conn_fatal_terminal conn_end_upd_es)
qed (simp_all add: grows_emit grows_silent settings_taken_def Let_def split: option.split)

lemma quiets_grows: "quiet\<^sup>*\<^sup>* c c' \<Longrightarrow> grows_on c c'"
  by (induction rule: rtranclp_induct) (auto intro: grows_refl quiet_grows grows_trans)

lemma closing_grows:
  "quiet\<^sup>*\<^sup>* (c\<lparr>sess_state := SS_CLOSED\<rparr>) c' \<Longrightarrow> grows_on c (emit (CB_session_closed a b d) c')"
proof -
  assume "quiet\<^sup>*\<^sup>* (c\<lparr>sess_state := SS_CLOSED\<rparr>) c'"
  then have "grows_on (c\<lparr>sess_state := SS_CLOSED\<rparr>) c'" by (rule quiets_grows)
  then have "grows_on c c'" by (simp add: grows_on_def)
  then show ?thesis by (rule grows_trans) (simp add: grows_emit)
qed

lemma lost_grows:
  assumes "streams_ok c" "closed c"
  shows "grows_on c (session_conn_lost c)"
proof (cases "session_active c")
  case True
  then have "session_conn_lost c = emit (CB_session_closed 0 [] False)
      (fold (close_wt_stream (\<lambda>ds s r code c. c)) [0..<length (peer c)] (c\<lparr>sess_state := SS_CLOSED\<rparr>))"
    using closed_by_eq [OF True] by (auto simp: session_conn_lost_def session_active_def)
  then show ?thesis using closing_grows [OF closing_over_quiet] assms True by simp
next
  case False
  then show ?thesis
    by (cases "sess_state c")
      (simp_all add: session_conn_lost_def session_active_def session_failed_def grows_on_def)
qed

lemma ending_grows:
  assumes "streams_ok c1" "closed c1" "grows_on c c1"
  shows "grows_on c (emit (CB_conn_error err) (session_conn_lost c1))"
  using grows_trans [OF assms(3) grows_trans [OF lost_grows [OF assms(1,2)] grows_emit]] by simp

lemma step_grows:
  assumes "conn_inv c" "step c c'"
  shows "grows_on c c'"
  using assms(2,1)
proof (induction rule: step.induct)
  case (s_quiet c c')
  then show ?case by (simp add: quiet_grows)
next
  case (s_closed c c' code reason clean)
  then show ?case by (intro closing_grows)
next
  case (s_fatal c i f err)
  have "streams_ok (conn_end err (upd_es i f c))"
    unfolding conn_end_upd_es using s_fatal conn_inv_ok [of c]
    by (intro streams_ok_upd streams_ok_end) (simp_all add: es_inv_view [OF es_view_end] fatal_upd_def)
  then show ?case
    using s_fatal(1) ending_grows grows_trans [OF grows_upd grows_end] by (simp add: conn_fatal_end)
next
  case (s_conn_closed c err remote)
  have "streams_ok (conn_over err remote c)"
    using conn_inv_ok [OF s_conn_closed(2)] by (simp add: streams_ok_def es_inv_view [OF es_view_over] es_inv_closed)
  moreover have "closed (conn_over err remote c)" "grows_on c (conn_over err remote c)"
    by (simp_all add: conn_over_def conn_latch_error_def grows_on_def)
  ultimately show ?case using s_conn_closed(1) ending_grows by (simp add: on_conn_closed_over)
qed (simp_all add: grows_on_def session_failed_def)

interpretation grow: engine_order grows_on
  by unfold_locales (rule grows_refl, erule (1) grows_trans, erule (1) step_grows)

end
