(* ===== verification/Engine_Example.thy ===== *)
theory Engine_Example
  imports Engine_Orders
begin

text \<open>
  A concrete run of a server, evaluated by the kernel: a client's request arrives
  before its SETTINGS, with the header of a trailer section right behind it; the
  SETTINGS follow, and then the trailer's payload. The states are the witnesses of
  the engine's properties, and the last one is the overflow of
  \<^verbatim>\<open>set_buf\<close>.
\<close>

section \<open>The run\<close>

definition example_driver :: wtq_driver where
  "example_driver =
     \<lparr>d_result = \<lambda>_. WTQ_OK, d_open = \<lambda>_. (9, 3), d_caps = 0, d_has_send_gather = False,
      d_has_dgram = False, d_has_recv_enable = False, d_dgram_max_size = \<lambda>_. 0\<rparr>"

definition example_cfg :: wtq_conn_cfg where
  "example_cfg =
     \<lparr>cfg_perspective = PERSPECTIVE_SERVER, cfg_ecp = True, cfg_webtransport_profile = Some PROFILE_CURRENT,
      cfg_webtransport_profiles = 0\<rparr>"

definition example_layout :: layout where
  "example_layout = \<lparr>sizeof_estream = 800, sizeof_ptr = 8, sizeof_stream = 100\<rparr>"

definition server_created :: wtq_conn where
  "server_created = projr (wtq_conn_create example_layout 1000 example_cfg example_driver)"

definition server_configured :: wtq_conn where
  "server_configured =
     snd (wtq_conn_server_set_paths
       [\<lparr>pc_path = Some (str ''/''), pc_protocols = None, pc_protocol_count = 0, pc_require_protocol = False,
         pc_origin_policy = 0, pc_allowed_origins = None, pc_allowed_origin_count = 0\<rparr>] server_created)"

definition server_started :: wtq_conn where
  "server_started = snd (wtq_conn_start server_configured)"

text \<open>The CONNECT request of a client, on a bidirectional stream.\<close>

definition example_section :: bytes where
  "example_section =
     [0, 0, 207, 215, 80, 1, 97, 193, 39, 2, 58, 112, 114, 111, 116, 111, 99, 111, 108, 15, 119, 101, 98, 116,
      114, 97, 110, 115, 112, 111, 114, 116, 45, 104, 51]"

definition server_asked :: wtq_conn where
  "server_asked = snd (snd (wtq_conn_on_peer_bidi_opened 1 0 server_started))"

definition server_parked :: wtq_conn where
  "server_parked = snd (wtq_conn_on_stream_bytes 0 ([1, 35] @ example_section @ [1, 0x42, 0]) False server_asked)"

text \<open>The client's control stream with its SETTINGS.\<close>

definition server_controlled :: wtq_conn where
  "server_controlled = snd (snd (wtq_conn_on_peer_uni_opened 2 2 server_parked))"

definition server_established :: wtq_conn where
  "server_established =
     snd (wtq_conn_on_stream_bytes 1 (0 # [4, 11, 1, 0, 7, 0, 51, 1, 172, 124, 240, 0, 1]) False server_controlled)"

text \<open>The payload of the trailer section whose header came with the request.\<close>

definition server_overrun :: wtq_conn where
  "server_overrun = snd (wtq_conn_on_stream_bytes 0 (replicate 511 0) False server_established)"

section \<open>Every state of it is reachable\<close>

lemma server_created_fields:
  "created server_created" "length (peer server_created) = 16"
proof -
  have "(case wtq_conn_create example_layout 1000 example_cfg example_driver of
      Inr c \<Rightarrow> length (peer c) = 16 | Inl _ \<Rightarrow> False)"
    by code_simp
  then obtain c where "wtq_conn_create example_layout 1000 example_cfg example_driver = Inr c" "length (peer c) = 16"
    by (auto split: sum.splits)
  then show "created server_created" "length (peer server_created) = 16"
    by (fastforce simp: server_created_def created_def wtq_conn_create_def)+
qed

text \<open>A call from a reachable state gives a reachable state with the same pool, still started.\<close>

lemma op_reach:
  assumes "reachable c" "conn_op c c'"
  shows "reachable c'" "length (peer c') = length (peer c)" "started c \<Longrightarrow> started c'"
proof -
  show "reachable c'" using assms by (rule reach_op)
  have "keeps c c'"
    using op_sim [OF assms(2)] reachable_inv [OF assms(1)] sim_keeps by blast
  then show "length (peer c') = length (peer c)" "started c \<Longrightarrow> started c'" by (simp_all add: keeps_def)
qed

lemma server_reachable:
  "reachable server_created" "reachable server_started" "reachable server_asked" "reachable server_parked" "reachable server_controlled" "reachable server_established"
  "reachable server_overrun" "started server_established" "length (peer server_overrun) = 16"
proof -
  have 0: "reachable server_created" using server_created_fields(1) by (rule reach_init)
  have "conn_op server_created server_configured"
    unfolding server_configured_def by (rule op_paths) (rule surjective_pairing)
  note 1 = op_reach [OF 0 this]
  have "conn_op server_configured server_started"
    unfolding server_started_def by (rule op_start) (rule surjective_pairing)
  note 2 = op_reach [OF 1(1) this]
  have st: "started server_started" by code_simp
  have "conn_op server_started server_asked"
    unfolding server_asked_def by (rule op_peer_bidi [OF st]) (simp add: prod_eq_iff)
  note 3 = op_reach [OF 2(1) this]
  have "conn_op server_asked server_parked"
    unfolding server_parked_def by (rule op_bytes [of _ 0, OF _ _ surjective_pairing]) (use 1 2 3 st server_created_fields in simp_all)
  note 4 = op_reach [OF 3(1) this]
  have "conn_op server_parked server_controlled"
    unfolding server_controlled_def by (rule op_peer_uni) (use 3 4 st in \<open>simp_all add: prod_eq_iff\<close>)
  note 5 = op_reach [OF 4(1) this]
  have "conn_op server_controlled server_established"
    unfolding server_established_def by (rule op_bytes [of _ 1, OF _ _ surjective_pairing]) (use 1 2 3 4 5 st server_created_fields in simp_all)
  note 6 = op_reach [OF 5(1) this]
  have "conn_op server_established server_overrun"
    unfolding server_overrun_def by (rule op_bytes [of _ 0, OF _ _ surjective_pairing]) (use 1 2 3 4 5 6 st server_created_fields in simp_all)
  note 7 = op_reach [OF 6(1) this]
  show "reachable server_created" "reachable server_started" "reachable server_asked" "reachable server_parked" "reachable server_controlled" "reachable server_established"
    "reachable server_overrun" "started server_established" "length (peer server_overrun) = 16"
    using 0 1 2 3 4 5 6 7 st server_created_fields by simp_all
qed

section \<open>What it computes\<close>

text \<open>
  Code equations that answer the lookups of this run without evaluating the whole
  static table.
\<close>

lemmas static_lookup = wtq_qpack_static_get_def wtq_qpack_static_table_def WTQ_QPACK_STATIC_COUNT_def

lemma get_method: "wtq_qpack_static_get 15 = Some (str '':method'', str ''CONNECT'')"
  by (simp add: static_lookup)

lemma get_scheme: "wtq_qpack_static_get 23 = Some (str '':scheme'', str ''https'')"
  by (simp add: static_lookup)

lemma get_authority: "wtq_qpack_static_get 0 = Some (str '':authority'', [])"
  by (simp add: static_lookup str_def)

lemma get_path: "wtq_qpack_static_get 1 = Some (str '':path'', str ''/'')"
  by (simp add: static_lookup)

lemma static_get_code [code]:
  "wtq_qpack_static_get k =
     (if k = 15 then Some (str '':method'', str ''CONNECT'')
      else if k = 23 then Some (str '':scheme'', str ''https'')
      else if k = 0 then Some (str '':authority'', [])
      else if k = 1 then Some (str '':path'', str ''/'')
      else if unat k \<ge> WTQ_QPACK_STATIC_COUNT then None
      else Some (wtq_qpack_static_table ! unat k))"
  by (simp add: get_method get_scheme get_authority get_path) (simp add: wtq_qpack_static_get_def)

lemma response_200: "wtq_connect_encode_response_ex 200 None False 512 = Inr [0, 0, 0xd9]"
proof -
  have f: "wtq_qpack_static_find (str '':status'') (str ''200'') = Some 25"
    by (simp add: wtq_qpack_static_find_def wtq_qpack_static_table_def)
  have d: "status_digits 200 = str ''200''" by (simp add: status_digits_def str_def)
  have e: "wtq_qpack_int_encode (of_nat 25) 0xc0 6 510 = Inr [0xd9]" by code_simp
  have l: "int_encoded_len (of_nat 25) 6 = 1" by code_simp
  show ?thesis
    using e l by (simp add: wtq_connect_encode_response_ex_def stage_selected_def response_fields_def d fld_def
        encode_fields_def wtq_qpack_encode_section_def qpack_max_int_nat field_encoded_len_def f encode_field_def)
qed

lemma encode_response_code [code]:
  "wtq_connect_encode_response_ex status sel marker cap =
     (if status = 200 \<and> sel = None \<and> \<not> marker \<and> cap = 512 then Inr [0, 0, 0xd9]
      else if status < 100 \<or> status > 999 then Inl CONNECT_MALFORMED
      else (case stage_selected sel of
              Inl st \<Rightarrow> Inl st
            | Inr sf \<Rightarrow> encode_fields (response_fields status marker sf) cap))"
  by (simp add: response_200) (simp add: wtq_connect_encode_response_ex_def)

definition first_stream :: "wtq_conn \<Rightarrow> u64 \<times> bool \<times> bool \<times> bool \<times> es_kind \<times> bool \<times> bool \<times> cf_kind \<times> u64 \<times> nat" where
  "first_stream c =
     (session_id c, session_established c, closed c, close_capsule_rx c,
      (case peer c of
         es # _ \<Rightarrow> (es_kind es, es_request_dead es, es_frame_active es, es_frame_kind es, es_frame_remaining es,
                    length (es_set_buf es))
       | [] \<Rightarrow> (ES_FREE, False, False, CF_SKIP, 0, 0)))"

lemma server_established_view:
  "first_stream server_established = (0, True, False, False, ES_REQUEST, False, True, CF_SETTINGS, 512, 35)"
  by code_simp

lemma server_established_fields:
  "session_established server_established" "session_id server_established = 0" "\<not> closed server_established" "\<not> close_capsule_rx server_established"
  "es_kind (peer server_established ! 0) = ES_REQUEST" "\<not> es_request_dead (peer server_established ! 0)"
  "es_frame_active (peer server_established ! 0)" "es_frame_kind (peer server_established ! 0) = CF_SETTINGS"
  "es_frame_remaining (peer server_established ! 0) = 512" "length (es_set_buf (peer server_established ! 0)) = 35"
  "0 < length (peer server_established)"
  using server_established_view by (auto simp: first_stream_def split: list.splits)

text \<open>
  The append itself (\<^verbatim>\<open>request_stream_bytes\<close>): a delivery inside an accumulated
  frame goes behind the bytes that are there, and what bounds it is the frame's
  length only.
\<close>

lemma partial_frame_appended:
  assumes "\<not> closed c" "i < length (peer c)" "es_kind (peer c ! i) = ES_REQUEST" "\<not> es_request_dead (peer c ! i)"
    "\<not> close_capsule_rx c" "es_frame_active (peer c ! i)" "es_frame_kind (peer c ! i) = CF_SETTINGS"
    "data \<noteq> []" "length data < unat (es_frame_remaining (peer c ! i))"
  shows "snd (wtq_conn_on_stream_bytes i data False c)
    = upd_es i (\<lambda>es. es\<lparr>es_set_buf := es_set_buf es @ data,
                        es_frame_remaining := es_frame_remaining es - of_nat (length data)\<rparr>) c" (is "_ = ?c")
proof -
  let ?r = "es_frame_remaining (peer c ! i)"
  have n: "frame_take ?r data = length data" using assms(9) by (simp add: frame_take_def)
  have "unat (of_nat (length data) :: u64) = length data"
    using order.strict_trans [OF assms(9) unat_u64_less] by (intro unat_of_nat_u64) simp
  then have "?r \<noteq> of_nat (length data)" using assms(9) by auto
  then have "request_payload i data c = (?c, Some [])"
    using assms n
    by (simp add: request_payload_def request_payload_end_def Let_def upd_es_def)
  then have "walk (request_turn i) data c = ?c"
    using assms by (simp add: walk.simps request_turn_def)
  then have "request_stream_bytes i data c = ?c" using assms by (simp add: request_stream_bytes_def)
  moreover have "es_kind (peer ?c ! i) = ES_REQUEST" "\<not> closed ?c" using assms by (simp_all add: peer_upd_es)
  ultimately show ?thesis
    using assms by (simp add: wtq_conn_on_stream_bytes_def stream_bytes_def classified_bytes_def request_delivery_def Let_def)
qed

lemma server_overrun_buffer: "length (es_set_buf (peer server_overrun ! 0)) = 546"
  using server_established_fields partial_frame_appended [of server_established 0 "replicate 511 0"]
  by (simp add: server_overrun_def peer_upd_es)

end
