(* ===== verification/Engine_Theorems.thy ===== *)
theory Engine_Theorems
  imports Engine_Example
begin

text \<open>
  The properties of the engine over every reachable state, and of the functions
  that decide about sessions, datagrams and stream shutdowns.
\<close>

section \<open>The session's life\<close>

lemma outcome_session: "outcome e \<Longrightarrow> session_event e"
  by (cases e) simp_all

lemma terminal_one_outcome:
  assumes "session_run SS_IDLE w (sess_state c)" "session_terminal c"
  shows "length (filter outcome w) = 1"
  using session_run_words [OF assms(1)] assms(2) by (auto simp: session_terminal_def)

lemma conn_closed_closed:
  assumes "conn_inv c"
  shows "closed (wtq_conn_on_conn_closed err remote c)"
proof (cases "closed c")
  case False
  have "end_inv (wtq_conn_on_conn_closed err remote c)"
    using conn_closed_inv [OF assms False] by (simp add: conn_inv_def)
  then show ?thesis using False by (simp add: on_conn_closed_over end_inv_def split: if_splits)
qed (simp add: wtq_conn_on_conn_closed_def)

text \<open>
  C1. The engine refines the documented life cycle of a session: whatever public
  calls happen between two reachable states, over any driver, the trace only grows
  and the session callbacks made in between are a run of the life cycle from the
  first state's session state to the second's.
\<close>

theorem engine_refines_life_cycle:
  assumes "reachable c" "conn_op\<^sup>*\<^sup>* c c'"
  shows "\<exists>tr. trace c' = trace c @ tr \<and> session_run (sess_state c) (filter session_event tr) (sess_state c')"
  using life.ops_le [OF assms(2,1)] by (simp add: lives_on_def)

theorem engine_refines_life_cycle_witness:
  "\<exists>tr. trace (wtq_conn_on_conn_closed 7 True server_established) = trace server_established @ tr
    \<and> session_run (sess_state server_established) (filter session_event tr)
        (sess_state (wtq_conn_on_conn_closed 7 True server_established))"
  by (rule engine_refines_life_cycle [OF server_reachable(6)]) (blast intro: op_conn_closed)

text \<open>
  C2. Once the connection is gone, the application has been told exactly once how
  its session ended, exactly once that the connection is over, and the driver has
  been asked at most once to close it, whatever was called before and is called
  afterwards.
\<close>

theorem connection_end_reported_once:
  assumes "reachable c" "conn_op\<^sup>*\<^sup>* (wtq_conn_on_conn_closed err remote c) c'"
  shows "closed c' \<and> length (filter outcome (trace c')) = 1
    \<and> length (filter conn_error_event (trace c')) = 1 \<and> length (filter conn_close_event (trace c')) \<le> 1"
proof -
  let ?d = "wtq_conn_on_conn_closed err remote c"
  have r: "reachable ?d" using assms(1) op_conn_closed by (rule reach_op)
  have "closed ?d" using reachable_inv [OF assms(1)] by (simp add: conn_closed_closed)
  then have cl: "closed c'" and r': "reachable c'"
    using hold.ops_le [OF assms(2) r] by (auto simp: holds_on_def)
  from r' have inv: "conn_inv c'" using reachable_inv by blast
  then have "session_run SS_IDLE (filter session_event (trace c')) (sess_state c')" "session_terminal c'"
    using cl conn_inv_session(1) by (simp_all add: conn_inv_def life_inv_def session_events_def)
  then have "length (filter outcome (filter session_event (trace c'))) = 1"
    by (rule terminal_one_outcome)
  moreover have "filter outcome (filter session_event tr) = filter outcome tr" for tr
    by (induction tr) (auto simp: outcome_session)
  ultimately show ?thesis using cl inv by (simp add: conn_inv_def end_inv_def)
qed

theorem connection_end_reported_once_witness:
  "closed (wtq_conn_on_conn_closed 7 True server_established)
    \<and> length (filter outcome (trace (wtq_conn_on_conn_closed 7 True server_established))) = 1
    \<and> length (filter conn_error_event (trace (wtq_conn_on_conn_closed 7 True server_established))) = 1
    \<and> length (filter conn_close_event (trace (wtq_conn_on_conn_closed 7 True server_established))) \<le> 1"
  by (rule connection_end_reported_once [OF server_reachable(6), of 7 True]) simp

text \<open>
  C8. What a connection knows it never takes back, whatever is called: closed is
  final, the first transport error stays, the peer's SETTINGS and the latched
  profile never change, nor does the id of the session; a GOAWAY limit only falls
  and a push limit only rises.
\<close>

theorem connection_facts_are_final:
  assumes "reachable c" "conn_op\<^sup>*\<^sup>* c c'"
  shows "(closed c \<longrightarrow> closed c')
    \<and> (\<forall>e. transport_error c = Some e \<longrightarrow> transport_error c' = Some e)
    \<and> (settings_received c \<longrightarrow> settings_received c' \<and> peer_settings c' = peer_settings c)
    \<and> (profile_latched c \<longrightarrow> profile_latched c' \<and> wt_profile c' = wt_profile c)
    \<and> (session_established c \<longrightarrow> session_established c' \<and> session_id c' = session_id c)
    \<and> (\<forall>g. goaway_id c = Some g \<longrightarrow> (\<exists>g'. goaway_id c' = Some g' \<and> g' \<le> g))
    \<and> (\<forall>m. max_push_id c = Some m \<longrightarrow> (\<exists>m'. max_push_id c' = Some m' \<and> m \<le> m'))"
  using hold.ops_le [OF assms(2,1)] unfolding holds_on_def by blast

theorem connection_facts_are_final_witness:
  "session_established server_overrun \<and> session_id server_overrun = session_id server_established"
proof -
  have "conn_op server_established server_overrun"
    unfolding server_overrun_def
    by (rule op_bytes [of _ 0, OF _ _ surjective_pairing]) (use server_reachable(8) server_established_fields in simp_all)
  then have "conn_op\<^sup>*\<^sup>* server_established server_overrun" ..
  from connection_facts_are_final [OF server_reachable(6) this] show ?thesis
    using server_established_fields(1) by blast
qed

section \<open>The session's terms\<close>

text \<open>
  C13. A session exists only on agreed terms: in every reachable state with an
  established session the connection was started, the peer's SETTINGS are in, and
  the session's profile is the one that the selection gives for these SETTINGS; the
  prefix of its datagrams is the quarter of its id.
\<close>

theorem established_session_negotiated:
  assumes "reachable c" "session_established c"
  shows "started c \<and> settings_received c
    \<and> wtq_h3_settings_select_profile (peer_settings c) (persp c = PERSPECTIVE_CLIENT) (wt_profiles c)
        = Some (wt_profile c)
    \<and> qsid_prefix c = (case wtq_varint_encode (session_id c div 4) 8 of Inr b \<Rightarrow> b | Inl _ \<Rightarrow> [])"
  using reachable_inv [OF assms(1)] assms(2) unfolding conn_inv_def session_inv_def by blast

theorem established_session_negotiated_witness:
  "started server_established \<and> settings_received server_established
    \<and> wtq_h3_settings_select_profile (peer_settings server_established)
        (persp server_established = PERSPECTIVE_CLIENT) (wt_profiles server_established)
        = Some (wt_profile server_established)
    \<and> qsid_prefix server_established
        = (case wtq_varint_encode (session_id server_established div 4) 8 of Inr b \<Rightarrow> b | Inl _ \<Rightarrow> [])"
  by (rule established_session_negotiated [OF server_reachable(6) server_established_fields(1)])

section \<open>The streams\<close>

text \<open>
  C20. The stream pool is well typed after any calls on a created connection: it
  still has the size it was created with, 16 without a plan and the plan's engine
  capacity with one, which is that of the peer's range, the local range and a
  client's CONNECT stream; at most one stream is the peer's control stream and at
  most one carries the client's CONNECT, only a server has request streams and only
  a client a CONNECT stream, the parked request is a request stream in the pool, and
  every admission record points into the pool.
\<close>

theorem stream_pool_typed:
  assumes "wtq_conn_create_budget_v2 L sz cfg d plan = Inr c0"
    "\<forall>p. plan = Some p \<longrightarrow> plan_accepted L (cfg_perspective cfg = PERSPECTIVE_CLIENT) p" "conn_op\<^sup>*\<^sup>* c0 c"
  shows "length (peer c) = (case plan of None \<Rightarrow> 16 | Some p \<Rightarrow> unat (pl_engine_capacity p))
    \<and> (budgeted c = (plan \<noteq> None))
    \<and> (budgeted c \<longrightarrow>
         length (peer c) = peer_capacity c + local_capacity c + (if persp c = PERSPECTIVE_CLIENT then 1 else 0))
    \<and> at_most_one ES_CONTROL (peer c) \<and> at_most_one ES_CONNECT (peer c)
    \<and> (\<forall>i < length (peer c). (es_kind (peer c ! i) = ES_REQUEST \<longrightarrow> persp c = PERSPECTIVE_SERVER)
         \<and> (es_kind (peer c ! i) = ES_CONNECT \<longrightarrow> persp c = PERSPECTIVE_CLIENT))
    \<and> (\<forall>r. parked_es c = Some r \<longrightarrow>
         r < length (peer c) \<and> es_kind (peer c ! r) = ES_REQUEST \<and> \<not> es_is_session_stream (peer c ! r))
    \<and> (\<forall>a r. Some a \<in> set (admission_peers c) \<longrightarrow> pa_es a = Some r \<longrightarrow> r < length (peer c))"
proof -
  have "created c0" using assms(1,2) unfolding created_def by blast
  then have r: "reachable c" "keeps c0 c" using ops_keep [OF assms(3)] reach_init by blast+
  have "length (peer c0) = (case plan of None \<Rightarrow> 16 | Some p \<Rightarrow> unat (pl_engine_capacity p))"
      "budgeted c0 = (plan \<noteq> None)"
    using assms(1) unfolding wtq_conn_create_budget_v2_def
    by (auto simp: Let_def WTQ_CONN_LEGACY_STREAMS_def split: option.splits if_splits)
  then have size: "length (peer c) = (case plan of None \<Rightarrow> 16 | Some p \<Rightarrow> unat (pl_engine_capacity p))"
      "budgeted c = (plan \<noteq> None)"
    using r(2) by (simp_all add: keeps_def)
  have inv: "conn_inv c" "pool_ok c" using reachable_inv [OF r(1)] by simp_all
  have es: "es_inv c i (peer c ! i)" if "i < length (peer c)" for i
    using inv(1) that by (auto dest: conn_inv_ok streams_ok_at)
  have "es_kind (peer c ! i) = ES_REQUEST \<Longrightarrow> persp c = PERSPECTIVE_SERVER"
    "es_kind (peer c ! i) = ES_CONNECT \<Longrightarrow> persp c = PERSPECTIVE_CLIENT"
    "parked_es c = Some i \<Longrightarrow> es_kind (peer c ! i) = ES_REQUEST \<and> \<not> es_is_session_stream (peer c ! i)"
    if "i < length (peer c)" for i
    using es [OF that] unfolding es_inv_def by blast+
  moreover have "at_most_one ES_CONTROL (peer c)" "at_most_one ES_CONNECT (peer c)"
    "\<And>r. parked_es c = Some r \<Longrightarrow> r < length (peer c)"
    using inv(1) by (simp_all add: conn_inv_def stream_inv_def)
  moreover have "budgeted c \<longrightarrow>
        length (peer c) = peer_capacity c + local_capacity c + (if persp c = PERSPECTIVE_CLIENT then 1 else 0)"
      "adm_ok (length (peer c)) (admission_peers c)"
    using inv(2) by (simp_all add: pool_ok_def split: if_splits)
  ultimately show ?thesis using size unfolding adm_ok_def by blast
qed

text \<open>A server made with a plan for sixteen streams of the peer and eight of its own.\<close>

lemma planned_server:
  "\<exists>p c. wtq_api_stream_plan_v1 example_layout 8 8 8 False 64 32 = Inr p
    \<and> plan_accepted example_layout (cfg_perspective example_cfg = PERSPECTIVE_CLIENT) p
    \<and> wtq_conn_create_budget_v2 example_layout 1000 example_cfg example_driver (Some p) = Inr c"
proof -
  have "(case wtq_api_stream_plan_v1 example_layout 8 8 8 False 64 32 of
      Inr p \<Rightarrow> plan_accepted example_layout (cfg_perspective example_cfg = PERSPECTIVE_CLIENT) p
        \<and> (case wtq_conn_create_budget_v2 example_layout 1000 example_cfg example_driver (Some p) of
             Inr c \<Rightarrow> True | Inl _ \<Rightarrow> False)
    | Inl _ \<Rightarrow> False)"
    by code_simp
  then show ?thesis by (auto split: sum.splits)
qed

theorem stream_pool_typed_witness:
  "\<exists>p c. wtq_api_stream_plan_v1 example_layout 8 8 8 False 64 32 = Inr p
    \<and> wtq_conn_create_budget_v2 example_layout 1000 example_cfg example_driver (Some p) = Inr c
    \<and> length (peer (snd (wtq_conn_start c))) = unat (pl_engine_capacity p)"
proof -
  obtain p c where p: "wtq_api_stream_plan_v1 example_layout 8 8 8 False 64 32 = Inr p"
      "plan_accepted example_layout (cfg_perspective example_cfg = PERSPECTIVE_CLIENT) p"
      "wtq_conn_create_budget_v2 example_layout 1000 example_cfg example_driver (Some p) = Inr c"
    using planned_server by blast
  have "conn_op c (snd (wtq_conn_start c))" by (rule op_start) (rule surjective_pairing)
  then have "conn_op\<^sup>*\<^sup>* c (snd (wtq_conn_start c))" ..
  from stream_pool_typed [OF p(3) _ this] p show ?thesis by auto
qed

text \<open>
  C19. The buffers of the streams in every reachable state: what is gathered on a
  QPACK stream fits 11 bytes, a parked request 512 bytes, and the frame buffer
  holds at most 512 bytes on every stream in use but one kind: on a request stream
  that is past its header section only 1024 bytes bound it, twice the buffer's size.
\<close>

theorem stream_buffers_bounded:
  assumes "reachable c" "i < length (peer c)"
  shows "length (parked_buf c) \<le> 512
    \<and> (es_kind (peer c ! i) = ES_QPACK \<longrightarrow> length (es_set_buf (peer c ! i)) \<le> 11)
    \<and> (es_kind (peer c ! i) \<noteq> ES_FREE \<and> es_kind (peer c ! i) \<noteq> ES_DRAIN \<longrightarrow>
         length (es_set_buf (peer c ! i))
           \<le> (if es_kind (peer c ! i) = ES_REQUEST \<and> es_headers_done (peer c ! i) then 1024 else 512))"
proof -
  have inv: "conn_inv c" using reachable_inv [OF assms(1)] by simp
  then have "es_buf (closed c) (peer c ! i)"
    using streams_ok_at [OF conn_inv_ok assms(2)] by (simp add: es_inv_def)
  moreover have "length (parked_buf c) \<le> 512" using inv by (simp add: conn_inv_def stream_inv_def)
  ultimately show ?thesis unfolding es_buf_def set_cap_def by blast
qed

theorem stream_buffers_bounded_witness:
  "length (parked_buf server_overrun) \<le> 512
    \<and> length (es_set_buf (peer server_overrun ! 0))
        \<le> (if es_kind (peer server_overrun ! 0) = ES_REQUEST \<and> es_headers_done (peer server_overrun ! 0)
           then 1024 else 512)"
proof -
  have k: "es_kind (peer server_overrun ! 0) = ES_REQUEST"
    using partial_frame_appended [of server_established 0 "replicate 511 0"] server_established_fields
    by (simp add: server_overrun_def peer_upd_es)
  have "0 < length (peer server_overrun)" by (simp add: server_reachable)
  from stream_buffers_bounded [OF server_reachable(7) this] k show ?thesis by simp
qed

text \<open>
  C21. The bound of 1024 bytes is not slack: a peer that sends its request before
  its SETTINGS, with the header of a long trailer section behind it, reaches a live
  connection with an established session in which the 512-byte frame buffer of the
  request stream has taken 546 bytes.
\<close>

theorem request_buffer_overrun:
  "reachable server_overrun \<and> WTQ_CONN_SETTINGS_CAP < length (es_set_buf (peer server_overrun ! 0))
    \<and> length (es_set_buf (peer server_overrun ! 0)) = 546
    \<and> server_overrun = snd (wtq_conn_on_stream_bytes 0 (replicate 511 0) False server_established)"
  using server_reachable(7) server_overrun_buffer by (simp add: WTQ_CONN_SETTINGS_CAP_def) (simp add: server_overrun_def)

end
