(* ===== verification/Engine_Loops.thy ===== *)
theory Engine_Loops
  imports Engine_Example
begin

text \<open>
  The three byte walks end. \<open>walk\<close> carries a guard that makes its recursion total;
  here the loop of the C code, without the guard, is a relation, and the walk is
  shown to be what that loop computes in every state the engine reaches: each turn
  that goes on has consumed a byte.
\<close>

section \<open>The loop of the source\<close>

text \<open>\<^verbatim>\<open>while (off < len && !conn->closed)\<close> around a turn that returns or goes on.\<close>

inductive c_loop ::
  "(bytes \<Rightarrow> wtq_conn \<Rightarrow> wtq_conn \<times> bytes option) \<Rightarrow> bytes \<Rightarrow> wtq_conn \<Rightarrow> wtq_conn \<Rightarrow> bool"
  for turn :: "bytes \<Rightarrow> wtq_conn \<Rightarrow> wtq_conn \<times> bytes option" where
  loop_stop: "data = [] \<or> closed c \<Longrightarrow> c_loop turn data c c"
| loop_return: "data \<noteq> [] \<Longrightarrow> \<not> closed c \<Longrightarrow> turn data c = (c', None) \<Longrightarrow> c_loop turn data c c'"
| loop_next: "data \<noteq> [] \<Longrightarrow> \<not> closed c \<Longrightarrow> turn data c = (c1, Some rest) \<Longrightarrow> c_loop turn rest c1 c'
    \<Longrightarrow> c_loop turn data c c'"

lemma c_loop_det: "c_loop turn data c c1 \<Longrightarrow> c_loop turn data c c2 \<Longrightarrow> c1 = c2"
proof (induction arbitrary: c2 rule: c_loop.induct)
  case (loop_next data c c1 rest c')
  from loop_next.prems loop_next.hyps have "c_loop turn rest c1 c2"
    by (cases rule: c_loop.cases) auto
  then show ?case by (rule loop_next.IH)
qed (auto elim: c_loop.cases)

section \<open>Turns that consume\<close>

locale byte_loop =
  fixes turn :: "bytes \<Rightarrow> wtq_conn \<Rightarrow> wtq_conn \<times> bytes option"
    and ready :: "wtq_conn \<Rightarrow> bool"
  assumes turn_ready: "ready c \<Longrightarrow> \<not> closed c \<Longrightarrow> turn data c = (c', Some rest) \<Longrightarrow> ready c'"
    and turn_consumes: "ready c \<Longrightarrow> \<not> closed c \<Longrightarrow> data \<noteq> [] \<Longrightarrow> turn data c = (c', Some rest)
      \<Longrightarrow> length rest < length data"
begin

lemma walk_is_loop: "ready c \<Longrightarrow> c_loop turn data c (walk turn data c)"
proof (induction "length data" arbitrary: data c rule: less_induct)
  case less
  show ?case
  proof (cases "data = [] \<or> closed c")
    case True
    then show ?thesis by (auto simp: walk.simps intro: loop_stop)
  next
    case False
    obtain c' r where t: "turn data c = (c', r)" by fastforce
    show ?thesis
    proof (cases r)
      case None
      then show ?thesis using False t by (auto simp: walk.simps intro: loop_return)
    next
      case (Some rest)
      have s: "length rest < length data" "ready c'"
        using False t Some less.prems turn_ready turn_consumes by auto
      then have "c_loop turn rest c' (walk turn rest c')" by (intro less.hyps)
      then show ?thesis using False t Some s by (auto simp: walk.simps [of turn data] intro: loop_next)
    qed
  qed
qed

end

lemma frame_take_pos: "0 < unat r \<Longrightarrow> data \<noteq> [] \<Longrightarrow> 0 < frame_take r data"
  by (auto simp: frame_take_def)

section \<open>Capsules\<close>

lemma capsule_feed_progress:
  assumes inv: "capsule_dec_inv d" and f: "wtq_capsule_dec_feed d xs = (d', Inr out, n)" and xs: "xs \<noteq> []"
  shows "0 < n"
proof (cases "cd_state d")
  case CAP_DEC_POISONED
  then show ?thesis using f by (simp add: capsule_feed_poisoned)
next
  case CAP_DEC_PAYLOAD
  then have "0 < unat (cd_remaining d)" using inv by (simp add: capsule_dec_inv_def)
  then show ?thesis
    using f CAP_DEC_PAYLOAD by (auto simp: capsule_feed_payload_state feed_payload_eq split: if_splits)
next
  case CAP_DEC_HEADER
  obtain h r c where h: "wtq_h3_frame_dec_feed (cd_hdr d) xs = (h, r, c)" by (metis prod_cases3)
  have i: "h3_frame_dec_inv (cd_hdr d)" using inv CAP_DEC_HEADER by (simp add: capsule_dec_inv_def)
  then have c: "0 < c" using h xs by (rule h3_frame_feed_progress)
  have "h3_frame_dec_inv h" using i h by (rule h3_frame.inv_feed)
  then have j: "h3_frame_dec_inv (cd_hdr (d\<lparr>cd_hdr := h\<rparr>))" by simp
  obtain hdr where r: "r = Inr hdr" "capsule_header_done (d\<lparr>cd_hdr := h\<rparr>) hdr (drop c xs) c = (d', Inr out, n)"
    using f h CAP_DEC_HEADER by (cases r) (auto simp: capsule_feed_header)
  from j show ?thesis
  proof (cases rule: capsule_header_done_cases [of "d\<lparr>cd_hdr := h\<rparr>" hdr])
    case (payload d2)
    then show ?thesis using r(2) c by (auto simp: feed_payload_eq split: if_splits)
  qed (use r c in auto)
qed

lemma capsule_turn_consumes:
  assumes "capsule_ready i es c" "data \<noteq> []" "capsule_turn i data c = (c', Some rest)"
  shows "length rest < length data"
proof -
  obtain d r n where f: "wtq_capsule_dec_feed (caps_dec c) data = (d, r, n)" by (metis prod_cases3)
  obtain cap where r: "r = Inr cap" and rest: "rest = drop n data"
    using assms(3) f by (cases r) (auto simp: capsule_turn_def Let_def split: wtq_status.splits if_splits)
  have "capsule_dec_inv (caps_dec c)" using assms(1) by (simp add: capsule_ready_def conn_inv_def stream_inv_def)
  then have "0 < n" using f [unfolded r] assms(2) by (rule capsule_feed_progress)
  then show ?thesis using rest assms(2) by (simp add: length_greater_0_conv)
qed

interpretation capsule_loop: byte_loop "capsule_turn i" "capsule_ready i es" for i es
proof
  fix c data c' rest
  assume J: "capsule_ready i es c" and t: "capsule_turn i data c = (c', Some rest)"
  show "capsule_ready i es c'" using capsule_turn_sim [OF J t] by simp
  assume "data \<noteq> []"
  then show "length rest < length data" using J t capsule_turn_consumes by blast
qed

section \<open>Frames\<close>

text \<open>The payload part of a turn takes what belongs to the frame, and the header part at least a byte.\<close>

lemma request_payload_rest:
  "request_payload i data c = (c', Some rest) \<Longrightarrow> rest = drop (frame_take (es_frame_remaining (peer c ! i)) data) data"
  by (auto simp: request_payload_def request_payload_end_def Let_def split: if_splits prod.splits)

lemma control_payload_rest:
  "control_payload i data c = (c', Some rest) \<Longrightarrow> rest = drop (frame_take (es_frame_remaining (peer c ! i)) data) data"
  by (auto simp: control_payload_def Let_def split: if_splits)

lemma active_remaining:
  assumes "conn_inv c" "i < length (peer c)" "\<not> closed c" "es_frame_active (peer c ! i)"
    "es_kind (peer c ! i) = ES_CONTROL \<or> request_kind (es_kind (peer c ! i)) \<and> \<not> es_request_dead (peer c ! i)"
  shows "0 < unat (es_frame_remaining (peer c ! i))"
  using inv_at [OF assms(1,2)] assms(3-5) unfolding es_inv_def es_buf_def request_kind_def by blast

lemma frame_turn_consumes:
  assumes inv: "conn_inv c" "i < length (peer c)" "\<not> closed c" "data \<noteq> []"
    "es_kind (peer c ! i) = ES_CONTROL \<or> request_kind (es_kind (peer c ! i)) \<and> \<not> es_request_dead (peer c ! i)"
    and active: "es_frame_active (peer c ! i) \<Longrightarrow> rest = drop (frame_take (es_frame_remaining (peer c ! i)) data) data"
    and header: "\<not> es_frame_active (peer c ! i) \<Longrightarrow>
      \<exists>d hdr n m. wtq_h3_frame_dec_feed (es_frame_dec (peer c ! i)) data = (d, Inr hdr, n) \<and> rest = drop m (drop n data)"
  shows "length rest < length data"
proof (cases "es_frame_active (peer c ! i)")
  case True
  then have "0 < frame_take (es_frame_remaining (peer c ! i)) data"
    using inv active_remaining by (intro frame_take_pos) blast+
  then show ?thesis using active [OF True] inv(4) by (simp add: length_greater_0_conv)
next
  case False
  obtain d hdr n m where f: "wtq_h3_frame_dec_feed (es_frame_dec (peer c ! i)) data = (d, Inr hdr, n)"
    and rest: "rest = drop m (drop n data)" using header [OF False] by blast
  have "h3_frame_dec_inv (es_frame_dec (peer c ! i))"
    using inv_at [OF inv(1,2)] by (simp add: es_inv_def es_buf_def)
  then have "0 < n" using f inv(4) by (rule h3_frame_feed_progress)
  moreover have "0 < length data" using inv(4) by simp
  ultimately show ?thesis using rest by simp
qed

lemma request_turn_consumes:
  assumes J: "request_ready i c" "\<not> closed c" "data \<noteq> []" and t: "request_turn i data c = (c', Some rest)"
  shows "length rest < length data"
proof (rule frame_turn_consumes [of c i])
  show "\<exists>d hdr n m. wtq_h3_frame_dec_feed (es_frame_dec (peer c ! i)) data = (d, Inr hdr, n) \<and> rest = drop m (drop n data)"
    if "\<not> es_frame_active (peer c ! i)"
    using t that request_payload_rest
    by (fastforce simp: request_turn_def Let_def split: prod.splits sum.splits if_splits)
qed (use J t request_payload_rest in \<open>auto simp: request_ready_def request_turn_def\<close>)

interpretation request_loop: byte_loop "request_turn i" "request_ready i" for i
  by unfold_locales (use sim_turn request_turn_consumes in blast)+

lemma control_turn_consumes:
  assumes J: "control_ready i c" "\<not> closed c" "data \<noteq> []" and t: "control_turn i data c = (c', Some rest)"
  shows "length rest < length data"
proof (rule frame_turn_consumes [of c i])
  show "\<exists>d hdr n m. wtq_h3_frame_dec_feed (es_frame_dec (peer c ! i)) data = (d, Inr hdr, n) \<and> rest = drop m (drop n data)"
    if "\<not> es_frame_active (peer c ! i)"
    using t that control_payload_rest
    by (fastforce simp: control_turn_def Let_def split: prod.splits sum.splits if_splits)
qed (use J t control_payload_rest in \<open>auto simp: control_ready_def control_turn_def\<close>)

interpretation control_loop: byte_loop "control_turn i" "control_ready i" for i
  by unfold_locales (use sim_control_turn control_ready_sim control_turn_consumes in blast)+

section \<open>The walks end\<close>

text \<open>
  C6. The byte walks terminate: on any delivery in any reachable state, the
  unguarded loop of the C code over a control stream, over a live request or
  CONNECT stream, and over the capsules of the session stream comes to an end, and
  the state it ends in is the one the modelled walk gives.
\<close>

theorem byte_walks_terminate:
  assumes "reachable c" "started c" "i < length (peer c)"
  shows "(es_kind (peer c ! i) = ES_CONTROL \<longrightarrow> c_loop (control_turn i) data c (control_bytes i data c))
    \<and> (es_kind (peer c ! i) = ES_CONNECT \<or> es_kind (peer c ! i) = ES_REQUEST \<longrightarrow>
         (\<not> es_request_dead (peer c ! i) \<longrightarrow> c_loop (request_turn i) data c (request_stream_bytes i data c))
         \<and> (es_is_session_stream (peer c ! i) \<and> \<not> close_capsule_rx c \<longrightarrow>
              c_loop (capsule_turn i) data c (session_capsule_bytes i data c)))"
proof -
  have inv: "conn_inv c" "pool_ok c" using reachable_inv [OF assms(1)] by simp_all
  have "c_loop (control_turn i) data c (control_bytes i data c)" if "es_kind (peer c ! i) = ES_CONTROL"
    using control_loop.walk_is_loop [of i c data] that inv assms by (simp add: control_ready_def control_bytes_def)
  moreover have "c_loop (request_turn i) data c (request_stream_bytes i data c)"
    if "request_kind (es_kind (peer c ! i))" "\<not> es_request_dead (peer c ! i)"
    using request_loop.walk_is_loop [of i c data] that inv assms by (simp add: request_ready_def request_stream_bytes_def)
  moreover have "c_loop (capsule_turn i) data c (session_capsule_bytes i data c)"
    if "request_kind (es_kind (peer c ! i))" "es_is_session_stream (peer c ! i)" "\<not> close_capsule_rx c"
  proof -
    have "parked_es c \<noteq> Some i" using inv_at [OF inv(1) assms(3)] that(2) by (auto simp: es_inv_def)
    then show ?thesis
      using capsule_loop.walk_is_loop [of i "peer c ! i" c data] that inv assms
      by (simp add: capsule_ready_def session_capsule_bytes_def)
  qed
  ultimately show ?thesis by (simp add: request_kind_def)
qed

theorem byte_walks_terminate_witness:
  "c_loop (request_turn 0) [7] server_established (request_stream_bytes 0 [7] server_established)"
  using byte_walks_terminate [OF server_reachable(6,8), of 0 "[7]"] server_established_fields by simp

end
