(* ===== verification/Engine_Decisions.thy ===== *)
theory Engine_Decisions
  imports Engine_Example
begin

text \<open>
  What the engine decides: which request a server turns into a session, where a
  datagram goes, and what reaches the driver when a stream is shut down.
\<close>

section \<open>A server's acceptance\<close>

text \<open>The rules a request has to satisfy under the latched profile, for the path it names.\<close>

definition request_acceptable :: "conn_profile_policy \<Rightarrow> wtq_connect_req \<Rightarrow> bytes list \<Rightarrow> server_path \<Rightarrow> bool" where
  "request_acceptable pol req offers p \<longleftrightarrow>
     cr_legacy_protocol req = pol_expect_legacy_token pol
     \<and> (pol_require_d02_request_marker pol \<longrightarrow> cr_d02_marker req = Some (str ''1''))
     \<and> sp_path p = cr_path req
     \<and> (pol_require_origin pol \<or> sp_origin_policy p \<noteq> WTQ_ORIGIN_POLICY_UNSET \<longrightarrow>
          sp_origin_policy p \<noteq> WTQ_ORIGIN_POLICY_UNSET
          \<and> (\<exists>origin. cr_origin req = Some origin
               \<and> conn_origin_authorized (sp_origin_policy p) (sp_origins p) origin))
     \<and> (sp_require p \<longrightarrow> offers \<noteq> [] \<and> (\<exists>k. wtq_connect_select_protocol offers (sp_protos p) = Inr k))"

lemma calm_established: "calm c c' \<Longrightarrow> session_established c' = session_established c"
  by (simp add: calm_def)

lemma refuse_established [simp]: "session_established (request_stream_refuse_err i e c) = session_established c"
  using calm_established [OF calm_shutdown] by (simp add: request_stream_refuse_err_def)

lemma respond_established [simp]: "session_established (respond_dead i st c) = session_established c"
  using calm_established sim_send_response by (auto simp: respond_dead_def)

lemma fatal_established [simp]: "session_established (conn_fatal e c) = session_established c"
  by (rule calm_established) simp

lemma server_accept_establishes:
  assumes "\<not> session_established c" "session_established (server_accept i pol req offers c)"
  shows "\<exists>p \<in> set (paths c). request_acceptable pol req offers p"
proof -
  let ?find = "find (\<lambda>p. sp_path p = cr_path req) (paths c)"
  have token: "cr_legacy_protocol req = pol_expect_legacy_token pol"
    "pol_require_d02_request_marker pol \<longrightarrow> cr_d02_marker req = Some (str ''1'')"
    using assms by (auto simp: server_accept_def split: if_splits)
  obtain p where p: "?find = Some p"
    using assms token by (cases ?find) (auto simp: server_accept_def split: if_splits)
  then have mem: "p \<in> set (paths c)" "sp_path p = cr_path req" by (auto simp: find_Some_iff)
  have origin: "sp_origin_policy p \<noteq> WTQ_ORIGIN_POLICY_UNSET
      \<and> (\<exists>origin. cr_origin req = Some origin \<and> conn_origin_authorized (sp_origin_policy p) (sp_origins p) origin)"
    if "pol_require_origin pol \<or> sp_origin_policy p \<noteq> WTQ_ORIGIN_POLICY_UNSET"
    using assms token p that by (auto simp: server_accept_def split: if_splits option.splits)
  have "offers \<noteq> [] \<and> (\<exists>k. wtq_connect_select_protocol offers (sp_protos p) = Inr k)" if "sp_require p"
    using assms token p that by (auto simp: server_accept_def Let_def split: if_splits option.splits sum.splits)
  then show ?thesis using token mem origin by (auto simp: request_acceptable_def)
qed

text \<open>
  C7. A server turns a request into a session only on its own terms: the decision
  establishes a session only when the client's SETTINGS are in and a profile is
  latched, the header section decodes as a WebTransport request under that
  profile's rules, and some configured path is the one requested and accepts the
  request's token, marker, origin and subprotocols.
\<close>

theorem server_establishes_only_acceptable:
  assumes "\<not> session_established c" "session_established (server_request_done i c)"
  shows "settings_received c \<and> wt_supported c \<and> profile_latched c
    \<and> (\<exists>req offers. wtq_connect_decode_request (es_set_buf (peer c ! i))
            (pol_opts (conn_connect_policy (wt_profile c))) WTQ_CONN_MAX_OFFERED WTQ_CONN_SETTINGS_CAP = Inr (req, offers)
        \<and> (\<exists>p \<in> set (paths c). request_acceptable (conn_connect_policy (wt_profile c)) req offers p))"
proof -
  let ?pol = "conn_connect_policy (wt_profile c)"
  let ?dec = "wtq_connect_decode_request (es_set_buf (peer c ! i)) (pol_opts ?pol) WTQ_CONN_MAX_OFFERED WTQ_CONN_SETTINGS_CAP"
  have s: "settings_received c \<and> wt_supported c \<and> profile_latched c"
    using assms by (auto simp: server_request_done_def request_stream_refuse_def split: if_splits)
  obtain r where r: "?dec = Inr r"
    using assms s by (cases ?dec) (auto simp: server_request_done_def Let_def split: wtq_connect_status.splits)
  obtain req offers where "r = (req, offers)" by fastforce
  then have "?dec = Inr (req, offers)" "session_established (server_accept i ?pol req offers c)"
    using assms s r by (simp_all add: server_request_done_def Let_def)
  then show ?thesis using s server_accept_establishes [OF assms(1)] by blast
qed

text \<open>A server at the decision: the SETTINGS are in, the request is in the frame buffer.\<close>

definition server_deciding :: wtq_conn where
  "server_deciding =
     server_configured\<lparr>settings_received := True, wt_supported := True, profile_latched := True,
       peer := (peer server_configured)[0 := estream_zero\<lparr>es_set_buf := example_section\<rparr>]\<rparr>"

lemma server_deciding_view:
  "session_established server_deciding = False"
  "session_established (server_request_done 0 server_deciding) = True"
  by code_simp+

theorem server_establishes_only_acceptable_witness:
  "settings_received server_deciding \<and> wt_supported server_deciding \<and> profile_latched server_deciding
    \<and> (\<exists>req offers. wtq_connect_decode_request (es_set_buf (peer server_deciding ! 0))
            (pol_opts (conn_connect_policy (wt_profile server_deciding))) WTQ_CONN_MAX_OFFERED WTQ_CONN_SETTINGS_CAP
            = Inr (req, offers)
        \<and> (\<exists>p \<in> set (paths server_deciding).
              request_acceptable (conn_connect_policy (wt_profile server_deciding)) req offers p))"
  by (rule server_establishes_only_acceptable) (simp_all add: server_deciding_view)

section \<open>Datagrams\<close>

text \<open>The reference without the prefix comparison: decode the quarter stream id and compare it.\<close>

definition datagram_reference :: "bytes \<Rightarrow> wtq_conn \<Rightarrow> wtq_result \<times> wtq_conn" where
  "datagram_reference data c =
     (case conn_open_locals_if_deferred c of
        (rc, c) \<Rightarrow>
          if rc \<noteq> WTQ_OK then (WTQ_ERR_CLOSED, c)
          else
            (case wtq_varint_decode data of
               Inl _ \<Rightarrow> (WTQ_ERR_PROTO, conn_fatal WTQ_H3_DATAGRAM_ERROR c)
             | Inr (qsid, n) \<Rightarrow>
                 if qsid > 2 ^ 60 - 1 then (WTQ_ERR_PROTO, conn_fatal WTQ_H3_DATAGRAM_ERROR c)
                 else if session_active c \<and> qsid = session_id c div 4
                 then (WTQ_OK, emit (CB_wt_datagram (drop n data)) c)
                 else (WTQ_OK, c\<lparr>dgrams_dropped := dgrams_dropped c + 1\<rparr>)))"

lemma open_local_session_id:
  "open_local d c = (rc, c') \<Longrightarrow> session_id c' = session_id c"
  by (auto simp: open_local_def Let_def split: if_splits)

lemma open_locals_session_id: "open_local_all ds c = (rc, c') \<Longrightarrow> session_id c' = session_id c"
  by (induction ds arbitrary: c) (auto split: prod.splits if_splits dest: open_local_session_id)

lemma deferred_session_id:
  "conn_open_locals_if_deferred c = (WTQ_OK, c') \<Longrightarrow> session_id c' = session_id c"
  by (auto simp: conn_open_locals_if_deferred_def conn_open_locals_def dest!: open_local_session_id
      split: prod.splits if_splits sum.splits)

lemma quarter_id:
  fixes sid :: u64
  assumes "sid < 2 ^ 62"
  shows "sid div 4 \<le> 2 ^ 60 - 1" "\<exists>b. wtq_varint_encode (sid div 4) 8 = Inr b"
    "wtq_varint_encode (sid div 4) 8 = Inr b \<Longrightarrow> wtq_varint_decode (b @ bs) = Inr (sid div 4, length b)"
proof -
  have "unat sid < 2 ^ 62" using assms unat_mono by fastforce
  then have q: "unat (sid div 4) < 2 ^ 60" by (simp add: unat_div)
  then show "sid div 4 \<le> 2 ^ 60 - 1" by (simp add: word_le_nat_alt)
  have max: "sid div 4 \<le> WTQ_VARINT_MAX" using q by (simp add: word_le_nat_alt varint_max_unat)
  show "\<exists>b. wtq_varint_encode (sid div 4) 8 = Inr b"
    using varint_encode_ok [of "sid div 4" 8] max wtq_varint_len_le_8 by blast
  show "wtq_varint_encode (sid div 4) 8 = Inr b \<Longrightarrow> wtq_varint_decode (b @ bs) = Inr (sid div 4, length b)"
    using varint_encode_decode [of "sid div 4" 8 b bs] max by simp
qed

text \<open>
  C12. The fast path for datagrams, a comparison with the precomputed prefix, is the
  slow one: in every reachable state whose session id is a QUIC stream id, a
  received datagram has the outcome of decoding its quarter stream id and comparing
  it with the session's.
\<close>

theorem datagram_fast_path_is_reference:
  assumes "reachable c" "\<not> closed c" "session_id c < 2 ^ 62"
  shows "wtq_conn_on_datagram data c = datagram_reference data c"
proof -
  obtain rc c1 where d: "conn_open_locals_if_deferred c = (rc, c1)" by fastforce
  show ?thesis
  proof (cases "rc = WTQ_OK \<and> session_active c1 \<and> take (length (qsid_prefix c1)) data = qsid_prefix c1")
    case True
    have "conn_inv c1" using sim_inv [OF sim_deferred [OF d]] reachable_inv [OF assms(1)] by blast
    then have "qsid_prefix c1 = (case wtq_varint_encode (session_id c1 div 4) 8 of Inr b \<Rightarrow> b | Inl _ \<Rightarrow> [])"
      using True unfolding conn_inv_def session_inv_def by (auto simp: session_active_def was_established_def)
    moreover have id: "session_id c1 < 2 ^ 62" using True d assms(3) deferred_session_id by metis
    ultimately obtain b where b: "wtq_varint_encode (session_id c1 div 4) 8 = Inr b" "qsid_prefix c1 = b"
      using quarter_id(2) by fastforce
    obtain bs where "data = b @ bs" using True b(2) append_take_drop_id by metis
    then have "wtq_varint_decode data = Inr (session_id c1 div 4, length b)"
      using quarter_id(3) [OF id b(1)] by simp
    then show ?thesis
      using True d assms(2) b(2) quarter_id(1) [OF id] \<open>data = b @ bs\<close>
      by (simp add: wtq_conn_on_datagram_def datagram_reference_def)
  qed (use d assms(2) in \<open>auto simp: wtq_conn_on_datagram_def datagram_reference_def\<close>)
qed

theorem datagram_fast_path_is_reference_witness:
  "wtq_conn_on_datagram [0, 42] server_established = datagram_reference [0, 42] server_established"
  by (rule datagram_fast_path_is_reference) (simp_all add: server_reachable server_established_fields)

section \<open>Stream shutdown\<close>

text \<open>The halves of a stream that are open.\<close>

definition send_live :: "wtq_estream \<Rightarrow> bool" where
  "send_live es \<longleftrightarrow> es_wt_send_open es \<or> es_wt_fin_pending es"

text \<open>
  What \<^verbatim>\<open>wt_driver.h\<close> promises a driver about a shutdown request: the whole-stream
  mode aborts exactly the open halves with one code; the other mode is kept for the
  shapes behind a capability, a single half of a fully open bidirectional stream and
  two halves with different codes.
\<close>

definition shutdown_promised :: "u32 \<Rightarrow> wtq_estream \<Rightarrow> wtq_shutdown \<Rightarrow> bool" where
  "shutdown_promised caps es eff \<longleftrightarrow>
     (sh_abort_send eff \<or> sh_abort_recv eff)
     \<and> (sh_abort_send eff \<longrightarrow> send_live es) \<and> (sh_abort_recv eff \<longrightarrow> es_wt_recv_open es)
     \<and> (case sh_mode eff of
          SHUTDOWN_WHOLE_STREAM \<Rightarrow>
            sh_abort_send eff = send_live es \<and> sh_abort_recv eff = es_wt_recv_open es
            \<and> sh_send_err eff = sh_recv_err eff
        | SHUTDOWN_EXACT_HALVES \<Rightarrow>
            es_wt_bidi es \<and> send_live es \<and> es_wt_recv_open es
            \<and> (if sh_abort_send eff \<and> sh_abort_recv eff
               then sh_send_err eff \<noteq> sh_recv_err eff \<and> caps AND WTQ_DCAP_SHUT_SPLIT_CODES \<noteq> 0
               else caps AND (if sh_abort_send eff then WTQ_DCAP_SHUT_BIDI_SEND else WTQ_DCAP_SHUT_BIDI_RECV) \<noteq> 0))"

text \<open>
  What becomes of a caller's request. The halves that are aborted are the ones it
  names, or in the whole-stream mode the open ones, each with the code it gives for
  that half; the driver learns that the application cancels its own direction
  exactly when the send half goes.
\<close>

definition shutdown_meets :: "u32 \<Rightarrow> wtq_estream \<Rightarrow> wtq_shutdown \<Rightarrow> wtq_shutdown \<Rightarrow> bool" where
  "shutdown_meets caps es req eff \<longleftrightarrow>
     (case sh_mode req of
        SHUTDOWN_WHOLE_STREAM \<Rightarrow>
          sh_abort_send eff = send_live es \<and> sh_abort_recv eff = es_wt_recv_open es \<and> sh_send_err req = sh_recv_err req
      | SHUTDOWN_EXACT_HALVES \<Rightarrow>
          sh_abort_send eff = sh_abort_send req \<and> sh_abort_recv eff = sh_abort_recv req)
     \<and> (sh_abort_send eff \<longrightarrow> sh_send_err eff = sh_send_err req)
     \<and> (sh_abort_recv eff \<longrightarrow> sh_recv_err eff = sh_recv_err req)
     \<and> sh_app_send_cancel eff = sh_abort_send eff
     \<and> shutdown_promised caps es eff"

text \<open>A request without a meaning, and one for a half that is not open.\<close>

definition shutdown_malformed :: "wtq_shutdown \<Rightarrow> bool" where
  "shutdown_malformed req \<longleftrightarrow>
     (case sh_mode req of
        SHUTDOWN_WHOLE_STREAM \<Rightarrow> sh_send_err req \<noteq> sh_recv_err req
      | SHUTDOWN_EXACT_HALVES \<Rightarrow> \<not> sh_abort_send req \<and> \<not> sh_abort_recv req)"

definition shutdown_stale :: "wtq_estream \<Rightarrow> wtq_shutdown \<Rightarrow> bool" where
  "shutdown_stale es req \<longleftrightarrow>
     (case sh_mode req of
        SHUTDOWN_WHOLE_STREAM \<Rightarrow> \<not> send_live es \<and> \<not> es_wt_recv_open es
      | SHUTDOWN_EXACT_HALVES \<Rightarrow>
          sh_abort_send req \<and> \<not> send_live es \<or> sh_abort_recv req \<and> \<not> es_wt_recv_open es)"

lemma shutdown_effective_meets:
  assumes e: "shutdown_effective caps es req = Inr eff" and shape: "wt_shape es"
  shows "shutdown_meets caps es req (eff\<lparr>sh_app_send_cancel := sh_abort_send eff\<rparr>)"
proof (cases "sh_mode req")
  case SHUTDOWN_WHOLE_STREAM
  then have "eff = req\<lparr>sh_abort_send := send_live es, sh_abort_recv := es_wt_recv_open es\<rparr>"
    "sh_send_err req = sh_recv_err req" "send_live es \<or> es_wt_recv_open es"
    using e by (simp_all add: shutdown_effective_def send_live_def Let_def split: if_splits)
  then show ?thesis
    using SHUTDOWN_WHOLE_STREAM by (simp add: shutdown_meets_def shutdown_promised_def)
next
  case SHUTDOWN_EXACT_HALVES
  define code where "code = (if sh_abort_send req then sh_send_err req else sh_recv_err req)"
  have open_halves: "sh_abort_send req \<longrightarrow> send_live es" "sh_abort_recv req \<longrightarrow> es_wt_recv_open es"
    "sh_abort_send req \<or> sh_abort_recv req"
    using e SHUTDOWN_EXACT_HALVES by (auto simp: shutdown_effective_def send_live_def Let_def split: if_splits)
  have live: "es_wt_bidi es \<longrightarrow> send_live es = es_wt_send_open es"
    "\<not> es_wt_bidi es \<longrightarrow> \<not> (send_live es \<and> es_wt_recv_open es)"
    using shape by (auto simp: wt_shape_def send_live_def)
  consider (whole) "eff = req\<lparr>sh_mode := SHUTDOWN_WHOLE_STREAM\<rparr>" "es_wt_bidi es" "sh_abort_send req" "sh_abort_recv req"
      "sh_send_err req = sh_recv_err req"
    | (only) "eff = req\<lparr>sh_mode := SHUTDOWN_WHOLE_STREAM, sh_send_err := code, sh_recv_err := code\<rparr>"
      "\<not> (sh_abort_send req \<and> sh_abort_recv req)" "\<not> (send_live es \<and> es_wt_recv_open es)"
    | (split) "eff = req" "es_wt_bidi es" "sh_abort_send req" "sh_abort_recv req"
      "sh_send_err req \<noteq> sh_recv_err req" "caps AND WTQ_DCAP_SHUT_SPLIT_CODES \<noteq> 0"
    | (half) "eff = req" "es_wt_bidi es" "\<not> (sh_abort_send req \<and> sh_abort_recv req)" "send_live es" "es_wt_recv_open es"
      "caps AND (if sh_abort_send req then WTQ_DCAP_SHUT_BIDI_SEND else WTQ_DCAP_SHUT_BIDI_RECV) \<noteq> 0"
    using e SHUTDOWN_EXACT_HALVES live open_halves
    by (simp add: shutdown_effective_def code_def Let_def split: if_splits)
  then show ?thesis
    using SHUTDOWN_EXACT_HALVES open_halves
    by cases (auto simp: shutdown_meets_def shutdown_promised_def code_def)
qed

lemma shutdown_effective_refused:
  assumes "shutdown_effective caps es req = Inl rc" "wt_shape es"
  shows "\<not> shutdown_meets caps es req eff
    \<and> rc = (if shutdown_malformed req then WTQ_ERR_INVALID_ARG
            else if shutdown_stale es req then WTQ_ERR_STATE else WTQ_ERR_UNSUPPORTED)"
proof (cases "sh_mode req")
  case SHUTDOWN_WHOLE_STREAM
  then show ?thesis using assms(1)
    by (auto simp: shutdown_effective_def shutdown_meets_def shutdown_promised_def shutdown_malformed_def
        shutdown_stale_def send_live_def Let_def split: if_splits)
next
  case SHUTDOWN_EXACT_HALVES
  then show ?thesis using assms
    by (cases "sh_mode eff") (auto simp: shutdown_effective_def shutdown_meets_def shutdown_promised_def shutdown_malformed_def
        shutdown_stale_def send_live_def wt_shape_def Let_def split: if_splits)
qed

text \<open>Runs that extend the trace without a call of the driver's stream shutdown.\<close>

fun shutdown_event :: "event \<Rightarrow> bool" where
  "shutdown_event (D_shutdown_stream ds eff) = True"
| "shutdown_event e = False"

definition no_shutdown :: "wtq_conn \<Rightarrow> wtq_conn \<Rightarrow> bool" where
  "no_shutdown c c' \<longleftrightarrow> (\<exists>tr. trace c' = trace c @ tr \<and> filter shutdown_event tr = [])"

lemma no_shutdown_trans: "no_shutdown a b \<Longrightarrow> no_shutdown b c \<Longrightarrow> no_shutdown a c"
  unfolding no_shutdown_def by (metis append_assoc append_Nil filter_append)

lemma no_shutdown_same: "trace c' = trace c \<Longrightarrow> no_shutdown c c'"
  by (simp add: no_shutdown_def)

lemma no_shutdown_emit: "\<not> shutdown_event e \<Longrightarrow> no_shutdown c (emit e c)"
  by (simp add: no_shutdown_def)

lemma no_shutdown_release: "no_shutdown c (wt_release_if_done i c)"
  by (simp add: no_shutdown_def wt_release_if_done_def estream_release_def Let_def split: option.split)

lemma no_shutdown_close: "no_shutdown c (close_wt_stream (\<lambda>ds s r code c. c) i c)"
  unfolding close_wt_stream_def Let_def
  by (auto intro!: no_shutdown_same no_shutdown_trans [OF no_shutdown_same no_shutdown_release])

lemma no_shutdown_closing: "no_shutdown c (fold (close_wt_stream (\<lambda>ds s r code c. c)) is c)"
proof (induction "is" arbitrary: c)
  case (Cons i "is")
  show ?case using no_shutdown_trans [OF no_shutdown_close Cons] by simp
qed (simp add: no_shutdown_same)

lemma no_shutdown_lost: "no_shutdown c (session_conn_lost c)"
proof -
  have "no_shutdown c (session_closed_by (\<lambda>ds s r code c. c) 0 [] False c)"
  proof (cases "session_active c")
    case True
    have "no_shutdown c (c\<lparr>sess_state := SS_CLOSED\<rparr>)" by (simp add: no_shutdown_same)
    then show ?thesis
      unfolding closed_by_eq [OF True] using no_shutdown_closing no_shutdown_trans by (intro no_shutdown_trans [OF _ no_shutdown_emit]) (blast, simp)
  qed (simp add: session_closed_by_def no_shutdown_same)
  moreover have "no_shutdown c (session_failed r c)" for r
    by (simp add: no_shutdown_def session_failed_def)
  ultimately show ?thesis by (simp add: session_conn_lost_def no_shutdown_same split: wtq_session_state.split)
qed

lemma fatal_tail:
  assumes "\<not> closed c"
  shows "\<exists>tr. trace (conn_fatal err c) = trace c @ D_conn_close err # tr \<and> filter shutdown_event tr = []"
proof -
  obtain tr where "trace (session_conn_lost (conn_end err c)) = trace c @ D_conn_close err # tr"
      "filter shutdown_event tr = []"
    using no_shutdown_lost [of "conn_end err c"] by (auto simp: no_shutdown_def)
  then show ?thesis by (simp add: conn_fatal_end [OF assms])
qed

lemma release_halves:
  "i < length (peer c) \<Longrightarrow> send_live (peer (wt_release_if_done i c) ! i) = send_live (peer c ! i)
     \<and> es_wt_recv_open (peer (wt_release_if_done i c) ! i) = es_wt_recv_open (peer c ! i)
     \<and> (\<forall>j. j \<noteq> i \<longrightarrow> peer (wt_release_if_done i c) ! j = peer c ! j)"
  by (auto simp: wt_release_if_done_def estream_release_def Let_def send_live_def peer_upd_es split: option.split)

text \<open>The accepted request: the driver call, then the effect that its result asks for.\<close>

definition shutdown_applied :: "nat \<Rightarrow> wtq_shutdown \<Rightarrow> wtq_conn \<Rightarrow> wtq_conn" where
  "shutdown_applied i eff c =
     upd_es i (\<lambda>es. es\<lparr>es_wt_send_open := es_wt_send_open es \<and> \<not> sh_abort_send eff,
                      es_wt_fin_pending := es_wt_fin_pending es \<and> \<not> sh_abort_send eff,
                      es_wt_recv_open := es_wt_recv_open es \<and> \<not> sh_abort_recv eff,
                      es_wt_recv_drain := es_wt_recv_drain es \<or> sh_abort_recv eff\<rparr>) c"

lemma wt_shutdown_accepted:
  fixes app :: bool
  assumes "\<not> closed c" "es_kind (peer c ! i) = ES_WT"
    "shutdown_effective (d_caps (drv c)) (peer c ! i) req = Inr eff0"
  defines "eff \<equiv> eff0\<lparr>sh_app_send_cancel := app \<and> sh_abort_send eff0\<rparr>"
  defines "c1 \<equiv> emit (D_shutdown_stream (es_ds (peer c ! i)) eff) c"
  shows "wt_shutdown i req app c =
    (if drv_result c1 = WTQ_ERR_CLOSED then (WTQ_ERR_CLOSED, c1)
     else if drv_result c1 \<noteq> WTQ_OK then (WTQ_ERR_BACKEND, conn_fatal WTQ_H3_INTERNAL_ERROR c1)
     else (WTQ_OK, wt_release_if_done i (shutdown_applied i eff c1)))"
proof -
  have "(if sh_abort_recv eff then upd_es i (\<lambda>es. es\<lparr>es_wt_recv_open := False, es_wt_recv_drain := True\<rparr>) c2 else c2)
      = shutdown_applied i eff c1"
    if "c2 = (if sh_abort_send eff then upd_es i (\<lambda>es. es\<lparr>es_wt_send_open := False, es_wt_fin_pending := False\<rparr>) c1 else c1)"
    for c2
    using that by (cases "i < length (peer c1)") (auto simp: shutdown_applied_def upd_es_def list_update_beyond)
  then show ?thesis
    using assms(1-3) by (cases "sh_abort_send eff"; cases "sh_abort_recv eff")
      (simp_all add: wt_shutdown_def Let_def eff_def [symmetric] c1_def [symmetric])
qed

text \<open>The driver calls that a shutdown makes, by its result.\<close>

definition shutdown_outcome :: "nat \<Rightarrow> wtq_shutdown \<Rightarrow> wtq_conn \<Rightarrow> wtq_result \<Rightarrow> wtq_conn \<Rightarrow> bool" where
  "shutdown_outcome i eff c rc c' \<longleftrightarrow>
     (let es = peer c ! i; call = trace c @ [D_shutdown_stream (es_ds es) eff]; answer = d_result (drv c) call
      in if answer = WTQ_OK
         then rc = WTQ_OK \<and> (\<exists>tr. trace c' = call @ tr \<and> filter shutdown_event tr = [])
              \<and> send_live (peer c' ! i) = (send_live es \<and> \<not> sh_abort_send eff)
              \<and> es_wt_recv_open (peer c' ! i) = (es_wt_recv_open es \<and> \<not> sh_abort_recv eff)
              \<and> (\<forall>j. j \<noteq> i \<longrightarrow> peer c' ! j = peer c ! j)
         else if answer = WTQ_ERR_CLOSED
         then rc = WTQ_ERR_CLOSED \<and> trace c' = call \<and> peer c' = peer c
         else rc = WTQ_ERR_BACKEND \<and> closed c'
              \<and> (\<exists>tr. trace c' = call @ D_conn_close WTQ_H3_INTERNAL_ERROR # tr \<and> filter shutdown_event tr = []))"

lemma wt_shutdown_outcome:
  assumes "reachable c" "i < length (peer c)" "\<not> closed c" "es_kind (peer c ! i) = ES_WT"
    and eff: "shutdown_effective (d_caps (drv c)) (peer c ! i) req = Inr eff"
  defines "eff' \<equiv> eff\<lparr>sh_app_send_cancel := sh_abort_send eff\<rparr>"
  shows "shutdown_outcome i eff' c (fst (wt_shutdown i req True c)) (snd (wt_shutdown i req True c))"
proof -
  define c1 where "c1 = emit (D_shutdown_stream (es_ds (peer c ! i)) eff') c"
  have c1: "trace c1 = trace c @ [D_shutdown_stream (es_ds (peer c ! i)) eff']" "peer c1 = peer c"
      "drv_result c1 = d_result (drv c) (trace c1)" "\<not> closed c1"
    using assms(3) by (simp_all add: c1_def drv_result_def)
  have inv: "conn_inv c1" using sim_inv [OF sim_event] reachable_inv [OF assms(1)] by (simp add: c1_def)
  let ?d = "shutdown_applied i eff' c1"
  have res: "wt_shutdown i req True c =
      (if drv_result c1 = WTQ_ERR_CLOSED then (WTQ_ERR_CLOSED, c1)
       else if drv_result c1 \<noteq> WTQ_OK then (WTQ_ERR_BACKEND, conn_fatal WTQ_H3_INTERNAL_ERROR c1)
       else (WTQ_OK, wt_release_if_done i ?d))"
    using wt_shutdown_accepted [OF assms(3,4) eff, of True] by (simp add: eff'_def c1_def)
  have i: "i < length (peer ?d)" using assms(2) by (simp add: shutdown_applied_def c1)
  have half: "send_live (peer ?d ! i) = (send_live (peer c ! i) \<and> \<not> sh_abort_send eff')"
      "es_wt_recv_open (peer ?d ! i) = (es_wt_recv_open (peer c ! i) \<and> \<not> sh_abort_recv eff')"
      "j \<noteq> i \<Longrightarrow> peer ?d ! j = peer c ! j" for j
    using assms(2) by (auto simp: shutdown_applied_def c1 peer_upd_es send_live_def)
  have "trace ?d = trace c1" by (simp add: shutdown_applied_def)
  then have tr: "\<exists>tr. trace (wt_release_if_done i ?d) = trace c1 @ tr \<and> filter shutdown_event tr = []"
    using no_shutdown_release [of ?d i] by (simp add: no_shutdown_def)
  show ?thesis
    using res tr fatal_tail [OF c1(4), of WTQ_H3_INTERNAL_ERROR] closed_fatal [OF conn_inv_ok [OF inv]]
      release_halves [OF i] half
    by (auto simp: shutdown_outcome_def Let_def c1)
qed

text \<open>
  C11. A stream shutdown is decided before any effect, does what the caller asked and
  keeps the driver's contract. In every reachable state a live stream takes the
  request exactly when there is a driver request that meets it; otherwise the result
  is invalid, state or unsupported, as documented, and nothing changes. An accepted
  request is exactly one driver call, with the halves and the codes of the caller and
  in the mode that \<^verbatim>\<open>wt_driver.h\<close> promises. When the driver takes it, these halves and
  nothing else are closed; when the transport is gone only the call has happened;
  on any other failure the connection is closed with an internal error.
\<close>

theorem stream_shutdown_contract:
  assumes "wtq_conn_wt_shutdown i req c = (rc, c')" "reachable c" "i < length (peer c)"
  shows "if closed c then rc = WTQ_ERR_CLOSED \<and> c' = c
    else if es_kind (peer c ! i) \<noteq> ES_WT then rc = WTQ_ERR_STATE \<and> c' = c
    else if \<exists>eff. shutdown_meets (d_caps (drv c)) (peer c ! i) req eff
    then \<exists>eff. shutdown_meets (d_caps (drv c)) (peer c ! i) req eff \<and> shutdown_outcome i eff c rc c'
    else c' = c \<and> rc = (if shutdown_malformed req then WTQ_ERR_INVALID_ARG
                        else if shutdown_stale (peer c ! i) req then WTQ_ERR_STATE else WTQ_ERR_UNSUPPORTED)"
proof (cases "closed c \<or> es_kind (peer c ! i) \<noteq> ES_WT")
  case True
  then show ?thesis using assms(1) by (auto simp: wtq_conn_wt_shutdown_def wt_shutdown_def split: if_splits)
next
  case False
  have shape: "wt_shape (peer c ! i)"
    using reachable_inv [OF assms(2)] assms(3) by (blast intro: es_inv_shape inv_at)
  show ?thesis
  proof (cases "shutdown_effective (d_caps (drv c)) (peer c ! i) req")
    case (Inl r)
    then have "rc = r \<and> c' = c" using assms(1) False by (simp add: wtq_conn_wt_shutdown_def wt_shutdown_def)
    then show ?thesis using shutdown_effective_refused [OF Inl shape] False by auto
  next
    case (Inr eff)
    have "shutdown_outcome i (eff\<lparr>sh_app_send_cancel := sh_abort_send eff\<rparr>) c rc c'"
      using wt_shutdown_outcome [OF assms(2,3) _ _ Inr] False assms(1) by (simp add: wtq_conn_wt_shutdown_def)
    then show ?thesis using shutdown_effective_meets [OF Inr shape] False by auto
  qed
qed

text \<open>The server of the example with a stream of its own.\<close>

definition server_opened :: wtq_conn where
  "server_opened = snd (snd (wtq_conn_wt_open_uni server_established))"

definition third_stream :: "wtq_conn \<Rightarrow> es_kind \<times> bool \<times> bool \<times> bool" where
  "third_stream c =
     (case peer c of
        _ # _ # es # _ \<Rightarrow> (es_kind es, es_wt_bidi es, es_wt_send_open es, es_wt_recv_open es)
      | _ \<Rightarrow> (ES_FREE, False, False, False))"

lemma server_opened_fields:
  "reachable server_opened" "es_kind (peer server_opened ! 2) = ES_WT" "\<not> es_wt_bidi (peer server_opened ! 2)"
  "es_wt_send_open (peer server_opened ! 2)" "\<not> es_wt_recv_open (peer server_opened ! 2)" "2 < length (peer server_opened)"
proof -
  have "conn_op server_established server_opened"
    unfolding server_opened_def by (rule op_open_uni) (simp add: prod_eq_iff)
  with server_reachable(6) show "reachable server_opened" by (rule reach_op)
  have "third_stream server_opened = (ES_WT, False, True, False)" by code_simp
  then show "es_kind (peer server_opened ! 2) = ES_WT" "\<not> es_wt_bidi (peer server_opened ! 2)"
    "es_wt_send_open (peer server_opened ! 2)" "\<not> es_wt_recv_open (peer server_opened ! 2)" "2 < length (peer server_opened)"
    by (auto simp: third_stream_def split: list.splits)
qed

definition example_reset :: wtq_shutdown where
  "example_reset = shutdown_req SHUTDOWN_EXACT_HALVES True False 7 0"

lemma server_reset_ok: "fst (wtq_conn_wt_shutdown 2 example_reset server_opened) = WTQ_OK"
  by code_simp

theorem stream_shutdown_contract_witness:
  "\<exists>eff. shutdown_meets (d_caps (drv server_opened)) (peer server_opened ! 2) example_reset eff
      \<and> shutdown_outcome 2 eff server_opened WTQ_OK (snd (wtq_conn_wt_shutdown 2 example_reset server_opened))"
  using stream_shutdown_contract [OF prod.collapse [symmetric] server_opened_fields(1,6), of example_reset]
    server_opened_fields(2) by (simp add: server_reset_ok split: if_splits)

end
