(* ===== verification/Api_State.thy ===== *)
theory Api_State
  imports Engine_Example
begin

text \<open>
  The public session layer of \<^verbatim>\<open>src/api/session.c\<close>: its data, the handling of
  caller-sized structs, and the snapshot of the stream budget.

  A \<^verbatim>\<open>wtq_stream_t *\<close> is an index into the pool \<open>ws_streams\<close>; an index outside it
  stands for NULL. What happens at the interface is a history \<open>ws_log\<close>: the calls
  of the application, the callbacks to it, the admission leases taken and dropped at
  the provider, and the release of the session's memory. Structs that a caller
  sizes have the LP64 layout.
\<close>

section \<open>Data\<close>

datatype wtq_connect_failure =
    FAILURE_NO_WT_SUPPORT | FAILURE_NO_SUBPROTOCOL | FAILURE_BAD_RESPONSE | FAILURE_CONNECTION

datatype wtq_session_status_t =
    STATUS_CONNECTING | STATUS_ESTABLISHED | STATUS_DRAINING | STATUS_CLOSED | STATUS_FAILED

datatype wtq_local_flush_mode = FLUSH_UNSUPPORTED | FLUSH_TRANSPORT | FLUSH_ACKNOWLEDGED

definition WTQ_RECEIVE_PAUSE_UNSUPPORTED :: nat where "WTQ_RECEIVE_PAUSE_UNSUPPORTED = 0"
definition WTQ_RECEIVE_PAUSE_FLOW_CONTROLLED :: nat where "WTQ_RECEIVE_PAUSE_FLOW_CONTROLLED = 2"
definition WTQ_API_LEGACY_STREAMS :: u32 where "WTQ_API_LEGACY_STREAMS = 16"
definition WTQ_API_MAX_PATHS :: nat where "WTQ_API_MAX_PATHS = 4"

text \<open>The members of the event table, in their order in the struct.\<close>

datatype ev_member =
    EV_established | EV_refused | EV_failed | EV_draining | EV_closed | EV_stream_opened | EV_stream_data
  | EV_stream_reset | EV_stream_stop | EV_stream_closed | EV_send_complete | EV_datagram
  | EV_stream_writable | EV_stream_send_committed

definition ev_members :: "ev_member list" where
  "ev_members =
     [EV_established, EV_refused, EV_failed, EV_draining, EV_closed, EV_stream_opened, EV_stream_data,
      EV_stream_reset, EV_stream_stop, EV_stream_closed, EV_send_complete, EV_datagram, EV_stream_writable,
      EV_stream_send_committed]"

text \<open>The calls an application makes, and the history at the interface.\<close>

datatype api_call =
    Session_add_ref | Session_release
  | Session_close u32 bytes
  | Session_drain
  | Session_open bool
  | Session_send_datagram "wtq_span list"
  | Session_service
  | Stream_add_ref nat | Stream_release nat
  | Stream_enable_send_commit nat
  | Stream_send nat "wtq_span list" bool nat
  | Stream_reset nat u32 | Stream_stop_sending nat u32 | Stream_abort nat u32
  | Stream_recv_enable nat bool

datatype api_event =
    CALL api_call
  | ON_ESTABLISHED bytes
  | ON_REFUSED nat
  | ON_FAILED wtq_connect_failure
  | ON_DRAINING
  | ON_CLOSED u32 bytes bool
  | ON_STREAM_OPENED nat bool
  | ON_STREAM_DATA nat bytes bool
  | ON_STREAM_RESET nat u32
  | ON_STREAM_STOP nat u32
  | ON_STREAM_CLOSED nat
  | ON_SEND_COMPLETE nat bool
  | ON_DATAGRAM bytes
  | ON_STREAM_WRITABLE nat
  | ON_STREAM_SEND_COMMITTED nat
  | LEASE "dstream option" bool
  | SESSION_FREED

fun ev_member_of :: "api_event \<Rightarrow> ev_member option" where
  "ev_member_of (ON_ESTABLISHED _) = Some EV_established"
| "ev_member_of (ON_REFUSED _) = Some EV_refused"
| "ev_member_of (ON_FAILED _) = Some EV_failed"
| "ev_member_of ON_DRAINING = Some EV_draining"
| "ev_member_of (ON_CLOSED _ _ _) = Some EV_closed"
| "ev_member_of (ON_STREAM_OPENED _ _) = Some EV_stream_opened"
| "ev_member_of (ON_STREAM_DATA _ _ _) = Some EV_stream_data"
| "ev_member_of (ON_STREAM_RESET _ _) = Some EV_stream_reset"
| "ev_member_of (ON_STREAM_STOP _ _) = Some EV_stream_stop"
| "ev_member_of (ON_STREAM_CLOSED _) = Some EV_stream_closed"
| "ev_member_of (ON_SEND_COMPLETE _ _) = Some EV_send_complete"
| "ev_member_of (ON_DATAGRAM _) = Some EV_datagram"
| "ev_member_of (ON_STREAM_WRITABLE _) = Some EV_stream_writable"
| "ev_member_of (ON_STREAM_SEND_COMMITTED _) = Some EV_stream_send_committed"
| "ev_member_of (CALL _) = None"
| "ev_member_of (LEASE _ _) = None"
| "ev_member_of SESSION_FREED = None"

text \<open>\<^verbatim>\<open>wtq_stream_budget_t\<close>, its two reserved words left out.\<close>

record wtq_stream_budget =
  sb_struct_size :: u32
  sb_peer_unidi_stream_count :: u32
  sb_peer_bidi_stream_count :: u32
  sb_max_local_streams :: u32
  sb_engine_capacity :: u32
  sb_api_capacity :: u32
  sb_native_capacity :: u32
  sb_capacity_bytes :: u64
  sb_peer_uni_resident :: u32
  sb_peer_bidi_resident :: u32
  sb_local_resident :: u32
  sb_api_retained_terminal :: u32
  sb_peer_wt_live :: u32
  sb_local_wt_live :: u32
  sb_http_critical_live :: u32
  sb_http_request_live :: u32
  sb_peer_wt_waiting :: u32
  sb_local_high_water :: u32
  sb_peer_high_water :: u32
  sb_local_open_blocked :: u64
  sb_admission_resume_failures :: u64

definition stream_budget_zero :: wtq_stream_budget where
  "stream_budget_zero =
     \<lparr>sb_struct_size = 0, sb_peer_unidi_stream_count = 0, sb_peer_bidi_stream_count = 0,
      sb_max_local_streams = 0, sb_engine_capacity = 0, sb_api_capacity = 0, sb_native_capacity = 0,
      sb_capacity_bytes = 0, sb_peer_uni_resident = 0, sb_peer_bidi_resident = 0, sb_local_resident = 0,
      sb_api_retained_terminal = 0, sb_peer_wt_live = 0, sb_local_wt_live = 0, sb_http_critical_live = 0,
      sb_http_request_live = 0, sb_peer_wt_waiting = 0, sb_local_high_water = 0, sb_peer_high_water = 0,
      sb_local_open_blocked = 0, sb_admission_resume_failures = 0\<rparr>"

definition WTQ_STREAM_BUDGET_V1_SIZE :: nat where "WTQ_STREAM_BUDGET_V1_SIZE = 104"

text \<open>The budget that a plan carries.\<close>

definition plan_budget :: "wtq_stream_plan \<Rightarrow> wtq_stream_budget" where
  "plan_budget p =
     stream_budget_zero\<lparr>sb_struct_size := of_nat WTQ_STREAM_BUDGET_V1_SIZE,
       sb_peer_unidi_stream_count := pl_uni p, sb_peer_bidi_stream_count := pl_bidi p,
       sb_max_local_streams := pl_local p, sb_engine_capacity := pl_engine_capacity p,
       sb_api_capacity := pl_api_capacity p, sb_native_capacity := pl_native_capacity p,
       sb_capacity_bytes := pl_capacity_bytes p\<rparr>"

text \<open>
  A slot of the handle pool. \<open>st_session\<close> says whether the back pointer to the
  session is set, which it is from the slot's first use on.
\<close>

record wtq_stream =
  st_refs :: u32
  st_app_refs :: u32
  st_alive :: bool
  st_send_open :: bool
  st_send_commit :: bool
  st_fin_pending :: bool
  st_recv_open :: bool
  st_bidi :: bool
  st_local :: bool
  st_id :: u64
  st_es :: "nat option"
  st_session :: bool
  st_credit :: "dstream option"
  st_user :: "nat option"

definition stream_zero :: wtq_stream where
  "stream_zero =
     \<lparr>st_refs = 0, st_app_refs = 0, st_alive = False, st_send_open = False, st_send_commit = False,
      st_fin_pending = False, st_recv_open = False, st_bidi = False, st_local = False, st_id = 0,
      st_es = None, st_session = False, st_credit = None, st_user = None\<rparr>"

text \<open>
  The session. The pool's length is \<^verbatim>\<open>stream_capacity\<close>. \<open>ws_ev m\<close> says that the
  member \<open>m\<close> of the normalized event table is not NULL, \<open>ws_admission\<close> that an
  admission driver is attached. The provider's budget record and the flush probe
  are functions of the engine's trace, like every answer of the driver. A profile
  that is not available is \<open>None\<close>. The depth counters \<open>ws_cb_depth\<close> and
  \<open>ws_commit_depth\<close> are bounded by the C stack. \<open>ws_freed\<close> and \<open>ws_log\<close> belong to
  the model: the allocation is gone, and what happened at the interface.
\<close>

record wtq_session =
  ws_refs :: u32
  ws_budgeted :: bool
  ws_budget_frozen :: bool
  ws_budget :: wtq_stream_budget
  ws_native_budget :: "(event list \<Rightarrow> wtq_stream_budget) option"
  ws_conn :: wtq_conn
  ws_perspective :: wtq_perspective
  ws_receive_quantum :: nat
  ws_receive_mode :: nat
  ws_admission :: bool
  ws_admission_running :: bool
  ws_ev :: "ev_member \<Rightarrow> bool"
  ws_user :: "nat option"
  ws_cb_depth :: nat
  ws_terminal_fired :: bool
  ws_established_seen :: bool
  ws_failed :: bool
  ws_local_flush_mode :: wtq_local_flush_mode
  ws_local_flush_probe :: "(event list \<Rightarrow> wtq_result) option"
  ws_local_flush_failed :: bool
  ws_send_commit_mode :: bool
  ws_commit_depth :: nat
  ws_closed_deferred :: bool
  ws_deferred_close_code :: u32
  ws_deferred_close_clean :: bool
  ws_deferred_reason :: bytes
  ws_profile :: "wtq_h3_wt_profile option"
  ws_streams :: "wtq_stream list"
  ws_freed :: bool
  ws_log :: "api_event list"

section \<open>Access\<close>

definition upd_st :: "nat \<Rightarrow> (wtq_stream \<Rightarrow> wtq_stream) \<Rightarrow> wtq_session \<Rightarrow> wtq_session" where
  "upd_st i f s = s\<lparr>ws_streams := (ws_streams s)[i := f (ws_streams s ! i)]\<rparr>"

definition log_event :: "api_event \<Rightarrow> wtq_session \<Rightarrow> wtq_session" where
  "log_event e s = s\<lparr>ws_log := ws_log s @ [e]\<rparr>"

definition valid_stream :: "wtq_session \<Rightarrow> nat \<Rightarrow> bool" where
  "valid_stream s i \<longleftrightarrow> i < length (ws_streams s)"

section \<open>Caller-sized structs\<close>

definition wtq_cfg_has :: "u32 \<Rightarrow> nat \<Rightarrow> nat \<Rightarrow> bool" where
  "wtq_cfg_has struct_size field_off field_sz \<longleftrightarrow> unat struct_size \<ge> field_off + field_sz"

text \<open>Objects in memory: little-endian words, and a write at an offset.\<close>

definition le_bytes :: "nat \<Rightarrow> u64 \<Rightarrow> bytes" where
  "le_bytes n v = rev (be_bytes n v)"

definition le_nat :: "bytes \<Rightarrow> nat" where
  "le_nat bs = be_nat (rev bs)"

definition mem_write :: "nat \<Rightarrow> bytes \<Rightarrow> bytes \<Rightarrow> bytes" where
  "mem_write off bs obj = take off obj @ bs @ drop (off + length bs) obj"

text \<open>
  The initializers: copy what fits of the defaults, which are the size of the
  struct and zeros, and stamp the size that was written if the field fits. The
  object holds at least the bytes that the caller declares. The padding between the
  members of the defaults is taken as zero, as compilers lay out a constant object.
\<close>

definition cfg_default :: "nat \<Rightarrow> bytes" where
  "cfg_default full = le_bytes 4 (of_nat full) @ replicate (full - 4) 0"

definition cfg_init_ex :: "nat \<Rightarrow> nat \<Rightarrow> bytes \<Rightarrow> bytes" where
  "cfg_init_ex full caller_size obj =
     (let n = (if caller_size < full then caller_size else full);
          obj = mem_write 0 (take n (cfg_default full)) obj
      in if n \<ge> 4 then mem_write 0 (le_bytes 4 (of_nat n)) obj else obj)"

definition sizeof_events :: nat where "sizeof_events = 120"
definition sizeof_events_v1 :: nat where "sizeof_events_v1 = 112"
definition sizeof_connect_config :: nat where "sizeof_connect_config = 64"
definition sizeof_connect_config_v1 :: nat where "sizeof_connect_config_v1 = 56"
definition sizeof_serve_config :: nat where "sizeof_serve_config = 64"
definition sizeof_serve_config_v1 :: nat where "sizeof_serve_config_v1 = 40"

definition wtq_session_events_init_ex :: "nat \<Rightarrow> bytes \<Rightarrow> bytes" where
  "wtq_session_events_init_ex caller_size obj = cfg_init_ex sizeof_events caller_size obj"

definition wtq_session_events_init :: "bytes \<Rightarrow> bytes" where
  "wtq_session_events_init obj = wtq_session_events_init_ex sizeof_events_v1 obj"

definition wtq_connect_config_init_ex :: "nat \<Rightarrow> bytes \<Rightarrow> bytes" where
  "wtq_connect_config_init_ex caller_size obj = cfg_init_ex sizeof_connect_config caller_size obj"

definition wtq_connect_config_init :: "bytes \<Rightarrow> bytes" where
  "wtq_connect_config_init obj = wtq_connect_config_init_ex sizeof_connect_config_v1 obj"

definition wtq_serve_config_init_ex :: "nat \<Rightarrow> bytes \<Rightarrow> bytes" where
  "wtq_serve_config_init_ex caller_size obj = cfg_init_ex sizeof_serve_config caller_size obj"

definition wtq_serve_config_init :: "bytes \<Rightarrow> bytes" where
  "wtq_serve_config_init obj = wtq_serve_config_init_ex sizeof_serve_config_v1 obj"

text \<open>
  The event table in memory: the size word, then one pointer of eight bytes per
  member from offset 8 on.
\<close>

fun index_in :: "ev_member \<Rightarrow> ev_member list \<Rightarrow> nat" where
  "index_in m [] = 0"
| "index_in m (x # xs) = (if m = x then 0 else Suc (index_in m xs))"

definition ev_offset :: "ev_member \<Rightarrow> nat" where
  "ev_offset m = 8 + 8 * index_in m ev_members"

definition ev_pointer :: "ev_member \<Rightarrow> bytes \<Rightarrow> bytes" where
  "ev_pointer m table = take 8 (drop (ev_offset m) table)"

definition ev_struct_size :: "bytes \<Rightarrow> u32" where
  "ev_struct_size table = of_nat (le_nat (take 4 table))"

definition ev_gate :: "u32 \<Rightarrow> ev_member \<Rightarrow> bytes \<Rightarrow> bytes" where
  "ev_gate ss m dst =
     (if \<not> wtq_cfg_has ss (ev_offset m) 8 then mem_write (ev_offset m) (replicate 8 0) dst else dst)"

definition wtq_session_events_copy :: "bytes \<Rightarrow> bytes" where
  "wtq_session_events_copy src =
     (let ss = ev_struct_size src;
          n = (if unat ss < sizeof_events then unat ss else sizeof_events);
          dst = mem_write 0 (take n src) (replicate sizeof_events 0);
          dst = fold (ev_gate ss) ev_members dst
      in mem_write 0 (le_bytes 4 (of_nat sizeof_events)) dst)"

definition ev_present :: "bytes \<Rightarrow> ev_member \<Rightarrow> bool" where
  "ev_present table m \<longleftrightarrow> ev_pointer m table \<noteq> replicate 8 0"

section \<open>The stream budget\<close>

definition live_gauges :: "wtq_conn \<Rightarrow> wtq_stream_budget \<Rightarrow> wtq_stream_budget" where
  "live_gauges c b =
     (let g = wtq_conn_stream_budget_v2 c
      in b\<lparr>sb_peer_wt_live := of_nat (peer_wt_live g), sb_local_wt_live := of_nat (local_wt_live g),
           sb_http_critical_live := of_nat (http_critical_live g),
           sb_http_request_live := of_nat (http_request_live g),
           sb_peer_wt_waiting := of_nat (peer_wt_waiting g)\<rparr>)"

definition stream_budget_snapshot :: "wtq_session \<Rightarrow> wtq_stream_budget" where
  "stream_budget_snapshot s =
     (if ws_budget_frozen s then ws_budget s
      else
        let out = (case ws_native_budget s of
                     Some nb \<Rightarrow> (nb (trace (ws_conn s)))\<lparr>sb_local_open_blocked :=
                                   sb_local_open_blocked (ws_budget s)\<rparr>
                   | None \<Rightarrow> ws_budget s);
            out = live_gauges (ws_conn s) out
        in out\<lparr>sb_api_retained_terminal :=
                 of_nat (length (filter (\<lambda>st. st_refs st \<noteq> 0 \<and> \<not> st_alive st) (ws_streams s)))\<rparr>)"

definition stream_budget_freeze :: "wtq_session \<Rightarrow> wtq_session" where
  "stream_budget_freeze s =
     (if \<not> ws_budgeted s \<or> ws_budget_frozen s then s
      else s\<lparr>ws_budget := stream_budget_snapshot s, ws_budget_frozen := True, ws_native_budget := None\<rparr>)"

text \<open>The count in the session's own record (\<^verbatim>\<open>wtq_counter_increment(&s->budget.local_open_blocked)\<close>).\<close>

definition count_blocked :: "wtq_session \<Rightarrow> wtq_session" where
  "count_blocked s =
     s\<lparr>ws_budget := (ws_budget s)\<lparr>sb_local_open_blocked :=
         wtq_counter_increment (sb_local_open_blocked (ws_budget s))\<rparr>\<rparr>"

end
