(* ===== verification/Api_Session.thy ===== *)
theory Api_Session
  imports Api_State
begin

text \<open>
  Handle lifetimes and the engine's callbacks in \<^verbatim>\<open>src/api/session.c\<close>: reference
  counts with deferred destruction, the slot pool, the terminal of a stream, and
  one adapter per engine callback.

  The application is the argument \<open>app\<close>: what it does inside a callback, as a
  function of the session, whose log ends with that callback. It may call the
  public functions, so the adapters are reentered. The callbacks of an engine call
  are the new entries of the engine's trace; they are delivered in order when the
  engine call is through, and so are the calls the application makes from them.
\<close>

section \<open>Sessions\<close>

definition session_destroy :: "wtq_session \<Rightarrow> wtq_session" where
  "session_destroy s = log_event SESSION_FREED (s\<lparr>ws_freed := True\<rparr>)"

definition session_enter :: "wtq_session \<Rightarrow> wtq_session" where
  "session_enter s = s\<lparr>ws_cb_depth := ws_cb_depth s + 1\<rparr>"

definition session_exit :: "wtq_session \<Rightarrow> wtq_session" where
  "session_exit s =
     (let s = s\<lparr>ws_cb_depth := ws_cb_depth s - 1\<rparr>
      in if ws_cb_depth s = 0 \<and> ws_refs s = 0 then session_destroy s else s)"

definition session_ref :: "wtq_session \<Rightarrow> wtq_session" where
  "session_ref s = s\<lparr>ws_refs := ws_refs s + 1\<rparr>"

definition session_unref :: "wtq_session \<Rightarrow> wtq_session" where
  "session_unref s =
     (if ws_refs s = 0 then s
      else
        let s = s\<lparr>ws_refs := ws_refs s - 1\<rparr>
        in if ws_refs s = 0 \<and> ws_cb_depth s = 0 then session_destroy s else s)"

section \<open>The slot pool\<close>

text \<open>\<^verbatim>\<open>UINT32_MAX\<close> when the stream has no index.\<close>

definition wtq_conn_stream_index_v2 :: "wtq_conn \<Rightarrow> nat option \<Rightarrow> nat" where
  "wtq_conn_stream_index_v2 c es =
     (case es of
        Some i \<Rightarrow> if budgeted c \<and> i < length (peer c) then i else 2 ^ 32 - 1
      | None \<Rightarrow> 2 ^ 32 - 1)"

definition wtq_estream_id :: "nat option \<Rightarrow> wtq_conn \<Rightarrow> u64" where
  "wtq_estream_id es c = (case es of Some i \<Rightarrow> es_id (peer c ! i) | None \<Rightarrow> - 1)"

definition wtq_estream_driver_stream :: "nat \<Rightarrow> wtq_conn \<Rightarrow> dstream option" where
  "wtq_estream_driver_stream i c = es_ds (peer c ! i)"

text \<open>The slots that the loop of \<^verbatim>\<open>stream_acquire\<close> tries.\<close>

definition acquire_range :: "nat option \<Rightarrow> bool \<Rightarrow> wtq_session \<Rightarrow> nat list" where
  "acquire_range es local s =
     (let last = length (ws_streams s)
      in if ws_budgeted s then
           (let first = (if local then unat (sb_peer_unidi_stream_count (ws_budget s)
                                             + sb_peer_bidi_stream_count (ws_budget s))
                         else wtq_conn_stream_index_v2 (ws_conn s) es)
            in if first \<ge> last then [] else [first..<(if local then last else first + 1)])
         else [0..<last])"

definition acquire_free :: "nat option \<Rightarrow> bool \<Rightarrow> wtq_session \<Rightarrow> nat \<Rightarrow> bool" where
  "acquire_free es local s i \<longleftrightarrow>
     st_refs (ws_streams s ! i) = 0
     \<and> (\<not> ws_budgeted s \<or> \<not> local \<or> es \<noteq> None \<or> wtq_conn_stream_available_v2 (ws_conn s) i)"

definition stream_fresh :: "nat option \<Rightarrow> bool \<Rightarrow> bool \<Rightarrow> u64 \<Rightarrow> wtq_stream" where
  "stream_fresh es bidi local sid =
     stream_zero\<lparr>st_refs := 1, st_alive := True, st_bidi := bidi, st_local := local,
       st_send_open := local \<or> bidi, st_recv_open := \<not> local \<or> bidi, st_id := sid, st_es := es,
       st_session := True\<rparr>"

text \<open>The provider is told that a handle holds a native stream, or no longer does.\<close>

definition stream_lease :: "nat \<Rightarrow> nat \<Rightarrow> wtq_session \<Rightarrow> wtq_session" where
  "stream_lease i j s =
     (let ds = wtq_estream_driver_stream j (ws_conn s)
      in log_event (LEASE ds True) (upd_st i (\<lambda>st. st\<lparr>st_credit := ds\<rparr>) s))"

definition stream_acquire ::
  "nat option \<Rightarrow> bool \<Rightarrow> bool \<Rightarrow> u64 \<Rightarrow> wtq_session \<Rightarrow> nat option \<times> wtq_session" where
  "stream_acquire es bidi local sid s =
     (case find (acquire_free es local s) (acquire_range es local s) of
        None \<Rightarrow> (None, s)
      | Some i \<Rightarrow>
          let s = upd_st i (\<lambda>_. stream_fresh es bidi local sid) s
          in (Some i, case es of Some j \<Rightarrow> if ws_admission s then stream_lease i j s else s | None \<Rightarrow> s))"

definition stream_credit_release :: "nat \<Rightarrow> wtq_session \<Rightarrow> wtq_session" where
  "stream_credit_release i s =
     (let st = ws_streams s ! i
      in if st_refs st = 0 \<and> st_credit st \<noteq> None then
           (let s = upd_st i (\<lambda>st. st\<lparr>st_credit := None\<rparr>) s
            in if ws_admission s then log_event (LEASE (st_credit st) False) s else s)
         else s)"

definition stream_unhold :: "wtq_stream \<Rightarrow> wtq_stream" where
  "stream_unhold st = (if st_refs st > 0 then st\<lparr>st_refs := st_refs st - 1\<rparr> else st)"

definition stream_slot_release :: "nat \<Rightarrow> wtq_session \<Rightarrow> wtq_session" where
  "stream_slot_release i s = stream_credit_release i (upd_st i stream_unhold s)"

definition stream_hold :: "nat \<Rightarrow> wtq_session \<Rightarrow> wtq_session" where
  "stream_hold i s = upd_st i (\<lambda>st. st\<lparr>st_refs := st_refs st + 1\<rparr>) s"

definition stream_drop :: "nat \<Rightarrow> wtq_session \<Rightarrow> wtq_session" where
  "stream_drop i s = stream_credit_release i (upd_st i stream_unhold s)"

section \<open>The terminal of a stream\<close>

text \<open>A callback that is present is called.\<close>

definition fire :: "(wtq_session \<Rightarrow> wtq_session) \<Rightarrow> api_event \<Rightarrow> wtq_session \<Rightarrow> wtq_session" where
  "fire app e s =
     (case ev_member_of e of
        Some m \<Rightarrow> if ws_ev s m then app (log_event e s) else s
      | None \<Rightarrow> s)"

definition with_conn :: "(wtq_conn \<Rightarrow> wtq_conn) \<Rightarrow> wtq_session \<Rightarrow> wtq_session" where
  "with_conn f s = s\<lparr>ws_conn := f (ws_conn s)\<rparr>"

definition stream_unlink :: "nat \<Rightarrow> wtq_session \<Rightarrow> wtq_session" where
  "stream_unlink i s =
     (let s = upd_st i (\<lambda>st. st\<lparr>st_alive := False\<rparr>) s
      in case st_es (ws_streams s ! i) of
           None \<Rightarrow> s
         | Some j \<Rightarrow>
             let s = upd_st i (\<lambda>st. st\<lparr>st_id := wtq_estream_id (Some j) (ws_conn s)\<rparr>) s;
                 s = with_conn (wtq_estream_set_user j None) s
             in upd_st i (\<lambda>st. st\<lparr>st_es := None\<rparr>) s)"

definition stream_terminal :: "(wtq_session \<Rightarrow> wtq_session) \<Rightarrow> nat \<Rightarrow> wtq_session \<Rightarrow> wtq_session" where
  "stream_terminal app i s =
     (if \<not> st_alive (ws_streams s ! i) then s
      else
        let s = stream_unlink i s;
            s = fire app (ON_STREAM_CLOSED i) s
        in stream_slot_release i s)"

definition stream_maybe_terminal :: "(wtq_session \<Rightarrow> wtq_session) \<Rightarrow> nat \<Rightarrow> wtq_session \<Rightarrow> wtq_session" where
  "stream_maybe_terminal app i s =
     (let st = ws_streams s ! i
      in if st_alive st \<and> \<not> st_send_open st \<and> \<not> st_fin_pending st \<and> \<not> st_recv_open st
         then stream_terminal app i s else s)"

definition both_shut :: "wtq_stream \<Rightarrow> wtq_stream" where
  "both_shut st = st\<lparr>st_send_open := False, st_fin_pending := False, st_recv_open := False\<rparr>"

definition teardown_one :: "(wtq_session \<Rightarrow> wtq_session) \<Rightarrow> nat \<Rightarrow> wtq_session \<Rightarrow> wtq_session" where
  "teardown_one app i s =
     (let st = ws_streams s ! i
      in if st_refs st > 0 \<and> st_alive st then stream_terminal app i (upd_st i both_shut s) else s)"

definition streams_teardown :: "(wtq_session \<Rightarrow> wtq_session) \<Rightarrow> wtq_session \<Rightarrow> wtq_session" where
  "streams_teardown app s = fold (teardown_one app) [0..<length (ws_streams s)] s"

section \<open>The engine's callbacks\<close>

text \<open>
  The handle of an engine stream (\<^verbatim>\<open>handle_of\<close>): the user pointer is NULL or a slot
  of the pool.
\<close>

definition handle_of :: "wtq_session \<Rightarrow> nat \<Rightarrow> nat option" where
  "handle_of s j =
     (case es_user (peer (ws_conn s) ! j) of
        Some i \<Rightarrow> if valid_stream s i then Some i else None
      | None \<Rightarrow> None)"

text \<open>The public profile has the same three names as the engine's.\<close>

definition api_public_profile :: "wtq_h3_wt_profile \<Rightarrow> wtq_h3_wt_profile" where
  "api_public_profile p =
     (case p of
        PROFILE_CURRENT \<Rightarrow> PROFILE_CURRENT
      | PROFILE_D13_14_COMPAT \<Rightarrow> PROFILE_D13_14_COMPAT
      | PROFILE_D02_RFC9297_COMPAT \<Rightarrow> PROFILE_D02_RFC9297_COMPAT)"

definition connect_failure :: "wtq_session_fail_reason \<Rightarrow> wtq_connect_failure" where
  "connect_failure why =
     (case why of
        FAIL_NO_WT_SUPPORT \<Rightarrow> FAILURE_NO_WT_SUPPORT
      | FAIL_NO_PROTOCOL \<Rightarrow> FAILURE_NO_SUBPROTOCOL
      | FAIL_CONNECTION \<Rightarrow> FAILURE_CONNECTION
      | FAIL_BAD_RESPONSE \<Rightarrow> FAILURE_BAD_RESPONSE)"

definition adapt_established ::
  "(wtq_session \<Rightarrow> wtq_session) \<Rightarrow> bytes \<Rightarrow> wtq_h3_wt_profile \<Rightarrow> wtq_session \<Rightarrow> wtq_session" where
  "adapt_established app sel profile s =
     (let s = session_enter s;
          s = s\<lparr>ws_established_seen := True, ws_profile := Some (api_public_profile profile)\<rparr>;
          s = fire app (ON_ESTABLISHED sel) s
      in session_exit s)"

text \<open>What a terminal adapter does first, once per session.\<close>

definition terminal_latch :: "bool \<Rightarrow> wtq_session \<Rightarrow> wtq_session" where
  "terminal_latch failure s =
     (let s = stream_budget_freeze s;
          s = s\<lparr>ws_terminal_fired := True\<rparr>;
          s = (if failure then s\<lparr>ws_failed := True\<rparr> else s)
      in with_conn wtq_conn_seal_transport_error s)"

definition adapt_rejected :: "(wtq_session \<Rightarrow> wtq_session) \<Rightarrow> nat \<Rightarrow> wtq_session \<Rightarrow> wtq_session" where
  "adapt_rejected app status s =
     (let s = session_enter s;
          s = (if \<not> ws_terminal_fired s then fire app (ON_REFUSED status) (terminal_latch True s) else s)
      in session_exit s)"

definition adapt_failed ::
  "(wtq_session \<Rightarrow> wtq_session) \<Rightarrow> wtq_session_fail_reason \<Rightarrow> wtq_session \<Rightarrow> wtq_session" where
  "adapt_failed app why s =
     (let s = session_enter s;
          s = (if \<not> ws_terminal_fired s then fire app (ON_FAILED (connect_failure why)) (terminal_latch True s)
               else s)
      in session_exit s)"

definition adapt_draining :: "(wtq_session \<Rightarrow> wtq_session) \<Rightarrow> wtq_session \<Rightarrow> wtq_session" where
  "adapt_draining app s = session_exit (fire app ON_DRAINING (session_enter s))"

definition adapt_session_closed ::
  "(wtq_session \<Rightarrow> wtq_session) \<Rightarrow> u32 \<Rightarrow> bytes \<Rightarrow> bool \<Rightarrow> wtq_session \<Rightarrow> wtq_session" where
  "adapt_session_closed app code reason clean s =
     (let s = session_enter s;
          s = (if \<not> ws_terminal_fired s then
                 (let s = streams_teardown app (terminal_latch False s)
                  in if ws_commit_depth s \<noteq> 0
                     then s\<lparr>ws_closed_deferred := True, ws_deferred_close_code := code,
                            ws_deferred_close_clean := clean, ws_deferred_reason := reason\<rparr>
                     else fire app (ON_CLOSED code reason clean) s)
               else s)
      in session_exit s)"

definition adapt_conn_error :: "(wtq_session \<Rightarrow> wtq_session) \<Rightarrow> u64 \<Rightarrow> wtq_session \<Rightarrow> wtq_session" where
  "adapt_conn_error app h3_err s =
     (let s = session_enter s;
          s = (if \<not> ws_terminal_fired s
               then fire app (ON_FAILED FAILURE_CONNECTION) (streams_teardown app (terminal_latch True s))
               else s)
      in session_exit s)"

text \<open>The adapters that hold the slot while the application runs.\<close>

definition adapt_stream_data ::
  "(wtq_session \<Rightarrow> wtq_session) \<Rightarrow> nat \<Rightarrow> bytes \<Rightarrow> bool \<Rightarrow> wtq_session \<Rightarrow> wtq_session" where
  "adapt_stream_data app j data fin s =
     (case handle_of s j of
        None \<Rightarrow> s
      | Some i \<Rightarrow>
          let s = stream_hold i (session_enter s);
              s = fire app (ON_STREAM_DATA i data fin) s;
              s = (if fin \<and> st_alive (ws_streams s ! i)
                   then stream_maybe_terminal app i (upd_st i (\<lambda>st. st\<lparr>st_recv_open := False\<rparr>) s) else s)
          in session_exit (stream_drop i s))"

definition adapt_stream_reset ::
  "(wtq_session \<Rightarrow> wtq_session) \<Rightarrow> nat \<Rightarrow> u32 \<Rightarrow> wtq_session \<Rightarrow> wtq_session" where
  "adapt_stream_reset app j app_code s =
     (case handle_of s j of
        None \<Rightarrow> s
      | Some i \<Rightarrow>
          let s = stream_hold i (session_enter s);
              s = fire app (ON_STREAM_RESET i app_code) s;
              s = (if st_alive (ws_streams s ! i)
                   then stream_maybe_terminal app i (upd_st i (\<lambda>st. st\<lparr>st_recv_open := False\<rparr>) s) else s)
          in session_exit (stream_drop i s))"

definition adapt_stream_stop ::
  "(wtq_session \<Rightarrow> wtq_session) \<Rightarrow> nat \<Rightarrow> u32 \<Rightarrow> wtq_session \<Rightarrow> wtq_session" where
  "adapt_stream_stop app j app_code s =
     (case handle_of s j of
        None \<Rightarrow> s
      | Some i \<Rightarrow>
          let s = stream_hold i (session_enter s);
              s = (if st_send_commit (ws_streams s ! i)
                   then upd_st i (\<lambda>st. st\<lparr>st_send_open := False, st_fin_pending := False\<rparr>) s else s);
              s = fire app (ON_STREAM_STOP i app_code) s;
              s = (if st_send_commit (ws_streams s ! i) then stream_maybe_terminal app i s else s)
          in session_exit (stream_drop i s))"

definition adapt_stream_terminal :: "(wtq_session \<Rightarrow> wtq_session) \<Rightarrow> nat \<Rightarrow> wtq_session \<Rightarrow> wtq_session" where
  "adapt_stream_terminal app j s =
     (case handle_of s j of
        None \<Rightarrow> s
      | Some i \<Rightarrow>
          let s = stream_hold i (session_enter s);
              s = (if st_alive (ws_streams s ! i) then stream_maybe_terminal app i (upd_st i both_shut s) else s)
          in session_exit (stream_drop i s))"

text \<open>The close that waited for the end of a commit callback.\<close>

definition closed_flush :: "(wtq_session \<Rightarrow> wtq_session) \<Rightarrow> wtq_session \<Rightarrow> wtq_session" where
  "closed_flush app s =
     (if ws_commit_depth s = 0 \<and> ws_closed_deferred s
      then fire app (ON_CLOSED (ws_deferred_close_code s) (ws_deferred_reason s) (ws_deferred_close_clean s))
             (s\<lparr>ws_closed_deferred := False\<rparr>)
      else s)"

text \<open>
  The commit callback is called without a NULL test: a stream whose commits are
  enabled has one.
\<close>

definition adapt_send_committed :: "(wtq_session \<Rightarrow> wtq_session) \<Rightarrow> nat \<Rightarrow> wtq_session \<Rightarrow> wtq_session" where
  "adapt_send_committed app j s =
     (case handle_of s j of
        None \<Rightarrow> s
      | Some i \<Rightarrow>
          let st = ws_streams s ! i
          in if \<not> st_alive st \<or> \<not> st_send_commit st \<or> \<not> st_fin_pending st then s
             else
               let s = stream_hold i (session_enter s);
                   s = upd_st i (\<lambda>st. st\<lparr>st_fin_pending := False, st_send_open := False\<rparr>) s;
                   s = stream_unlink i s;
                   s = s\<lparr>ws_commit_depth := ws_commit_depth s + 1\<rparr>;
                   s = app (log_event (ON_STREAM_SEND_COMMITTED i) s);
                   s = s\<lparr>ws_commit_depth := ws_commit_depth s - 1\<rparr>;
                   s = fire app (ON_STREAM_CLOSED i) s;
                   s = stream_drop i (stream_slot_release i s);
                   s = closed_flush app s
               in session_exit s)"

definition adapt_send_complete ::
  "(wtq_session \<Rightarrow> wtq_session) \<Rightarrow> nat \<Rightarrow> bool \<Rightarrow> wtq_session \<Rightarrow> wtq_session" where
  "adapt_send_complete app cookie canceled s =
     session_exit (fire app (ON_SEND_COMPLETE cookie canceled) (session_enter s))"

definition adapt_stream_writable :: "(wtq_session \<Rightarrow> wtq_session) \<Rightarrow> nat \<Rightarrow> wtq_session \<Rightarrow> wtq_session" where
  "adapt_stream_writable app j s =
     (case handle_of s j of
        None \<Rightarrow> s
      | Some i \<Rightarrow>
          let s = stream_hold i (session_enter s);
              s = fire app (ON_STREAM_WRITABLE i) s
          in session_exit (stream_drop i s))"

definition adapt_datagram :: "(wtq_session \<Rightarrow> wtq_session) \<Rightarrow> bytes \<Rightarrow> wtq_session \<Rightarrow> wtq_session" where
  "adapt_datagram app data s = session_exit (fire app (ON_DATAGRAM data) (session_enter s))"

section \<open>Delivery\<close>

text \<open>
  The callback table of \<^verbatim>\<open>session_create\<close>. The driver calls of the trace are no
  callbacks, and \<^verbatim>\<open>on_peer_settings\<close> is not registered.
\<close>

definition dispatch_held :: "(wtq_session \<Rightarrow> wtq_session) \<Rightarrow> event \<Rightarrow> wtq_session \<Rightarrow> wtq_session" where
  "dispatch_held app e s =
     (case e of
        CB_conn_error err \<Rightarrow> adapt_conn_error app err s
      | CB_session_established sel profile \<Rightarrow> adapt_established app sel profile s
      | CB_session_rejected status \<Rightarrow> adapt_rejected app status s
      | CB_session_failed why \<Rightarrow> adapt_failed app why s
      | CB_session_draining \<Rightarrow> adapt_draining app s
      | CB_session_closed code reason clean \<Rightarrow> adapt_session_closed app code reason clean s
      | CB_wt_stream_data j data fin \<Rightarrow> adapt_stream_data app j data fin s
      | CB_wt_stream_reset j app_code \<Rightarrow> adapt_stream_reset app j app_code s
      | CB_wt_stream_stop j app_code \<Rightarrow> adapt_stream_stop app j app_code s
      | CB_wt_stream_terminal j \<Rightarrow> adapt_stream_terminal app j s
      | CB_wt_stream_send_committed j \<Rightarrow> adapt_send_committed app j s
      | CB_wt_stream_writable j \<Rightarrow> adapt_stream_writable app j s
      | CB_wt_send_complete cookie canceled \<Rightarrow> adapt_send_complete app cookie canceled s
      | CB_wt_datagram data \<Rightarrow> adapt_datagram app data s
      | _ \<Rightarrow> s)"

text \<open>An engine call has turned the connection into \<open>c\<close>: its new callbacks, in order.\<close>

definition deliver_with ::
  "(event \<Rightarrow> wtq_session \<Rightarrow> wtq_session) \<Rightarrow> wtq_conn \<Rightarrow> wtq_session \<Rightarrow> wtq_session" where
  "deliver_with disp c s =
     fold disp (drop (length (trace (ws_conn s))) (trace c)) (s\<lparr>ws_conn := c\<rparr>)"

text \<open>
  A peer stream that finds no slot is rejected at the engine; what that makes the
  engine call back is no new stream.
\<close>

definition adapt_stream_opened ::
  "(wtq_session \<Rightarrow> wtq_session) \<Rightarrow> nat \<Rightarrow> bool \<Rightarrow> u64 \<Rightarrow> wtq_session \<Rightarrow> wtq_session" where
  "adapt_stream_opened app j bidi sid s =
     (let s = session_enter s
      in case stream_acquire (Some j) bidi False sid s of
           (None, s) \<Rightarrow>
             session_exit (deliver_with (dispatch_held app) (wtq_conn_wt_reject j (ws_conn s)) s)
         | (Some i, s) \<Rightarrow>
             let s = with_conn (wtq_estream_set_user j (Some i)) s;
                 s = fire app (ON_STREAM_OPENED i bidi) s
             in session_exit s)"

definition dispatch :: "(wtq_session \<Rightarrow> wtq_session) \<Rightarrow> event \<Rightarrow> wtq_session \<Rightarrow> wtq_session" where
  "dispatch app e s =
     (case e of
        CB_wt_stream_opened j bidi sid \<Rightarrow> adapt_stream_opened app j bidi sid s
      | _ \<Rightarrow> dispatch_held app e s)"

definition deliver :: "(wtq_session \<Rightarrow> wtq_session) \<Rightarrow> wtq_conn \<Rightarrow> wtq_session \<Rightarrow> wtq_session" where
  "deliver app c s = deliver_with (dispatch app) c s"

end
