(* ===== verification/Api_Calls.thy ===== *)
theory Api_Calls
  imports Api_Session
begin

text \<open>
  The constructor seam and the public functions of \<^verbatim>\<open>src/api/session.c\<close>. A function
  that calls the engine is a bracket: enter, the engine call, the delivery of its
  callbacks, exit.
\<close>

section \<open>Creation\<close>

text \<open>
  The configuration: \<open>sc_alloc\<close> says that the allocator and its two functions are
  there, \<open>sc_drv\<close> that the driver is; the event table is the caller's memory. The
  answer of the allocator is the argument \<open>allocated\<close>; that of the engine's own
  allocation belongs to it.
\<close>

record wtq_api_session_cfg =
  sc_alloc :: bool
  sc_perspective :: wtq_perspective
  sc_events :: "bytes option"
  sc_user :: "nat option"
  sc_drv :: bool
  sc_ops :: "wtq_driver option"
  sc_webtransport_profile :: "wtq_h3_wt_profile option"
  sc_webtransport_profiles :: u64

record session_layout =
  sl_engine :: layout
  sl_sizeof_conn :: u64
  sl_sizeof_session :: u64

definition session_zero ::
  "wtq_api_session_cfg \<Rightarrow> bytes \<Rightarrow> wtq_driver \<Rightarrow> wtq_stream_plan option \<Rightarrow> u32 \<Rightarrow> wtq_conn \<Rightarrow> wtq_session" where
  "session_zero cfg events ops plan capacity c =
     \<lparr>ws_refs = 1, ws_budgeted = plan \<noteq> None, ws_budget_frozen = False,
      ws_budget = (case plan of Some p \<Rightarrow> plan_budget p | None \<Rightarrow> stream_budget_zero),
      ws_native_budget = None, ws_conn = c, ws_perspective = sc_perspective cfg, ws_receive_quantum = 0,
      ws_receive_mode = WTQ_RECEIVE_PAUSE_UNSUPPORTED, ws_admission = False, ws_admission_running = False,
      ws_ev = ev_present (wtq_session_events_copy events), ws_user = sc_user cfg, ws_cb_depth = 0,
      ws_terminal_fired = False, ws_established_seen = False, ws_failed = False,
      ws_local_flush_mode = FLUSH_UNSUPPORTED, ws_local_flush_probe = None, ws_local_flush_failed = False,
      ws_send_commit_mode = (d_caps ops AND WTQ_DCAP_SEND_COMMIT_ACK_FIN \<noteq> 0), ws_commit_depth = 0,
      ws_closed_deferred = False, ws_deferred_close_code = 0, ws_deferred_close_clean = False,
      ws_deferred_reason = [], ws_profile = None, ws_streams = replicate (unat capacity) stream_zero,
      ws_freed = False, ws_log = []\<rparr>"

definition session_create ::
  "session_layout \<Rightarrow> bool \<Rightarrow> wtq_api_session_cfg \<Rightarrow> wtq_stream_plan option \<Rightarrow> wtq_result + wtq_session" where
  "session_create L allocated cfg plan =
     (case (sc_alloc cfg, sc_events cfg, sc_drv cfg, sc_ops cfg) of
        (True, Some events, True, Some ops) \<Rightarrow>
          if ev_struct_size events = 0 then Inl WTQ_ERR_INVALID_ARG
          else
            let capacity = (case plan of Some p \<Rightarrow> pl_api_capacity p | None \<Rightarrow> WTQ_API_LEGACY_STREAMS)
            in if (case wtq_capacity_mul (ucast capacity) (sizeof_stream (sl_engine L)) of
                     None \<Rightarrow> True
                   | Some tail \<Rightarrow> wtq_capacity_add (sl_sizeof_session L) tail = None)
               then Inl WTQ_ERR_INVALID_ARG
               else if \<not> allocated then Inl WTQ_ERR_NOMEM
               else
                 (case wtq_conn_create_budget_v2 (sl_engine L) (sl_sizeof_conn L)
                         \<lparr>cfg_perspective = sc_perspective cfg, cfg_ecp = True,
                          cfg_webtransport_profile = sc_webtransport_profile cfg,
                          cfg_webtransport_profiles = sc_webtransport_profiles cfg\<rparr> ops plan of
                    Inl rc \<Rightarrow> Inl rc
                  | Inr c \<Rightarrow> Inr (session_zero cfg events ops plan capacity c))
      | _ \<Rightarrow> Inl WTQ_ERR_INVALID_ARG)"

definition wtq_api_session_create ::
  "session_layout \<Rightarrow> bool \<Rightarrow> wtq_api_session_cfg \<Rightarrow> wtq_result + wtq_session" where
  "wtq_api_session_create L allocated cfg = session_create L allocated cfg None"

definition wtq_api_session_create_accounted ::
  "session_layout \<Rightarrow> bool \<Rightarrow> wtq_api_session_cfg \<Rightarrow> wtq_result + wtq_session" where
  "wtq_api_session_create_accounted L allocated cfg = wtq_api_session_create L allocated cfg"

text \<open>The admission tables: the functions are there or not.\<close>

record wtq_api_admission_ops =
  ao_peer_uni :: nat
  ao_peer_bidi :: nat
  ao_service :: bool
  ao_lease :: bool

definition flow_controlled :: "wtq_api_session_cfg \<Rightarrow> bool" where
  "flow_controlled cfg \<longleftrightarrow>
     (case sc_ops cfg of
        Some ops \<Rightarrow> d_has_recv_enable ops \<and> d_caps ops AND WTQ_DCAP_RECV_FLOW_CONTROLLED \<noteq> 0
      | None \<Rightarrow> False)"

definition wtq_api_session_create_admission ::
  "session_layout \<Rightarrow> bool \<Rightarrow> wtq_api_session_cfg \<Rightarrow> wtq_api_admission_ops \<Rightarrow> wtq_result + wtq_session" where
  "wtq_api_session_create_admission L allocated cfg ops =
     (if \<not> sc_drv cfg then Inl WTQ_ERR_INVALID_ARG
      else if ao_peer_uni ops \<noteq> 8 \<or> ao_peer_bidi ops \<noteq> 7 \<or> \<not> ao_service ops \<or> \<not> ao_lease ops
              \<or> \<not> flow_controlled cfg then Inl WTQ_ERR_UNSUPPORTED
      else
        (case wtq_api_session_create L allocated cfg of
           Inl rc \<Rightarrow> Inl rc
         | Inr s \<Rightarrow>
             Inr (with_conn wtq_conn_enable_admission
                    (s\<lparr>ws_admission := True, ws_receive_mode := WTQ_RECEIVE_PAUSE_FLOW_CONTROLLED,
                       ws_receive_quantum := 65535\<rparr>))))"

record wtq_api_admission_v2 =
  av_size_ok :: bool
  av_plan :: "wtq_stream_plan option"
  av_service :: bool
  av_lease :: bool
  av_native_budget :: "(event list \<Rightarrow> wtq_stream_budget) option"

definition wtq_api_session_create_admission_v2 ::
  "session_layout \<Rightarrow> bool \<Rightarrow> wtq_api_session_cfg \<Rightarrow> wtq_api_admission_v2 \<Rightarrow> wtq_result + wtq_session" where
  "wtq_api_session_create_admission_v2 L allocated cfg ops =
     (case (av_plan ops, av_native_budget ops) of
        (Some p, Some nb) \<Rightarrow>
          if \<not> av_size_ok ops \<or> \<not> plan_accepted (sl_engine L) (sc_perspective cfg = PERSPECTIVE_CLIENT) p
          then Inl WTQ_ERR_INVALID_ARG
          else if \<not> av_service ops \<or> \<not> av_lease ops \<or> \<not> flow_controlled cfg then Inl WTQ_ERR_UNSUPPORTED
          else
            (case session_create L allocated cfg (Some p) of
               Inl rc \<Rightarrow> Inl rc
             | Inr s \<Rightarrow>
                 Inr (s\<lparr>ws_admission := True, ws_native_budget := Some nb, ws_receive_quantum := 65535,
                        ws_receive_mode := WTQ_RECEIVE_PAUSE_FLOW_CONTROLLED\<rparr>))
      | _ \<Rightarrow> Inl WTQ_ERR_INVALID_ARG)"

section \<open>The backend's side\<close>

definition engine_call ::
  "(wtq_session \<Rightarrow> wtq_session) \<Rightarrow> (wtq_conn \<Rightarrow> wtq_result \<times> wtq_conn) \<Rightarrow> wtq_session
     \<Rightarrow> wtq_result \<times> wtq_session" where
  "engine_call app f s =
     (let s = session_enter s; (rc, c) = f (ws_conn s)
      in (rc, session_exit (deliver app c s)))"

definition wtq_api_session_start :: "(wtq_session \<Rightarrow> wtq_session) \<Rightarrow> wtq_session \<Rightarrow> wtq_result \<times> wtq_session" where
  "wtq_api_session_start app s = engine_call app wtq_conn_start s"

text \<open>The caller's connect configuration: a NULL pointer is \<open>None\<close>.\<close>

record wtq_connect_config =
  cn_struct_size :: u32
  cn_authority :: "bytes option"
  cn_path :: "bytes option"
  cn_origin :: "bytes option"
  cn_subprotocols :: "bytes option list option"
  cn_subprotocol_count :: nat
  cn_require_subprotocol :: bool
  cn_webtransport_profile :: u32

text \<open>A field as the zeroed copy holds it: present only when the caller's size covers it.\<close>

definition cfg_field :: "u32 \<Rightarrow> nat \<Rightarrow> nat \<Rightarrow> 'a \<Rightarrow> 'a \<Rightarrow> 'a" where
  "cfg_field ss off sz v absent_v = (if wtq_cfg_has ss off sz then v else absent_v)"

definition profile_value :: "u32 \<Rightarrow> wtq_h3_wt_profile option" where
  "profile_value v =
     (if v = 0 then Some PROFILE_CURRENT else if v = 1 then Some PROFILE_D13_14_COMPAT
      else if v = 2 then Some PROFILE_D02_RFC9297_COMPAT else None)"

text \<open>A NULL array with a count is an array of NULL entries: the engine refuses both.\<close>

definition connect_offers :: "wtq_connect_config \<Rightarrow> bytes option list" where
  "connect_offers cfg =
     (let n = cfg_field (cn_struct_size cfg) 40 8 (cn_subprotocol_count cfg) 0
      in case cfg_field (cn_struct_size cfg) 40 8 (cn_subprotocols cfg) None of
           Some ps \<Rightarrow> take n ps
         | None \<Rightarrow> replicate n None)"

definition connect_engine_cfg :: "wtq_connect_config \<Rightarrow> wtq_h3_wt_profile \<Rightarrow> wtq_client_connect_cfg" where
  "connect_engine_cfg cfg profile =
     \<lparr>cc_authority = cn_authority cfg, cc_path = cn_path cfg,
      cc_origin = cfg_field (cn_struct_size cfg) 24 8 (cn_origin cfg) None,
      cc_protocols = connect_offers cfg,
      cc_require_protocol = cfg_field (cn_struct_size cfg) 48 1 (cn_require_subprotocol cfg) False,
      cc_webtransport_profile = Some profile\<rparr>"

definition wtq_api_session_connect ::
  "(wtq_session \<Rightarrow> wtq_session) \<Rightarrow> wtq_connect_config \<Rightarrow> wtq_session \<Rightarrow> wtq_result \<times> wtq_session" where
  "wtq_api_session_connect app cfg s =
     (if \<not> wtq_cfg_has (cn_struct_size cfg) 16 8 then (WTQ_ERR_INVALID_ARG, s)
      else if cn_authority cfg = None \<or> cn_path cfg = None then (WTQ_ERR_INVALID_ARG, s)
      else
        (case profile_value (cfg_field (cn_struct_size cfg) 56 4 (cn_webtransport_profile cfg) 0) of
           None \<Rightarrow> (WTQ_ERR_INVALID_ARG, s)
         | Some profile \<Rightarrow>
             engine_call app (wtq_conn_client_connect (connect_engine_cfg cfg profile)) s))"

record wtq_serve_config =
  sv_struct_size :: u32
  sv_path :: "bytes option"
  sv_subprotocols :: "bytes option list option"
  sv_subprotocol_count :: nat
  sv_require_subprotocol :: bool
  sv_origin_policy :: u32
  sv_allowed_origins :: "bytes option list option"
  sv_allowed_origin_count :: nat

definition serve_entry :: "wtq_serve_config \<Rightarrow> wtq_server_path_cfg" where
  "serve_entry p =
     (let ss = sv_struct_size p
      in \<lparr>pc_path = sv_path p,
          pc_protocols = cfg_field ss 24 8 (sv_subprotocols p) None,
          pc_protocol_count = cfg_field ss 24 8 (sv_subprotocol_count p) 0,
          pc_require_protocol = cfg_field ss 32 1 (sv_require_subprotocol p) False,
          pc_origin_policy = cfg_field ss 40 4 (sv_origin_policy p) WTQ_ORIGIN_POLICY_UNSET,
          pc_allowed_origins = cfg_field ss 56 8 (sv_allowed_origins p) None,
          pc_allowed_origin_count = cfg_field ss 56 8 (sv_allowed_origin_count p) 0\<rparr>)"

definition serve_size_ok :: "nat \<Rightarrow> nat \<Rightarrow> wtq_serve_config \<Rightarrow> bool" where
  "serve_size_ok count path_stride p \<longleftrightarrow>
     sv_struct_size p \<noteq> 0 \<and> (count > 1 \<longrightarrow> unat (sv_struct_size p) \<le> path_stride)
     \<and> wtq_cfg_has (sv_struct_size p) 8 8"

text \<open>The elements of the array, \<open>None\<close> for a NULL array with a count. At most four
  elements of less than 4 GiB do not overflow a \<^verbatim>\<open>size_t\<close>.\<close>

definition session_serve_sized ::
  "(wtq_session \<Rightarrow> wtq_session) \<Rightarrow> wtq_serve_config list option \<Rightarrow> nat \<Rightarrow> wtq_session
     \<Rightarrow> wtq_result \<times> wtq_session" where
  "session_serve_sized app elems path_stride s =
     (case elems of
        None \<Rightarrow> (WTQ_ERR_INVALID_ARG, s)
      | Some ps \<Rightarrow>
          let count = length ps
          in if count > WTQ_API_MAX_PATHS then (WTQ_ERR_INVALID_ARG, s)
             else if count > 0 \<and> (path_stride < sizeof_serve_config_v1 \<or> path_stride > 2 ^ 32 - 1)
             then (WTQ_ERR_INVALID_ARG, s)
             else if \<not> list_all (serve_size_ok count path_stride) ps then (WTQ_ERR_INVALID_ARG, s)
             else engine_call app (wtq_conn_server_set_paths (map serve_entry ps)) s)"

definition wtq_api_session_serve_ex ::
  "(wtq_session \<Rightarrow> wtq_session) \<Rightarrow> wtq_serve_config list option \<Rightarrow> nat \<Rightarrow> wtq_session
     \<Rightarrow> wtq_result \<times> wtq_session" where
  "wtq_api_session_serve_ex app elems path_stride s = session_serve_sized app elems path_stride s"

definition wtq_api_session_serve ::
  "(wtq_session \<Rightarrow> wtq_session) \<Rightarrow> wtq_serve_config list option \<Rightarrow> wtq_session \<Rightarrow> wtq_result \<times> wtq_session" where
  "wtq_api_session_serve app elems s = session_serve_sized app elems sizeof_serve_config_v1 s"

definition wtq_api_session_conn :: "wtq_session \<Rightarrow> wtq_conn" where
  "wtq_api_session_conn s = ws_conn s"

definition wtq_api_session_enter :: "wtq_session \<Rightarrow> wtq_session" where
  "wtq_api_session_enter s = session_enter s"

definition wtq_api_session_leave :: "wtq_session \<Rightarrow> bool \<times> wtq_session" where
  "wtq_api_session_leave s =
     (let doomed = (ws_refs s = 0 \<and> ws_cb_depth s = 1) in (doomed, session_exit s))"

definition wtq_api_session_admission_root :: "wtq_session \<Rightarrow> bool" where
  "wtq_api_session_admission_root s \<longleftrightarrow>
     ws_cb_depth s = 0 \<and> \<not> ws_admission_running s \<and> \<not> ws_terminal_fired s \<and> ws_admission s"

definition wtq_api_session_admission_detach :: "wtq_session \<Rightarrow> wtq_session" where
  "wtq_api_session_admission_detach s =
     (let s = stream_budget_freeze s
      in s\<lparr>ws_admission := False, ws_streams := map (\<lambda>st. st\<lparr>st_credit := None\<rparr>) (ws_streams s)\<rparr>)"

text \<open>An admission record is its reservation, as in the engine.\<close>

definition wtq_api_session_admit ::
  "(wtq_session \<Rightarrow> wtq_session) \<Rightarrow> nat \<Rightarrow> wtq_session \<Rightarrow> wtq_result \<times> wtq_session" where
  "wtq_api_session_admit app r s =
     (if \<not> ws_admission_running s then (WTQ_ERR_STATE, s)
      else if ws_budgeted s then (WTQ_ERR_INVALID_ARG, s)
      else if list_ex (\<lambda>st. st_refs st = 0) (ws_streams s) then
        (case wtq_conn_peer_admit r (ws_conn s) of (rc, c) \<Rightarrow> (rc, deliver app c s))
      else (WTQ_ERR_WOULD_BLOCK, s))"

definition wtq_api_session_admit_v2 ::
  "(wtq_session \<Rightarrow> wtq_session) \<Rightarrow> nat \<Rightarrow> wtq_session \<Rightarrow> wtq_result \<times> wtq_session" where
  "wtq_api_session_admit_v2 app r s =
     (if \<not> ws_budgeted s
         \<or> r \<ge> unat (sb_peer_unidi_stream_count (ws_budget s) + sb_peer_bidi_stream_count (ws_budget s))
      then (WTQ_ERR_INVALID_ARG, s)
      else if \<not> ws_admission_running s then (WTQ_ERR_STATE, s)
      else if st_refs (ws_streams s ! r) \<noteq> 0 then (WTQ_ERR_STATE, s)
      else (case wtq_conn_peer_admit r (ws_conn s) of (rc, c) \<Rightarrow> (rc, deliver app c s)))"

text \<open>The provider's service function is the argument \<open>service\<close>.\<close>

definition wtq_session_service_stream_admission ::
  "(wtq_session \<Rightarrow> wtq_result \<times> wtq_session) \<Rightarrow> wtq_session \<Rightarrow> wtq_result \<times> wtq_session" where
  "wtq_session_service_stream_admission service s =
     (if ws_receive_quantum s = 0 then (WTQ_ERR_UNSUPPORTED, s)
      else if ws_terminal_fired s \<or> \<not> ws_admission s then (WTQ_ERR_CLOSED, s)
      else if ws_cb_depth s \<noteq> 0 \<or> ws_admission_running s then (WTQ_OK, s)
      else
        let s = session_enter (session_ref s);
            (rc, s) = service (s\<lparr>ws_admission_running := True\<rparr>);
            s = s\<lparr>ws_admission_running := False\<rparr>
        in (rc, session_unref (session_exit s)))"

section \<open>Session calls\<close>

definition wtq_session_add_ref :: "wtq_session \<Rightarrow> wtq_session" where
  "wtq_session_add_ref s = session_ref s"

definition wtq_session_release :: "wtq_session \<Rightarrow> wtq_session" where
  "wtq_session_release s = session_unref s"

definition wtq_session_close ::
  "(wtq_session \<Rightarrow> wtq_session) \<Rightarrow> u32 \<Rightarrow> bytes \<Rightarrow> wtq_session \<Rightarrow> wtq_result \<times> wtq_session" where
  "wtq_session_close app code reason s =
     (if ws_terminal_fired s then (WTQ_ERR_CLOSED, s)
      else engine_call app (wtq_conn_session_close code reason) s)"

definition wtq_session_drain :: "(wtq_session \<Rightarrow> wtq_session) \<Rightarrow> wtq_session \<Rightarrow> wtq_result \<times> wtq_session" where
  "wtq_session_drain app s =
     (if ws_terminal_fired s then (WTQ_ERR_CLOSED, s) else engine_call app wtq_conn_session_drain s)"

definition wtq_session_send_datagram ::
  "(wtq_session \<Rightarrow> wtq_session) \<Rightarrow> wtq_span list \<Rightarrow> wtq_session \<Rightarrow> wtq_result \<times> wtq_session" where
  "wtq_session_send_datagram app spans s =
     (if ws_terminal_fired s then (WTQ_ERR_CLOSED, s) else engine_call app (wtq_conn_dgram_send spans) s)"

text \<open>What follows the engine's answer in \<^verbatim>\<open>session_open\<close>, between the brackets.\<close>

definition open_failed :: "wtq_result \<Rightarrow> nat option \<Rightarrow> wtq_session \<Rightarrow> wtq_result \<times> nat option \<times> wtq_session" where
  "open_failed rc reserved s =
     (let s = (case reserved of Some i \<Rightarrow> stream_slot_release i s | None \<Rightarrow> s);
          s = (if ws_budgeted s \<and> rc = WTQ_ERR_WOULD_BLOCK then count_blocked s else s)
      in (if rc = WTQ_ERR_STATE \<and> ws_terminal_fired s then WTQ_ERR_CLOSED else rc, None, s))"

definition open_done ::
  "(wtq_session \<Rightarrow> wtq_session) \<Rightarrow> bool \<Rightarrow> nat option \<Rightarrow> nat \<Rightarrow> wtq_session
     \<Rightarrow> wtq_result \<times> nat option \<times> wtq_session" where
  "open_done app bidi reserved j s =
     (case reserved of
        Some i \<Rightarrow>
          let s = upd_st i (\<lambda>st. st\<lparr>st_es := Some j, st_id := wtq_estream_id (Some j) (ws_conn s)\<rparr>) s;
              s = stream_lease i j s
          in (WTQ_OK, Some i, with_conn (wtq_estream_set_user j (Some i)) s)
      | None \<Rightarrow>
          (case stream_acquire (Some j) bidi True (wtq_estream_id (Some j) (ws_conn s)) s of
             (None, s) \<Rightarrow>
               (WTQ_ERR_STREAM_LIMIT, None, deliver app (snd (wtq_conn_wt_abort j 0 (ws_conn s))) s)
           | (Some i, s) \<Rightarrow> (WTQ_OK, Some i, with_conn (wtq_estream_set_user j (Some i)) s)))"

definition open_with ::
  "(wtq_session \<Rightarrow> wtq_session) \<Rightarrow> bool \<Rightarrow> nat option \<Rightarrow> wtq_session
     \<Rightarrow> wtq_result \<times> nat option \<times> wtq_session" where
  "open_with app bidi reserved s =
     (case (if bidi then wtq_conn_wt_open_bidi (ws_conn s) else wtq_conn_wt_open_uni (ws_conn s)) of
        (rc, es, c) \<Rightarrow>
          let s = deliver app c s
          in (case es of
                Some j \<Rightarrow> if rc = WTQ_OK then open_done app bidi reserved j s else open_failed rc reserved s
              | None \<Rightarrow> open_failed rc reserved s))"

definition session_open ::
  "(wtq_session \<Rightarrow> wtq_session) \<Rightarrow> bool \<Rightarrow> wtq_session \<Rightarrow> wtq_result \<times> nat option \<times> wtq_session" where
  "session_open app bidi s =
     (if ws_terminal_fired s then (WTQ_ERR_CLOSED, None, s)
      else
        let s = session_enter s;
            (rc, out, s) =
              (if ws_admission s then
                 (case stream_acquire None bidi True WTQ_STREAM_ID_UNKNOWN s of
                    (None, s) \<Rightarrow>
                      (WTQ_ERR_WOULD_BLOCK, None, if ws_budgeted s then count_blocked s else s)
                  | (Some i, s) \<Rightarrow> open_with app bidi (Some i) s)
               else open_with app bidi None s)
        in (rc, out, session_exit s))"

definition wtq_session_open_uni ::
  "(wtq_session \<Rightarrow> wtq_session) \<Rightarrow> wtq_session \<Rightarrow> wtq_result \<times> nat option \<times> wtq_session" where
  "wtq_session_open_uni app s = session_open app False s"

definition wtq_session_open_bidi ::
  "(wtq_session \<Rightarrow> wtq_session) \<Rightarrow> wtq_session \<Rightarrow> wtq_result \<times> nat option \<times> wtq_session" where
  "wtq_session_open_bidi app s = session_open app True s"

section \<open>Stream calls\<close>

definition wtq_stream_add_ref :: "nat \<Rightarrow> wtq_session \<Rightarrow> wtq_session" where
  "wtq_stream_add_ref i s =
     (if valid_stream s i \<and> st_refs (ws_streams s ! i) > 0
      then session_ref (upd_st i (\<lambda>st. st\<lparr>st_refs := st_refs st + 1, st_app_refs := st_app_refs st + 1\<rparr>) s)
      else s)"

definition wtq_stream_release :: "nat \<Rightarrow> wtq_session \<Rightarrow> wtq_session" where
  "wtq_stream_release i s =
     (if \<not> valid_stream s i \<or> st_app_refs (ws_streams s ! i) = 0 then s
      else
        let s = upd_st i (\<lambda>st. st\<lparr>st_app_refs := st_app_refs st - 1, st_refs := st_refs st - 1\<rparr>) s
        in session_unref (stream_credit_release i s))"

text \<open>A live handle has its engine stream, except while \<^verbatim>\<open>session_open\<close> runs with a reserved slot.\<close>

definition wtq_stream_enable_send_commit :: "nat \<Rightarrow> wtq_session \<Rightarrow> wtq_result \<times> wtq_session" where
  "wtq_stream_enable_send_commit i s =
     (if \<not> valid_stream s i then (WTQ_ERR_INVALID_ARG, s)
      else if \<not> st_alive (ws_streams s ! i) \<or> \<not> st_local (ws_streams s ! i) \<or> st_bidi (ws_streams s ! i)
      then (WTQ_ERR_STATE, s)
      else if \<not> ws_send_commit_mode s \<or> \<not> ws_ev s EV_stream_send_committed then (WTQ_ERR_UNSUPPORTED, s)
      else
        (case st_es (ws_streams s ! i) of
           None \<Rightarrow> (WTQ_ERR_INVALID_ARG, s)
         | Some j \<Rightarrow>
             (case wtq_conn_wt_enable_send_commit j (ws_conn s) of
                (rc, c) \<Rightarrow>
                  let s = s\<lparr>ws_conn := c\<rparr>
                  in (rc, if rc = WTQ_OK then upd_st i (\<lambda>st. st\<lparr>st_send_commit := True\<rparr>) s else s))))"

text \<open>
  The operations on a live handle: an engine call with the slot held, then on
  success the change \<open>f\<close> of its halves. A NULL engine stream is refused by the
  engine.
\<close>

definition held_call ::
  "(wtq_session \<Rightarrow> wtq_session) \<Rightarrow> (nat \<Rightarrow> wtq_conn \<Rightarrow> wtq_result \<times> wtq_conn) \<Rightarrow> (wtq_stream \<Rightarrow> wtq_stream) option
     \<Rightarrow> nat \<Rightarrow> wtq_session \<Rightarrow> wtq_result \<times> wtq_session" where
  "held_call app op f i s =
     (let s = stream_hold i (session_enter s);
          (rc, s) = (case st_es (ws_streams s ! i) of
                       None \<Rightarrow> (WTQ_ERR_INVALID_ARG, s)
                     | Some j \<Rightarrow> (case op j (ws_conn s) of (rc, c) \<Rightarrow> (rc, deliver app c s)));
          s = (case f of
                 Some f \<Rightarrow> if rc = WTQ_OK then stream_maybe_terminal app i (upd_st i f s) else s
               | None \<Rightarrow> s)
      in (rc, session_exit (stream_drop i s)))"

definition wtq_stream_send ::
  "(wtq_session \<Rightarrow> wtq_session) \<Rightarrow> nat \<Rightarrow> wtq_span list \<Rightarrow> bool \<Rightarrow> nat \<Rightarrow> wtq_session
     \<Rightarrow> wtq_result \<times> wtq_session" where
  "wtq_stream_send app i spans fin send_ctx s =
     (if \<not> valid_stream s i then (WTQ_ERR_INVALID_ARG, s)
      else if \<not> st_alive (ws_streams s ! i) then (WTQ_ERR_CLOSED, s)
      else if \<not> st_send_open (ws_streams s ! i) then (WTQ_ERR_STATE, s)
      else
        held_call app (\<lambda>j. wtq_conn_wt_send j spans fin send_ctx)
          (if fin then Some (\<lambda>st. st\<lparr>st_send_open := False, st_fin_pending := st_send_commit st\<rparr>) else None) i s)"

definition wtq_stream_reset ::
  "(wtq_session \<Rightarrow> wtq_session) \<Rightarrow> nat \<Rightarrow> u32 \<Rightarrow> wtq_session \<Rightarrow> wtq_result \<times> wtq_session" where
  "wtq_stream_reset app i app_code s =
     (if \<not> valid_stream s i then (WTQ_ERR_INVALID_ARG, s)
      else if \<not> st_alive (ws_streams s ! i) then (WTQ_ERR_CLOSED, s)
      else if \<not> st_send_open (ws_streams s ! i) \<and> \<not> st_fin_pending (ws_streams s ! i) then (WTQ_ERR_STATE, s)
      else
        held_call app (\<lambda>j. wtq_conn_wt_reset j app_code)
          (Some (\<lambda>st. st\<lparr>st_send_open := False, st_fin_pending := False\<rparr>)) i s)"

definition wtq_stream_stop_sending ::
  "(wtq_session \<Rightarrow> wtq_session) \<Rightarrow> nat \<Rightarrow> u32 \<Rightarrow> wtq_session \<Rightarrow> wtq_result \<times> wtq_session" where
  "wtq_stream_stop_sending app i app_code s =
     (if \<not> valid_stream s i then (WTQ_ERR_INVALID_ARG, s)
      else if \<not> st_alive (ws_streams s ! i) then (WTQ_ERR_CLOSED, s)
      else if \<not> st_recv_open (ws_streams s ! i) then (WTQ_ERR_STATE, s)
      else
        held_call app (\<lambda>j. wtq_conn_wt_stop j app_code) (Some (\<lambda>st. st\<lparr>st_recv_open := False\<rparr>)) i s)"

definition wtq_stream_abort ::
  "(wtq_session \<Rightarrow> wtq_session) \<Rightarrow> nat \<Rightarrow> u32 \<Rightarrow> wtq_session \<Rightarrow> wtq_result \<times> wtq_session" where
  "wtq_stream_abort app i app_code s =
     (if \<not> valid_stream s i then (WTQ_ERR_INVALID_ARG, s)
      else if \<not> st_alive (ws_streams s ! i) then (WTQ_ERR_CLOSED, s)
      else if \<not> st_send_open (ws_streams s ! i) \<and> \<not> st_fin_pending (ws_streams s ! i)
              \<and> \<not> st_recv_open (ws_streams s ! i) then (WTQ_ERR_STATE, s)
      else held_call app (\<lambda>j. wtq_conn_wt_abort j app_code) (Some both_shut) i s)"

definition stream_recv_enable ::
  "(wtq_session \<Rightarrow> wtq_session) \<Rightarrow> nat \<Rightarrow> bool \<Rightarrow> wtq_session \<Rightarrow> wtq_result \<times> wtq_session" where
  "stream_recv_enable app i enabled s =
     (if \<not> valid_stream s i then (WTQ_ERR_INVALID_ARG, s)
      else if \<not> st_alive (ws_streams s ! i) then (WTQ_ERR_CLOSED, s)
      else if \<not> st_recv_open (ws_streams s ! i) then (WTQ_ERR_STATE, s)
      else
        engine_call app
          (case st_es (ws_streams s ! i) of
             None \<Rightarrow> (\<lambda>c. (WTQ_ERR_INVALID_ARG, c))
           | Some j \<Rightarrow> wtq_conn_wt_recv_enable j enabled) s)"

definition wtq_stream_pause_receive ::
  "(wtq_session \<Rightarrow> wtq_session) \<Rightarrow> nat \<Rightarrow> wtq_session \<Rightarrow> wtq_result \<times> wtq_session" where
  "wtq_stream_pause_receive app i s = stream_recv_enable app i False s"

definition wtq_stream_resume_receive ::
  "(wtq_session \<Rightarrow> wtq_session) \<Rightarrow> nat \<Rightarrow> wtq_session \<Rightarrow> wtq_result \<times> wtq_session" where
  "wtq_stream_resume_receive app i s = stream_recv_enable app i True s"

end
