(* ===== verification/Api_System.thy ===== *)
theory Api_System
  imports Api_Calls
begin

text \<open>
  The queries of \<^verbatim>\<open>src/api/session.c\<close>, and the session layer as a whole: an
  application that calls back into the library from its callbacks, and the states a
  session reaches under it and its backend.
\<close>

section \<open>Queries\<close>

text \<open>A copy-out to a caller's struct of \<open>caller_size\<close> bytes: the value, and how many bytes of it.\<close>

definition wtq_session_stream_budget ::
  "u32 \<Rightarrow> wtq_session \<Rightarrow> wtq_result + wtq_stream_budget \<times> nat" where
  "wtq_session_stream_budget caller_size s =
     (if unat caller_size < WTQ_STREAM_BUDGET_V1_SIZE then Inl WTQ_ERR_INVALID_ARG
      else if \<not> ws_budgeted s then Inl WTQ_ERR_UNSUPPORTED
      else
        let value = (stream_budget_snapshot s)\<lparr>sb_struct_size := caller_size\<rparr>
        in Inr (value, if unat caller_size < WTQ_STREAM_BUDGET_V1_SIZE then unat caller_size
                       else WTQ_STREAM_BUDGET_V1_SIZE))"

text \<open>The two outputs are written on every path.\<close>

definition wtq_session_receive_contract :: "wtq_session \<Rightarrow> wtq_result \<times> nat \<times> nat" where
  "wtq_session_receive_contract s =
     (if ws_receive_quantum s = 0 then (WTQ_ERR_UNSUPPORTED, 0, WTQ_RECEIVE_PAUSE_UNSUPPORTED)
      else (WTQ_OK, ws_receive_quantum s, ws_receive_mode s))"

definition wtq_session_datagram_max_size :: "wtq_session \<Rightarrow> nat" where
  "wtq_session_datagram_max_size s = wtq_conn_dgram_max_size (ws_conn s)"

definition wtq_conn_transport_error :: "wtq_conn \<Rightarrow> wtq_transport_error option" where
  "wtq_conn_transport_error c = transport_error c"

definition sizeof_transport_error :: nat where "sizeof_transport_error = 32"

definition wtq_session_transport_error ::
  "u32 \<Rightarrow> wtq_session \<Rightarrow> wtq_result + wtq_transport_error \<times> nat" where
  "wtq_session_transport_error caller_size s =
     (if unat caller_size < 6 then Inl WTQ_ERR_INVALID_ARG
      else
        let rec = (case wtq_conn_transport_error (ws_conn s) of
                     Some e \<Rightarrow> e
                   | None \<Rightarrow> \<lparr>te_kind = ERR_KIND_NONE, te_quic_code = 0, te_native_domain = 0,
                              te_native_code = 0\<rparr>)
        in Inr (rec, if unat caller_size < sizeof_transport_error then unat caller_size
                     else sizeof_transport_error))"

definition wtq_conn_session_state :: "wtq_conn \<Rightarrow> wtq_session_state" where
  "wtq_conn_session_state c = sess_state c"

definition wtq_session_status :: "wtq_session \<Rightarrow> wtq_session_status_t" where
  "wtq_session_status s =
     (if ws_failed s then STATUS_FAILED
      else
        (case wtq_conn_session_state (ws_conn s) of
           SS_ESTABLISHED \<Rightarrow> STATUS_ESTABLISHED
         | SS_DRAINING \<Rightarrow> STATUS_DRAINING
         | SS_CLOSED \<Rightarrow> STATUS_CLOSED
         | SS_REJECTED \<Rightarrow> STATUS_FAILED
         | SS_FAILED \<Rightarrow> STATUS_FAILED
         | _ \<Rightarrow> STATUS_CONNECTING))"

definition wtq_api_session_set_local_flush ::
  "wtq_local_flush_mode \<Rightarrow> (event list \<Rightarrow> wtq_result) option \<Rightarrow> wtq_session \<Rightarrow> wtq_result \<times> wtq_session" where
  "wtq_api_session_set_local_flush mode probe s =
     (if probe = None \<or> mode = FLUSH_UNSUPPORTED then (WTQ_ERR_INVALID_ARG, s)
      else if ws_established_seen s \<or> ws_terminal_fired s \<or> ws_local_flush_probe s \<noteq> None
      then (WTQ_ERR_STATE, s)
      else (WTQ_OK, s\<lparr>ws_local_flush_mode := mode, ws_local_flush_probe := probe\<rparr>))"

definition wtq_session_local_flush_mode :: "wtq_session \<Rightarrow> wtq_local_flush_mode" where
  "wtq_session_local_flush_mode s = ws_local_flush_mode s"

definition wtq_api_session_local_flush_failed :: "wtq_session \<Rightarrow> wtq_session" where
  "wtq_api_session_local_flush_failed s =
     (if ws_local_flush_mode s \<noteq> FLUSH_UNSUPPORTED then s\<lparr>ws_local_flush_failed := True\<rparr> else s)"

definition wtq_session_local_flush :: "wtq_session \<Rightarrow> wtq_result" where
  "wtq_session_local_flush s =
     (if ws_local_flush_failed s then WTQ_ERR_BACKEND
      else if ws_terminal_fired s \<or> wtq_session_status s = STATUS_CLOSED
              \<or> wtq_session_status s = STATUS_FAILED then WTQ_ERR_CLOSED
      else if \<not> ws_established_seen s then WTQ_ERR_STATE
      else
        (case ws_local_flush_probe s of
           None \<Rightarrow> WTQ_ERR_UNSUPPORTED
         | Some probe \<Rightarrow> probe (trace (ws_conn s))))"

definition wtq_conn_request_authority :: "wtq_conn \<Rightarrow> bytes" where
  "wtq_conn_request_authority c = req_auth c"

definition wtq_conn_request_path :: "wtq_conn \<Rightarrow> bytes" where
  "wtq_conn_request_path c = req_path c"

text \<open>The size of the metadata struct through \<^verbatim>\<open>path\<close> is 40; the result is the authority and the path.\<close>

definition wtq_session_connect_request_metadata :: "u32 \<Rightarrow> wtq_session \<Rightarrow> wtq_result + bytes \<times> bytes" where
  "wtq_session_connect_request_metadata caller_size s =
     (if unat caller_size < 40 then Inl WTQ_ERR_INVALID_ARG
      else if ws_perspective s \<noteq> PERSPECTIVE_SERVER \<or> \<not> ws_established_seen s then Inl WTQ_ERR_STATE
      else Inr (wtq_conn_request_authority (ws_conn s), wtq_conn_request_path (ws_conn s)))"

definition wtq_session_webtransport_profile :: "wtq_session \<Rightarrow> wtq_result + wtq_h3_wt_profile" where
  "wtq_session_webtransport_profile s =
     (case ws_profile s of None \<Rightarrow> Inl WTQ_ERR_STATE | Some p \<Rightarrow> Inr p)"

definition wtq_conn_selected_protocol :: "wtq_conn \<Rightarrow> bytes" where
  "wtq_conn_selected_protocol c = selected c"

definition wtq_session_subprotocol :: "wtq_session \<Rightarrow> bytes" where
  "wtq_session_subprotocol s = wtq_conn_selected_protocol (ws_conn s)"

definition wtq_session_set_user :: "nat option \<Rightarrow> wtq_session \<Rightarrow> wtq_session" where
  "wtq_session_set_user user s = s\<lparr>ws_user := user\<rparr>"

definition wtq_session_get_user :: "wtq_session \<Rightarrow> nat option" where
  "wtq_session_get_user s = ws_user s"

definition wtq_session_send_commit_mode :: "wtq_session \<Rightarrow> bool" where
  "wtq_session_send_commit_mode s = ws_send_commit_mode s"

definition wtq_stream_receive_pause_mode :: "nat \<Rightarrow> wtq_session \<Rightarrow> nat" where
  "wtq_stream_receive_pause_mode i s =
     (if \<not> valid_stream s i \<or> \<not> st_session (ws_streams s ! i) then WTQ_RECEIVE_PAUSE_UNSUPPORTED
      else wtq_conn_recv_pause_mode (ws_conn s))"

definition wtq_stream_id :: "nat \<Rightarrow> wtq_session \<Rightarrow> u64" where
  "wtq_stream_id i s =
     (if \<not> valid_stream s i then WTQ_STREAM_ID_UNKNOWN
      else
        (case st_es (ws_streams s ! i) of
           Some j \<Rightarrow> wtq_estream_id (Some j) (ws_conn s)
         | None \<Rightarrow> st_id (ws_streams s ! i)))"

definition wtq_stream_is_bidi :: "nat \<Rightarrow> wtq_session \<Rightarrow> bool" where
  "wtq_stream_is_bidi i s \<longleftrightarrow> valid_stream s i \<and> st_bidi (ws_streams s ! i)"

definition wtq_stream_is_local :: "nat \<Rightarrow> wtq_session \<Rightarrow> bool" where
  "wtq_stream_is_local i s \<longleftrightarrow> valid_stream s i \<and> st_local (ws_streams s ! i)"

text \<open>Whether the back pointer is the session; otherwise it is NULL.\<close>

definition wtq_stream_session :: "nat \<Rightarrow> wtq_session \<Rightarrow> bool" where
  "wtq_stream_session i s \<longleftrightarrow> valid_stream s i \<and> st_session (ws_streams s ! i)"

definition wtq_stream_set_user :: "nat \<Rightarrow> nat option \<Rightarrow> wtq_session \<Rightarrow> wtq_session" where
  "wtq_stream_set_user i user s = upd_st i (\<lambda>st. st\<lparr>st_user := user\<rparr>) s"

definition wtq_stream_get_user :: "nat \<Rightarrow> wtq_session \<Rightarrow> nat option" where
  "wtq_stream_get_user i s = (if valid_stream s i then st_user (ws_streams s ! i) else None)"

section \<open>The application\<close>

text \<open>
  One call of the application. Inside a bracket the service call returns at once;
  at a root it is the provider's, which is a rule of the system below.
\<close>

definition perform :: "(wtq_session \<Rightarrow> wtq_session) \<Rightarrow> api_call \<Rightarrow> wtq_session \<Rightarrow> wtq_session" where
  "perform app k s =
     (let s = log_event (CALL k) s
      in case k of
           Session_add_ref \<Rightarrow> wtq_session_add_ref s
         | Session_release \<Rightarrow> wtq_session_release s
         | Session_close code reason \<Rightarrow> snd (wtq_session_close app code reason s)
         | Session_drain \<Rightarrow> snd (wtq_session_drain app s)
         | Session_open bidi \<Rightarrow>
             snd (snd (if bidi then wtq_session_open_bidi app s else wtq_session_open_uni app s))
         | Session_send_datagram spans \<Rightarrow> snd (wtq_session_send_datagram app spans s)
         | Session_service \<Rightarrow> s
         | Stream_add_ref i \<Rightarrow> wtq_stream_add_ref i s
         | Stream_release i \<Rightarrow> wtq_stream_release i s
         | Stream_enable_send_commit i \<Rightarrow> snd (wtq_stream_enable_send_commit i s)
         | Stream_send i spans fin cookie \<Rightarrow> snd (wtq_stream_send app i spans fin cookie s)
         | Stream_reset i app_code \<Rightarrow> snd (wtq_stream_reset app i app_code s)
         | Stream_stop_sending i app_code \<Rightarrow> snd (wtq_stream_stop_sending app i app_code s)
         | Stream_abort i app_code \<Rightarrow> snd (wtq_stream_abort app i app_code s)
         | Stream_recv_enable i enabled \<Rightarrow>
             snd (if enabled then wtq_stream_resume_receive app i s else wtq_stream_pause_receive app i s))"

text \<open>
  An application whose callbacks nest at most \<open>n\<close> deep: \<open>plan\<close> gives the calls it
  makes inside a callback, from the history that ends with that callback.
\<close>

primrec react :: "(api_event list \<Rightarrow> api_call list) \<Rightarrow> nat \<Rightarrow> wtq_session \<Rightarrow> wtq_session" where
  "react plan 0 s = s"
| "react plan (Suc n) s = fold (perform (react plan n)) (plan (ws_log s)) s"

section \<open>The system\<close>

text \<open>
  What happens to a session: a call of the application, a batch of engine inputs
  between the backend's enter and leave, a pass of the provider over the waiting
  streams, in which it admits them and feeds the engine, and what the backend's connect and serve functions do with it. Nothing happens to a session whose
  memory is gone.
\<close>

inductive session_input :: "(wtq_session \<Rightarrow> wtq_session) \<Rightarrow> wtq_session \<Rightarrow> wtq_session \<Rightarrow> bool" for app where
  input_engine: "conn_op (ws_conn s) c \<Longrightarrow> session_input app s (deliver app c s)"

inductive session_admits :: "(wtq_session \<Rightarrow> wtq_session) \<Rightarrow> wtq_session \<Rightarrow> wtq_session \<Rightarrow> bool" for app where
  admits_legacy: "session_admits app s (snd (wtq_api_session_admit app r s))"
| admits_v2: "session_admits app s (snd (wtq_api_session_admit_v2 app r s))"
| admits_input: "conn_op (ws_conn s) c \<Longrightarrow> session_admits app s (deliver app c s)"

inductive session_op :: "(wtq_session \<Rightarrow> wtq_session) \<Rightarrow> wtq_session \<Rightarrow> wtq_session \<Rightarrow> bool" for app where
  sop_call: "\<not> ws_freed s \<Longrightarrow> session_op app s (perform app k s)"
| sop_batch: "\<not> ws_freed s \<Longrightarrow> (session_input app)\<^sup>*\<^sup>* (wtq_api_session_enter s) s'
    \<Longrightarrow> session_op app s (snd (wtq_api_session_leave s'))"
| sop_service: "\<not> ws_freed s \<Longrightarrow> (\<And>s. (session_admits app)\<^sup>*\<^sup>* s (snd (service s)))
    \<Longrightarrow> session_op app s (snd (wtq_session_service_stream_admission service (log_event (CALL Session_service) s)))"
| sop_start: "\<not> ws_freed s \<Longrightarrow> session_op app s (snd (wtq_api_session_start app s))"
| sop_connect: "\<not> ws_freed s \<Longrightarrow> session_op app s (snd (wtq_api_session_connect app cfg s))"
| sop_serve: "\<not> ws_freed s \<Longrightarrow> session_op app s (snd (wtq_api_session_serve app elems s))"
| sop_serve_ex: "\<not> ws_freed s \<Longrightarrow> session_op app s (snd (wtq_api_session_serve_ex app elems path_stride s))"
| sop_detach: "\<not> ws_freed s \<Longrightarrow> session_op app s (wtq_api_session_admission_detach s)"
| sop_flush: "\<not> ws_freed s \<Longrightarrow> session_op app s (snd (wtq_api_session_set_local_flush mode probe s))"
| sop_flush_failed: "\<not> ws_freed s \<Longrightarrow> session_op app s (wtq_api_session_local_flush_failed s)"
| sop_user: "\<not> ws_freed s \<Longrightarrow> session_op app s (wtq_session_set_user user s)"
| sop_stream_user: "\<not> ws_freed s \<Longrightarrow> session_op app s (wtq_stream_set_user i user s)"

text \<open>A session as one of the three constructors makes it.\<close>

definition session_created :: "wtq_session \<Rightarrow> bool" where
  "session_created s \<longleftrightarrow>
     (\<exists>L allocated cfg. wtq_api_session_create L allocated cfg = Inr s
        \<or> (\<exists>ops. wtq_api_session_create_admission L allocated cfg ops = Inr s)
        \<or> (\<exists>ops. wtq_api_session_create_admission_v2 L allocated cfg ops = Inr s))"

inductive session_reachable :: "(wtq_session \<Rightarrow> wtq_session) \<Rightarrow> wtq_session \<Rightarrow> bool" for app where
  sreach_init: "session_created s \<Longrightarrow> session_reachable app s"
| sreach_op: "session_reachable app s \<Longrightarrow> session_op app s s' \<Longrightarrow> session_reachable app s'"

end
