(* ===== verification/Api_Frames.thy ===== *)
theory Api_Frames
  imports Api_System
begin

text \<open>
  What every function of the session layer keeps, however the application
  reenters it. A frame says what the calls that are under way hold: transient slot
  references, brackets, and a terminal event that is latched but not yet
  delivered. A function leads from one frame to another; the primitive ones are
  here, the composed ones in \<open>Api_Runs\<close>.
\<close>

section \<open>Frames\<close>

record frame =
  fr_slack :: int
  fr_held :: "nat list"
  fr_debt :: nat
  fr_brackets :: nat

definition fr_holds :: "frame \<Rightarrow> nat \<Rightarrow> nat" where
  "fr_holds f i = count_list (fr_held f) i"

definition held :: "nat \<Rightarrow> frame \<Rightarrow> frame" where
  "held i f = f\<lparr>fr_held := i # fr_held f, fr_slack := fr_slack f + 1\<rparr>"

definition opened :: "frame \<Rightarrow> frame" where
  "opened f = f\<lparr>fr_brackets := fr_brackets f + 1\<rparr>"

definition owed :: "frame \<Rightarrow> frame" where
  "owed f = f\<lparr>fr_debt := fr_debt f + 1\<rparr>"

definition tight :: "frame \<Rightarrow> frame" where
  "tight f = f\<lparr>fr_slack := fr_slack f - 2\<rparr>"

lemma frame_slack [simp]:
  "fr_slack (held i f) = fr_slack f + 1" "fr_slack (opened f) = fr_slack f" "fr_slack (owed f) = fr_slack f"
  "fr_slack (tight f) = fr_slack f - 2"
  by (simp_all add: held_def opened_def owed_def tight_def)

lemma frame_brackets [simp]:
  "fr_brackets (held i f) = fr_brackets f" "fr_brackets (opened f) = fr_brackets f + 1"
  "fr_brackets (owed f) = fr_brackets f" "fr_brackets (tight f) = fr_brackets f"
  by (simp_all add: held_def opened_def owed_def tight_def)

lemma frame_debt [simp]:
  "fr_debt (held i f) = fr_debt f" "fr_debt (opened f) = fr_debt f" "fr_debt (owed f) = fr_debt f + 1"
  "fr_debt (tight f) = fr_debt f"
  by (simp_all add: held_def opened_def owed_def tight_def)

lemma frame_holds [simp]:
  "fr_held (held i f) = i # fr_held f" "fr_held (opened f) = fr_held f"
  "fr_held (owed f) = fr_held f" "fr_held (tight f) = fr_held f"
  "fr_holds (held i f) = (fr_holds f)(i := fr_holds f i + 1)" "fr_holds (opened f) = fr_holds f"
  "fr_holds (owed f) = fr_holds f" "fr_holds (tight f) = fr_holds f"
  by (auto simp: held_def opened_def owed_def tight_def fr_holds_def)

section \<open>The state's invariant\<close>

text \<open>
  The slots of a session without an admission driver: the references of a slot are
  the application's, the library's own while the stream is alive, and the
  transient ones.
\<close>

definition slots_acc :: "(nat \<Rightarrow> nat) \<Rightarrow> wtq_session \<Rightarrow> bool" where
  "slots_acc h s \<longleftrightarrow>
     (\<forall>i < length (ws_streams s).
        let st = ws_streams s ! i
        in unat (st_refs st) = unat (st_app_refs st) + (if st_alive st then 1 else 0) + h i
           \<and> unat (st_app_refs st) \<le> length (ws_log s))"

definition es_ok :: "wtq_session \<Rightarrow> bool" where
  "es_ok s \<longleftrightarrow>
     (\<forall>i < length (ws_streams s). \<forall>j. st_es (ws_streams s ! i) = Some j \<longrightarrow> j < length (peer (ws_conn s)))"

text \<open>No callback is made through a NULL pointer.\<close>

definition callbacks_ok :: "wtq_session \<Rightarrow> bool" where
  "callbacks_ok s \<longleftrightarrow>
     (\<forall>i < length (ws_streams s). st_send_commit (ws_streams s ! i) \<longrightarrow> ws_ev s EV_stream_send_committed)
     \<and> (\<forall>e \<in> set (ws_log s). \<forall>m. ev_member_of e = Some m \<longrightarrow> ws_ev s m)"

definition good :: "frame \<Rightarrow> wtq_session \<Rightarrow> bool" where
  "good f s \<longleftrightarrow>
     \<not> ws_freed s \<and> fr_brackets f < ws_cb_depth s \<and> reachable (ws_conn s) \<and> es_ok s \<and> callbacks_ok s
     \<and> (ws_receive_quantum s = 0 \<longrightarrow> \<not> ws_admission s \<and> slots_acc (fr_holds f) s)
     \<and> int (length (fr_held f)) \<le> 2 * int (length (ws_log s)) + fr_slack f
     \<and> unat (ws_refs s) \<le> 1 + length (ws_log s) \<and> (ws_closed_deferred s \<longrightarrow> ws_terminal_fired s)"

text \<open>The reference counts have 32 bits; the histories considered are far shorter.\<close>

definition small :: "wtq_session \<Rightarrow> bool" where
  "small s \<longleftrightarrow> length (ws_log s) < 2 ^ 28"

section \<open>What changes\<close>

fun api_terminal :: "api_event \<Rightarrow> bool" where
  "api_terminal (ON_REFUSED _) = True"
| "api_terminal (ON_FAILED _) = True"
| "api_terminal (ON_CLOSED _ _ _) = True"
| "api_terminal _ = False"

definition engine_ended :: "wtq_conn \<Rightarrow> bool" where
  "engine_ended c \<longleftrightarrow> list_ex outcome (trace c)"

text \<open>The terminal events delivered or kept for later, and those due.\<close>

definition terminals :: "wtq_session \<Rightarrow> nat" where
  "terminals s = length (filter api_terminal (ws_log s)) + (if ws_closed_deferred s then 1 else 0)"

definition due :: "wtq_session \<Rightarrow> nat" where
  "due s = (if ws_terminal_fired s then 1 else 0)"

definition told :: "wtq_session \<Rightarrow> bool" where
  "told s \<longleftrightarrow> ws_ev s EV_refused \<and> ws_ev s EV_failed \<and> ws_ev s EV_closed"

definition terminal_bal :: "frame \<Rightarrow> frame \<Rightarrow> wtq_session \<Rightarrow> wtq_session \<Rightarrow> bool" where
  "terminal_bal f f' s s' \<longleftrightarrow>
     (ws_terminal_fired s \<longrightarrow> ws_terminal_fired s' \<and> (ws_closed_deferred s' \<longrightarrow> ws_closed_deferred s))
     \<and> due s + terminals s' + fr_debt f' \<le> due s' + terminals s + fr_debt f
     \<and> (told s \<longrightarrow> due s + terminals s' + fr_debt f' = due s' + terminals s + fr_debt f)
     \<and> (engine_ended (ws_conn s') \<longrightarrow> ws_terminal_fired s' \<or> engine_ended (ws_conn s))"

definition log_bal :: "wtq_session \<Rightarrow> wtq_session \<Rightarrow> bool" where
  "log_bal s s' \<longleftrightarrow> (\<exists>l. ws_log s' = ws_log s @ l \<and> SESSION_FREED \<notin> set l)"

definition const_bal :: "wtq_session \<Rightarrow> wtq_session \<Rightarrow> bool" where
  "const_bal s s' \<longleftrightarrow>
     ws_freed s' = ws_freed s \<and> ws_ev s' = ws_ev s \<and> ws_receive_quantum s' = ws_receive_quantum s
     \<and> ws_admission s' = ws_admission s \<and> length (ws_streams s') = length (ws_streams s)
     \<and> length (peer (ws_conn s')) = length (peer (ws_conn s))"

definition commit_bal :: "wtq_session \<Rightarrow> wtq_session \<Rightarrow> bool" where
  "commit_bal s s' \<longleftrightarrow>
     ws_commit_depth s' = ws_commit_depth s
     \<and> (ws_closed_deferred s' \<longrightarrow> ws_closed_deferred s \<or> ws_commit_depth s \<noteq> 0)"

definition bal0 :: "frame \<Rightarrow> frame \<Rightarrow> wtq_session \<Rightarrow> wtq_session \<Rightarrow> bool" where
  "bal0 f f' s s' \<longleftrightarrow>
     ws_cb_depth s' + fr_brackets f = ws_cb_depth s + fr_brackets f'
     \<and> log_bal s s' \<and> const_bal s s' \<and> terminal_bal f f' s s'"

definition bal :: "frame \<Rightarrow> frame \<Rightarrow> wtq_session \<Rightarrow> wtq_session \<Rightarrow> bool" where
  "bal f f' s s' \<longleftrightarrow> bal0 f f' s s' \<and> commit_bal s s'"

lemmas bal_defs = bal_def bal0_def log_bal_def const_bal_def commit_bal_def terminal_bal_def

definition mono_log :: "wtq_session \<Rightarrow> wtq_session \<Rightarrow> bool" where
  "mono_log s s' \<longleftrightarrow> length (ws_log s) \<le> length (ws_log s')"

text \<open>A function leads from a frame to a frame.\<close>

definition run :: "frame \<Rightarrow> frame \<Rightarrow> wtq_session \<Rightarrow> wtq_session \<Rightarrow> bool" where
  "run f f' s s' \<longleftrightarrow> mono_log s s' \<and> (small s' \<longrightarrow> good f s \<longrightarrow> bal f f' s s' \<and> good f' s')"

lemma mono_log_refl [simp]: "mono_log s s"
  by (simp add: mono_log_def)

lemma mono_log_trans: "mono_log s1 s2 \<Longrightarrow> mono_log s2 s3 \<Longrightarrow> mono_log s1 s3"
  by (simp add: mono_log_def)

lemma small_mono: "mono_log s s' \<Longrightarrow> small s' \<Longrightarrow> small s"
  by (simp add: mono_log_def small_def)

lemma terminal_bal_trans: "terminal_bal f f1 s s1 \<Longrightarrow> terminal_bal f1 f2 s1 s2 \<Longrightarrow> ws_ev s1 = ws_ev s
    \<Longrightarrow> terminal_bal f f2 s s2"
  by (auto simp: terminal_bal_def told_def)

lemma bal0_trans: "bal0 f f1 s s1 \<Longrightarrow> bal0 f1 f2 s1 s2 \<Longrightarrow> bal0 f f2 s s2"
  using terminal_bal_trans [of f f1 s s1 f2 s2] unfolding bal0_def log_bal_def const_bal_def by auto

lemma bal_trans: "bal f f1 s s1 \<Longrightarrow> bal f1 f2 s1 s2 \<Longrightarrow> bal f f2 s s2"
  using bal0_trans unfolding bal_def commit_bal_def by metis

lemma bal_refl [simp]: "bal f f s s"
  by (simp add: bal_defs)

lemma run_refl [simp]: "run f f s s"
  by (simp add: run_def)

lemma run_mono: "run f f' s s' \<Longrightarrow> mono_log s s'"
  by (simp add: run_def)

lemma runD: "run f f' s s' \<Longrightarrow> small s' \<Longrightarrow> good f s \<Longrightarrow> bal f f' s s' \<and> good f' s'"
  by (simp add: run_def)

lemma runI:
  "mono_log s s' \<Longrightarrow> (small s' \<Longrightarrow> good f s \<Longrightarrow> bal f f' s s' \<and> good f' s') \<Longrightarrow> run f f' s s'"
  by (simp add: run_def)

lemma run_trans [trans]:
  assumes "run f f1 s s1" "run f1 f2 s1 s2"
  shows "run f f2 s s2"
  using assms small_mono bal_trans mono_log_trans unfolding run_def by meson

text \<open>A run that may use what the invariant says about its start.\<close>

lemma run_good:
  assumes "mono_log s s'" "good f s \<Longrightarrow> small s \<Longrightarrow> run f f' s s'"
  shows "run f f' s s'"
  using assms small_mono unfolding run_def by blast

lemma good_tight: "good (tight f) s \<Longrightarrow> good f s"
  by (simp add: good_def)

lemma run_slack:
  assumes "run (tight f) (tight f) s s'"
  shows "run (tight f) f s s'"
proof -
  have "bal (tight f) (tight f) s s' \<Longrightarrow> bal (tight f) f s s'" by (simp add: bal_defs)
  then show ?thesis using assms good_tight unfolding run_def by blast
qed

section \<open>Primitive changes\<close>

lemma upd_st_fields [simp]:
  "ws_log (upd_st i g s) = ws_log s" "ws_conn (upd_st i g s) = ws_conn s" "ws_ev (upd_st i g s) = ws_ev s"
  "ws_freed (upd_st i g s) = ws_freed s" "ws_cb_depth (upd_st i g s) = ws_cb_depth s"
  "ws_refs (upd_st i g s) = ws_refs s" "ws_receive_quantum (upd_st i g s) = ws_receive_quantum s"
  "ws_admission (upd_st i g s) = ws_admission s" "ws_commit_depth (upd_st i g s) = ws_commit_depth s"
  "ws_closed_deferred (upd_st i g s) = ws_closed_deferred s" "ws_terminal_fired (upd_st i g s) = ws_terminal_fired s"
  "length (ws_streams (upd_st i g s)) = length (ws_streams s)" "ws_budgeted (upd_st i g s) = ws_budgeted s"
  by (simp_all add: upd_st_def)

lemma upd_st_nth:
  "n < length (ws_streams s) \<Longrightarrow> ws_streams (upd_st i g s) ! n = (if n = i then g (ws_streams s ! n) else ws_streams s ! n)"
  by (auto simp: upd_st_def)

lemma terminal_upd [simp]:
  "terminals (upd_st i g s) = terminals s" "due (upd_st i g s) = due s" "told (upd_st i g s) = told s"
  by (simp_all add: terminals_def due_def told_def)

text \<open>A change of one slot: the references, the engine stream and the commit flag decide.\<close>

definition slot_step :: "(nat \<Rightarrow> nat) \<Rightarrow> (nat \<Rightarrow> nat) \<Rightarrow> nat \<Rightarrow> wtq_stream \<Rightarrow> wtq_stream \<Rightarrow> nat \<Rightarrow> bool" where
  "slot_step h h' i st st' n \<longleftrightarrow>
     (unat (st_refs st) = unat (st_app_refs st) + (if st_alive st then 1 else 0) + h i \<longrightarrow>
        unat (st_app_refs st) \<le> n \<longrightarrow>
        unat (st_refs st') = unat (st_app_refs st') + (if st_alive st' then 1 else 0) + h' i
        \<and> unat (st_app_refs st') \<le> n)"

lemma run_upd:
  assumes h: "\<And>n. n \<noteq> i \<Longrightarrow> fr_holds f' n = fr_holds f n"
    and f: "fr_brackets f' = fr_brackets f" "fr_debt f' = fr_debt f"
    and slack: "good f s \<Longrightarrow> int (length (fr_held f')) \<le> 2 * int (length (ws_log s)) + fr_slack f'"
    and step: "good f s \<Longrightarrow> small s \<Longrightarrow> i < length (ws_streams s) \<Longrightarrow> ws_receive_quantum s = 0
      \<Longrightarrow> slot_step (fr_holds f) (fr_holds f') i (ws_streams s ! i) (g (ws_streams s ! i)) (length (ws_log s))"
    and es: "good f s \<Longrightarrow> i < length (ws_streams s) \<Longrightarrow> (\<forall>j. st_es (g (ws_streams s ! i)) = Some j \<longrightarrow>
        st_es (ws_streams s ! i) = Some j \<or> j < length (peer (ws_conn s)))"
    and commit: "good f s \<Longrightarrow> i < length (ws_streams s) \<Longrightarrow> st_send_commit (g (ws_streams s ! i))
        \<Longrightarrow> st_send_commit (ws_streams s ! i) \<or> ws_ev s EV_stream_send_committed"
  shows "run f f' s (upd_st i g s)"
proof (rule runI)
  assume sm: "small (upd_st i g s)" and g: "good f s"
  have sm': "small s" using sm by (simp add: small_def)
  have "bal f f' s (upd_st i g s)" using f by (simp add: bal_defs)
  moreover have "es_ok (upd_st i g s)"
    using g es unfolding good_def es_ok_def by (auto simp: upd_st_nth)
  moreover have "callbacks_ok (upd_st i g s)"
    using g commit unfolding good_def callbacks_ok_def by (auto simp: upd_st_nth)
  moreover have "ws_receive_quantum s = 0 \<longrightarrow> slots_acc (fr_holds f') (upd_st i g s)"
    using g h step [OF g sm'] unfolding good_def slots_acc_def slot_step_def
    by (auto simp: upd_st_nth Let_def)
  ultimately show "bal f f' s (upd_st i g s) \<and> good f' (upd_st i g s)"
    using g f slack [OF g] by (simp add: good_def)
qed (simp add: mono_log_def)

text \<open>A change of fields that no part of the invariant reads.\<close>

lemma run_same:
  assumes "ws_log s' = ws_log s" "ws_conn s' = ws_conn s" "ws_ev s' = ws_ev s" "ws_freed s' = ws_freed s"
    "ws_cb_depth s' = ws_cb_depth s" "ws_refs s' = ws_refs s" "ws_receive_quantum s' = ws_receive_quantum s"
    "ws_admission s' = ws_admission s" "ws_commit_depth s' = ws_commit_depth s"
    "ws_closed_deferred s' = ws_closed_deferred s" "ws_terminal_fired s' = ws_terminal_fired s"
    "ws_streams s' = ws_streams s"
  shows "run f f s s'"
  using assms
  by (simp add: run_def mono_log_def bal_defs good_def es_ok_def callbacks_ok_def slots_acc_def terminals_def due_def)

lemma run_weaken: "run f (tight f') s s' \<Longrightarrow> run f f' s s'"
  using good_tight unfolding run_def by (auto simp: bal_defs)

lemma run_log:
  assumes "e \<noteq> SESSION_FREED" "\<not> api_terminal e" "\<And>m. ev_member_of e = Some m \<Longrightarrow> ws_ev s m"
  shows "run f (tight f) s (log_event e s)"
proof (rule runI)
  assume g: "good f s"
  have "unat (ws_refs s) \<le> 2 + length (ws_log s)" using g by (simp add: good_def)
  then have "good (tight f) (log_event e s)"
    using g assms unfolding good_def by (auto simp: log_event_def es_ok_def callbacks_ok_def slots_acc_def Let_def le_Suc_eq)
  then show "bal f (tight f) s (log_event e s) \<and> good (tight f) (log_event e s)"
    using assms by (simp add: bal_defs terminals_def due_def told_def log_event_def)
qed (simp add: mono_log_def log_event_def)

lemma run_log_terminal:
  assumes "api_terminal e" "\<And>m. ev_member_of e = Some m \<Longrightarrow> ws_ev s m"
  shows "run (owed f) (tight f) s (log_event e s)"
proof (rule runI)
  assume g: "good (owed f) s"
  have e: "e \<noteq> SESSION_FREED" using assms(1) by auto
  have "unat (ws_refs s) \<le> 2 + length (ws_log s)" using g by (simp add: good_def)
  then have "good (tight f) (log_event e s)"
    using g assms unfolding good_def by (auto simp: log_event_def es_ok_def callbacks_ok_def slots_acc_def Let_def le_Suc_eq)
  then show "bal (owed f) (tight f) s (log_event e s) \<and> good (tight f) (log_event e s)"
    using assms e by (simp add: bal_defs terminals_def due_def told_def log_event_def)
qed (simp add: mono_log_def log_event_def)

lemma run_enter: "run f (opened f) s (session_enter s)"
  by (simp add: run_def mono_log_def session_enter_def bal_defs good_def es_ok_def callbacks_ok_def slots_acc_def
      terminals_def due_def told_def)

lemma run_exit: "run (opened f) f s (session_exit s)"
proof (rule runI)
  assume g: "good (opened f) s"
  then have d: "fr_brackets f + 1 < ws_cb_depth s" by (simp add: good_def)
  then have e: "session_exit s = s\<lparr>ws_cb_depth := ws_cb_depth s - 1\<rparr>" by (simp add: session_exit_def Let_def)
  show "bal (opened f) f s (session_exit s) \<and> good f (session_exit s)"
    unfolding e using g d
    by (auto simp: bal_defs good_def es_ok_def callbacks_ok_def slots_acc_def terminals_def due_def told_def)
qed (simp add: mono_log_def session_exit_def session_destroy_def log_event_def Let_def)

text \<open>The references of a slot.\<close>

lemma small_refs:
  assumes "small s" "good f s" "i < length (ws_streams s)" "ws_receive_quantum s = 0" "fr_slack f \<le> 4"
  shows "unat (st_refs (ws_streams s ! i)) < 2 ^ 31"
proof -
  have acc: "unat (st_refs (ws_streams s ! i)) =
      unat (st_app_refs (ws_streams s ! i)) + (if st_alive (ws_streams s ! i) then 1 else 0) + fr_holds f i"
    "unat (st_app_refs (ws_streams s ! i)) \<le> length (ws_log s)"
    using assms by (auto simp: good_def slots_acc_def Let_def)
  have "int (length (fr_held f)) \<le> 2 * int (length (ws_log s)) + fr_slack f" using assms(2) by (simp add: good_def)
  then have "int (fr_holds f i) \<le> 2 * int (length (ws_log s)) + fr_slack f"
    using count_le_length [of "fr_held f" i] by (simp add: fr_holds_def)
  then show ?thesis using acc assms(1,5) by (simp add: small_def split: if_splits)
qed

lemma unat_succ: "unat (w :: u32) < 2 ^ 31 \<Longrightarrow> unat (w + 1) = unat w + 1"
  by (simp add: unat_word_ariths)

lemma unat_pred: "w \<noteq> (0 :: u32) \<Longrightarrow> unat (w - 1) = unat w - 1"
  by (metis diff_Suc_1 measure_unat plus_1_eq_Suc unat_minus_one)

lemma run_hold:
  assumes "fr_slack f \<le> 4"
  shows "run f (held i f) s (stream_hold i s)"
  unfolding stream_hold_def
proof (rule run_upd)
  assume "good f s"
  then show "int (length (fr_held (held i f))) \<le> 2 * int (length (ws_log s)) + fr_slack (held i f)"
    by (simp add: good_def)
next
  assume s: "good f s" "small s" "i < length (ws_streams s)" "ws_receive_quantum s = 0"
  show "slot_step (fr_holds f) (fr_holds (held i f)) i (ws_streams s ! i)
      ((ws_streams s ! i)\<lparr>st_refs := st_refs (ws_streams s ! i) + 1\<rparr>) (length (ws_log s))"
    using unat_succ [OF small_refs [OF s(2,1,3,4) assms]] by (simp add: slot_step_def)
qed simp_all

lemma run_unhold: "run (held i f) f s (upd_st i stream_unhold s)"
proof (rule run_upd)
  assume "good (held i f) s"
  then show "int (length (fr_held f)) \<le> 2 * int (length (ws_log s)) + fr_slack f"
    by (simp add: good_def)
next
  show "slot_step (fr_holds (held i f)) (fr_holds f) i (ws_streams s ! i) (stream_unhold (ws_streams s ! i))
      (length (ws_log s))"
  proof (cases "st_refs (ws_streams s ! i) = 0")
    case False
    then have "st_refs (ws_streams s ! i) > 0" by (simp add: word_neq_0_conv)
    then show ?thesis using unat_pred [OF False] by (simp add: slot_step_def stream_unhold_def)
  qed (simp add: slot_step_def)
qed (auto simp: stream_unhold_def split: if_splits)

lemma run_lease: "run f f s (log_event (LEASE ds b) s)"
  by (rule run_weaken, rule run_log) simp_all

lemma run_credit: "run f f s (upd_st i (\<lambda>st. st\<lparr>st_credit := x\<rparr>) s)"
  by (rule run_upd) (simp_all add: slot_step_def good_def)

lemma run_credit_release: "run f f s (stream_credit_release i s)"
  unfolding stream_credit_release_def Let_def using run_credit run_trans [OF run_credit run_lease] by simp

lemma run_slot_release: "run (held i f) f s (stream_slot_release i s)"
  unfolding stream_slot_release_def by (rule run_trans [OF run_unhold run_credit_release])

lemma run_drop: "run (held i f) f s (stream_drop i s)"
  unfolding stream_drop_def by (rule run_trans [OF run_unhold run_credit_release])

text \<open>An engine call that makes no callback.\<close>

lemma run_conn:
  assumes "good f s \<Longrightarrow> conn_op (ws_conn s) c" "trace c = trace (ws_conn s)"
    "length (peer c) = length (peer (ws_conn s))"
  shows "run f f s (s\<lparr>ws_conn := c\<rparr>)"
proof (rule runI)
  assume g: "good f s"
  then have "reachable c" using assms(1) reach_op by (auto simp: good_def)
  then show "bal f f s (s\<lparr>ws_conn := c\<rparr>) \<and> good f (s\<lparr>ws_conn := c\<rparr>)"
    using g assms(2,3)
    by (simp add: bal_defs good_def es_ok_def callbacks_ok_def slots_acc_def terminals_def due_def engine_ended_def)
qed (simp add: mono_log_def)

lemma run_set_user: "run f f s (with_conn (wtq_estream_set_user j u) s)"
proof (cases "j < length (peer (ws_conn s))")
  case True
  then show ?thesis
    unfolding with_conn_def
    by (intro run_conn) (use op_set_user in \<open>auto simp: wtq_estream_set_user_def peer_upd_es\<close>)
next
  case False
  then have "wtq_estream_set_user j u (ws_conn s) = ws_conn s"
    by (simp add: wtq_estream_set_user_def upd_es_def list_update_beyond)
  then show ?thesis by (simp add: with_conn_def)
qed

end
