(* ===== verification/Api_Runs.thy ===== *)
theory Api_Runs
  imports Api_Frames
begin

text \<open>
  The adapters and the public functions keep the invariant of \<open>Api_Frames\<close>, under
  any application that keeps it. The locale states what is asked of the
  application's reaction; the reactions of the model meet it, because all they do
  is call these functions.
\<close>

section \<open>Slots\<close>

lemma run_unlink:
  assumes "st_alive (ws_streams s ! i)"
  shows "run f (held i f) s (stream_unlink i s)"
proof -
  let ?d = "upd_st i (\<lambda>st. st\<lparr>st_alive := False\<rparr>) s"
  have d: "run f (held i f) s ?d"
    by (rule run_upd) (use assms in \<open>auto simp: slot_step_def good_def\<close>)
  show ?thesis
  proof (cases "st_es (ws_streams ?d ! i)")
    case None
    then show ?thesis using d by (simp add: stream_unlink_def Let_def)
  next
    case (Some j)
    let ?e = "upd_st i (\<lambda>st. st\<lparr>st_id := wtq_estream_id (Some j) (ws_conn ?d)\<rparr>) ?d"
    let ?u = "with_conn (wtq_estream_set_user j None) ?e"
    have 1: "run g g ?d ?e" for g by (rule run_upd) (auto simp: slot_step_def good_def)
    have 2: "run g g ?e ?u" for g by (rule run_set_user)
    have 3: "run g g ?u (upd_st i (\<lambda>st. st\<lparr>st_es := None\<rparr>) ?u)" for g
      by (rule run_upd) (auto simp: slot_step_def good_def)
    have e: "stream_unlink i s = upd_st i (\<lambda>st. st\<lparr>st_es := None\<rparr>) ?u"
      using Some by (simp add: stream_unlink_def Let_def)
    show ?thesis unfolding e
      by (rule run_trans [OF d run_trans [OF 1 run_trans [OF 2 3]]])
  qed
qed

text \<open>A fresh occupant of a free slot.\<close>

lemma run_fresh:
  assumes "st_refs (ws_streams s ! i) = 0" "\<And>j. es = Some j \<Longrightarrow> j < length (peer (ws_conn s))"
  shows "run f f s (upd_st i (\<lambda>_. stream_fresh es bidi local sid) s)"
  by (rule run_upd) (use assms in \<open>auto simp: slot_step_def stream_fresh_def stream_zero_def good_def\<close>)

lemma acquire_cases:
  assumes "stream_acquire es bidi local sid s = (r, s')"
  obtains (none) "r = None" "s' = s"
  | (some) i where "r = Some i" "valid_stream s i" "st_refs (ws_streams s ! i) = 0"
      "s' = (let t = upd_st i (\<lambda>_. stream_fresh es bidi local sid) s
             in case es of Some j \<Rightarrow> if ws_admission t then stream_lease i j t else t | None \<Rightarrow> t)"
proof (cases "find (acquire_free es local s) (acquire_range es local s)")
  case None
  then show ?thesis using assms none by (simp add: stream_acquire_def)
next
  case (Some i)
  then have "acquire_free es local s i" "i \<in> set (acquire_range es local s)"
    by (auto simp: find_Some_iff)
  moreover from this have "valid_stream s i"
    by (auto simp: acquire_range_def valid_stream_def Let_def split: if_splits)
  ultimately show ?thesis
    using assms some [of i] Some by (simp add: stream_acquire_def acquire_free_def Let_def)
qed

lemma run_stream_lease: "run f f s (stream_lease i j s)"
  unfolding stream_lease_def Let_def by (rule run_trans [OF run_credit run_lease])

lemma run_acquire:
  assumes "stream_acquire es bidi local sid s = (r, s')" "\<And>j. es = Some j \<Longrightarrow> j < length (peer (ws_conn s))"
  shows "run f f s s'"
  using assms(1)
proof (cases rule: acquire_cases)
  case (some i)
  have "run f f s (upd_st i (\<lambda>_. stream_fresh es bidi local sid) s)"
    by (rule run_fresh) (use some assms(2) in simp_all)
  then show ?thesis
    using some run_trans [OF _ run_stream_lease] by (cases es) (simp_all add: Let_def)
qed simp

lemma mono_lease [simp]: "mono_log s (stream_lease i j s)"
  by (simp add: mono_log_def stream_lease_def log_event_def Let_def)

lemma acquire_mono: "stream_acquire es bidi local sid s = (r, s') \<Longrightarrow> mono_log s s'"
proof (erule acquire_cases)
  fix i
  have "mono_log s (stream_lease i j (upd_st i g s))" for j g
    using mono_log_trans [OF _ mono_lease, of s "upd_st i g s"] by (simp add: mono_log_def)
  then show "s' = (let t = upd_st i (\<lambda>_. stream_fresh es bidi local sid) s
      in case es of Some j \<Rightarrow> if ws_admission t then stream_lease i j t else t | None \<Rightarrow> t) \<Longrightarrow> mono_log s s'"
    by (auto simp: Let_def mono_log_def split: option.splits)
qed simp

lemma run_fold: "(\<And>x s. run f f s (g x s)) \<Longrightarrow> run f f s (fold g xs s)"
proof (induction xs arbitrary: s)
  case (Cons x xs)
  then show ?case using run_trans [of f f s "g x s"] by simp
qed simp

section \<open>The terminal latch\<close>

lemma run_freeze: "run f f s (stream_budget_freeze s)"
  by (rule run_same) (simp_all add: stream_budget_freeze_def)

lemma seal_fields: "trace (wtq_conn_seal_transport_error c) = trace c" "peer (wtq_conn_seal_transport_error c) = peer c"
  by (simp_all add: wtq_conn_seal_transport_error_def conn_latch_error_def)

lemma run_seal: "run f f s (with_conn wtq_conn_seal_transport_error s)"
  unfolding with_conn_def by (rule run_conn) (simp_all add: seal_fields op_seal_error)

lemma run_fired:
  assumes "\<not> ws_terminal_fired s"
  shows "run f (owed f) s (s\<lparr>ws_terminal_fired := True\<rparr>)"
  using assms
  by (simp add: run_def mono_log_def bal_defs good_def es_ok_def callbacks_ok_def slots_acc_def terminals_def due_def)

lemma run_latch:
  assumes "\<not> ws_terminal_fired s"
  shows "run f (owed f) s (terminal_latch failure s)"
proof -
  let ?a = "stream_budget_freeze s"
  let ?b = "?a\<lparr>ws_terminal_fired := True\<rparr>"
  let ?c = "if failure then ?b\<lparr>ws_failed := True\<rparr> else ?b"
  have "\<not> ws_terminal_fired ?a" using assms by (simp add: stream_budget_freeze_def)
  then have 1: "run f (owed f) s ?b" using run_trans [OF run_freeze run_fired] by blast
  have "run (owed f) (owed f) ?b ?c" by (rule run_same) simp_all
  then show ?thesis
    unfolding terminal_latch_def Let_def using run_trans [OF run_trans [OF 1] run_seal] by simp
qed

lemma latch_fired [simp]: "ws_terminal_fired (terminal_latch failure s)"
  by (simp add: terminal_latch_def with_conn_def Let_def)

section \<open>The application\<close>

locale application =
  fixes app :: "wtq_session \<Rightarrow> wtq_session"
  assumes app_run: "fr_slack f \<le> 0 \<Longrightarrow> run f f s (app s)"
begin

lemma app_mono: "mono_log s (app s)"
  using run_mono [OF app_run [of "\<lparr>fr_slack = 0, fr_held = [], fr_debt = 0, fr_brackets = 0\<rparr>"]] by simp

lemma run_called:
  assumes "run f (tight g) s (log_event e s)" "fr_slack g \<le> 2"
  shows "run f g s (app (log_event e s))"
  using run_trans [OF assms(1) run_slack [OF app_run]] assms(2) by simp

lemma run_fire:
  assumes "\<not> api_terminal e" "fr_slack f \<le> 2"
  shows "run f f s (fire app e s)"
proof (cases "ev_member_of e")
  case (Some m)
  have "ws_ev s m \<Longrightarrow> run f (tight f) s (log_event e s)"
    by (rule run_log) (use assms Some in auto)
  then show ?thesis using run_called assms(2) Some by (simp add: fire_def)
qed (simp add: fire_def)

lemma run_fire_terminal:
  assumes "api_terminal e" "fr_slack f \<le> 2"
  shows "run (owed f) f s (fire app e s)"
proof -
  obtain m where m: "ev_member_of e = Some m" "m = EV_refused \<or> m = EV_failed \<or> m = EV_closed"
    using assms(1) by (cases e) auto
  show ?thesis
  proof (cases "ws_ev s m")
    case True
    have "run (owed f) (tight f) s (log_event e s)" by (rule run_log_terminal) (use assms(1) m(1) True in auto)
    then show ?thesis using run_called assms(2) True m(1) by (simp add: fire_def)
  next
    case False
    then have "\<not> told s" using m(2) by (auto simp: told_def)
    moreover have "fire app e s = s" using False m(1) by (simp add: fire_def)
    ultimately show ?thesis by (auto simp: run_def bal_defs good_def)
  qed
qed

lemma run_terminal:
  assumes "fr_slack f \<le> 1"
  shows "run f f s (stream_terminal app i s)"
proof (cases "st_alive (ws_streams s ! i)")
  case True
  have "run (held i f) (held i f) (stream_unlink i s) (fire app (ON_STREAM_CLOSED i) (stream_unlink i s))"
    by (rule run_fire) (use assms in simp_all)
  then show ?thesis
    using True run_trans [OF run_unlink [OF True] run_trans [OF _ run_slot_release]]
    by (simp add: stream_terminal_def Let_def)
qed (simp add: stream_terminal_def)

lemma run_maybe_terminal: "fr_slack f \<le> 1 \<Longrightarrow> run f f s (stream_maybe_terminal app i s)"
  by (simp add: stream_maybe_terminal_def Let_def run_terminal)

lemma run_halves:
  assumes "\<And>st. st_refs (g st) = st_refs st" "\<And>st. st_app_refs (g st) = st_app_refs st"
    "\<And>st. st_alive (g st) = st_alive st" "\<And>st. st_es (g st) = st_es st"
    "\<And>st. st_send_commit (g st) = st_send_commit st"
  shows "run f f s (upd_st i g s)"
  by (rule run_upd) (use assms in \<open>auto simp: slot_step_def good_def\<close>)

lemma run_both_shut: "run f f s (upd_st i both_shut s)"
  by (rule run_halves) (simp_all add: both_shut_def)

lemma run_teardown_one: "fr_slack f \<le> 1 \<Longrightarrow> run f f s (teardown_one app i s)"
  by (simp add: teardown_one_def Let_def run_trans [OF run_both_shut run_terminal])

lemma run_teardown:
  assumes "fr_slack f \<le> 1"
  shows "run f f s (streams_teardown app s)"
proof -
  have "run f f s (fold (teardown_one app) xs s)" for xs
    by (rule run_fold) (rule run_teardown_one [OF assms])
  then show ?thesis by (simp add: streams_teardown_def)
qed

text \<open>The adapters are brackets, most of them with the slot held.\<close>

lemma run_bracket: "run (opened f) (opened f) (session_enter s) s1 \<Longrightarrow> run f f s (session_exit s1)"
  using run_trans [OF run_enter run_trans [OF _ run_exit]] .

lemma run_held_bracket:
  assumes "fr_slack f \<le> 4"
    "run (held i (opened f)) (held i (opened f)) (stream_hold i (session_enter s)) s1"
  shows "run f f s (session_exit (stream_drop i s1))"
proof (rule run_bracket)
  show "run (opened f) (opened f) (session_enter s) (stream_drop i s1)"
    using assms(1) by (intro run_trans [OF run_hold run_trans [OF assms(2) run_drop]]) simp
qed

lemma run_recv_shut: "run f f s (upd_st i (\<lambda>st. st\<lparr>st_recv_open := False\<rparr>) s)"
  by (rule run_halves) simp_all

lemma run_send_shut: "run f f s (upd_st i (\<lambda>st. st\<lparr>st_send_open := False, st_fin_pending := False\<rparr>) s)"
  by (rule run_halves) simp_all

lemma run_if: "(b \<Longrightarrow> run f f s t) \<Longrightarrow> run f f s (if b then t else s)"
  by simp

lemma run_established:
  assumes "fr_slack f \<le> 0"
  shows "run f f s (adapt_established app sel profile s)"
proof -
  let ?s = "(session_enter s)\<lparr>ws_established_seen := True, ws_profile := Some (api_public_profile profile)\<rparr>"
  have "run (opened f) (opened f) (session_enter s) ?s" by (rule run_same) simp_all
  moreover have "run (opened f) (opened f) ?s (fire app (ON_ESTABLISHED sel) ?s)"
    using assms by (intro run_fire) simp_all
  ultimately show ?thesis unfolding adapt_established_def Let_def by (intro run_bracket) (rule run_trans)
qed

lemma run_told:
  assumes "api_terminal e" "fr_slack f \<le> 0"
  shows "run f f s (session_exit (if \<not> ws_terminal_fired (session_enter s)
           then fire app e (terminal_latch failure (session_enter s)) else session_enter s))"
  using run_trans [OF run_latch run_fire_terminal [OF assms(1)]] assms(2) by (intro run_bracket run_if) simp

lemma run_told_teardown:
  assumes "api_terminal e" "fr_slack f \<le> 1" "\<not> ws_terminal_fired s"
  shows "run f f s (fire app e (streams_teardown app (terminal_latch failure s)))"
  using run_trans [OF run_latch [OF assms(3)] run_trans [OF run_teardown run_fire_terminal [OF assms(1)]]] assms(2)
  by simp

lemma run_rejected: "fr_slack f \<le> 0 \<Longrightarrow> run f f s (adapt_rejected app status s)"
  unfolding adapt_rejected_def Let_def by (rule run_told) simp_all

lemma run_failed: "fr_slack f \<le> 0 \<Longrightarrow> run f f s (adapt_failed app why s)"
  unfolding adapt_failed_def Let_def by (rule run_told) simp_all

lemma run_conn_error: "fr_slack f \<le> 0 \<Longrightarrow> run f f s (adapt_conn_error app err s)"
  unfolding adapt_conn_error_def Let_def by (intro run_bracket run_if run_told_teardown) simp_all

text \<open>The close is delivered, or kept because a commit callback is running.\<close>

lemma run_close:
  assumes "fr_slack f \<le> 1" "\<not> ws_terminal_fired s"
    and t: "t = streams_teardown app (terminal_latch False s)"
    and u: "u = (if ws_commit_depth t \<noteq> 0
                 then t\<lparr>ws_closed_deferred := True, ws_deferred_close_code := code,
                        ws_deferred_close_clean := clean, ws_deferred_reason := reason\<rparr>
                 else fire app (ON_CLOSED code reason clean) t)"
  shows "run f f s u"
proof (cases "ws_commit_depth t = 0")
  case True
  then show ?thesis
    using run_told_teardown [of "ON_CLOSED code reason clean" f s False] assms by simp
next
  case False
  let ?l = "terminal_latch False s"
  have l: "run f (owed f) s ?l" using assms(2) by (rule run_latch)
  have d: "run (owed f) (owed f) ?l t" unfolding t using assms(1) by (intro run_teardown) simp
  show ?thesis
  proof (rule runI)
    show "mono_log s u" using run_mono [OF run_trans [OF l d]] False by (simp add: u mono_log_def)
    assume sm: "small u" and g: "good f s"
    have sm: "small t" "small ?l"
      using sm False small_mono [OF run_mono [OF d]] by (simp_all add: u small_def)
    have 1: "bal f (owed f) s ?l" "good (owed f) ?l" using runD [OF l sm(2) g] by simp_all
    have 2: "bal (owed f) (owed f) ?l t" "good (owed f) t" using runD [OF d sm(1) 1(2)] by simp_all
    have 3: "bal f (owed f) s t" by (rule bal_trans [OF 1(1) 2(1)])
    have "\<not> ws_closed_deferred s" using g assms(2) by (auto simp: good_def)
    then have "\<not> ws_closed_deferred ?l" by (simp add: terminal_latch_def stream_budget_freeze_def with_conn_def Let_def)
    then have nd: "\<not> ws_closed_deferred t" "ws_terminal_fired t" using 2(1) by (auto simp: bal_defs)
    show "bal f f s u \<and> good f u"
      using 3 2(2) nd False assms(2)
      by (simp add: u bal_defs good_def es_ok_def callbacks_ok_def slots_acc_def terminals_def due_def told_def)
  qed
qed

lemma run_session_closed: "fr_slack f \<le> 0 \<Longrightarrow> run f f s (adapt_session_closed app code reason clean s)"
  unfolding adapt_session_closed_def Let_def by (intro run_bracket run_if run_close [OF _ _ refl refl]) simp_all

text \<open>Streams: the slot is held.\<close>

lemma run_held_fire:
  assumes "\<not> api_terminal e" "fr_slack f \<le> 0"
  shows "run (held i (opened f)) (held i (opened f)) s (fire app e s)"
  by (rule run_fire) (use assms in simp_all)

lemma run_held_maybe:
  "fr_slack f \<le> 0 \<Longrightarrow> run (held i (opened f)) (held i (opened f)) s (stream_maybe_terminal app i s)"
  by (rule run_maybe_terminal) simp

lemma run_adapter:
  assumes "fr_slack f \<le> 0"
    "\<And>i. run (held i (opened f)) (held i (opened f)) (stream_hold i (session_enter s)) (g i)"
  shows "run f f s (case handle_of s j of None \<Rightarrow> s | Some i \<Rightarrow> session_exit (stream_drop i (g i)))"
  using run_held_bracket [OF _ assms(2)] assms(1) by (simp split: option.split)

lemmas run_recv_end = run_if [OF run_trans [OF run_recv_shut run_held_maybe]]

lemma run_data: "fr_slack f \<le> 0 \<Longrightarrow> run f f s (adapt_stream_data app j data fin s)"
  unfolding adapt_stream_data_def Let_def
  by (rule run_adapter, simp, rule run_trans [OF run_held_fire run_recv_end]) simp_all

lemma run_reset: "fr_slack f \<le> 0 \<Longrightarrow> run f f s (adapt_stream_reset app j app_code s)"
  unfolding adapt_stream_reset_def Let_def
  by (rule run_adapter, simp, rule run_trans [OF run_held_fire run_recv_end]) simp_all

lemma run_stop: "fr_slack f \<le> 0 \<Longrightarrow> run f f s (adapt_stream_stop app j app_code s)"
  unfolding adapt_stream_stop_def Let_def
  by (rule run_adapter, simp,
      rule run_trans [OF run_if [OF run_send_shut] run_trans [OF run_held_fire run_if [OF run_held_maybe]]]) simp_all

lemma run_stream_terminal: "fr_slack f \<le> 0 \<Longrightarrow> run f f s (adapt_stream_terminal app j s)"
  unfolding adapt_stream_terminal_def Let_def
  by (rule run_adapter, simp, rule run_if [OF run_trans [OF run_both_shut run_held_maybe]]) simp_all

lemma run_writable: "fr_slack f \<le> 0 \<Longrightarrow> run f f s (adapt_stream_writable app j s)"
  unfolding adapt_stream_writable_def Let_def
  by (rule run_adapter, simp, rule run_held_fire) simp_all

lemma run_bracket_fire:
  "\<not> api_terminal e \<Longrightarrow> fr_slack f \<le> 0 \<Longrightarrow> run f f s (session_exit (fire app e (session_enter s)))"
  by (intro run_bracket run_fire) simp_all

text \<open>
  The commit callback: the depth rises around it, and the close that it may have
  made wait follows at depth zero.
\<close>

lemma run_committing:
  assumes f: "fr_slack f \<le> 0" and v: "valid_stream s i" "st_send_commit (ws_streams s ! i)"
    and e: "ws_ev s EV_stream_send_committed"
    and s2: "s2 = app (log_event (ON_STREAM_SEND_COMMITTED i) (s\<lparr>ws_commit_depth := ws_commit_depth s + 1\<rparr>))"
    and s3: "s3 = stream_drop i (stream_slot_release i (fire app (ON_STREAM_CLOSED i)
                    (s2\<lparr>ws_commit_depth := ws_commit_depth s2 - 1\<rparr>)))"
  shows "run (held i (held i (opened f))) (opened f) s (closed_flush app s3)"
proof -
  let ?F = "held i (held i (opened f))"
  let ?a = "s\<lparr>ws_commit_depth := ws_commit_depth s + 1\<rparr>" and ?b = "s2\<lparr>ws_commit_depth := ws_commit_depth s2 - 1\<rparr>"
  have a: "run ?F (tight ?F) ?a (log_event (ON_STREAM_SEND_COMMITTED i) ?a)"
    by (rule run_log) (use e in simp_all)
  have 1: "run ?F ?F ?a s2" unfolding s2 by (rule run_called [OF a]) (use f in simp)
  have c: "run ?F ?F ?b (fire app (ON_STREAM_CLOSED i) ?b)" by (rule run_fire) (use f in simp_all)
  have 2: "run ?F (opened f) ?b s3" unfolding s3
    by (rule run_trans [OF c run_trans [OF run_slot_release run_drop]])
  let ?n = "s3\<lparr>ws_closed_deferred := False\<rparr>"
  let ?on = "fire app (ON_CLOSED (ws_deferred_close_code s3) (ws_deferred_reason s3) (ws_deferred_close_clean s3)) ?n"
  have 3: "run (owed (opened f)) (opened f) ?n ?on" by (rule run_fire_terminal) (use f in simp_all)
  have m: "mono_log s3 (closed_flush app s3)"
    using run_mono [OF 3] by (simp add: closed_flush_def mono_log_def)
  show ?thesis
  proof (rule runI)
    show "mono_log s (closed_flush app s3)"
      using run_mono [OF 1] run_mono [OF 2] m by (simp add: mono_log_def)
    assume sm: "small (closed_flush app s3)" and g: "good ?F s"
    have sm3: "small s3" using small_mono [OF m sm] .
    have sm2: "small s2" using small_mono [OF run_mono [OF 2] sm3] by (simp add: small_def)
    have gf: "good F (t\<lparr>ws_commit_depth := x\<rparr>) = good F t" for F t x
      by (simp add: good_def es_ok_def callbacks_ok_def slots_acc_def)
    have ga: "good ?F ?a" using g by (simp only: gf)
    have b1: "bal ?F ?F ?a s2" "good ?F s2" using runD [OF 1 sm2 ga] by simp_all
    have gb: "good ?F ?b" using b1(2) by (simp only: gf)
    have b2: "bal ?F (opened f) ?b s3" "good (opened f) s3" using runD [OF 2 sm3 gb] by simp_all
    have "bal0 ?F ?F s s2"
      using b1(1) unfolding bal_def bal0_def log_bal_def const_bal_def terminal_bal_def
      by (simp add: terminals_def due_def told_def)
    moreover have "bal0 ?F (opened f) s2 s3"
      using b2(1) unfolding bal_def bal0_def log_bal_def const_bal_def terminal_bal_def
      by (simp add: terminals_def due_def told_def)
    ultimately have b3: "bal0 ?F (opened f) s s3" by (rule bal0_trans)
    have d: "ws_commit_depth s3 = ws_commit_depth s" "ws_commit_depth s2 = ws_commit_depth s + 1"
      using b1(1) b2(1) by (simp_all add: bal_def commit_bal_def)
    show "bal ?F (opened f) s (closed_flush app s3) \<and> good (opened f) (closed_flush app s3)"
    proof (cases "ws_commit_depth s3 = 0 \<and> ws_closed_deferred s3")
      case True
      then have fl: "closed_flush app s3 = ?on" by (simp add: closed_flush_def)
      have "bal0 (opened f) (owed (opened f)) s3 ?n" "good (owed (opened f)) ?n"
        using True b2(2)
        by (simp_all add: bal0_def log_bal_def const_bal_def terminal_bal_def terminals_def due_def told_def good_def
            es_ok_def callbacks_ok_def slots_acc_def)
      moreover have "bal (owed (opened f)) (opened f) ?n ?on \<and> good (opened f) ?on"
        using runD [OF 3] sm calculation(2) by (simp add: fl)
      moreover from this have "commit_bal s ?on" using True d by (simp add: bal_def commit_bal_def)
      ultimately show ?thesis
        unfolding fl bal_def using bal0_trans [OF b3 bal0_trans] by blast
    next
      case False
      then have fl: "closed_flush app s3 = s3" unfolding closed_flush_def by (rule if_not_P)
      have "commit_bal s s3" using False d by (auto simp: commit_bal_def)
      then show ?thesis using b3 b2(2) by (simp add: fl bal_def)
    qed
  qed
qed

lemma handle_valid: "handle_of s j = Some i \<Longrightarrow> valid_stream s i"
  by (simp add: handle_of_def split: option.splits if_splits)

lemma unlink_fields [simp]:
  "ws_ev (stream_unlink i s) = ws_ev s" "length (ws_streams (stream_unlink i s)) = length (ws_streams s)"
  "ws_log (stream_unlink i s) = ws_log s" "ws_commit_depth (stream_unlink i s) = ws_commit_depth s"
  by (simp_all add: stream_unlink_def with_conn_def Let_def split: option.split)

lemma unlink_commit: "i < length (ws_streams s) \<Longrightarrow>
    st_send_commit (ws_streams (stream_unlink i s) ! i) = st_send_commit (ws_streams s ! i)"
  by (simp add: stream_unlink_def with_conn_def upd_st_def Let_def split: option.split)

lemma run_send_committed:
  assumes f: "fr_slack f \<le> 0"
  shows "run f f s (adapt_send_committed app j s)"
proof (cases "handle_of s j")
  case (Some i)
  let ?st = "ws_streams s ! i"
  show ?thesis
  proof (cases "\<not> st_alive ?st \<or> \<not> st_send_commit ?st \<or> \<not> st_fin_pending ?st")
    case False
    let ?h = "stream_hold i (session_enter s)"
    let ?o = "upd_st i (\<lambda>st. st\<lparr>st_fin_pending := False, st_send_open := False\<rparr>) ?h"
    let ?u = "stream_unlink i ?o"
    let ?F = "held i (held i (opened f))"
    have i: "i < length (ws_streams s)" using handle_valid [OF Some] by (simp add: valid_stream_def)
    have fields: "ws_ev ?u = ws_ev s" "valid_stream ?u i" "st_send_commit (ws_streams ?u ! i)"
      and alive: "st_alive (ws_streams ?o ! i)"
      using i False by (simp_all add: session_enter_def stream_hold_def valid_stream_def unlink_commit upd_st_nth)
    have "run f (opened f) s (session_enter s)" by (rule run_enter)
    also have "run (opened f) (held i (opened f)) (session_enter s) ?h" using f by (intro run_hold) simp
    also have "run (held i (opened f)) (held i (opened f)) ?h ?o" by (rule run_halves) simp_all
    also have "run (held i (opened f)) ?F ?o ?u" using alive by (rule run_unlink)
    finally have u: "run f ?F s ?u" .
    define s2 where "s2 = app (log_event (ON_STREAM_SEND_COMMITTED i) (?u\<lparr>ws_commit_depth := ws_commit_depth ?u + 1\<rparr>))"
    define s3 where "s3 = stream_drop i (stream_slot_release i (fire app (ON_STREAM_CLOSED i)
        (s2\<lparr>ws_commit_depth := ws_commit_depth s2 - 1\<rparr>)))"
    have c: "run ?F (opened f) ?u (closed_flush app s3)" if "ws_ev s EV_stream_send_committed"
      by (rule run_committing [OF f fields(2,3) _ s2_def s3_def], subst fields(1), rule that)
    have eq: "adapt_send_committed app j s = session_exit (closed_flush app s3)"
      using False Some by (simp add: adapt_send_committed_def s2_def s3_def Let_def)
    show ?thesis
    proof (rule run_good)
      assume g: "good f s"
      have "ws_ev s EV_stream_send_committed"
        using g i False by (auto simp: good_def callbacks_ok_def)
      then show "run f f s (adapt_send_committed app j s)"
        unfolding eq using run_trans [OF u run_trans [OF c run_exit]] by blast
    next
      have 1: "mono_log (?u\<lparr>ws_commit_depth := ws_commit_depth ?u + 1\<rparr>) s2"
        unfolding s2_def by (rule mono_log_trans [OF _ app_mono]) (simp add: mono_log_def log_event_def)
      have 2: "mono_log (s2\<lparr>ws_commit_depth := ws_commit_depth s2 - 1\<rparr>) s3"
        unfolding s3_def
        using run_mono [OF run_trans [OF run_fire run_trans [OF run_slot_release [of i "held i f"] run_drop]]] f by simp
      have "mono_log s3 (closed_flush app s3)"
        using run_mono [OF run_fire_terminal, of _ f "s3\<lparr>ws_closed_deferred := False\<rparr>"] f
        by (simp add: closed_flush_def mono_log_def)
      moreover have "mono_log t (session_exit t)" for t by (rule run_mono [OF run_exit [of f]])
      ultimately show "mono_log s (adapt_send_committed app j s)"
        unfolding eq using 1 2 mono_log_trans run_mono [OF u] by (simp add: mono_log_def) (meson order_trans)
    qed
  qed (use Some in \<open>simp add: adapt_send_committed_def Let_def\<close>)
qed (simp add: adapt_send_committed_def)

section \<open>Delivery\<close>

lemma run_dispatch_held: "fr_slack f \<le> 0 \<Longrightarrow> run f f s (dispatch_held app e s)"
  by (cases e) (simp_all add: dispatch_held_def run_conn_error run_established run_rejected run_failed run_session_closed
      run_data run_reset run_stop run_stream_terminal run_send_committed run_writable adapt_draining_def
      adapt_send_complete_def adapt_datagram_def run_bracket_fire)

text \<open>An outcome of the engine latches the session's terminal.\<close>

lemma fired_later:
  "run f g s s1 \<Longrightarrow> ws_terminal_fired s1 \<Longrightarrow> run g h s1 s2 \<Longrightarrow> small s2 \<Longrightarrow> good f s \<Longrightarrow> ws_terminal_fired s2"
  using small_mono unfolding run_def bal_def bal0_def terminal_bal_def by blast

lemma enter_fired [simp]: "ws_terminal_fired (session_enter s) = ws_terminal_fired s"
  by (simp add: session_enter_def)

lemma exit_fired [simp]: "ws_terminal_fired (session_exit s) = ws_terminal_fired s"
  by (simp add: session_exit_def session_destroy_def log_event_def Let_def)

lemma small_exit: "small (session_exit s) \<Longrightarrow> small s"
  by (auto simp: small_def session_exit_def session_destroy_def log_event_def Let_def split: if_splits)

lemma latched_fired:
  assumes "run (owed (opened f)) g (terminal_latch failure (session_enter s)) s1" "small s1" "good f s"
    "\<not> ws_terminal_fired s"
  shows "ws_terminal_fired s1"
proof -
  have "run f (owed (opened f)) s (terminal_latch failure (session_enter s))"
    using assms(4) by (intro run_trans [OF run_enter run_latch]) simp
  then show ?thesis by (rule fired_later [OF _ latch_fired assms(1,2,3)])
qed

lemma fired_rejected:
  assumes "fr_slack f \<le> 0" "good f s" "small (adapt_rejected app status s)"
  shows "ws_terminal_fired (adapt_rejected app status s)"
proof (cases "ws_terminal_fired s")
  case False
  then show ?thesis
    using latched_fired [OF run_fire_terminal small_exit assms(2)] assms by (simp add: adapt_rejected_def Let_def)
qed (simp add: adapt_rejected_def Let_def)

lemma fired_failed:
  assumes "fr_slack f \<le> 0" "good f s" "small (adapt_failed app why s)"
  shows "ws_terminal_fired (adapt_failed app why s)"
proof (cases "ws_terminal_fired s")
  case False
  then show ?thesis
    using latched_fired [OF run_fire_terminal small_exit assms(2)] assms by (simp add: adapt_failed_def Let_def)
qed (simp add: adapt_failed_def Let_def)

lemma fired_closed:
  assumes "fr_slack f \<le> 0" "good f s" "small (adapt_session_closed app code reason clean s)"
  shows "ws_terminal_fired (adapt_session_closed app code reason clean s)"
proof (cases "ws_terminal_fired s")
  case False
  let ?t = "streams_teardown app (terminal_latch False (session_enter s))"
  let ?fire = "fire app (ON_CLOSED code reason clean) ?t"
  have t: "run (owed (opened f)) (owed (opened f)) (terminal_latch False (session_enter s)) ?t"
    using assms(1) by (intro run_teardown) simp
  have fire: "run (owed (opened f)) (opened f) (terminal_latch False (session_enter s)) ?fire"
    using assms(1) by (intro run_trans [OF t] run_fire_terminal) simp_all
  show ?thesis
  proof (cases "ws_commit_depth ?t = 0")
    case True
    then have e: "adapt_session_closed app code reason clean s = session_exit ?fire"
      using False by (simp add: adapt_session_closed_def Let_def)
    show ?thesis using latched_fired [OF fire small_exit assms(2) False] assms(3) by (simp add: e)
  next
    case d: False
    let ?d = "?t\<lparr>ws_closed_deferred := True, ws_deferred_close_code := code,
        ws_deferred_close_clean := clean, ws_deferred_reason := reason\<rparr>"
    have e: "adapt_session_closed app code reason clean s = session_exit ?d"
      using False d by (simp add: adapt_session_closed_def Let_def)
    have "small ?t" using small_exit assms(3) by (fastforce simp: e small_def)
    then show ?thesis using latched_fired [OF t _ assms(2) False] by (simp add: e)
  qed
qed (simp add: adapt_session_closed_def Let_def)

lemma fired_dispatch:
  assumes "outcome e" "fr_slack f \<le> 0" "good f s" "small (dispatch_held app e s)"
  shows "ws_terminal_fired (dispatch_held app e s)"
  using assms by (cases e) (simp_all add: dispatch_held_def fired_rejected fired_failed fired_closed)

lemma dispatch_fold:
  assumes disp: "\<And>e s. mono_log s (disp e s)"
    "\<And>e s. good f s \<Longrightarrow> pool_event (length (peer (ws_conn s))) e \<Longrightarrow> run f f s (disp e s)"
    "\<And>e s. outcome e \<Longrightarrow> good f s \<Longrightarrow> small (disp e s) \<Longrightarrow> ws_terminal_fired (disp e s)"
  shows "mono_log s (fold disp es s) \<and> (small (fold disp es s) \<longrightarrow> good f s
    \<longrightarrow> list_all (pool_event (length (peer (ws_conn s)))) es
    \<longrightarrow> bal f f s (fold disp es s) \<and> good f (fold disp es s)
        \<and> (list_ex outcome es \<longrightarrow> ws_terminal_fired (fold disp es s)))"
proof (induction es arbitrary: s)
  case (Cons e es)
  let ?t = "disp e s" and ?u = "fold disp es (disp e s)"
  have m: "mono_log s ?t" "mono_log ?t ?u" using disp(1) Cons.IH by blast+
  have "bal f f s ?u \<and> good f ?u \<and> (list_ex outcome (e # es) \<longrightarrow> ws_terminal_fired ?u)"
    if sm: "small ?u" and g: "good f s" and ev: "list_all (pool_event (length (peer (ws_conn s)))) (e # es)"
  proof -
    have st: "small ?t" using small_mono [OF m(2) sm] .
    have 1: "bal f f s ?t" "good f ?t" using runD [OF disp(2) [OF g] st g] ev by auto
    then have "list_all (pool_event (length (peer (ws_conn ?t)))) es" using ev by (simp add: bal_defs)
    then have 2: "bal f f ?t ?u" "good f ?u" "list_ex outcome es \<longrightarrow> ws_terminal_fired ?u"
      using Cons.IH [of ?t] sm 1(2) by blast+
    have "outcome e \<longrightarrow> ws_terminal_fired ?t" using disp(3) g st by blast
    then have "outcome e \<longrightarrow> ws_terminal_fired ?u" using 2(1) by (auto simp: bal_defs)
    then show ?thesis using bal_trans [OF 1(1) 2(1)] 2(2,3) by simp
  qed
  then show ?case using mono_log_trans [OF m] by simp
qed simp

lemma deliver_fold:
  assumes disp: "\<And>e s. mono_log s (disp e s)"
    "\<And>e s. good f s \<Longrightarrow> pool_event (length (peer (ws_conn s))) e \<Longrightarrow> run f f s (disp e s)"
    "\<And>e s. outcome e \<Longrightarrow> good f s \<Longrightarrow> small (disp e s) \<Longrightarrow> ws_terminal_fired (disp e s)"
    and op: "conn_op (ws_conn s) c" and g: "good f s" and sm: "small (deliver_with disp c s)"
  shows "\<exists>tr. trace c = trace (ws_conn s) @ tr \<and> length (peer c) = length (peer (ws_conn s))
    \<and> bal f f (s\<lparr>ws_conn := c\<rparr>) (deliver_with disp c s) \<and> good f (deliver_with disp c s)
    \<and> (list_ex outcome tr \<longrightarrow> ws_terminal_fired (deliver_with disp c s))"
proof -
  have r: "reachable (ws_conn s)" using g by (simp add: good_def)
  obtain tr where tr: "trace c = trace (ws_conn s) @ tr" "length (peer c) = length (peer (ws_conn s))"
    "list_all (pool_event (length (peer (ws_conn s)))) tr"
    using grow.op_le [OF r op] by (auto simp: grows_on_def)
  have "good f (s\<lparr>ws_conn := c\<rparr>)"
    using g tr(2) reach_op [OF r op] by (simp add: good_def es_ok_def callbacks_ok_def slots_acc_def)
  then show ?thesis
    using dispatch_fold [OF disp, where s = "s\<lparr>ws_conn := c\<rparr>" and es = tr] sm tr by (simp add: deliver_with_def)
qed

lemma run_deliver_with:
  assumes disp: "\<And>e s. mono_log s (disp e s)"
    "\<And>e s. good f s \<Longrightarrow> pool_event (length (peer (ws_conn s))) e \<Longrightarrow> run f f s (disp e s)"
    "\<And>e s. outcome e \<Longrightarrow> good f s \<Longrightarrow> small (disp e s) \<Longrightarrow> ws_terminal_fired (disp e s)"
    and op: "good f s \<Longrightarrow> conn_op (ws_conn s) c"
  shows "run f f s (deliver_with disp c s)"
proof (rule runI)
  let ?t = "deliver_with disp c s"
  show "mono_log s ?t"
    using dispatch_fold [OF disp, where s = "s\<lparr>ws_conn := c\<rparr>"] by (simp add: deliver_with_def mono_log_def)
  assume sm: "small ?t" and g: "good f s"
  then obtain tr where tr: "trace c = trace (ws_conn s) @ tr" "length (peer c) = length (peer (ws_conn s))"
    and b: "bal f f (s\<lparr>ws_conn := c\<rparr>) ?t" "good f ?t" "list_ex outcome tr \<longrightarrow> ws_terminal_fired ?t"
    using deliver_fold [where disp = disp, OF disp op [OF g]] by blast
  have "engine_ended (ws_conn ?t) \<longrightarrow> ws_terminal_fired ?t \<or> engine_ended (ws_conn s)"
    using b(1,3) tr(1) by (auto simp: bal_defs engine_ended_def)
  then have "bal f f s ?t"
    using b(1) tr(2) by (simp add: bal_defs terminals_def due_def told_def)
  then show "bal f f s ?t \<and> good f ?t" using b(2) by simp
qed

lemma dispatch_held_mono: "mono_log s (dispatch_held app e s)"
  using run_mono [OF run_dispatch_held [of "\<lparr>fr_slack = 0, fr_held = [], fr_debt = 0, fr_brackets = 0\<rparr>"]] by simp

lemma deliver_mono:
  assumes "\<And>e s. mono_log s (disp e s)"
  shows "mono_log s (deliver_with disp c s)"
proof -
  have "mono_log t (fold disp es t)" for es t
    by (induction es arbitrary: t) (use assms mono_log_trans in fastforce)+
  from this [of "s\<lparr>ws_conn := c\<rparr>"] show ?thesis by (simp add: deliver_with_def mono_log_def)
qed

lemma run_deliver_held:
  assumes "fr_slack f \<le> 0" "good f s \<Longrightarrow> conn_op (ws_conn s) c"
  shows "run f f s (deliver_with (dispatch_held app) c s)"
  by (rule run_deliver_with)
    (use assms dispatch_held_mono run_dispatch_held fired_dispatch in auto)

lemma enter_mono [simp]: "mono_log s (session_enter s)"
  by (simp add: session_enter_def mono_log_def)

lemma exit_mono [simp]: "mono_log s (session_exit s)"
  by (simp add: session_exit_def session_destroy_def log_event_def mono_log_def Let_def)

lemma fire_mono: "mono_log s (fire app e s)"
  using app_mono [of "log_event e s"] by (simp add: fire_def mono_log_def log_event_def split: option.split)

lemma enter_conn [simp]: "ws_conn (session_enter s) = ws_conn s"
  by (simp add: session_enter_def)

lemma run_opened:
  assumes f: "fr_slack f \<le> 0" and j: "good f s \<Longrightarrow> j < length (peer (ws_conn s))"
  shows "run f f s (adapt_stream_opened app j bidi sid s)"
proof -
  obtain r t where a: "stream_acquire (Some j) bidi False sid (session_enter s) = (r, t)" by fastforce
  have m: "mono_log s t" using acquire_mono [OF a] mono_log_trans [OF enter_mono] by blast
  have "run (opened f) (opened f) (session_enter s) t" if "good f s"
    by (rule run_acquire [OF a]) (use j that in simp)
  then have t: "run f (opened f) s t" if "good f s" using that run_trans [OF run_enter] by blast
  show ?thesis
  proof (cases r)
    case None
    let ?d = "deliver_with (dispatch_held app) (wtq_conn_wt_reject j (ws_conn t)) t"
    have e: "adapt_stream_opened app j bidi sid s = session_exit ?d"
      using a None by (simp add: adapt_stream_opened_def Let_def)
    have d: "run (opened f) (opened f) t ?d" if "good f s"
    proof (rule run_deliver_held)
      have "t = session_enter s" using a None by (elim acquire_cases) simp_all
      then show "conn_op (ws_conn t) (wtq_conn_wt_reject j (ws_conn t))" using j that op_reject by simp
    qed (use f in simp)
    show ?thesis unfolding e
    proof (rule run_good)
      show "mono_log s (session_exit ?d)"
        by (rule mono_log_trans [OF m mono_log_trans [OF deliver_mono [OF dispatch_held_mono] exit_mono]])
      assume g: "good f s"
      show "run f f s (session_exit ?d)" by (rule run_trans [OF t [OF g] run_trans [OF d [OF g] run_exit]])
    qed
  next
    case (Some i)
    let ?u = "with_conn (wtq_estream_set_user j (Some i)) t"
    have e: "adapt_stream_opened app j bidi sid s = session_exit (fire app (ON_STREAM_OPENED i bidi) ?u)"
      using a Some by (simp add: adapt_stream_opened_def Let_def)
    have u: "run (opened f) f t (session_exit (fire app (ON_STREAM_OPENED i bidi) ?u))"
      using f by (intro run_trans [OF run_set_user run_trans [OF run_fire run_exit]]) simp_all
    show ?thesis unfolding e
    proof (rule run_good)
      show "mono_log s (session_exit (fire app (ON_STREAM_OPENED i bidi) ?u))"
        by (rule mono_log_trans [OF m run_mono [OF u]])
      assume g: "good f s"
      show "run f f s (session_exit (fire app (ON_STREAM_OPENED i bidi) ?u))" by (rule run_trans [OF t [OF g] u])
    qed
  qed
qed

lemma opened_mono: "mono_log s (adapt_stream_opened app j bidi sid s)"
proof -
  obtain r t where a: "stream_acquire (Some j) bidi False sid (session_enter s) = (r, t)" by fastforce
  have m: "mono_log s t" using acquire_mono [OF a] mono_log_trans [OF enter_mono] by blast
  show ?thesis
  proof (cases r)
    case None
    then show ?thesis
      using a m mono_log_trans [OF m mono_log_trans [OF deliver_mono [OF dispatch_held_mono] exit_mono]]
      by (simp add: adapt_stream_opened_def Let_def)
  next
    case (Some i)
    let ?u = "with_conn (wtq_estream_set_user j (Some i)) t"
    have "mono_log s ?u" using m by (simp add: with_conn_def mono_log_def)
    then show ?thesis
      using a Some mono_log_trans [OF _ mono_log_trans [OF fire_mono exit_mono]]
      by (simp add: adapt_stream_opened_def Let_def)
  qed
qed

lemma dispatch_app_mono: "mono_log s (dispatch app e s)"
  by (cases e) (simp_all add: dispatch_def opened_mono dispatch_held_mono)

lemma run_dispatch:
  assumes "fr_slack f \<le> 0" "good f s \<Longrightarrow> pool_event (length (peer (ws_conn s))) e"
  shows "run f f s (dispatch app e s)"
  using assms by (cases e) (simp_all add: dispatch_def run_opened run_dispatch_held)

lemma fired_dispatched:
  assumes "fr_slack f \<le> 0" "outcome e" "good f s" "small (dispatch app e s)"
  shows "ws_terminal_fired (dispatch app e s)"
  using assms fired_dispatch by (cases e) (simp_all add: dispatch_def)

lemma run_deliver:
  assumes f: "fr_slack f \<le> 0" and op: "good f s \<Longrightarrow> conn_op (ws_conn s) c"
  shows "run f f s (deliver app c s)"
  unfolding deliver_def
  by (rule run_deliver_with [OF dispatch_app_mono]) (use f op run_dispatch fired_dispatched in blast)+

lemma fired_deliver:
  assumes f: "fr_slack f \<le> 0" and op: "conn_op (ws_conn s) c" and g: "good f s" and sm: "small (deliver app c s)"
    and e: "engine_ended c" "engine_ended (ws_conn s) \<Longrightarrow> ws_terminal_fired s"
  shows "ws_terminal_fired (deliver app c s)"
proof -
  have "\<exists>tr. trace c = trace (ws_conn s) @ tr \<and> length (peer c) = length (peer (ws_conn s))
    \<and> bal f f (s\<lparr>ws_conn := c\<rparr>) (deliver app c s) \<and> good f (deliver app c s)
    \<and> (list_ex outcome tr \<longrightarrow> ws_terminal_fired (deliver app c s))"
    unfolding deliver_def
    by (rule deliver_fold [OF dispatch_app_mono _ _ op g])
      (use f sm run_dispatch fired_dispatched in \<open>auto simp: deliver_def\<close>)
  then obtain tr where tr: "trace c = trace (ws_conn s) @ tr"
    and b: "bal f f (s\<lparr>ws_conn := c\<rparr>) (deliver app c s)" "list_ex outcome tr \<longrightarrow> ws_terminal_fired (deliver app c s)"
    by blast
  show ?thesis using b e tr by (auto simp: bal_defs engine_ended_def)
qed

end

end
