(* ===== verification/Api_Ops.thy ===== *)
theory Api_Ops
  imports Api_Runs
begin

text \<open>
  The public functions keep the invariant inside a bracket, so the reactions of the
  model are applications in the sense of the locale.
\<close>

lemma run_bind:
  assumes "run f g s t" "mono_log t u" "good f s \<Longrightarrow> bal f g s t \<Longrightarrow> good g t \<Longrightarrow> run g h t u"
  shows "run f h s u"
proof (rule runI)
  show "mono_log s u" by (rule mono_log_trans [OF run_mono [OF assms(1)] assms(2)])
  assume sm: "small u" and g: "good f s"
  have t: "bal f g s t" "good g t" using runD [OF assms(1) small_mono [OF assms(2) sm] g] by simp_all
  then have "bal g h t u \<and> good h u" using runD [OF assms(3) [OF g t] sm] by simp
  then show "bal f h s u \<and> good h u" using bal_trans [OF t(1)] by blast
qed

section \<open>References\<close>

lemma run_unref: "run f f s (session_unref s)"
proof (rule runI)
  assume g: "good f s"
  then have "0 < ws_cb_depth s" by (simp add: good_def)
  then have e: "session_unref s = (if ws_refs s = 0 then s else s\<lparr>ws_refs := ws_refs s - 1\<rparr>)"
    by (simp add: session_unref_def Let_def)
  show "bal f f s (session_unref s) \<and> good f (session_unref s)"
    unfolding e using g unat_pred [of "ws_refs s"]
    by (auto simp: bal_defs good_def es_ok_def callbacks_ok_def slots_acc_def terminals_def due_def told_def)
qed (simp add: session_unref_def session_destroy_def log_event_def mono_log_def Let_def)

lemma unat_succ_le: "unat (w + 1 :: u32) \<le> unat w + 1"
  by (simp add: unat_word_ariths)

text \<open>A new reference is a call in the history.\<close>

lemma log_ref:
  "log_event e (session_ref s) = session_ref (log_event e s)"
  by (simp add: log_event_def session_ref_def)

lemma run_call_ref: "run f (tight f) s (session_ref (log_event (CALL k) s))"
proof (rule runI)
  assume g: "good f s"
  then have "unat (ws_refs s + 1) \<le> 2 + length (ws_log s)"
    using unat_succ_le [of "ws_refs s"] by (simp add: good_def)
  then show "bal f (tight f) s (session_ref (log_event (CALL k) s)) \<and> good (tight f) (session_ref (log_event (CALL k) s))"
    using g by (auto simp: bal_defs good_def session_ref_def log_event_def es_ok_def callbacks_ok_def slots_acc_def
        terminals_def due_def told_def Let_def le_Suc_eq)
qed (simp add: session_ref_def log_event_def mono_log_def)

lemma run_call: "run f (tight f) s (log_event (CALL k) s)"
  by (rule run_log) simp_all

lemma run_stream_add_ref:
  assumes "fr_slack f \<le> 4"
  shows "run f (tight f) s (wtq_stream_add_ref i (log_event (CALL k) s))"
proof (cases "valid_stream s i \<and> st_refs (ws_streams s ! i) > 0")
  case False
  then have "wtq_stream_add_ref i (log_event (CALL k) s) = log_event (CALL k) s"
    by (auto simp: wtq_stream_add_ref_def valid_stream_def log_event_def)
  then show ?thesis using run_call by simp
next
  case True
  let ?t = "session_ref (log_event (CALL k) s)"
  let ?g = "\<lambda>st. st\<lparr>st_refs := st_refs st + 1, st_app_refs := st_app_refs st + 1\<rparr>"
  have e: "wtq_stream_add_ref i (log_event (CALL k) s) = upd_st i ?g ?t"
    using True by (simp add: wtq_stream_add_ref_def valid_stream_def log_event_def session_ref_def upd_st_def)
  show ?thesis unfolding e
  proof (rule runI)
    show "mono_log s (upd_st i ?g ?t)" by (simp add: mono_log_def session_ref_def log_event_def)
    assume sm: "small (upd_st i ?g ?t)" and g: "good f s"
    then have st: "small ?t" "small s" by (simp_all add: small_def session_ref_def log_event_def)
    have t: "bal f (tight f) s ?t" "good (tight f) ?t" using runD [OF run_call_ref st(1) g] by simp_all
    have i: "i < length (ws_streams s)" using True by (simp add: valid_stream_def)
    have "slots_acc (fr_holds f) (upd_st i ?g ?t)" if q: "ws_receive_quantum s = 0"
    proof -
      have acc: "slots_acc (fr_holds f) s" using g q by (simp add: good_def)
      have r: "unat (st_refs (ws_streams s ! i)) < 2 ^ 31" by (rule small_refs [OF st(2) g i q assms])
      then have a: "unat (st_app_refs (ws_streams s ! i)) < 2 ^ 31"
        using acc i by (auto simp: slots_acc_def Let_def split: if_splits)
      show ?thesis
        using acc unat_succ [OF r] unat_succ [OF a]
        by (auto simp: slots_acc_def upd_st_nth session_ref_def log_event_def Let_def le_Suc_eq split: if_splits)
    qed
    then show "bal f (tight f) s (upd_st i ?g ?t) \<and> good (tight f) (upd_st i ?g ?t)"
      using t unfolding bal_defs good_def
      by (auto simp: es_ok_def callbacks_ok_def upd_st_nth session_ref_def log_event_def split: if_splits)
  qed
qed

definition app_unref :: "wtq_stream \<Rightarrow> wtq_stream" where
  "app_unref st = st\<lparr>st_app_refs := st_app_refs st - 1, st_refs := st_refs st - 1\<rparr>"

lemma run_app_unref:
  assumes "st_app_refs (ws_streams s ! i) \<noteq> 0"
  shows "run f f s (upd_st i app_unref s)"
proof -
  have "slot_step h h i (ws_streams s ! i) (app_unref (ws_streams s ! i)) n" for h n
  proof -
    let ?a = "st_app_refs (ws_streams s ! i)" and ?r = "st_refs (ws_streams s ! i)"
    have a: "unat (?a - 1) = unat ?a - 1" "0 < unat ?a" using assms unat_pred [of ?a] by (simp_all add: unat_gt_0)
    have "unat ?r = m + unat ?a \<Longrightarrow> unat (?r - 1) = m + (unat ?a - 1)" for m
      using a(2) unat_pred [of ?r] by (cases "?r = 0") simp_all
    from this [of "(if st_alive (ws_streams s ! i) then 1 else 0) + h i"] show ?thesis
      using a by (auto simp: slot_step_def app_unref_def add.commute add.left_commute)
  qed
  then show ?thesis by (intro run_upd) (auto simp: good_def app_unref_def)
qed

lemma stream_release_eq:
  "wtq_stream_release i s =
     (if \<not> valid_stream s i \<or> st_app_refs (ws_streams s ! i) = 0 then s
      else session_unref (stream_credit_release i (upd_st i app_unref s)))"
proof -
  have "(\<lambda>st. st\<lparr>st_app_refs := st_app_refs st - 1, st_refs := st_refs st - 1\<rparr>) = app_unref"
    by (simp add: app_unref_def fun_eq_iff)
  then show ?thesis by (simp add: wtq_stream_release_def Let_def)
qed

lemma run_stream_release: "run f f s (wtq_stream_release i s)"
proof (cases "\<not> valid_stream s i \<or> st_app_refs (ws_streams s ! i) = 0")
  case False
  then have "run f f s (upd_st i app_unref s)" by (intro run_app_unref) simp
  then have "run f f s (session_unref (stream_credit_release i (upd_st i app_unref s)))"
    by (rule run_trans [OF _ run_trans [OF run_credit_release run_unref]])
  then show ?thesis using False by (simp add: stream_release_eq)
qed (simp add: stream_release_eq)

lemma good_es:
  "good f s \<Longrightarrow> valid_stream s i \<Longrightarrow> st_es (ws_streams s ! i) = Some j \<Longrightarrow> j < length (peer (ws_conn s))"
  by (simp add: good_def es_ok_def valid_stream_def)

lemma run_commit_call: "run f f s (snd (wtq_stream_enable_send_commit i s))"
proof (cases "valid_stream s i \<and> ws_ev s EV_stream_send_committed \<and> st_es (ws_streams s ! i) \<noteq> None")
  case True
  then obtain j where v: "valid_stream s i" "ws_ev s EV_stream_send_committed" and j: "st_es (ws_streams s ! i) = Some j"
    by auto
  obtain rc c where o: "wtq_conn_wt_enable_send_commit j (ws_conn s) = (rc, c)" by fastforce
  have t: "trace c = trace (ws_conn s)" "length (peer c) = length (peer (ws_conn s))"
    using o by (auto simp: wtq_conn_wt_enable_send_commit_def Let_def peer_upd_es split: if_splits)
  have 1: "run f f s (s\<lparr>ws_conn := c\<rparr>)"
    by (rule run_conn [OF op_send_commit t]) (use good_es [OF _ v(1) j] o in auto)
  have "run f f (s\<lparr>ws_conn := c\<rparr>) (upd_st i (\<lambda>st. st\<lparr>st_send_commit := True\<rparr>) (s\<lparr>ws_conn := c\<rparr>))"
    by (rule run_upd) (use v in \<open>auto simp: slot_step_def good_def\<close>)
  then show ?thesis
    using 1 run_trans [OF 1] j o by (simp add: wtq_stream_enable_send_commit_def Let_def)
next
  case False
  then show ?thesis by (auto simp: wtq_stream_enable_send_commit_def)
qed

text \<open>The pieces of opening a stream.\<close>

lemma run_blocked: "run f f s (count_blocked s)"
  by (rule run_same) (simp_all add: count_blocked_def)

lemma slot_release_mono [simp]: "mono_log s (stream_slot_release i s)"
  by (rule run_mono [OF run_slot_release [where f = "\<lparr>fr_slack = 0, fr_held = [], fr_debt = 0, fr_brackets = 0\<rparr>"]])

text \<open>With an admission driver the slots are not accounted.\<close>

lemma run_release_admission:
  assumes "good f s \<Longrightarrow> ws_receive_quantum s \<noteq> 0"
  shows "run f f s (stream_slot_release i s)"
proof -
  have "run f f s (upd_st i stream_unhold s)"
    by (rule run_upd) (use assms in \<open>auto simp: stream_unhold_def good_def split: if_splits\<close>)
  then show ?thesis unfolding stream_slot_release_def by (rule run_trans [OF _ run_credit_release])
qed

lemma run_open_failed:
  assumes "\<And>i. reserved = Some i \<Longrightarrow> good f s \<Longrightarrow> ws_receive_quantum s \<noteq> 0"
  shows "run f f s (snd (snd (open_failed rc reserved s)))"
proof (cases reserved)
  case None
  then show ?thesis by (simp add: open_failed_def Let_def run_blocked)
next
  case (Some i)
  then show ?thesis
    using run_release_admission [of f s i] run_trans [OF run_release_admission [of f s i] run_blocked] assms
    by (simp add: open_failed_def Let_def)
qed

lemma run_set_es:
  assumes "good f s \<Longrightarrow> j < length (peer (ws_conn s))"
  shows "run f f s (upd_st i (\<lambda>st. st\<lparr>st_es := Some j, st_id := x\<rparr>) s)"
  by (rule run_upd) (use assms in \<open>auto simp: slot_step_def good_def\<close>)

text \<open>The calls that are no plain reference operations.\<close>

fun bracket_call :: "api_call \<Rightarrow> bool" where
  "bracket_call Session_add_ref = False"
| "bracket_call Session_release = False"
| "bracket_call (Stream_add_ref _) = False"
| "bracket_call (Stream_release _) = False"
| "bracket_call (Stream_enable_send_commit _) = False"
| "bracket_call _ = True"

section \<open>Brackets\<close>

text \<open>
  A call that does nothing, or is one bracket. Inside another bracket it is a run;
  at a root its exit may release the session.
\<close>

definition outer :: "int \<Rightarrow> wtq_session \<Rightarrow> wtq_session \<Rightarrow> bool" where
  "outer k s t \<longleftrightarrow>
     t = s \<or> (\<exists>y. t = session_exit y \<and> (\<forall>f. fr_slack f \<le> k \<longrightarrow> run f f (session_enter s) y))"

lemma outer_refl [simp]: "outer k s s"
  by (simp add: outer_def)

lemma outerI: "(\<And>f. fr_slack f \<le> k \<Longrightarrow> run f f (session_enter s) y) \<Longrightarrow> outer k s (session_exit y)"
  by (auto simp: outer_def)

lemma outer_weaken: "outer k s t \<Longrightarrow> k' \<le> k \<Longrightarrow> outer k' s t"
  unfolding outer_def using order_trans [of _ k' k] by blast

lemma outer_run:
  assumes "outer k s t" "fr_slack f \<le> k"
  shows "run f f s t"
proof -
  have "t = s \<or> (\<exists>y. t = session_exit y \<and> run (opened f) (opened f) (session_enter s) y)"
    using assms by (auto simp: outer_def)
  then show ?thesis using run_trans [OF run_enter run_trans [OF _ run_exit]] by auto
qed

lemma outer_mono: "outer k s t \<Longrightarrow> mono_log s t"
  using run_mono [OF outer_run, of k s t "\<lparr>fr_slack = k, fr_held = [], fr_debt = 0, fr_brackets = 0\<rparr>"] by simp

section \<open>Engine calls\<close>

context application
begin

lemma deliver_app_mono: "mono_log s (deliver app c s)"
proof -
  have "mono_log s (dispatch app e s)" for e s
    by (cases e) (simp_all add: dispatch_def opened_mono dispatch_held_mono)
  then show ?thesis unfolding deliver_def by (rule deliver_mono)
qed

lemma outer_engine_call:
  assumes "\<And>f rc c. good f (session_enter s) \<Longrightarrow> op (ws_conn s) = (rc, c) \<Longrightarrow> conn_op (ws_conn s) c"
  shows "outer 0 s (snd (engine_call app op s))"
proof -
  obtain rc c where o: "op (ws_conn s) = (rc, c)" by fastforce
  have e: "snd (engine_call app op s) = session_exit (deliver app c (session_enter s))"
    using o by (simp add: engine_call_def Let_def)
  show ?thesis unfolding e
    by (rule outerI, rule run_deliver) (use assms [OF _ o] in simp_all)
qed

lemma outer_start: "outer 0 s (snd (wtq_api_session_start app s))"
  by (auto simp: wtq_api_session_start_def intro!: outer_engine_call op_start)

lemma outer_connect: "outer 0 s (snd (wtq_api_session_connect app cfg s))"
  by (auto simp: wtq_api_session_connect_def intro!: outer_engine_call op_connect split: option.split)

lemma outer_serve_sized: "outer 0 s (snd (session_serve_sized app elems path_stride s))"
  by (auto simp: session_serve_sized_def Let_def intro!: outer_engine_call op_paths split: option.split)

lemma outer_close: "outer 0 s (snd (wtq_session_close app code reason s))"
  by (auto simp: wtq_session_close_def intro!: outer_engine_call op_close)

lemma outer_drain: "outer 0 s (snd (wtq_session_drain app s))"
  by (auto simp: wtq_session_drain_def intro!: outer_engine_call op_drain)

lemma outer_datagram: "outer 0 s (snd (wtq_session_send_datagram app spans s))"
  by (auto simp: wtq_session_send_datagram_def intro!: outer_engine_call op_dgram_send)

lemma enter_streams [simp]: "ws_streams (session_enter s) = ws_streams s" "valid_stream (session_enter s) i = valid_stream s i"
  by (simp_all add: session_enter_def valid_stream_def)

text \<open>The engine call of a stream operation, with the slot held.\<close>

lemma run_held_op:
  assumes f: "fr_slack f \<le> 0" and v: "valid_stream s i"
    and op: "\<And>j rc c. j < length (peer (ws_conn s)) \<Longrightarrow> op j (ws_conn s) = (rc, c) \<Longrightarrow> conn_op (ws_conn s) c"
    and r: "r = (case st_es (ws_streams s ! i) of
                   None \<Rightarrow> (WTQ_ERR_INVALID_ARG, s)
                 | Some j \<Rightarrow> (case op j (ws_conn s) of (rc, c) \<Rightarrow> (rc, deliver app c s)))"
  shows "run f f s (snd r)"
proof (cases "st_es (ws_streams s ! i)")
  case (Some j)
  obtain rc c where o: "op j (ws_conn s) = (rc, c)" by fastforce
  show ?thesis
  proof (rule run_good)
    show "mono_log s (snd r)" using Some o deliver_app_mono by (simp add: r)
    assume "good f s"
    then show "run f f s (snd r)" using run_deliver [OF f] op [OF good_es [OF _ v Some] o] by (simp add: r Some o)
  qed
qed (simp add: r)

lemma outer_held_call:
  assumes v: "valid_stream s i"
    and op: "\<And>j c rc c'. j < length (peer c) \<Longrightarrow> op j c = (rc, c') \<Longrightarrow> conn_op c c'"
    and halves: "\<And>g t F. h = Some g \<Longrightarrow> run F F t (upd_st i g t)"
  shows "outer (-1) s (snd (held_call app op h i s))"
proof -
  let ?s = "stream_hold i (session_enter s)"
  define r where "r = (case st_es (ws_streams ?s ! i) of
      None \<Rightarrow> (WTQ_ERR_INVALID_ARG, ?s)
    | Some j \<Rightarrow> (case op j (ws_conn ?s) of (rc, c) \<Rightarrow> (rc, deliver app c ?s)))"
  define y where "y = (case h of Some g \<Rightarrow> if fst r = WTQ_OK then stream_maybe_terminal app i (upd_st i g (snd r))
      else snd r | None \<Rightarrow> snd r)"
  have e: "snd (held_call app op h i s) = session_exit (stream_drop i y)"
    by (simp add: held_call_def r_def y_def Let_def split: prod.split option.split)
  show ?thesis unfolding e
  proof (rule outerI)
    fix f :: frame
    assume f: "fr_slack f \<le> -1"
    let ?F = "held i f"
    have "valid_stream ?s i" using v by (simp add: valid_stream_def stream_hold_def)
    then have 1: "run ?F ?F ?s (snd r)"
      by (intro run_held_op [where op = op and i = i]) (use f op in \<open>auto simp: r_def\<close>)
    have 2: "run ?F ?F (snd r) (stream_maybe_terminal app i (upd_st i g (snd r)))" if "h = Some g" for g
      using f by (intro run_trans [OF halves [OF that] run_maybe_terminal]) simp
    have "run ?F ?F ?s y" unfolding y_def using 1 run_trans [OF 1 2] by (cases h) simp_all
    then show "run f f (session_enter s) (stream_drop i y)"
      using f by (intro run_trans [OF run_hold run_trans [OF _ run_drop]]) simp_all
  qed
qed

lemma outer_send: "outer (-1) s (snd (wtq_stream_send app i spans fin cookie s))"
  unfolding wtq_stream_send_def
  by (auto intro!: outer_held_call op_send run_halves split: if_splits)

lemma outer_reset: "outer (-1) s (snd (wtq_stream_reset app i app_code s))"
  unfolding wtq_stream_reset_def by (auto intro!: outer_held_call op_wt_reset run_halves)

lemma outer_stop: "outer (-1) s (snd (wtq_stream_stop_sending app i app_code s))"
  unfolding wtq_stream_stop_sending_def by (auto intro!: outer_held_call op_wt_stop run_halves)

lemma outer_abort: "outer (-1) s (snd (wtq_stream_abort app i app_code s))"
  unfolding wtq_stream_abort_def by (auto intro!: outer_held_call op_wt_abort run_both_shut)

lemma outer_recv: "outer 0 s (snd (stream_recv_enable app i enabled s))"
proof (cases "st_es (ws_streams s ! i)")
  case None
  have "outer 0 s (session_exit (session_enter s))" by (rule outerI) simp
  then show ?thesis using None by (simp add: stream_recv_enable_def engine_call_def deliver_def deliver_with_def Let_def)
next
  case (Some j)
  have "outer 0 s (snd (engine_call app (wtq_conn_wt_recv_enable j enabled) s))" if "valid_stream s i"
    by (rule outer_engine_call, rule op_recv_enable, drule good_es [of _ _ i j]) (use that Some in simp_all)
  then show ?thesis using Some by (simp add: stream_recv_enable_def)
qed

lemma open_done_mono: "mono_log s (snd (snd (open_done app bidi reserved j s)))"
proof (cases reserved)
  case None
  obtain r t where a: "stream_acquire (Some j) bidi True (wtq_estream_id (Some j) (ws_conn s)) s = (r, t)" by fastforce
  have "mono_log s t" by (rule acquire_mono [OF a])
  moreover have "mono_log t (deliver app c t)" for c by (rule deliver_app_mono)
  ultimately show ?thesis
    using None a mono_log_trans by (cases r) (auto simp: open_done_def with_conn_def mono_log_def intro: order_trans)
next
  case (Some i)
  then show ?thesis
    by (simp add: open_done_def with_conn_def mono_log_def stream_lease_def log_event_def Let_def)
qed

lemma run_open_done:
  assumes f: "fr_slack f \<le> 0" and j: "good f s \<Longrightarrow> j < length (peer (ws_conn s))"
  shows "run f f s (snd (snd (open_done app bidi reserved j s)))"
proof (cases reserved)
  case None
  obtain r t where a: "stream_acquire (Some j) bidi True (wtq_estream_id (Some j) (ws_conn s)) s = (r, t)" by fastforce
  show ?thesis
  proof (cases r)
    case n: None
    then have "t = s" using a by (elim acquire_cases) simp_all
    moreover have "run f f s (deliver app (snd (wtq_conn_wt_abort j 0 (ws_conn s))) s)"
      by (rule run_deliver [OF f]) (rule op_wt_abort [OF j surjective_pairing])
    ultimately show ?thesis using None n a by (simp add: open_done_def)
  next
    case (Some i)
    have eq: "snd (snd (open_done app bidi reserved j s)) = with_conn (wtq_estream_set_user j (Some i)) t"
      using None Some a by (simp add: open_done_def)
    show ?thesis
    proof (rule run_good [OF open_done_mono])
      assume g: "good f s"
      show "run f f s (snd (snd (open_done app bidi reserved j s)))"
        unfolding eq using run_trans [OF run_acquire [OF a] run_set_user] j [OF g] by simp
    qed
  qed
next
  case (Some i)
  have "run f f s (snd (snd (open_done app bidi (Some i) j s)))"
    using run_trans [OF run_set_es [OF j] run_trans [OF run_stream_lease run_set_user]]
    by (simp add: open_done_def Let_def)
  then show ?thesis using Some by simp
qed

end

text \<open>A stream that the engine opens is an entry of its pool.\<close>

lemma wt_open_index:
  assumes "wt_open bidi c = (rc, Some j, c')" "pool_ok c"
  shows "j < length (peer c)"
proof -
  obtain i where "find (\<lambda>i. es_kind (peer c ! i) = ES_FREE \<and> \<not> es_resident (peer c ! i)) (local_range c) = Some i" "i = j"
    using assms(1) unfolding wt_open_def Let_def
    by (auto split: if_splits option.splits sum.splits prod.splits)
  then have "j \<in> set (local_range c)" by (auto simp: find_Some_iff)
  then show ?thesis using assms(2) by (auto simp: local_range_def pool_ok_def Let_def split: if_splits)
qed

context application
begin

lemma open_with_eq:
  assumes "(if bidi then wtq_conn_wt_open_bidi (ws_conn s) else wtq_conn_wt_open_uni (ws_conn s)) = (rc, es, c)"
  shows "open_with app bidi reserved s =
    (case es of
       Some j \<Rightarrow> if rc = WTQ_OK then open_done app bidi reserved j (deliver app c s)
                  else open_failed rc reserved (deliver app c s)
     | None \<Rightarrow> open_failed rc reserved (deliver app c s))"
  unfolding open_with_def assms by (simp add: Let_def)

lemma open_failed_mono: "mono_log s (snd (snd (open_failed rc reserved s)))"
  using slot_release_mono by (auto simp: open_failed_def count_blocked_def mono_log_def Let_def split: option.split)

lemma open_with_mono: "mono_log s (snd (snd (open_with app bidi reserved s)))"
proof -
  obtain rc es c where o:
    "(if bidi then wtq_conn_wt_open_bidi (ws_conn s) else wtq_conn_wt_open_uni (ws_conn s)) = (rc, es, c)"
    by (metis prod_cases3)
  show ?thesis unfolding open_with_eq [OF o]
    using mono_log_trans [OF deliver_app_mono open_done_mono] mono_log_trans [OF deliver_app_mono open_failed_mono]
    by (simp split: option.split)
qed

lemma run_open_with:
  assumes f: "fr_slack f \<le> 0" and r: "\<And>i. reserved = Some i \<Longrightarrow> good f s \<Longrightarrow> ws_receive_quantum s \<noteq> 0"
  shows "run f f s (snd (snd (open_with app bidi reserved s)))"
proof (rule run_good [OF open_with_mono])
  assume g: "good f s"
  obtain rc es c where o:
    "(if bidi then wtq_conn_wt_open_bidi (ws_conn s) else wtq_conn_wt_open_uni (ws_conn s)) = (rc, es, c)"
    by (metis prod_cases3)
  have op: "conn_op (ws_conn s) c" using o op_open_uni op_open_bidi by (auto split: if_splits)
  have reach: "reachable (ws_conn s)" using g by (simp add: good_def)
  then have len: "length (peer c) = length (peer (ws_conn s))"
    using grow.op_le [OF _ op] by (simp add: grows_on_def)
  have idx: "j < length (peer (ws_conn s))" if "es = Some j" for j
    using o that wt_open_index reachable_inv [OF reach]
    by (auto simp: wtq_conn_wt_open_bidi_def wtq_conn_wt_open_uni_def split: if_splits)
  let ?d = "deliver app c s"
  have d: "run f f s ?d" by (rule run_deliver [OF f op])
  have done': "run f f s (snd (snd (open_done app bidi reserved j ?d)))" if "es = Some j" for j
    by (rule run_bind [OF d open_done_mono]) (intro run_open_done f, use idx [OF that] in \<open>simp add: bal_defs\<close>)
  have fail: "run f f s (snd (snd (open_failed rc reserved ?d)))"
    by (rule run_bind [OF d open_failed_mono]) (intro run_open_failed, use r g in \<open>simp add: bal_defs\<close>)
  show "run f f s (snd (snd (open_with app bidi reserved s)))"
    unfolding open_with_eq [OF o] using done' fail by (simp split: option.split)
qed

lemma session_open_eq:
  assumes "\<not> ws_terminal_fired s" "stream_acquire None bidi True WTQ_STREAM_ID_UNKNOWN (session_enter s) = (r, t)"
  shows "snd (snd (session_open app bidi s)) = session_exit
    (if ws_admission s then
       (case r of None \<Rightarrow> (if ws_budgeted t then count_blocked t else t)
        | Some i \<Rightarrow> snd (snd (open_with app bidi (Some i) t)))
     else snd (snd (open_with app bidi None (session_enter s))))"
proof -
  have "ws_admission (session_enter s) = ws_admission s" by (simp add: session_enter_def)
  then show ?thesis
    using assms by (simp add: session_open_def Let_def split: option.split prod.split)
qed

lemma outer_session_open: "outer 0 s (snd (snd (session_open app bidi s)))"
proof (cases "ws_terminal_fired s")
  case False
  obtain r t where a: "stream_acquire None bidi True WTQ_STREAM_ID_UNKNOWN (session_enter s) = (r, t)" by fastforce
  show ?thesis
    unfolding session_open_eq [OF False a]
  proof (rule outerI)
    fix f :: frame
    assume f: "fr_slack f \<le> 0"
    have t: "run f f (session_enter s) t" by (rule run_acquire [OF a]) simp
    have none: "run f f (session_enter s) (if ws_budgeted t then count_blocked t else t)"
      by (rule run_trans [OF t]) (simp add: run_blocked)
    have some: "run f f (session_enter s) (snd (snd (open_with app bidi (Some i) t)))" if "ws_admission s" for i
    proof (rule run_bind [OF t open_with_mono], rule run_open_with [OF f])
      fix n
      assume "good f (session_enter s)" "bal f f (session_enter s) t" "good f t"
      moreover have "ws_admission (session_enter s)" using that by (simp add: session_enter_def)
      ultimately show "ws_receive_quantum t \<noteq> 0" by (auto simp: good_def bal_defs)
    qed
    have plain: "run f f (session_enter s) (snd (snd (open_with app bidi None (session_enter s))))"
      by (rule run_open_with [OF f]) simp
    show "run f f (session_enter s)
      (if ws_admission s then
         (case r of None \<Rightarrow> (if ws_budgeted t then count_blocked t else t)
          | Some i \<Rightarrow> snd (snd (open_with app bidi (Some i) t)))
       else snd (snd (open_with app bidi None (session_enter s))))"
      by (cases r) (use none some plain in simp_all)
  qed
qed (simp add: session_open_def)

section \<open>Every call\<close>

lemma outer_perform: "bracket_call k \<Longrightarrow> outer (-1) (log_event (CALL k) s) (perform app k s)"
  using outer_weaken [of 0 _ _ "-1"]
  by (cases k) (simp_all add: perform_def outer_close outer_drain outer_session_open outer_datagram outer_send outer_reset
      outer_stop outer_abort outer_recv wtq_session_open_bidi_def wtq_session_open_uni_def wtq_stream_resume_receive_def
      wtq_stream_pause_receive_def Let_def)

lemma run_perform:
  assumes f: "fr_slack f \<le> 0"
  shows "run f f s (perform app k s)"
proof (rule run_weaken)
  let ?s = "log_event (CALL k) s"
  have via: "run f (tight f) s u" if "run (tight f) (tight f) ?s u" for u
    by (rule run_trans [OF run_call that])
  show "run f (tight f) s (perform app k s)"
  proof (cases "bracket_call k")
    case True
    then show ?thesis using via outer_run [OF outer_perform] f by simp
  next
    case False
    then show ?thesis
      using run_call_ref [of f s k] run_stream_add_ref [of f s _ k] f
      by (cases k) (simp_all add: perform_def via run_unref run_stream_release run_commit_call wtq_session_add_ref_def
          wtq_session_release_def)
  qed
qed

end

text \<open>The reactions of the model: what they do is calls, to any depth.\<close>

lemma react_application: "application (react plan n)"
proof (induction n)
  case 0
  show ?case by unfold_locales simp
next
  case (Suc n)
  then have "fr_slack f \<le> 0 \<Longrightarrow> run f f s (perform (react plan n) k s)" for f s k
    by (rule application.run_perform)
  then show ?case by unfold_locales (simp add: run_fold)
qed

interpretation reacts: application "react plan n" for plan n
  by (rule react_application)

end
