(* ===== verification/Api_Inv.thy ===== *)
theory Api_Inv
  imports Api_Ops
begin

text \<open>
  Sessions at a root, outside every bracket: alive and at rest, or released with
  their memory. Whatever happens to a session leads from the one to one of both.
\<close>

definition root_frame :: frame where
  "root_frame = \<lparr>fr_slack = 0, fr_held = [], fr_debt = 0, fr_brackets = 0\<rparr>"

lemma root_frame_simps [simp]:
  "fr_slack root_frame = 0" "fr_held root_frame = []" "fr_debt root_frame = 0" "fr_brackets root_frame = 0"
  by (simp_all add: root_frame_def)

text \<open>The terminal events of the history are those that are due.\<close>

definition told_right :: "wtq_session \<Rightarrow> bool" where
  "told_right s \<longleftrightarrow>
     \<not> ws_closed_deferred s \<and> terminals s \<le> due s \<and> (told s \<longrightarrow> terminals s = due s)
     \<and> (engine_ended (ws_conn s) \<longrightarrow> ws_terminal_fired s)"

definition resting :: "wtq_session \<Rightarrow> bool" where
  "resting s \<longleftrightarrow>
     ws_cb_depth s = 0 \<and> ws_commit_depth s = 0 \<and> ws_refs s \<noteq> 0 \<and> SESSION_FREED \<notin> set (ws_log s)
     \<and> told_right s \<and> good root_frame (session_enter s)"

definition gone :: "wtq_session \<Rightarrow> bool" where
  "gone s \<longleftrightarrow>
     ws_freed s \<and> ws_refs s = 0 \<and> (\<exists>l. ws_log s = l @ [SESSION_FREED] \<and> SESSION_FREED \<notin> set l)
     \<and> told_right s \<and> callbacks_ok s \<and> reachable (ws_conn s)"

definition rested :: "wtq_session \<Rightarrow> bool" where
  "rested s \<longleftrightarrow> resting s \<or> gone s"

lemma exit_enter: "ws_cb_depth s = 0 \<Longrightarrow> ws_refs s \<noteq> 0 \<Longrightarrow> session_exit (session_enter s) = s"
  by (simp add: session_exit_def session_enter_def)

lemma told_right_enter [simp]: "told_right (session_enter s) = told_right s"
  by (simp add: told_right_def session_enter_def terminals_def due_def told_def)

lemma told_right_depth [simp]: "told_right (s\<lparr>ws_cb_depth := d\<rparr>) = told_right s"
  by (simp add: told_right_def terminals_def due_def told_def)

lemma told_right_freed: "told_right (session_destroy s) = told_right s"
  by (simp add: told_right_def session_destroy_def log_event_def terminals_def due_def told_def)

text \<open>The outermost exit.\<close>

lemma root_exit:
  assumes r: "resting s" and run: "run root_frame f (session_enter s) y" and sm: "small y"
    and f: "fr_brackets f = 0" "fr_held f = []" "fr_debt f = 0" "fr_slack f \<le> 0"
  shows "rested (session_exit y)"
proof -
  have b: "bal root_frame f (session_enter s) y" "good f y"
    using runD [OF run sm] r by (simp_all add: resting_def)
  have d: "ws_cb_depth y = 1" "ws_commit_depth y = 0" "SESSION_FREED \<notin> set (ws_log y)" "\<not> ws_closed_deferred y"
    using r b(1) f(1) by (auto simp: bal_defs resting_def session_enter_def told_right_def)
  have "told_right (session_enter s)" using r by (simp add: resting_def)
  then have t: "told_right y"
    using b(1) f(3) d(4) unfolding bal_defs told_right_def told_def by auto
  have e: "session_exit y = (if ws_refs y = 0 then session_destroy (y\<lparr>ws_cb_depth := 0\<rparr>) else y\<lparr>ws_cb_depth := 0\<rparr>)"
    using d(1) by (simp add: session_exit_def Let_def)
  show ?thesis
  proof (cases "ws_refs y = 0")
    case True
    then have "gone (session_exit y)"
      using t d b(2) unfolding e gone_def
      by (simp add: told_right_freed) (auto simp: session_destroy_def log_event_def callbacks_ok_def good_def)
    then show ?thesis by (simp add: rested_def)
  next
    case False
    have "fr_holds f = fr_holds root_frame" using f by (simp add: fr_holds_def fun_eq_iff)
    then have "good root_frame y" using b(2) f by (simp add: good_def)
    moreover have "session_enter (y\<lparr>ws_cb_depth := 0\<rparr>) = y" using d(1) by (simp add: session_enter_def)
    ultimately have "resting (session_exit y)" using False d t unfolding e resting_def by simp
    then show ?thesis by (simp add: rested_def)
  qed
qed

lemma root_plain:
  assumes "resting s" "run root_frame f (session_enter s) (session_enter t)" "small t" "ws_cb_depth t = 0" "ws_refs t \<noteq> 0"
    "fr_brackets f = 0" "fr_held f = []" "fr_debt f = 0" "fr_slack f \<le> 0"
  shows "rested t"
  using root_exit [OF assms(1,2) _ assms(6-9)] assms(3) exit_enter [OF assms(4,5)]
  by (simp add: small_def session_enter_def)

lemma log_enter: "session_enter (log_event e s) = log_event e (session_enter s)"
  by (simp add: session_enter_def log_event_def)

lemma unref_exit:
  assumes "ws_cb_depth s = 0" "ws_refs s \<noteq> 0"
  shows "session_unref s = session_exit (session_unref (session_enter s))"
  using assms
  by (cases s) (simp add: session_unref_def session_exit_def session_enter_def session_destroy_def log_event_def Let_def)

lemma root_unref:
  assumes "resting s" "small s"
  shows "rested (session_unref s)"
proof -
  have e: "session_unref s = session_exit (session_unref (session_enter s))"
    using assms(1) by (intro unref_exit) (simp_all add: resting_def)
  have "small (session_unref (session_enter s))"
    using assms(2) by (simp add: small_def session_unref_def session_enter_def Let_def)
  then show ?thesis unfolding e by (rule root_exit [OF assms(1) run_unref]) simp_all
qed

section \<open>A call of the application\<close>

lemma small_enter [simp]: "small (session_enter s) = small s"
  by (simp add: small_def session_enter_def)

lemma run_enter_log: "run f (tight f) (session_enter s) (session_enter (log_event (CALL k) s))"
  unfolding log_enter by (rule run_call)

lemma ref_nonzero:
  assumes "good f (session_enter s)" "small s"
  shows "ws_refs s + 1 \<noteq> 0"
proof
  assume z: "ws_refs s + 1 = 0"
  have "unat (ws_refs s) < 2 ^ 31" using assms by (simp add: good_def small_def session_enter_def)
  then show False using unat_succ [of "ws_refs s"] z by simp
qed

lemma add_ref_enter:
  "session_enter (session_ref s) = session_ref (session_enter s)"
  "session_enter (wtq_stream_add_ref i s) = wtq_stream_add_ref i (session_enter s)"
  by (simp_all add: session_enter_def session_ref_def wtq_stream_add_ref_def valid_stream_def upd_st_def)

lemma session_ref_fields [simp]:
  "ws_refs (session_ref s) = ws_refs s + 1" "ws_cb_depth (session_ref s) = ws_cb_depth s"
  by (simp_all add: session_ref_def)

lemma add_ref_fields:
  "ws_refs (wtq_stream_add_ref i s) = ws_refs s \<or> ws_refs (wtq_stream_add_ref i s) = ws_refs s + 1"
  "ws_cb_depth (wtq_stream_add_ref i s) = ws_cb_depth s"
  by (simp_all add: wtq_stream_add_ref_def session_ref_def)

lemma commit_enter:
  "session_enter (snd (wtq_stream_enable_send_commit i s)) = snd (wtq_stream_enable_send_commit i (session_enter s))"
  by (simp add: session_enter_def wtq_stream_enable_send_commit_def valid_stream_def upd_st_def Let_def
      split: option.split prod.split)

lemma upd_enter: "session_enter (upd_st i g s) = upd_st i g (session_enter s)"
  by (simp add: session_enter_def upd_st_def)

lemma credit_enter: "session_enter (stream_credit_release i s) = stream_credit_release i (session_enter s)"
  unfolding stream_credit_release_def Let_def session_enter_def upd_st_def log_event_def
  by (cases "st_credit (ws_streams s ! i)") simp_all

lemmas release_enter = credit_enter upd_enter

lemma credit_release_fields [simp]:
  "ws_cb_depth (stream_credit_release i s) = ws_cb_depth s" "ws_refs (stream_credit_release i s) = ws_refs s"
  by (simp_all add: stream_credit_release_def log_event_def Let_def)

lemma log_fields [simp]:
  "ws_cb_depth (log_event e s) = ws_cb_depth s" "ws_refs (log_event e s) = ws_refs s"
  "ws_streams (log_event e s) = ws_streams s" "valid_stream (log_event e s) i = valid_stream s i"
  by (simp_all add: log_event_def valid_stream_def)

lemma root_log:
  assumes "resting s" "small (log_event (CALL k) s)"
  shows "rested (log_event (CALL k) s)"
  by (rule root_plain [OF assms(1) run_enter_log assms(2)]) (use assms(1) in \<open>simp_all add: resting_def\<close>)

lemma root_stream_release:
  assumes "resting s" "small (wtq_stream_release i (log_event (CALL k) s))"
  shows "rested (wtq_stream_release i (log_event (CALL k) s))"
proof (cases "\<not> valid_stream s i \<or> st_app_refs (ws_streams s ! i) = 0")
  case True
  then show ?thesis using root_log [OF assms(1), of k] assms(2) by (simp add: stream_release_eq)
next
  case False
  let ?t = "stream_credit_release i (upd_st i app_unref (log_event (CALL k) s))"
  have e: "wtq_stream_release i (log_event (CALL k) s) = session_unref ?t"
    using False by (simp add: stream_release_eq)
  have sm: "small ?t"
    using assms(2) run_mono [OF run_unref [of root_frame]] small_mono unfolding e by blast
  have "run root_frame (tight root_frame) (session_enter s) (session_enter ?t)"
    unfolding release_enter
    by (rule run_trans [OF run_enter_log run_trans [OF run_app_unref run_credit_release]]) (use False in simp)
  then have "rested ?t"
    by (rule root_plain [OF assms(1) _ sm]) (use assms(1) in \<open>simp_all add: resting_def\<close>)
  then have "resting ?t" using assms(1) by (simp add: rested_def gone_def resting_def)
  then show ?thesis unfolding e using sm by (rule root_unref)
qed

lemma root_perform:
  assumes app: "application app" and s: "resting s" and sm: "small (perform app k s)"
  shows "rested (perform app k s)"
proof -
  let ?s = "log_event (CALL k) s"
  have z: "ws_cb_depth s = 0" "ws_refs s \<noteq> 0" using s by (simp_all add: resting_def)
  have add: "rested t" if t: "run root_frame (tight root_frame) (session_enter s) (session_enter t)"
    "ws_cb_depth t = 0" "ws_refs t \<noteq> 0" "small t" for t
    by (rule root_plain [OF s t(1,4,2,3)]) simp_all
  show ?thesis
  proof (cases "bracket_call k")
    case True
    have o: "outer (-1) ?s (perform app k s)" by (rule application.outer_perform [OF app True])
    show ?thesis
    proof (cases "perform app k s = ?s")
      case True
      then show ?thesis using root_log [OF s] sm by simp
    next
      case False
      then obtain y where y: "perform app k s = session_exit y" "\<forall>f. fr_slack f \<le> -1 \<longrightarrow> run f f (session_enter ?s) y"
        using o by (auto simp: outer_def)
      have "run root_frame (tight root_frame) (session_enter s) y"
        by (rule run_trans [OF run_enter_log [of root_frame s k]]) (use y(2) in simp)
      moreover have "small y"
        using sm small_mono [OF run_mono [OF run_exit [of root_frame y]]] by (simp add: y(1))
      ultimately show ?thesis unfolding y(1) by (rule root_exit [OF s]) simp_all
    qed
  next
    case False
    have nz: "ws_refs s + 1 \<noteq> 0"
      using s sm ref_nonzero [of root_frame s] small_mono [OF run_mono [OF application.run_perform [OF app]]]
      by (simp add: resting_def) (metis root_frame_simps(1) order_refl)
    show ?thesis
    proof (cases k)
      case Session_release
      then have e: "perform app k s = session_unref ?s" by (simp add: perform_def wtq_session_release_def)
      have sm': "small ?s" using sm small_mono [OF run_mono [OF run_unref [of root_frame ?s]]] by (simp add: e)
      then have "rested ?s" by (rule root_log [OF s])
      then have "resting ?s" using z by (simp add: rested_def gone_def)
      then show ?thesis unfolding e using sm' by (rule root_unref)
    next
      case Session_add_ref
      then show ?thesis
        using add [of "session_ref ?s"] run_call_ref [of root_frame "session_enter s" k] z nz sm
        by (simp add: perform_def wtq_session_add_ref_def add_ref_enter log_enter)
    next
      case (Stream_add_ref i)
      then show ?thesis
        using add [of "wtq_stream_add_ref i ?s"] run_stream_add_ref [of root_frame "session_enter s" i k] z nz sm
          add_ref_fields(1) [of i ?s]
        by (auto simp: perform_def add_ref_enter log_enter add_ref_fields(2))
    next
      case (Stream_release i)
      then show ?thesis using root_stream_release [OF s, of i k] sm by (simp add: perform_def)
    next
      case (Stream_enable_send_commit i)
      have "run root_frame (tight root_frame) (session_enter s) (session_enter (snd (wtq_stream_enable_send_commit i ?s)))"
        unfolding commit_enter by (rule run_trans [OF run_enter_log run_commit_call])
      moreover have "ws_cb_depth (snd (wtq_stream_enable_send_commit i ?s)) = 0"
        "ws_refs (snd (wtq_stream_enable_send_commit i ?s)) \<noteq> 0"
        using z by (simp_all add: wtq_stream_enable_send_commit_def Let_def split: option.split prod.split)
      ultimately show ?thesis using add sm Stream_enable_send_commit by (simp add: perform_def)
    qed (use False in simp_all)
  qed
qed

section \<open>Everything that happens\<close>

lemma root_outer:
  assumes s: "resting s" and o: "outer 0 s t" and sm: "small t"
  shows "rested t"
proof (cases "t = s")
  case True
  then show ?thesis using s by (simp add: rested_def)
next
  case False
  then obtain y where y: "t = session_exit y" "\<forall>f. fr_slack f \<le> 0 \<longrightarrow> run f f (session_enter s) y"
    using o by (auto simp: outer_def)
  have r: "run root_frame root_frame (session_enter s) y" using y(2) by simp
  have "small y" using sm small_mono [OF run_mono [OF run_exit [of root_frame y]]] by (simp add: y(1))
  then show ?thesis unfolding y(1) by (rule root_exit [OF s r]) simp_all
qed

lemma inputs_run:
  assumes "application app" "(session_input app)\<^sup>*\<^sup>* s s'"
  shows "run root_frame root_frame s s'"
  using assms(2)
proof (induction rule: rtranclp_induct)
  case (step t u)
  from step(2) have "run root_frame root_frame t u"
    by cases (simp add: application.run_deliver [OF assms(1)])
  then show ?case using run_trans step(3) by blast
qed simp

lemma admits_run:
  assumes app: "application app" and "(session_admits app)\<^sup>*\<^sup>* s s'" "fr_slack f \<le> 0"
  shows "run f f s s'"
  using assms(2)
proof (induction rule: rtranclp_induct)
  case (step t u)
  have d: "run f f t (deliver app c t)" if "wtq_conn_peer_admit r (ws_conn t) = (rc, c)" for r rc c
    using application.run_deliver [OF app assms(3)] op_admit that by blast
  have i: "run f f t (deliver app c t)" if "conn_op (ws_conn t) c" for c
    using application.run_deliver [OF app assms(3)] that by blast
  from step(2) have "run f f t u"
    by cases (use d i in \<open>auto simp: wtq_api_session_admit_def wtq_api_session_admit_v2_def split: prod.split\<close>)
  then show ?case using run_trans step(3) by blast
qed simp

lemma run_running: "run f f s (s\<lparr>ws_admission_running := b\<rparr>)"
  by (rule run_same) simp_all

lemma root_service:
  assumes app: "application app" and s: "resting s"
    and svc: "\<And>s. (session_admits app)\<^sup>*\<^sup>* s (snd (service s))"
    and t: "t = snd (wtq_session_service_stream_admission service (log_event (CALL Session_service) s))"
    and sm: "small t"
  shows "rested t"
proof -
  let ?s = "log_event (CALL Session_service) s"
  let ?e = "session_enter (session_ref ?s)"
  let ?y = "(snd (service (?e\<lparr>ws_admission_running := True\<rparr>)))\<lparr>ws_admission_running := False\<rparr>"
  have "t = ?s \<or> t = session_unref (session_exit ?y)"
    unfolding t wtq_session_service_stream_admission_def by (simp add: Let_def split: prod.split)
  then show ?thesis
  proof
    assume "t = ?s"
    then show ?thesis using root_log [OF s] sm by simp
  next
    assume e: "t = session_unref (session_exit ?y)"
    have r: "run root_frame (tight root_frame) (session_enter s) ?e"
      unfolding add_ref_enter(1) log_enter by (rule run_call_ref)
    have y: "run root_frame (tight root_frame) (session_enter s) ?y"
      by (rule run_trans [OF r run_trans [OF run_running run_trans [OF admits_run [OF app svc] run_running]]]) simp
    have se: "small (session_exit ?y)"
      using sm small_mono [OF run_mono [OF run_unref [of root_frame]]] by (simp add: e)
    have "small ?y" using se small_mono [OF run_mono [OF run_exit [of root_frame]]] by blast
    then have "rested (session_exit ?y)" by (rule root_exit [OF s y]) simp_all
    then show ?thesis
      unfolding e using root_unref [OF _ se] by (auto simp: rested_def gone_def session_unref_def)
  qed
qed

lemma root_same:
  assumes "resting s" "run root_frame root_frame (session_enter s) (session_enter t)" "ws_cb_depth t = 0"
    "ws_refs t = ws_refs s" "small t"
  shows "rested t"
  by (rule root_plain [OF assms(1,2,5,3)]) (use assms(1,4) in \<open>simp_all add: resting_def\<close>)

lemma root_fields:
  assumes "resting s" "small t" "ws_log t = ws_log s" "ws_conn t = ws_conn s" "ws_ev t = ws_ev s" "ws_freed t = ws_freed s"
    "ws_cb_depth t = ws_cb_depth s" "ws_refs t = ws_refs s" "ws_receive_quantum t = ws_receive_quantum s"
    "ws_admission t = ws_admission s" "ws_commit_depth t = ws_commit_depth s"
    "ws_closed_deferred t = ws_closed_deferred s" "ws_terminal_fired t = ws_terminal_fired s"
    "ws_streams t = ws_streams s"
  shows "rested t"
proof (rule root_same [OF assms(1)])
  show "run root_frame root_frame (session_enter s) (session_enter t)"
    by (rule run_same) (simp_all add: assms session_enter_def)
qed (use assms in \<open>simp_all add: resting_def\<close>)

lemma resting_detach: "resting s \<Longrightarrow> resting (wtq_api_session_admission_detach s)"
  by (auto simp: wtq_api_session_admission_detach_def stream_budget_freeze_def resting_def good_def session_enter_def
      told_right_def terminals_def due_def told_def es_ok_def callbacks_ok_def slots_acc_def Let_def)

lemma resting_live: "rested s \<Longrightarrow> \<not> ws_freed s \<Longrightarrow> resting s"
  by (simp add: rested_def gone_def)

lemma session_op_rested:
  assumes app: "application app" and op: "session_op app s t" and s: "rested s" and sm: "small t"
  shows "rested t"
  using op
proof cases
  case (sop_call k)
  then show ?thesis using root_perform [OF app] resting_live [OF s] sm by simp
next
  case (sop_batch s')
  have e: "t = session_exit s'" using sop_batch(1) by (simp add: wtq_api_session_leave_def Let_def)
  have r: "run root_frame root_frame (session_enter s) s'"
    using inputs_run [OF app sop_batch(3)] by (simp add: wtq_api_session_enter_def)
  have "small s'" using sm small_mono [OF run_mono [OF run_exit [of root_frame]]] unfolding e by blast
  then show ?thesis unfolding e by (rule root_exit [OF resting_live [OF s sop_batch(2)] r]) simp_all
next
  case (sop_service service)
  then show ?thesis using root_service [OF app resting_live [OF s] _ _ sm] by blast
next
  case sop_start
  then show ?thesis using root_outer [OF resting_live [OF s] application.outer_start [OF app]] sm by simp
next
  case (sop_connect cfg)
  then show ?thesis using root_outer [OF resting_live [OF s] application.outer_connect [OF app]] sm by simp
next
  case (sop_serve elems)
  then show ?thesis using root_outer [OF resting_live [OF s] application.outer_serve_sized [OF app]] sm by (simp add: wtq_api_session_serve_def)
next
  case (sop_serve_ex elems path_stride)
  then show ?thesis
    using root_outer [OF resting_live [OF s] application.outer_serve_sized [OF app]] sm
    by (simp add: wtq_api_session_serve_ex_def)
next
  case sop_detach
  then show ?thesis using resting_detach resting_live [OF s] by (simp add: rested_def)
next
  case (sop_flush mode probe)
  have "t = s \<or> t = s\<lparr>ws_local_flush_mode := mode, ws_local_flush_probe := probe\<rparr>"
    unfolding sop_flush(1) wtq_api_session_set_local_flush_def by simp
  then show ?thesis
  proof
    assume "t = s"
    then show ?thesis using s by simp
  next
    assume t: "t = s\<lparr>ws_local_flush_mode := mode, ws_local_flush_probe := probe\<rparr>"
    show ?thesis by (rule root_fields [OF resting_live [OF s sop_flush(2)] sm]) (simp_all add: t)
  qed
next
  case sop_flush_failed
  have "t = s \<or> t = s\<lparr>ws_local_flush_failed := True\<rparr>"
    unfolding sop_flush_failed(1) wtq_api_session_local_flush_failed_def by simp
  then show ?thesis
  proof
    assume "t = s"
    then show ?thesis using s by simp
  next
    assume t: "t = s\<lparr>ws_local_flush_failed := True\<rparr>"
    show ?thesis by (rule root_fields [OF resting_live [OF s sop_flush_failed(2)] sm]) (simp_all add: t)
  qed
next
  case (sop_user user)
  then show ?thesis using resting_live [OF s] sm by (intro root_fields) (simp_all add: wtq_session_set_user_def)
next
  case (sop_stream_user i user)
  have "run root_frame root_frame (session_enter s) (upd_st i (\<lambda>st. st\<lparr>st_user := user\<rparr>) (session_enter s))"
    by (rule run_upd) (simp_all add: slot_step_def good_def)
  then show ?thesis
    using sop_stream_user resting_live [OF s] sm
    by (intro root_same) (simp_all add: wtq_stream_set_user_def upd_enter resting_def)
qed

section \<open>Creation\<close>

lemma create_trace: "wtq_conn_create_budget_v2 L sz cfg d plan = Inr c \<Longrightarrow> trace c = []"
  unfolding wtq_conn_create_budget_v2_def Let_def by (auto split: option.split_asm if_split_asm)

lemma create_conn:
  "wtq_conn_create_budget_v2 L sz cfg d plan = Inr c \<Longrightarrow>
     (\<forall>p. plan = Some p \<longrightarrow> plan_accepted L (cfg_perspective cfg = PERSPECTIVE_CLIENT) p) \<Longrightarrow> reachable c \<and> trace c = []"
  using reach_init [of c] create_trace unfolding created_def by blast

lemma resting_zero:
  assumes "reachable c" "trace c = []"
  shows "resting (session_zero cfg events ops plan capacity c)"
  using assms
  by (simp add: resting_def session_zero_def told_right_def terminals_def due_def told_def engine_ended_def good_def
      session_enter_def es_ok_def callbacks_ok_def slots_acc_def stream_zero_def fr_holds_def)

lemma session_create_zero:
  assumes "session_create L allocated cfg plan = Inr s"
    "\<forall>p. plan = Some p \<longrightarrow> plan_accepted (sl_engine L) (sc_perspective cfg = PERSPECTIVE_CLIENT) p"
  shows "\<exists>events ops capacity c. s = session_zero cfg events ops plan capacity c \<and> reachable c \<and> trace c = []"
proof -
  obtain events ops c where c: "s = session_zero cfg events ops plan
      (case plan of Some p \<Rightarrow> pl_api_capacity p | None \<Rightarrow> WTQ_API_LEGACY_STREAMS) c"
    "wtq_conn_create_budget_v2 (sl_engine L) (sl_sizeof_conn L)
       \<lparr>cfg_perspective = sc_perspective cfg, cfg_ecp = True,
        cfg_webtransport_profile = sc_webtransport_profile cfg,
        cfg_webtransport_profiles = sc_webtransport_profiles cfg\<rparr> ops plan = Inr c"
    using assms(1) by (auto simp: session_create_def Let_def split: bool.splits option.splits if_splits sum.splits)
  then show ?thesis using create_conn [OF c(2)] assms(2) by auto
qed

lemma resting_admission:
  assumes "resting s" "ws_receive_quantum s' \<noteq> 0" "ws_log s' = ws_log s" "trace (ws_conn s') = trace (ws_conn s)"
    "reachable (ws_conn s')" "ws_streams s' = ws_streams s" "peer (ws_conn s') = peer (ws_conn s)"
    "ws_ev s' = ws_ev s" "ws_freed s' = ws_freed s" "ws_refs s' = ws_refs s" "ws_cb_depth s' = ws_cb_depth s"
    "ws_commit_depth s' = ws_commit_depth s" "ws_closed_deferred s' = ws_closed_deferred s"
    "ws_terminal_fired s' = ws_terminal_fired s"
  shows "resting s'"
proof -
  have d: "es_ok (x\<lparr>ws_cb_depth := n\<rparr>) = es_ok x" "callbacks_ok (x\<lparr>ws_cb_depth := n\<rparr>) = callbacks_ok x" for x n
    by (simp_all add: es_ok_def callbacks_ok_def)
  have "told_right s' = told_right s" "callbacks_ok s' = callbacks_ok s" "es_ok s' = es_ok s"
    using assms(2-) by (simp_all add: told_right_def terminals_def due_def told_def engine_ended_def callbacks_ok_def es_ok_def)
  then show ?thesis using assms unfolding resting_def good_def by (simp add: session_enter_def d)
qed

lemma enable_fields:
  "trace (wtq_conn_enable_admission c) = trace c" "peer (wtq_conn_enable_admission c) = peer c"
  by (simp_all add: wtq_conn_enable_admission_def)

lemma session_created_resting:
  assumes "session_created s"
  shows "resting s"
proof -
  obtain L allocated cfg where "wtq_api_session_create L allocated cfg = Inr s
      \<or> (\<exists>ops. wtq_api_session_create_admission L allocated cfg ops = Inr s)
      \<or> (\<exists>ops. wtq_api_session_create_admission_v2 L allocated cfg ops = Inr s)"
    using assms unfolding session_created_def by blast
  then consider (plain) "session_create L allocated cfg None = Inr s"
    | (legacy) t where "session_create L allocated cfg None = Inr t" "s = with_conn wtq_conn_enable_admission
        (t\<lparr>ws_admission := True, ws_receive_mode := WTQ_RECEIVE_PAUSE_FLOW_CONTROLLED, ws_receive_quantum := 65535\<rparr>)"
    | (v2) p t nb where "session_create L allocated cfg (Some p) = Inr t"
        "plan_accepted (sl_engine L) (sc_perspective cfg = PERSPECTIVE_CLIENT) p"
        "s = t\<lparr>ws_admission := True, ws_native_budget := Some nb, ws_receive_quantum := 65535,
              ws_receive_mode := WTQ_RECEIVE_PAUSE_FLOW_CONTROLLED\<rparr>"
    by (auto simp: wtq_api_session_create_def wtq_api_session_create_admission_def
        wtq_api_session_create_admission_v2_def split: if_splits option.splits sum.splits)
  then show ?thesis
  proof cases
    case plain
    then show ?thesis using session_create_zero [OF plain] resting_zero by auto
  next
    case legacy
    then obtain events ops capacity c where t: "t = session_zero cfg events ops None capacity c" "reachable c" "trace c = []"
      using session_create_zero [OF legacy(1)] by auto
    have "reachable (wtq_conn_enable_admission c)" using t(2) op_enable_admission reach_op by blast
    moreover have "resting t" unfolding t(1) by (rule resting_zero [OF t(2,3)])
    moreover have "ws_conn t = c" by (simp add: t(1) session_zero_def)
    ultimately show ?thesis unfolding legacy(2)
      by - (rule resting_admission [of t], simp_all add: with_conn_def enable_fields)
  next
    case v2
    then obtain events ops capacity c where t: "t = session_zero cfg events ops (Some p) capacity c" "reachable c" "trace c = []"
      using session_create_zero [OF v2(1)] by auto
    have "resting t" unfolding t(1) by (rule resting_zero [OF t(2,3)])
    moreover have "ws_conn t = c" by (simp add: t(1) session_zero_def)
    ultimately show ?thesis unfolding v2(3) using t(2) by - (rule resting_admission [of t], simp_all)
  qed
qed

lemma mono_log_fields: "ws_log s' = ws_log s \<Longrightarrow> mono_log s s'"
  by (simp add: mono_log_def)

lemma session_op_mono:
  assumes "application app" "session_op app s t"
  shows "mono_log s t"
  using assms(2)
proof cases
  case (sop_call k)
  then show ?thesis using run_mono [OF application.run_perform [OF assms(1), of root_frame]] by simp
next
  case (sop_batch s')
  have "mono_log (session_enter s) s'"
    using run_mono [OF inputs_run [OF assms(1) sop_batch(3)]] by (simp add: wtq_api_session_enter_def)
  then show ?thesis
    using sop_batch(1) run_mono [OF run_exit [of root_frame]] by (simp add: wtq_api_session_leave_def Let_def mono_log_def session_enter_def) (meson order_trans)
next
  case (sop_service service)
  have m: "mono_log x (snd (service x))" for x
    by (rule run_mono [OF admits_run [OF assms(1) sop_service(3), of root_frame]]) simp
  have u: "length (ws_log x) \<le> length (ws_log (session_unref (session_exit x)))" for x
    using run_mono [OF run_exit [of root_frame x]] run_mono [OF run_unref [of root_frame "session_exit x"]]
    by (simp add: mono_log_def)
  show ?thesis
    using m [of "(session_enter (session_ref (log_event (CALL Session_service) s)))\<lparr>ws_admission_running := True\<rparr>"]
      u [of "(snd (service ((session_enter (session_ref (log_event (CALL Session_service) s)))
        \<lparr>ws_admission_running := True\<rparr>)))\<lparr>ws_admission_running := False\<rparr>"]
    unfolding sop_service(1) wtq_session_service_stream_admission_def
    by (auto simp: mono_log_def log_event_def session_enter_def session_ref_def Let_def split: prod.split)
qed (simp_all add: outer_mono [OF application.outer_start [OF assms(1)]] outer_mono [OF application.outer_connect [OF assms(1)]]
    outer_mono [OF application.outer_serve_sized [OF assms(1)]] wtq_api_session_serve_def wtq_api_session_serve_ex_def
    mono_log_refl mono_log_fields wtq_api_session_admission_detach_def stream_budget_freeze_def
    wtq_api_session_set_local_flush_def wtq_api_session_local_flush_failed_def wtq_session_set_user_def
    wtq_stream_set_user_def Let_def)

lemma session_reachable_rested:
  assumes "application app" "session_reachable app s" "small s"
  shows "rested s"
  using assms(2,3)
proof (induction rule: session_reachable.induct)
  case (sreach_init s)
  then show ?case by (simp add: session_created_resting rested_def)
next
  case (sreach_op s t)
  then show ?case using session_op_rested [OF assms(1)] small_mono [OF session_op_mono [OF assms(1)]] by blast
qed

end
