(* ===== verification/Api_Example.thy ===== *)
theory Api_Example
  imports Api_Inv
begin

text \<open>
  Two concrete server sessions, evaluated by the kernel: one without an admission
  driver over the run of \<open>Engine_Example\<close>, and one with, whose provider fails the
  first bytes of the stream that the application opens.
\<close>

section \<open>The configuration\<close>

text \<open>An event table with every callback.\<close>

definition example_table :: bytes where
  "example_table = le_bytes 4 120 @ replicate 4 0 @ replicate 112 1"

definition example_scfg :: "wtq_driver \<Rightarrow> wtq_api_session_cfg" where
  "example_scfg d =
     \<lparr>sc_alloc = True, sc_perspective = PERSPECTIVE_SERVER, sc_events = Some example_table, sc_user = None,
      sc_drv = True, sc_ops = Some d, sc_webtransport_profile = Some PROFILE_CURRENT,
      sc_webtransport_profiles = 0\<rparr>"

definition example_slayout :: session_layout where
  "example_slayout = \<lparr>sl_engine = example_layout, sl_sizeof_conn = 1000, sl_sizeof_session = 2000\<rparr>"

definition example_serve :: wtq_serve_config where
  "example_serve =
     \<lparr>sv_struct_size = 40, sv_path = Some (str ''/''), sv_subprotocols = None, sv_subprotocol_count = 0,
      sv_require_subprotocol = False, sv_origin_policy = 0, sv_allowed_origins = None,
      sv_allowed_origin_count = 0\<rparr>"

text \<open>
  A driver that grants flow control and fails one send: the preamble of a stream
  of session 0.
\<close>

definition failing_driver :: wtq_driver where
  "failing_driver = example_driver
     \<lparr>d_result := \<lambda>tr. if tr \<noteq> [] \<and> last tr = D_send (Some 9) [64, 84, 0] False then WTQ_ERR_BACKEND else WTQ_OK,
      d_caps := WTQ_DCAP_RECV_FLOW_CONTROLLED, d_has_recv_enable := True\<rparr>"

definition plain_session :: wtq_session where
  "plain_session = projr (wtq_api_session_create example_slayout True (example_scfg example_driver))"

definition admission_session :: wtq_session where
  "admission_session =
     projr (wtq_api_session_create_admission example_slayout True (example_scfg failing_driver)
       \<lparr>ao_peer_uni = 8, ao_peer_bidi = 7, ao_service = True, ao_lease = True\<rparr>)"

lemma example_conn:
  assumes "d = example_driver \<or> d = failing_driver"
  shows "wtq_conn_create_budget_v2 example_layout 1000 example_cfg d None
    = Inr (projr (wtq_conn_create example_layout 1000 example_cfg d))"
proof -
  have "(case wtq_conn_create example_layout 1000 example_cfg example_driver of Inr c \<Rightarrow> True | Inl _ \<Rightarrow> False)"
    "(case wtq_conn_create example_layout 1000 example_cfg failing_driver of Inr c \<Rightarrow> True | Inl _ \<Rightarrow> False)"
    by code_simp+
  then show ?thesis using assms by (auto simp: wtq_conn_create_def split: sum.splits)
qed

lemma example_create:
  assumes "d = example_driver \<or> d = failing_driver"
  shows "wtq_api_session_create example_slayout True (example_scfg d)
    = Inr (session_zero (example_scfg d) example_table d None 16 (projr (wtq_conn_create example_layout 1000 example_cfg d)))"
proof -
  have s: "ev_struct_size example_table \<noteq> 0" by code_simp
  have "wtq_capacity_mul 16 100 = Some 1600" "wtq_capacity_add 2000 1600 \<noteq> None" by code_simp+
  then show ?thesis
    using s example_conn [OF assms]
    by (simp add: wtq_api_session_create_def session_create_def example_scfg_def example_slayout_def example_layout_def
        WTQ_API_LEGACY_STREAMS_def example_cfg_def)
qed

lemma example_events: "ev_present (wtq_session_events_copy example_table) m"
proof -
  have "list_all (ev_present (wtq_session_events_copy example_table)) ev_members" by code_simp
  then show ?thesis by (cases m) (simp_all add: ev_members_def)
qed

lemma plain_session_eq:
  "plain_session = session_zero (example_scfg example_driver) example_table example_driver None 16 server_created"
  by (simp add: plain_session_def example_create server_created_def)

definition adm0 :: wtq_conn where
  "adm0 = wtq_conn_enable_admission (projr (wtq_conn_create example_layout 1000 example_cfg failing_driver))"

lemma admission_session_eq:
  "admission_session =
     (session_zero (example_scfg failing_driver) example_table failing_driver None 16 adm0)
       \<lparr>ws_admission := True, ws_receive_mode := WTQ_RECEIVE_PAUSE_FLOW_CONTROLLED, ws_receive_quantum := 65535\<rparr>"
proof -
  have "flow_controlled (example_scfg failing_driver)" by code_simp
  then show ?thesis
    by (simp add: admission_session_def wtq_api_session_create_admission_def example_create with_conn_def
        session_zero_def adm0_def) (simp add: example_scfg_def)
qed

section \<open>The engine's run for the second session\<close>

definition adm1 :: wtq_conn where "adm1 = snd (wtq_conn_server_set_paths [serve_entry example_serve] adm0)"
definition adm2 :: wtq_conn where "adm2 = snd (wtq_conn_start adm1)"
definition adm3 :: wtq_conn where "adm3 = snd (snd (wtq_conn_on_peer_bidi_opened 1 0 adm2))"
definition adm4 :: wtq_conn where
  "adm4 = snd (wtq_conn_on_stream_bytes 0 ([1, 35] @ example_section) False adm3)"
definition adm5 :: wtq_conn where "adm5 = snd (snd (wtq_conn_on_peer_uni_opened 2 2 adm4))"
definition adm6 :: wtq_conn where
  "adm6 = snd (wtq_conn_on_stream_bytes 1 (0 # [4, 11, 1, 0, 7, 0, 51, 1, 172, 124, 240, 0, 1]) False adm5)"
definition adm7 :: wtq_conn where "adm7 = snd (snd (wtq_conn_wt_open_uni adm6))"

text \<open>The driver calls and \<^verbatim>\<open>on_peer_settings\<close> reach no one.\<close>

fun unheard :: "event \<Rightarrow> bool" where
  "unheard (CB_peer_settings _) = True"
| "unheard (D_open_uni _) = True"
| "unheard (D_open_bidi _) = True"
| "unheard (D_send _ _ _) = True"
| "unheard (D_detach _ _) = True"
| "unheard (D_conn_close _) = True"
| "unheard _ = False"

definition new_events :: "wtq_conn \<Rightarrow> wtq_conn \<Rightarrow> event list" where
  "new_events c c' = drop (length (trace c)) (trace c')"

lemma adm_quiet:
  "list_all unheard (new_events adm0 adm1)" "list_all unheard (new_events adm1 adm2)"
  "list_all unheard (new_events adm2 adm3)" "list_all unheard (new_events adm3 adm4)"
  "list_all unheard (new_events adm4 adm5)"
  by code_simp+

lemma adm_up: "new_events adm5 adm6
    = [CB_peer_settings True, D_send (Some 1) [1, 3] False, D_send (Some 1) [0, 0, 217] False,
       CB_session_established [] PROFILE_CURRENT]"
  by code_simp

lemma adm_open: "(case wtq_conn_wt_open_uni adm6 of (rc, es, c) \<Rightarrow> (rc, es, new_events adm6 c))
    = (WTQ_ERR_BACKEND, None, [D_open_uni (Some 10), D_send (Some 9) [64, 84, 0] False, D_detach 9 10,
        D_conn_close 258, CB_session_closed 0 [] False, CB_conn_error 258])"
  by code_simp

lemma server_quiet:
  "list_all unheard (new_events server_created server_configured)"
  "list_all unheard (new_events server_configured server_started)"
  "list_all unheard (new_events server_started server_asked)" "list_all unheard (new_events server_asked server_parked)"
  "list_all unheard (new_events server_parked server_controlled)"
  by code_simp+

lemma server_up: "new_events server_controlled server_established
    = [CB_peer_settings True, D_send (Some 1) [1, 3] False, D_send (Some 1) [0, 0, 217] False,
       CB_session_established [] PROFILE_CURRENT]"
  by code_simp

section \<open>Steps that call no one back\<close>

lemma quiet_fold: "list_all unheard es \<Longrightarrow> fold (dispatch app) es s = s"
proof (induction es arbitrary: s)
  case (Cons e es)
  then have "dispatch app e s = s" by (cases e) (simp_all add: dispatch_def dispatch_held_def)
  then show ?case using Cons by simp
qed simp

lemma quiet_deliver: "list_all unheard (new_events (ws_conn s) c) \<Longrightarrow> deliver app c s = s\<lparr>ws_conn := c\<rparr>"
  by (simp add: deliver_def deliver_with_def new_events_def quiet_fold)

definition at_root :: "wtq_session \<Rightarrow> bool" where
  "at_root s \<longleftrightarrow> \<not> ws_freed s \<and> ws_cb_depth s = 0 \<and> ws_refs s \<noteq> 0"

lemma quiet_enter:
  "ws_cb_depth s = 0 \<Longrightarrow> ws_refs s \<noteq> 0 \<Longrightarrow> session_exit ((session_enter s)\<lparr>ws_conn := c\<rparr>) = s\<lparr>ws_conn := c\<rparr>"
  by (simp add: session_exit_def session_enter_def Let_def)

lemma quiet_batch:
  assumes "session_reachable app s" "at_root s" "conn_op (ws_conn s) c" "list_all unheard (new_events (ws_conn s) c)"
  shows "session_reachable app (s\<lparr>ws_conn := c\<rparr>)"
proof -
  have "session_input app (wtq_api_session_enter s) (deliver app c (wtq_api_session_enter s))"
    using assms(3) by (intro input_engine) (simp add: wtq_api_session_enter_def)
  then have "session_op app s (snd (wtq_api_session_leave (deliver app c (wtq_api_session_enter s))))"
    using assms(2) by (intro sop_batch) (auto simp: at_root_def)
  moreover have "deliver app c (wtq_api_session_enter s) = (session_enter s)\<lparr>ws_conn := c\<rparr>"
    using assms(4) by (simp add: wtq_api_session_enter_def quiet_deliver)
  ultimately have "session_op app s (s\<lparr>ws_conn := c\<rparr>)"
    using assms(2) by (simp add: wtq_api_session_leave_def Let_def at_root_def quiet_enter)
  then show ?thesis using assms(1) sreach_op by blast
qed

definition up_state :: "wtq_session \<Rightarrow> wtq_conn \<Rightarrow> wtq_session" where
  "up_state s c = s\<lparr>ws_conn := c, ws_established_seen := True, ws_profile := Some PROFILE_CURRENT,
     ws_log := ws_log s @ [ON_ESTABLISHED []]\<rparr>"

lemma up_batch:
  assumes "session_reachable app s" "at_root s" "conn_op (ws_conn s) c"
    "new_events (ws_conn s) c = qs @ [CB_session_established [] PROFILE_CURRENT]" "list_all unheard qs"
    "ws_ev s EV_established" "\<And>t. ws_log t = ws_log s @ [ON_ESTABLISHED []] \<Longrightarrow> app t = t"
  shows "session_reachable app (up_state s c)"
proof -
  let ?e = "wtq_api_session_enter s"
  have e: "?e = s\<lparr>ws_cb_depth := 1\<rparr>" using assms(2) by (simp add: wtq_api_session_enter_def session_enter_def at_root_def)
  have "session_input app ?e (deliver app c ?e)" using assms(3) by (intro input_engine) (simp add: e)
  then have op: "session_op app s (snd (wtq_api_session_leave (deliver app c ?e)))"
    using assms(2) by (intro sop_batch) (auto simp: at_root_def)
  have n: "drop (length (trace (ws_conn s))) (trace c) = qs @ [CB_session_established [] PROFILE_CURRENT]"
    using assms(4) by (simp add: new_events_def)
  have "deliver app c ?e = adapt_established app [] PROFILE_CURRENT (?e\<lparr>ws_conn := c\<rparr>)"
    using n quiet_fold [OF assms(5)] by (simp add: deliver_def deliver_with_def dispatch_def dispatch_held_def e)
  also have "\<dots> = (up_state s c)\<lparr>ws_cb_depth := 1\<rparr>"
    using assms(6,7)
    by (simp add: adapt_established_def e session_enter_def session_exit_def fire_def log_event_def api_public_profile_def
        up_state_def Let_def)
  finally have d: "deliver app c ?e = (up_state s c)\<lparr>ws_cb_depth := 1\<rparr>" .
  have "snd (wtq_api_session_leave (deliver app c ?e)) = up_state s c"
    using assms(2) unfolding d
    by (cases s) (simp add: wtq_api_session_leave_def session_exit_def at_root_def up_state_def Let_def)
  then show ?thesis using op assms(1) sreach_op by metis
qed

section \<open>Both sessions are up\<close>

definition plain_up :: wtq_session where "plain_up = up_state plain_session server_established"

definition admission_up :: wtq_session where "admission_up = up_state admission_session adm6"

lemma example_ops:
  assumes c0: "reachable c0" "length (peer c0) = 16"
    and c1: "c1 = snd (wtq_conn_server_set_paths ps c0)" and c2: "c2 = snd (wtq_conn_start c1)" "started c2"
    and c3: "c3 = snd (snd (wtq_conn_on_peer_bidi_opened 1 0 c2))"
    and c4: "c4 = snd (wtq_conn_on_stream_bytes 0 bs False c3)"
    and c5: "c5 = snd (snd (wtq_conn_on_peer_uni_opened 2 2 c4))"
    and c6: "c6 = snd (wtq_conn_on_stream_bytes 1 bs' False c5)"
  shows "conn_op c0 c1" "conn_op c1 c2" "conn_op c2 c3" "conn_op c3 c4" "conn_op c4 c5" "conn_op c5 c6"
proof -
  show 1: "conn_op c0 c1" unfolding c1 by (rule op_paths) (rule surjective_pairing)
  note r1 = op_reach [OF c0(1) 1]
  show 2: "conn_op c1 c2" unfolding c2(1) by (rule op_start) (rule surjective_pairing)
  note r2 = op_reach [OF r1(1) 2]
  show 3: "conn_op c2 c3" unfolding c3 by (rule op_peer_bidi [OF c2(2)]) (simp add: prod_eq_iff)
  note r3 = op_reach [OF r2(1) 3]
  show 4: "conn_op c3 c4"
    unfolding c4 by (rule op_bytes [of _ 0, OF _ _ surjective_pairing]) (use r1 r2 r3 c0 c2 in simp_all)
  note r4 = op_reach [OF r3(1) 4]
  show 5: "conn_op c4 c5"
    unfolding c5 by (rule op_peer_uni) (use r3 r4 c2 in \<open>simp_all add: prod_eq_iff\<close>)
  note r5 = op_reach [OF r4(1) 5]
  show "conn_op c5 c6"
    unfolding c6 by (rule op_bytes [of _ 1, OF _ _ surjective_pairing]) (use r1 r2 r3 r4 r5 c0 c2 in simp_all)
qed

lemma session_up:
  assumes s: "session_reachable app s" "at_root s" "ws_log s = []" "\<And>m. ws_ev s m" "ws_conn s = c0"
    and ops: "conn_op c0 c1" "conn_op c1 c2" "conn_op c2 c3" "conn_op c3 c4" "conn_op c4 c5" "conn_op c5 c6"
    and q: "list_all unheard (new_events c0 c1)" "list_all unheard (new_events c1 c2)" "list_all unheard (new_events c2 c3)"
      "list_all unheard (new_events c3 c4)" "list_all unheard (new_events c4 c5)"
    and up: "new_events c5 c6 = qs @ [CB_session_established [] PROFILE_CURRENT]" "list_all unheard qs"
    and app: "\<And>t. ws_log t = [ON_ESTABLISHED []] \<Longrightarrow> app t = t"
  shows "session_reachable app (up_state s c6)"
proof -
  let ?s = "\<lambda>c. s\<lparr>ws_conn := c\<rparr>"
  have root: "at_root (?s c)" for c using s(2) by (simp add: at_root_def)
  have s0: "?s c0 = s" using s(5) by (cases s) simp
  have step: "session_reachable app (?s c) \<Longrightarrow> conn_op c c' \<Longrightarrow> list_all unheard (new_events c c')
      \<Longrightarrow> session_reachable app (?s c')" for c c'
    using quiet_batch [of app "?s c" c'] root by simp
  have "session_reachable app (?s c5)"
    by (rule step [OF step [OF step [OF step [OF step]]]]) (use s(1) s0 ops q in simp_all)
  then have "session_reachable app (up_state (?s c5) c6)"
    by (rule up_batch [OF _ root, of _ _ _ qs]) (use ops(6) up s(3,4) app in simp_all)
  moreover have "up_state (?s c5) c6 = up_state s c6" by (simp add: up_state_def)
  ultimately show ?thesis by simp
qed

text \<open>An application is quiet about the establishment.\<close>

definition calm :: "(api_event list \<Rightarrow> api_call list) \<Rightarrow> bool" where
  "calm plan \<longleftrightarrow> plan [ON_ESTABLISHED []] = []"

lemma calm_react: "calm plan \<Longrightarrow> ws_log t = [ON_ESTABLISHED []] \<Longrightarrow> react plan n t = t"
  by (cases n) (simp_all add: calm_def)

lemma plain_reachable: "session_reachable app plain_session"
proof (rule sreach_init)
  have "wtq_api_session_create example_slayout True (example_scfg example_driver) = Inr plain_session"
    by (simp add: plain_session_def example_create)
  then show "session_created plain_session" unfolding session_created_def by blast
qed

lemma admission_reachable: "session_reachable app admission_session"
proof (rule sreach_init)
  have "flow_controlled (example_scfg failing_driver)" by code_simp
  then have "wtq_api_session_create_admission example_slayout True (example_scfg failing_driver)
       \<lparr>ao_peer_uni = 8, ao_peer_bidi = 7, ao_service = True, ao_lease = True\<rparr> = Inr admission_session"
    by (simp add: admission_session_def wtq_api_session_create_admission_def example_create) (simp add: example_scfg_def)
  then show "session_created admission_session" unfolding session_created_def by blast
qed

lemma plain_up_reachable:
  assumes "calm plan"
  shows "session_reachable (react plan n) plain_up"
  unfolding plain_up_def
proof (rule session_up [OF plain_reachable])
  have e: "length (peer server_created) = 16" by (rule server_created_fields)
  have st: "started server_started" by code_simp
  show "conn_op server_created server_configured" "conn_op server_configured server_started"
    "conn_op server_started server_asked" "conn_op server_asked server_parked" "conn_op server_parked server_controlled"
    "conn_op server_controlled server_established"
    by (rule example_ops [OF server_reachable(1) e server_configured_def server_started_def st server_asked_def
          server_parked_def server_controlled_def server_established_def])+
  show "new_events server_controlled server_established
    = [CB_peer_settings True, D_send (Some 1) [1, 3] False, D_send (Some 1) [0, 0, 217] False]
      @ [CB_session_established [] PROFILE_CURRENT]"
    by (simp add: server_up)
qed (use assms server_quiet in \<open>simp_all add: plain_session_eq session_zero_def at_root_def example_events calm_react\<close>)

lemma adm_reachable: "reachable adm0" "length (peer adm0) = 16"
proof -
  have "(case wtq_conn_create example_layout 1000 example_cfg failing_driver of
      Inr c \<Rightarrow> length (peer c) = 16 | Inl _ \<Rightarrow> False)"
    by code_simp
  then obtain c where c: "wtq_conn_create example_layout 1000 example_cfg failing_driver = Inr c" "length (peer c) = 16"
    by (auto split: sum.splits)
  then have "created c" by (fastforce simp: created_def wtq_conn_create_def)
  then show "reachable adm0" "length (peer adm0) = 16"
    using c op_enable_admission reach_init reach_op by (auto simp: adm0_def enable_fields)
qed

lemma admission_up_reachable:
  assumes "calm plan"
  shows "session_reachable (react plan n) admission_up"
  unfolding admission_up_def
proof (rule session_up [OF admission_reachable])
  have st: "started adm2" by code_simp
  show "conn_op adm0 adm1" "conn_op adm1 adm2" "conn_op adm2 adm3" "conn_op adm3 adm4" "conn_op adm4 adm5"
    "conn_op adm5 adm6"
    by (rule example_ops [OF adm_reachable adm1_def adm2_def st adm3_def adm4_def adm5_def adm6_def])+
  show "new_events adm5 adm6
    = [CB_peer_settings True, D_send (Some 1) [1, 3] False, D_send (Some 1) [0, 0, 217] False]
      @ [CB_session_established [] PROFILE_CURRENT]"
    by (simp add: adm_up)
qed (use assms adm_quiet in \<open>simp_all add: admission_session_eq session_zero_def at_root_def example_events calm_react\<close>)

section \<open>The failed open\<close>

text \<open>An application that retains every stream of whose end it is told.\<close>

definition pinning :: "api_event list \<Rightarrow> api_call list" where
  "pinning log = (case last log of ON_STREAM_CLOSED i \<Rightarrow> [Stream_add_ref i] | _ \<Rightarrow> [])"

lemma pinning_calm: "calm pinning"
  by (simp add: calm_def pinning_def)

definition open_failed_session :: wtq_session where
  "open_failed_session = perform (react pinning 1) (Session_open False) admission_up"

lemma teardown_dead:
  "(\<And>i. i \<in> set is \<Longrightarrow> \<not> st_alive (ws_streams s ! i)) \<Longrightarrow> fold (teardown_one app) is s = s"
  by (induction "is") (simp_all add: teardown_one_def)

text \<open>The reserved slot is the only live one.\<close>

lemma closed_with_reserved:
  assumes s: "ws_streams s = stream_fresh None False True WTQ_STREAM_ID_UNKNOWN # replicate 15 stream_zero"
    "\<not> ws_terminal_fired s" "\<not> ws_budgeted s" "ws_commit_depth s = 0" "ws_cb_depth s = 1" "\<And>m. ws_ev s m"
    and refs: "ws_refs s = 1"
  shows "\<exists>c. adapt_session_closed (react pinning 1) 0 [] False s
    = s\<lparr>ws_conn := c, ws_terminal_fired := True, ws_refs := 2,
        ws_streams := (both_shut (stream_fresh None False True WTQ_STREAM_ID_UNKNOWN))
            \<lparr>st_alive := False, st_app_refs := 1\<rparr> # replicate 15 stream_zero,
        ws_log := ws_log s @ [ON_STREAM_CLOSED 0, CALL (Stream_add_ref 0), ON_CLOSED 0 [] False]\<rparr>"
proof -
  let ?app = "react pinning 1"
  let ?l = "terminal_latch False (session_enter s)"
  let ?st = "both_shut (stream_fresh None False True WTQ_STREAM_ID_UNKNOWN)"
  have l: "?l = s\<lparr>ws_cb_depth := 2, ws_terminal_fired := True, ws_conn := wtq_conn_seal_transport_error (ws_conn s)\<rparr>"
    using s by (simp add: terminal_latch_def session_enter_def stream_budget_freeze_def with_conn_def)
  let ?t = "?l\<lparr>ws_refs := 2, ws_streams := ?st\<lparr>st_alive := False, st_app_refs := 1\<rparr> # replicate 15 stream_zero,
      ws_log := ws_log s @ [ON_STREAM_CLOSED 0, CALL (Stream_add_ref 0)]\<rparr>"
  have one: "teardown_one ?app 0 ?l = ?t"
    using s refs unfolding l
    by (simp add: teardown_one_def stream_terminal_def stream_unlink_def upd_st_def stream_fresh_def stream_zero_def
        both_shut_def fire_def log_event_def pinning_def perform_def wtq_stream_add_ref_def valid_stream_def
        session_ref_def stream_slot_release_def stream_unhold_def stream_credit_release_def Let_def)
  have "[0..<16] = 0 # [1..<16]" by (simp add: upt_conv_Cons)
  then have "streams_teardown ?app ?l = fold (teardown_one ?app) [1..<16] ?t"
    using s one unfolding l by (simp add: streams_teardown_def)
  also have "\<dots> = ?t" by (rule teardown_dead) (auto simp: nth_Cons' stream_zero_def)
  finally have td: "streams_teardown ?app ?l = ?t" .
  have "fire ?app (ON_CLOSED 0 [] False) ?t = log_event (ON_CLOSED 0 [] False) ?t"
    using s unfolding l by (simp add: fire_def log_event_def pinning_def)
  moreover have "ws_commit_depth ?l = 0" "ws_terminal_fired (session_enter s) = ws_terminal_fired s"
    using s(4) unfolding l by simp_all
  ultimately have "adapt_session_closed ?app 0 [] False s = session_exit (log_event (ON_CLOSED 0 [] False) ?t)"
    using s(2) td by (simp add: adapt_session_closed_def Let_def)
  then show ?thesis using s(5) unfolding l
    by (intro exI [of _ "wtq_conn_seal_transport_error (ws_conn s)"], cases s)
      (simp add: log_event_def session_exit_def Let_def)
qed

lemma open_uni_reserved:
  assumes "\<not> ws_terminal_fired s" "ws_admission s"
    "stream_acquire None False True WTQ_STREAM_ID_UNKNOWN (session_enter s) = (Some i, u)"
    "wtq_conn_wt_open_uni (ws_conn u) = (WTQ_ERR_BACKEND, None, c)"
  shows "wtq_session_open_uni app s
    = (WTQ_ERR_BACKEND, None, session_exit (stream_slot_release i (deliver app c u)))"
proof -
  have "ws_admission (session_enter s)" using assms(2) by (simp add: session_enter_def)
  then show ?thesis
    using assms by (simp add: wtq_session_open_uni_def session_open_def open_with_def open_failed_def Let_def)
qed

text \<open>The whole call, and what the application's release then does.\<close>

lemma open_failed_state:
  "wtq_session_open_uni (react pinning 1) (log_event (CALL (Session_open False)) admission_up)
     = (WTQ_ERR_BACKEND, None, open_failed_session)"
  "ws_log open_failed_session = [ON_ESTABLISHED [], CALL (Session_open False), ON_STREAM_CLOSED 0,
     CALL (Stream_add_ref 0), ON_CLOSED 0 [] False]"
  "st_app_refs (ws_streams open_failed_session ! 0) = 1" "st_refs (ws_streams open_failed_session ! 0) = 0"
  "0 < length (ws_streams open_failed_session)" "ws_refs open_failed_session = 2" "ws_cb_depth open_failed_session = 0"
  "ws_freed open_failed_session = False"
proof -
  let ?app = "react pinning 1"
  let ?s = "log_event (CALL (Session_open False)) admission_up"
  let ?u = "?s\<lparr>ws_cb_depth := 1, ws_streams := stream_fresh None False True WTQ_STREAM_ID_UNKNOWN # replicate 15 stream_zero\<rparr>"
  have up: "admission_up = (session_zero (example_scfg failing_driver) example_table failing_driver None 16 adm6)
      \<lparr>ws_admission := True, ws_receive_mode := WTQ_RECEIVE_PAUSE_FLOW_CONTROLLED, ws_receive_quantum := 65535,
       ws_established_seen := True, ws_profile := Some PROFILE_CURRENT, ws_log := [ON_ESTABLISHED []]\<rparr>"
    by (simp add: admission_up_def up_state_def admission_session_eq session_zero_def)
  have r: "[0..<16] = 0 # [1..<16]" "replicate 16 stream_zero = stream_zero # replicate 15 stream_zero"
    by (simp_all add: upt_conv_Cons numeral_eq_Suc)
  have acq: "stream_acquire None False True WTQ_STREAM_ID_UNKNOWN (session_enter ?s) = (Some 0, ?u)"
    unfolding up stream_acquire_def acquire_range_def acquire_free_def
    by (simp add: session_zero_def session_enter_def log_event_def upd_st_def r Let_def) (simp add: stream_zero_def)
  obtain c where c: "wtq_conn_wt_open_uni (ws_conn ?u) = (WTQ_ERR_BACKEND, None, c)"
    "new_events (ws_conn ?u) c = [D_open_uni (Some 10), D_send (Some 9) [64, 84, 0] False, D_detach 9 10,
        D_conn_close 258] @ [CB_session_closed 0 [] False, CB_conn_error 258]"
    using adm_open by (cases "wtq_conn_wt_open_uni adm6") (simp add: log_event_def up session_zero_def)
  let ?q = "?u\<lparr>ws_conn := c\<rparr>"
  obtain c' where c': "adapt_session_closed ?app 0 [] False ?q
    = ?q\<lparr>ws_conn := c', ws_terminal_fired := True, ws_refs := 2,
        ws_streams := (both_shut (stream_fresh None False True WTQ_STREAM_ID_UNKNOWN))
            \<lparr>st_alive := False, st_app_refs := 1\<rparr> # replicate 15 stream_zero,
        ws_log := ws_log ?q @ [ON_STREAM_CLOSED 0, CALL (Stream_add_ref 0), ON_CLOSED 0 [] False]\<rparr>" (is "_ = ?z")
    using closed_with_reserved [of ?q] by (auto simp: up session_zero_def log_event_def example_events)
  have "adapt_conn_error ?app 258 ?z = ?z"
    by (simp add: adapt_conn_error_def session_enter_def session_exit_def Let_def log_event_def)
  then have dl: "deliver ?app c ?u = ?z"
    using c(2) c' by (simp add: deliver_def deliver_with_def new_events_def dispatch_def dispatch_held_def)
  let ?y = "session_exit (stream_slot_release 0 ?z)"
  have "\<not> ws_terminal_fired ?s" "ws_admission ?s" by (simp_all add: up session_zero_def log_event_def)
  then have o: "wtq_session_open_uni ?app ?s = (WTQ_ERR_BACKEND, None, ?y)"
    using open_uni_reserved [OF _ _ acq c(1), where app = ?app] unfolding dl by blast
  then have e: "open_failed_session = ?y"
    unfolding open_failed_session_def perform_def Let_def by simp
  show "wtq_session_open_uni ?app ?s = (WTQ_ERR_BACKEND, None, open_failed_session)"
    using o e by simp
  show "ws_log open_failed_session = [ON_ESTABLISHED [], CALL (Session_open False), ON_STREAM_CLOSED 0,
     CALL (Stream_add_ref 0), ON_CLOSED 0 [] False]"
    "st_app_refs (ws_streams open_failed_session ! 0) = 1" "st_refs (ws_streams open_failed_session ! 0) = 0"
    "0 < length (ws_streams open_failed_session)" "ws_refs open_failed_session = 2" "ws_cb_depth open_failed_session = 0"
    "ws_freed open_failed_session = False"
    unfolding e up
    by (simp_all add: session_zero_def log_event_def stream_slot_release_def stream_unhold_def stream_credit_release_def
        upd_st_def stream_fresh_def stream_zero_def both_shut_def session_exit_def Let_def)
qed

end
