(* ===== verification/Api_Functional.thy ===== *)
theory Api_Functional
  imports Api_Example
begin

text \<open>
  What single functions of the session layer do: caller-sized structs byte by byte,
  the close of a session, and the link between a handle and its engine stream.
\<close>

section \<open>Writes into objects\<close>

lemma mem_write_length [simp]: "off + length bs \<le> length obj \<Longrightarrow> length (mem_write off bs obj) = length obj"
  by (simp add: mem_write_def)

lemma mem_write_nth:
  "off + length bs \<le> length obj \<Longrightarrow> k < length obj \<Longrightarrow>
     mem_write off bs obj ! k = (if off \<le> k \<and> k < off + length bs then bs ! (k - off) else obj ! k)"
  by (auto simp: mem_write_def nth_append min_def)

lemma le_bytes_length [simp]: "length (le_bytes n v) = n"
  by (simp add: le_bytes_def)

text \<open>
  C35. A struct initializer writes within the bytes that its caller declares and
  within the struct, whatever the object holds behind them: it sets the first
  \<open>min caller full\<close> bytes, the size word to that count when it fits, and zeros.
\<close>

theorem cfg_init_within_caller:
  assumes "caller \<le> length obj" "4 \<le> full" "n = min caller full"
  shows "length (cfg_init_ex full caller obj) = length obj \<and> drop n (cfg_init_ex full caller obj) = drop n obj
    \<and> (4 \<le> caller \<longrightarrow> take n (cfg_init_ex full caller obj) = le_bytes 4 (of_nat n) @ replicate (n - 4) 0)"
proof -
  have n: "(if caller < full then caller else full) = n" "n \<le> length obj" using assms by auto
  let ?d = "take n (cfg_default full)"
  have d: "length ?d = n" using assms by (simp add: cfg_default_def)
  have l: "length (mem_write 0 ?d obj) = length obj" using n d by simp
  show ?thesis
  proof (cases "n \<ge> 4")
    case True
    let ?r = "mem_write 0 (le_bytes 4 (of_nat n)) (mem_write 0 ?d obj)"
    have r: "cfg_init_ex full caller obj = ?r" using True n by (simp add: cfg_init_ex_def Let_def)
    have "?r = le_bytes 4 (of_nat n) @ replicate (n - 4) 0 @ drop n obj"
      using True d n assms(2,3) by (simp add: mem_write_def cfg_default_def)
    then show ?thesis using True n unfolding r by simp
  next
    case False
    then show ?thesis using d n l assms(2,3) by (simp add: cfg_init_ex_def Let_def mem_write_def)
  qed
qed

theorem cfg_init_within_caller_witness:
  "wtq_serve_config_init (replicate 50 7) = le_bytes 4 40 @ replicate 36 0 @ replicate 10 7"
proof -
  let ?o = "replicate 50 7 :: bytes" and ?r = "cfg_init_ex 64 40 (replicate 50 7)"
  have "length ?r = length ?o \<and> drop 40 ?r = drop 40 ?o
    \<and> (4 \<le> (40::nat) \<longrightarrow> take 40 ?r = le_bytes 4 (of_nat 40) @ replicate (40 - 4) 0)"
    by (rule cfg_init_within_caller) simp_all
  then have "take 40 ?r = le_bytes 4 40 @ replicate 36 0" "drop 40 ?r = replicate 10 7" by simp_all
  then have "?r = (le_bytes 4 40 @ replicate 36 0) @ replicate 10 7" by (metis append_take_drop_id)
  then show ?thesis
    by (simp add: wtq_serve_config_init_def wtq_serve_config_init_ex_def sizeof_serve_config_def
        sizeof_serve_config_v1_def)
qed

section \<open>The event table\<close>

lemma ev_offset_bounds: "8 \<le> ev_offset m" "ev_offset m + 8 \<le> 120"
  by (cases m; simp add: ev_offset_def ev_members_def)+

lemma ev_offset_apart: "m \<noteq> m' \<Longrightarrow> ev_offset m + 8 \<le> ev_offset m' \<or> ev_offset m' + 8 \<le> ev_offset m"
  by (cases m; cases m'; simp add: ev_offset_def ev_members_def)

lemma ev_members_all: "m \<in> set ev_members"
  by (cases m) (simp_all add: ev_members_def)

lemma pointer_nth:
  "ev_offset m + 8 \<le> length t \<Longrightarrow> k < 8 \<Longrightarrow> ev_pointer m t ! k = t ! (ev_offset m + k)"
  by (simp add: ev_pointer_def)

lemma pointer_length [simp]: "ev_offset m + 8 \<le> length t \<Longrightarrow> length (ev_pointer m t) = 8"
  by (simp add: ev_pointer_def)

lemma pointer_write:
  assumes "length t = 120" "off + length bs \<le> 120" "off + length bs \<le> ev_offset m \<or> ev_offset m + 8 \<le> off"
  shows "ev_pointer m (mem_write off bs t) = ev_pointer m t"
proof (rule nth_equalityI)
  have b: "ev_offset m + 8 \<le> 120" by (rule ev_offset_bounds)
  then show "length (ev_pointer m (mem_write off bs t)) = length (ev_pointer m t)" using assms by simp
  fix k assume "k < length (ev_pointer m (mem_write off bs t))"
  then have k: "k < 8" using b assms by simp
  show "ev_pointer m (mem_write off bs t) ! k = ev_pointer m t ! k"
    using k b assms(1,2) pointer_nth [of m t k] pointer_nth [of m "mem_write off bs t" k]
      mem_write_nth [of off bs t "ev_offset m + k"] assms(3) by auto
qed

lemma pointer_gate:
  assumes "length t = 120"
  shows "ev_pointer m (ev_gate ss m' t)
      = (if m = m' \<and> \<not> wtq_cfg_has ss (ev_offset m) 8 then replicate 8 0 else ev_pointer m t)
    \<and> length (ev_gate ss m' t) = 120"
proof -
  have b: "ev_offset m + 8 \<le> 120" "ev_offset m' + 8 \<le> 120" by (rule ev_offset_bounds)+
  have "ev_pointer m (mem_write (ev_offset m) (replicate 8 0) t) = replicate 8 0"
    using b assms by (simp add: ev_pointer_def mem_write_def)
  moreover have "m \<noteq> m' \<Longrightarrow> ev_pointer m (mem_write (ev_offset m') (replicate 8 0) t) = ev_pointer m t"
    using b assms ev_offset_apart [of m m'] by (intro pointer_write) auto
  ultimately show ?thesis using assms b by (auto simp: ev_gate_def)
qed

lemma pointer_gates:
  "length t = 120 \<Longrightarrow>
     ev_pointer m (fold (ev_gate ss) ms t)
       = (if m \<in> set ms \<and> \<not> wtq_cfg_has ss (ev_offset m) 8 then replicate 8 0 else ev_pointer m t)
     \<and> length (fold (ev_gate ss) ms t) = 120"
  by (induction ms arbitrary: t) (use pointer_gate in \<open>auto split: if_splits\<close>)

lemma pointer_prefix:
  "ev_offset m + 8 \<le> k \<Longrightarrow> k \<le> length t \<Longrightarrow> ev_pointer m (mem_write 0 (take k t) z) = ev_pointer m t"
  by (simp add: ev_pointer_def mem_write_def drop_take min_def)

text \<open>
  C16. The engine's copy of a caller's event table is a full table of the current
  size in which every callback is either the caller's pointer, when the caller's
  declared size covers the member entirely, or NULL: no byte of a member that is
  covered in part, and none beyond the caller's struct, is ever called.
\<close>

theorem events_copy_entire_members:
  assumes "min (unat (ev_struct_size src)) 120 \<le> length src"
  shows "length (wtq_session_events_copy src) = 120 \<and> ev_struct_size (wtq_session_events_copy src) = 120
    \<and> ev_pointer m (wtq_session_events_copy src)
        = (if ev_offset m + 8 \<le> unat (ev_struct_size src) then ev_pointer m src else replicate 8 0)"
proof -
  let ?ss = "ev_struct_size src"
  let ?n = "if unat ?ss < 120 then unat ?ss else 120"
  let ?t = "mem_write 0 (take ?n src) (replicate 120 0)" and ?sz = "le_bytes 4 120"
  let ?g = "fold (ev_gate ?ss) ev_members ?t"
  have n: "?n \<le> 120" "?n \<le> length src" using assms by (auto simp: min_def split: if_splits)
  have e: "wtq_session_events_copy src = mem_write 0 ?sz ?g"
    by (simp add: wtq_session_events_copy_def sizeof_events_def Let_def)
  have t: "length ?t = 120" using n by simp
  have g: "ev_pointer m ?g = (if \<not> wtq_cfg_has ?ss (ev_offset m) 8 then replicate 8 0 else ev_pointer m ?t)"
    "length ?g = 120"
    using pointer_gates [OF t] ev_members_all by simp_all
  have "ev_pointer m (mem_write 0 ?sz ?g) = ev_pointer m ?g"
    using g(2) ev_offset_bounds(1) [of m] by (intro pointer_write) simp_all
  moreover have "ev_pointer m ?t = ev_pointer m src" if "ev_offset m + 8 \<le> unat ?ss"
  proof -
    have "ev_offset m + 8 \<le> ?n" using that ev_offset_bounds(2) [of m] by simp
    then show ?thesis using n(2) by (rule pointer_prefix)
  qed
  moreover have "ev_struct_size (mem_write 0 ?sz ?g) = 120"
  proof -
    have "le_nat ?sz = 120" by code_simp
    then show ?thesis by (simp add: ev_struct_size_def mem_write_def)
  qed
  ultimately show ?thesis using g unfolding e by (simp add: wtq_cfg_has_def)
qed

theorem events_copy_entire_members_witness:
  "ev_pointer EV_datagram (wtq_session_events_copy (le_bytes 4 109 @ replicate 116 1)) = replicate 8 1
    \<and> ev_pointer EV_stream_writable (wtq_session_events_copy (le_bytes 4 109 @ replicate 116 1)) = replicate 8 0"
proof -
  let ?src = "le_bytes 4 109 @ replicate 116 1"
  have ss: "ev_struct_size ?src = 109" by code_simp
  have "min (unat (ev_struct_size ?src)) 120 \<le> length ?src" by (simp add: ss)
  note c = events_copy_entire_members [OF this]
  have p: "ev_pointer EV_datagram ?src = replicate 8 1" by code_simp
  have o: "ev_offset EV_datagram = 96" "ev_offset EV_stream_writable = 104"
    by (simp_all add: ev_offset_def ev_members_def)
  show ?thesis using c [of EV_datagram] c [of EV_stream_writable] p by (simp add: ss o)
qed

section \<open>The close\<close>

text \<open>The streams of which the application is told: those in use and alive.\<close>

definition live :: "wtq_session \<Rightarrow> nat \<Rightarrow> bool" where
  "live s i \<longleftrightarrow> st_refs (ws_streams s ! i) > 0 \<and> st_alive (ws_streams s ! i)"

text \<open>
  What the teardown of a live slot logs: its end, for an application that has the
  callback, and the lease that goes back to an admission driver with the last
  reference.
\<close>

definition stream_end_log :: "wtq_session \<Rightarrow> nat \<Rightarrow> api_event list" where
  "stream_end_log s i =
     (let st = ws_streams s ! i
      in (if ws_ev s EV_stream_closed then [ON_STREAM_CLOSED i] else [])
         @ (if ws_admission s \<and> st_refs st = 1 \<and> st_credit st \<noteq> None then [LEASE (st_credit st) False] else []))"

text \<open>What the teardown of some slots leaves as it was.\<close>

definition torn :: "nat list \<Rightarrow> wtq_session \<Rightarrow> wtq_session \<Rightarrow> bool" where
  "torn is s t \<longleftrightarrow>
     ws_log t = ws_log s @ concat (map (stream_end_log s) (filter (live s) is))
     \<and> length (ws_streams t) = length (ws_streams s)
     \<and> (\<forall>j. j \<notin> set is \<or> \<not> live s j \<longrightarrow> ws_streams t ! j = ws_streams s ! j)
     \<and> (\<forall>i \<in> set is. live s i \<longrightarrow> \<not> st_alive (ws_streams t ! i) \<and> st_es (ws_streams t ! i) = None)
     \<and> ws_admission t = ws_admission s \<and> ws_ev t = ws_ev s \<and> ws_commit_depth t = ws_commit_depth s
     \<and> ws_terminal_fired t = ws_terminal_fired s \<and> ws_cb_depth t = ws_cb_depth s \<and> ws_refs t = ws_refs s
     \<and> ws_freed t = ws_freed s"

lemma torn_unhold:
  assumes "i < length (ws_streams s)" "st_refs (ws_streams s ! i) > 0"
  shows "\<exists>st. stream_slot_release i s = s\<lparr>ws_streams := (ws_streams s)[i := st],
          ws_log := ws_log s @ (if ws_admission s \<and> st_refs (ws_streams s ! i) = 1 \<and> st_credit (ws_streams s ! i) \<noteq> None
                                then [LEASE (st_credit (ws_streams s ! i)) False] else [])\<rparr>
        \<and> st_alive st = st_alive (ws_streams s ! i) \<and> st_es st = st_es (ws_streams s ! i)"
proof -
  let ?st = "ws_streams s ! i"
  let ?u = "stream_unhold ?st"
  let ?r = "if st_refs ?u = 0 \<and> st_credit ?u \<noteq> None then ?u\<lparr>st_credit := None\<rparr> else ?u"
  have z: "st_refs ?u = 0 \<longleftrightarrow> st_refs ?st = 1" "st_credit ?u = st_credit ?st"
    using assms(2) by (auto simp: stream_unhold_def)
  have "stream_slot_release i s = s\<lparr>ws_streams := (ws_streams s)[i := ?r],
      ws_log := ws_log s @ (if ws_admission s \<and> st_refs ?u = 0 \<and> st_credit ?u \<noteq> None
                            then [LEASE (st_credit ?u) False] else [])\<rparr>"
    using assms(1)
    by (cases "st_credit ?u") (simp_all add: stream_slot_release_def stream_credit_release_def upd_st_def log_event_def Let_def)
  moreover have "st_alive ?r = st_alive ?st" "st_es ?r = st_es ?st"
    by (simp_all add: stream_unhold_def)
  ultimately show ?thesis unfolding z by blast
qed

lemma torn_one:
  assumes "i < length (ws_streams s)"
  shows "torn [i] s (teardown_one (\<lambda>s. s) i s)"
proof (cases "live s i")
  case False
  then have "teardown_one (\<lambda>s. s) i s = s" by (auto simp: teardown_one_def live_def Let_def)
  then show ?thesis using False by (simp add: torn_def)
next
  case True
  define u where "u = stream_unlink i (upd_st i both_shut s)"
  have u: "ws_log u = ws_log s" "length (ws_streams u) = length (ws_streams s)"
    "\<And>j. j \<noteq> i \<Longrightarrow> ws_streams u ! j = ws_streams s ! j" "\<not> st_alive (ws_streams u ! i)" "st_es (ws_streams u ! i) = None"
    "st_refs (ws_streams u ! i) = st_refs (ws_streams s ! i)" "st_credit (ws_streams u ! i) = st_credit (ws_streams s ! i)"
    "ws_admission u = ws_admission s" "ws_ev u = ws_ev s" "ws_commit_depth u = ws_commit_depth s"
    "ws_terminal_fired u = ws_terminal_fired s" "ws_cb_depth u = ws_cb_depth s" "ws_refs u = ws_refs s"
    "ws_freed u = ws_freed s"
    using assms(1)
    by (auto simp: u_def stream_unlink_def with_conn_def upd_st_def both_shut_def Let_def split: option.split)
  let ?e = "if ws_ev s EV_stream_closed then log_event (ON_STREAM_CLOSED i) u else u"
  have e: "ws_log ?e = ws_log s @ (if ws_ev s EV_stream_closed then [ON_STREAM_CLOSED i] else [])"
    "ws_streams ?e = ws_streams u" "ws_admission ?e = ws_admission s" "ws_ev ?e = ws_ev s"
    "ws_commit_depth ?e = ws_commit_depth s" "ws_terminal_fired ?e = ws_terminal_fired s"
    "ws_cb_depth ?e = ws_cb_depth s" "ws_refs ?e = ws_refs s" "ws_freed ?e = ws_freed s"
    using u by (simp_all add: log_event_def)
  have "teardown_one (\<lambda>s. s) i s = stream_slot_release i ?e"
    using True assms u(9)
    by (simp add: teardown_one_def stream_terminal_def live_def Let_def u_def fire_def upd_st_def both_shut_def)
  moreover have "i < length (ws_streams ?e)" "st_refs (ws_streams ?e ! i) > 0"
    using assms u True by (simp_all add: live_def e)
  then obtain st where st: "stream_slot_release i ?e = ?e\<lparr>ws_streams := (ws_streams ?e)[i := st],
      ws_log := ws_log ?e @ (if ws_admission ?e \<and> st_refs (ws_streams ?e ! i) = 1 \<and> st_credit (ws_streams ?e ! i) \<noteq> None
                             then [LEASE (st_credit (ws_streams ?e ! i)) False] else [])\<rparr>"
    "st_alive st = st_alive (ws_streams ?e ! i)" "st_es st = st_es (ws_streams ?e ! i)"
    using torn_unhold by blast
  ultimately have t: "teardown_one (\<lambda>s. s) i s = ?e\<lparr>ws_streams := (ws_streams u)[i := st],
      ws_log := ws_log s @ stream_end_log s i\<rparr>"
    by (simp add: e u stream_end_log_def Let_def)
  show ?thesis using True assms u st(2,3) unfolding t torn_def by (simp add: e nth_list_update)
qed

lemma torn_same: "torn is s t \<Longrightarrow> j \<notin> set is \<or> \<not> live s j \<Longrightarrow> ws_streams t ! j = ws_streams s ! j"
  by (simp add: torn_def)

lemma torn_dead: "torn is s t \<Longrightarrow> i \<in> set is \<Longrightarrow> live s i \<Longrightarrow> \<not> st_alive (ws_streams t ! i) \<and> st_es (ws_streams t ! i) = None"
  by (simp add: torn_def)

lemma torn_none: "torn is s t \<Longrightarrow> i \<in> set is \<Longrightarrow> \<not> live t i"
  using torn_same torn_dead by (metis live_def)

lemma torn_trans:
  assumes a: "torn [i] s t" and b: "torn is t u" and i: "i \<notin> set is"
  shows "torn (i # is) s u"
proof -
  have lv: "live t j = live s j" if "j \<in> set is" for j
  proof -
    have "j \<notin> set [i]" using that i by auto
    then show ?thesis using torn_same [OF a, of j] by (simp add: live_def)
  qed
  then have flt: "filter (live t) is = filter (live s) is" by (auto intro: filter_cong)
  have "stream_end_log t j = stream_end_log s j" if "j \<in> set is" for j
  proof -
    have "j \<notin> set [i]" using that i by auto
    then show ?thesis using torn_same [OF a, of j] a by (simp add: stream_end_log_def torn_def)
  qed
  then have logs: "map (stream_end_log t) (filter (live s) is) = map (stream_end_log s) (filter (live s) is)" by simp
  have same: "ws_streams u ! j = ws_streams s ! j" if "j \<notin> set (i # is) \<or> \<not> live s j" for j
  proof -
    have "ws_streams t ! j = ws_streams s ! j" using that by (intro torn_same [OF a]) auto
    moreover have "ws_streams u ! j = ws_streams t ! j" using that lv by (intro torn_same [OF b]) auto
    ultimately show ?thesis by simp
  qed
  have dead: "\<not> st_alive (ws_streams u ! j) \<and> st_es (ws_streams u ! j) = None" if "j \<in> set (i # is)" "live s j" for j
  proof (cases "j = i")
    case True
    then show ?thesis using torn_dead [OF a, of j] torn_same [OF b, of j] that i by simp
  next
    case False
    then show ?thesis using torn_dead [OF b, of j] that lv by simp
  qed
  show ?thesis using a b flt logs same dead unfolding torn_def by simp
qed

lemma torn_fold:
  assumes "distinct is" "\<forall>i \<in> set is. i < length (ws_streams s)"
  shows "torn is s (fold (teardown_one (\<lambda>s. s)) is s)"
  using assms
proof (induction "is" arbitrary: s)
  case (Cons i "is")
  let ?t = "teardown_one (\<lambda>s. s) i s"
  have 1: "torn [i] s ?t" using Cons.prems by (intro torn_one) simp_all
  then have "torn is ?t (fold (teardown_one (\<lambda>s. s)) is ?t)" using Cons.prems by (intro Cons.IH) (simp_all add: torn_def)
  then show ?case using torn_trans [OF 1] Cons.prems(1) by simp
qed (simp add: torn_def)

lemma latch_same:
  "ws_log (terminal_latch b s) = ws_log s" "ws_streams (terminal_latch b s) = ws_streams s"
  "ws_admission (terminal_latch b s) = ws_admission s" "ws_ev (terminal_latch b s) = ws_ev s"
  "ws_commit_depth (terminal_latch b s) = ws_commit_depth s" "ws_cb_depth (terminal_latch b s) = ws_cb_depth s"
  "ws_refs (terminal_latch b s) = ws_refs s" "ws_freed (terminal_latch b s) = ws_freed s"
  by (simp_all add: terminal_latch_def with_conn_def stream_budget_freeze_def Let_def)

lemma close_told:
  assumes "\<not> ws_terminal_fired s" "ws_refs s \<noteq> 0 \<or> ws_cb_depth s \<noteq> 0"
    and t: "t = adapt_session_closed (\<lambda>s. s) code reason clean s"
  shows "ws_log t = ws_log s @ concat (map (stream_end_log s) (filter (live s) [0..<length (ws_streams s)]))
      @ (if ws_commit_depth s = 0 \<and> ws_ev s EV_closed then [ON_CLOSED code reason clean] else [])"
    "ws_commit_depth s \<noteq> 0 \<longrightarrow> ws_closed_deferred t \<and> ws_deferred_close_code t = code
       \<and> ws_deferred_reason t = reason \<and> ws_deferred_close_clean t = clean"
    "ws_terminal_fired t" "ws_refs t = ws_refs s" "ws_cb_depth t = ws_cb_depth s" "\<forall>i < length (ws_streams s). \<not> live t i"
proof -
  let ?l = "terminal_latch False (session_enter s)" and ?is = "[0..<length (ws_streams s)]"
  let ?u = "streams_teardown (\<lambda>s. s) ?l"
  have l: "ws_streams ?l = ws_streams s" "ws_log ?l = ws_log s" "ws_admission ?l = ws_admission s" "ws_ev ?l = ws_ev s"
    "ws_commit_depth ?l = ws_commit_depth s" "ws_cb_depth ?l = ws_cb_depth s + 1" "ws_refs ?l = ws_refs s" "ws_terminal_fired ?l"
    by (simp_all add: latch_same) (simp_all add: session_enter_def)
  have torn: "torn ?is ?l ?u"
    using torn_fold [of ?is ?l] l by (simp add: streams_teardown_def)
  have lv: "live ?l = live s" "stream_end_log ?l = stream_end_log s"
    by (simp_all add: fun_eq_iff live_def stream_end_log_def l)
  have u: "ws_log ?u = ws_log s @ concat (map (stream_end_log s) (filter (live s) ?is))"
    "length (ws_streams ?u) = length (ws_streams s)" "ws_ev ?u = ws_ev s" "ws_commit_depth ?u = ws_commit_depth s"
    "ws_terminal_fired ?u" "ws_cb_depth ?u = ws_cb_depth s + 1" "ws_refs ?u = ws_refs s"
    using torn l lv unfolding torn_def by simp_all
  have dead: "\<forall>i < length (ws_streams s). \<not> live ?u i" using torn_none [OF torn] by simp
  define v where "v = (if ws_commit_depth s \<noteq> 0
    then ?u\<lparr>ws_closed_deferred := True, ws_deferred_close_code := code, ws_deferred_close_clean := clean,
            ws_deferred_reason := reason\<rparr>
    else fire (\<lambda>s. s) (ON_CLOSED code reason clean) ?u)"
  have x: "t = session_exit v"
    using assms(1) u by (simp add: t adapt_session_closed_def Let_def session_enter_def v_def)
  have v: "ws_cb_depth v = ws_cb_depth s + 1" "ws_refs v = ws_refs s" "ws_terminal_fired v" "ws_streams v = ws_streams ?u"
    "ws_log v = ws_log ?u @ (if ws_commit_depth s = 0 \<and> ws_ev s EV_closed then [ON_CLOSED code reason clean] else [])"
    "ws_commit_depth s \<noteq> 0 \<longrightarrow> ws_closed_deferred v \<and> ws_deferred_close_code v = code
       \<and> ws_deferred_reason v = reason \<and> ws_deferred_close_clean v = clean"
    using u by (simp_all add: v_def fire_def log_event_def)
  have t': "t = v\<lparr>ws_cb_depth := ws_cb_depth s\<rparr>"
    using v(1,2) assms(2) by (auto simp: x session_exit_def Let_def)
  show "ws_log t = ws_log s @ concat (map (stream_end_log s) (filter (live s) [0..<length (ws_streams s)]))
      @ (if ws_commit_depth s = 0 \<and> ws_ev s EV_closed then [ON_CLOSED code reason clean] else [])"
    using v(5) u(1) by (simp add: t')
  show "ws_commit_depth s \<noteq> 0 \<longrightarrow> ws_closed_deferred t \<and> ws_deferred_close_code t = code
       \<and> ws_deferred_reason t = reason \<and> ws_deferred_close_clean t = clean"
    "ws_terminal_fired t" "ws_refs t = ws_refs s" "ws_cb_depth t = ws_cb_depth s" "\<forall>i < length (ws_streams s). \<not> live t i"
    using v dead by (simp_all add: t' live_def)
qed

text \<open>The same without a driver's leases.\<close>

lemma close_silent:
  assumes "\<not> ws_terminal_fired s" "ws_commit_depth s = 0" "\<not> ws_admission s" "ws_ev s EV_stream_closed"
    "ws_ev s EV_closed" "ws_refs s \<noteq> 0" and t: "t = adapt_session_closed (\<lambda>s. s) code reason clean s"
  shows "ws_log t = ws_log s @ map ON_STREAM_CLOSED (filter (live s) [0..<length (ws_streams s)]) @ [ON_CLOSED code reason clean]"
    "ws_terminal_fired t" "ws_refs t \<noteq> 0" "\<forall>i < length (ws_streams s). \<not> live t i"
proof -
  have "concat (map (stream_end_log s) is) = map ON_STREAM_CLOSED is" for "is"
    using assms(3,4) by (induction "is") (simp_all add: stream_end_log_def Let_def)
  then show "ws_log t = ws_log s @ map ON_STREAM_CLOSED (filter (live s) [0..<length (ws_streams s)]) @ [ON_CLOSED code reason clean]"
    "ws_terminal_fired t" "ws_refs t \<noteq> 0" "\<forall>i < length (ws_streams s). \<not> live t i"
    using close_told [OF assms(1) disjI1 [OF assms(6)] t] assms(2,5,6) by simp_all
qed

lemma close_again:
  "ws_terminal_fired t \<Longrightarrow> ws_refs t \<noteq> 0 \<or> ws_cb_depth t \<noteq> 0 \<Longrightarrow> adapt_session_closed app code reason clean t = t"
  by (auto simp: adapt_session_closed_def session_enter_def session_exit_def Let_def)

text \<open>
  C15. The close of a session, the engine's callback seen from an application that
  does not reenter, on a session that somebody holds or that is inside another call,
  with or without an admission driver: exactly its live streams end, in the order of
  the pool. For each the application is told the end if it has that callback, and the
  admission driver gets the lease back when nobody else holds the handle. After them
  the application is told once that the session is closed, if it has that callback;
  inside a commit callback this is recorded for later instead. No stream is left
  alive, and a second close changes nothing.
\<close>

theorem session_close_tells_every_stream:
  assumes "\<not> ws_terminal_fired s" "ws_refs s \<noteq> 0 \<or> ws_cb_depth s \<noteq> 0"
    and t: "t = adapt_session_closed (\<lambda>s. s) code reason clean s"
  shows "ws_log t = ws_log s @ concat (map (stream_end_log s) (filter (live s) [0..<length (ws_streams s)]))
      @ (if ws_commit_depth s = 0 \<and> ws_ev s EV_closed then [ON_CLOSED code reason clean] else [])
    \<and> (ws_commit_depth s \<noteq> 0 \<longrightarrow> ws_closed_deferred t \<and> ws_deferred_close_code t = code
          \<and> ws_deferred_reason t = reason \<and> ws_deferred_close_clean t = clean)
    \<and> ws_terminal_fired t \<and> (\<forall>i < length (ws_streams s). \<not> live t i)
    \<and> adapt_session_closed (\<lambda>s. s) code' reason' clean' t = t"
  using close_told [OF assms] close_again [of t] assms(2) by simp

text \<open>One stream of a session with an admission driver, which the application does not hold.\<close>

theorem session_close_tells_every_stream_witness:
  "ws_log (adapt_session_closed (\<lambda>s. s) 7 [] True (plain_up\<lparr>ws_admission := True,
      ws_streams := (stream_fresh None True False 4)\<lparr>st_credit := Some 9\<rparr> # replicate 15 stream_zero\<rparr>))
    = [ON_ESTABLISHED [], ON_STREAM_CLOSED 0, LEASE (Some 9) False, ON_CLOSED 7 [] True]"
proof -
  let ?s = "plain_up\<lparr>ws_admission := True,
      ws_streams := (stream_fresh None True False 4)\<lparr>st_credit := Some 9\<rparr> # replicate 15 stream_zero\<rparr>"
  have f: "\<not> ws_terminal_fired ?s" "ws_refs ?s \<noteq> 0 \<or> ws_cb_depth ?s \<noteq> 0" "ws_commit_depth ?s = 0"
    "ws_ev ?s EV_stream_closed" "ws_ev ?s EV_closed" "ws_log ?s = [ON_ESTABLISHED []]" "ws_admission ?s"
    by (simp_all add: plain_up_def up_state_def plain_session_eq session_zero_def example_events)
  have "filter (live ?s) [0..<16] = [0]"
    by (simp add: live_def upt_conv_Cons stream_fresh_def stream_zero_def)
  moreover have "stream_end_log ?s 0 = [ON_STREAM_CLOSED 0, LEASE (Some 9) False]"
    using f by (simp add: stream_end_log_def stream_fresh_def)
  ultimately show ?thesis
    using session_close_tells_every_stream [OF f(1,2) refl, of 7 "[]" True] f(3-6) by simp
qed

section \<open>The link between a handle and its engine stream\<close>

text \<open>An engine stream that was opened has made two driver calls and no callback.\<close>

lemma wt_open_ok:
  assumes "wt_open bidi c = (WTQ_OK, Some j, c')" "j < length (peer c)"
  shows "list_all unheard (new_events c c')" "length (peer c') = length (peer c)" "es_kind (peer c' ! j) = ES_WT"
  using assms unfolding wt_open_def Let_def new_events_def
  by (auto simp: emit_def upd_es_def estream_release_def split: if_splits option.splits sum.splits prod.splits)

lemma wt_open_of: "(if bidi then wtq_conn_wt_open_bidi c else wtq_conn_wt_open_uni c) = wt_open bidi c"
  by (simp add: wtq_conn_wt_open_bidi_def wtq_conn_wt_open_uni_def)

text \<open>A slot for a stream of the application: one that was free, filled with a fresh stream.\<close>

lemma acquire_local:
  assumes "stream_acquire es bidi True sid s = (Some i, s')" "es = None \<or> \<not> ws_admission s"
  shows "i < length (ws_streams s)" "st_refs (ws_streams s ! i) = 0"
    "s' = upd_st i (\<lambda>_. stream_fresh es bidi True sid) s"
proof -
  from assms have f: "find (acquire_free es True s) (acquire_range es True s) = Some i"
    and s': "s' = upd_st i (\<lambda>_. stream_fresh es bidi True sid) s"
    by (auto simp: stream_acquire_def Let_def split: option.splits)
  from f have "i \<in> set (acquire_range es True s)" "acquire_free es True s i" by (auto simp: find_Some_iff)
  then show "i < length (ws_streams s)" "st_refs (ws_streams s ! i) = 0"
    by (auto simp: acquire_range_def acquire_free_def Let_def split: if_splits)
  show "s' = upd_st i (\<lambda>_. stream_fresh es bidi True sid) s" by (rule s')
qed

text \<open>The handle of a new stream: with an admission driver it holds the native stream.\<close>

definition opened_handle :: "wtq_session \<Rightarrow> nat \<Rightarrow> bool \<Rightarrow> wtq_session \<Rightarrow> wtq_stream" where
  "opened_handle s j bidi s' =
     (let es = peer (ws_conn s') ! j
      in (stream_fresh (Some j) bidi True (es_id es))\<lparr>st_credit := if ws_admission s then es_ds es else None\<rparr>)"

lemma fresh_credit: "(stream_fresh es bidi local sid)\<lparr>st_credit := None\<rparr> = stream_fresh es bidi local sid"
  by (simp add: stream_fresh_def stream_zero_def)

lemma open_done_linked:
  assumes d: "open_done app bidi reserved j u = (WTQ_OK, Some i, t)"
    and r: "if ws_admission s then reserved = Some i \<and> i < length (ws_streams s) \<and> st_refs (ws_streams s ! i) = 0
              \<and> u = (upd_st i (\<lambda>_. stream_fresh None bidi True WTQ_STREAM_ID_UNKNOWN) (session_enter s))\<lparr>ws_conn := c\<rparr>
            else reserved = None \<and> u = (session_enter s)\<lparr>ws_conn := c\<rparr>"
  shows "i < length (ws_streams s) \<and> st_refs (ws_streams s ! i) = 0
    \<and> ws_streams t = (ws_streams s)[i := (stream_fresh (Some j) bidi True (es_id (peer c ! j)))
          \<lparr>st_credit := if ws_admission s then es_ds (peer c ! j) else None\<rparr>]
    \<and> ws_conn t = wtq_estream_set_user j (Some i) c
    \<and> ws_log t = ws_log s @ (if ws_admission s then [LEASE (es_ds (peer c ! j)) True] else [])
    \<and> ws_cb_depth t = ws_cb_depth s + 1 \<and> ws_refs t = ws_refs s"
proof (cases "ws_admission s")
  case True
  then have u: "reserved = Some i" "i < length (ws_streams s)" "st_refs (ws_streams s ! i) = 0"
    "u = (upd_st i (\<lambda>_. stream_fresh None bidi True WTQ_STREAM_ID_UNKNOWN) (session_enter s))\<lparr>ws_conn := c\<rparr>"
    using r by simp_all
  show ?thesis
    using d True u(2,3) unfolding u(1,4)
    by (auto simp: open_done_def stream_lease_def with_conn_def upd_st_def log_event_def session_enter_def Let_def
        wtq_estream_id_def wtq_estream_driver_stream_def stream_fresh_def stream_zero_def)
next
  case False
  then have u: "reserved = None" "u = (session_enter s)\<lparr>ws_conn := c\<rparr>" "\<not> ws_admission u"
    using r by (simp_all add: session_enter_def)
  obtain v where v: "stream_acquire (Some j) bidi True (wtq_estream_id (Some j) c) u = (Some i, v)"
    and t: "t = with_conn (wtq_estream_set_user j (Some i)) v"
    using d u(2) by (auto simp: open_done_def u(1) split: option.splits prod.splits)
  show ?thesis
    using acquire_local [OF v disjI2 [OF u(3)]] False unfolding t u(2)
    by (simp add: with_conn_def upd_st_def session_enter_def wtq_estream_id_def fresh_credit)
qed

text \<open>
  C17. A stream that the application opens gets a handle that nobody holds, and
  handle and engine stream name each other: the slot was free, it is filled with a
  fresh stream of the requested kind that names the engine stream and its id, the
  engine stream's user pointer gives that slot back to the callbacks, every other
  slot is as before, and no callback is made. This holds on both paths of the
  function: without an admission driver the slot is taken after the engine's answer
  and nothing is logged; with one the slot is reserved before it, and the new handle
  holds the native stream, of which the driver is told by one lease. The session is
  one that somebody holds or that is inside another call.
\<close>

theorem open_links_handle:
  assumes "reachable (ws_conn s)" "ws_refs s \<noteq> 0 \<or> ws_cb_depth s \<noteq> 0" "session_open app bidi s = (WTQ_OK, Some i, s')"
  shows "\<exists>j. i < length (ws_streams s) \<and> st_refs (ws_streams s ! i) = 0
    \<and> ws_streams s' = (ws_streams s)[i := opened_handle s j bidi s']
    \<and> handle_of s' j = Some i \<and> es_kind (peer (ws_conn s') ! j) = ES_WT
    \<and> ws_log s' = ws_log s @ (if ws_admission s then [LEASE (es_ds (peer (ws_conn s') ! j)) True] else [])"
proof -
  let ?e = "session_enter s"
  obtain reserved e t where t: "open_with app bidi reserved e = (WTQ_OK, Some i, t)" and s': "s' = session_exit t"
    and e: "if ws_admission s
       then \<exists>k. reserved = Some k \<and> stream_acquire None bidi True WTQ_STREAM_ID_UNKNOWN ?e = (Some k, e)
       else reserved = None \<and> e = ?e"
    using assms(3) by (cases "ws_admission s")
      (auto simp: session_open_def session_enter_def Let_def split: if_splits prod.splits option.splits)
  have slot: "k < length (ws_streams s) \<and> st_refs (ws_streams s ! k) = 0
      \<and> e = upd_st k (\<lambda>_. stream_fresh None bidi True WTQ_STREAM_ID_UNKNOWN) ?e"
    if "stream_acquire None bidi True WTQ_STREAM_ID_UNKNOWN ?e = (Some k, e)" for k
    using acquire_local [OF that] by (simp add: session_enter_def)
  have conn: "ws_conn e = ws_conn s"
    using e slot by (auto simp: session_enter_def upd_st_def split: if_splits)
  obtain rc es c where o: "wt_open bidi (ws_conn s) = (rc, es, c)" by (metis prod_cases3)
  obtain j where j: "es = Some j" "rc = WTQ_OK" and d: "open_done app bidi reserved j (deliver app c e) = (WTQ_OK, Some i, t)"
    using t o by (auto simp: open_with_def open_failed_def wt_open_of conn Let_def split: option.splits if_splits)
  have jl: "j < length (peer (ws_conn s))"
    using wt_open_index o j(1) reachable_inv [OF assms(1)] by blast
  have w: "list_all unheard (new_events (ws_conn s) c)" "length (peer c) = length (peer (ws_conn s))" "es_kind (peer c ! j) = ES_WT"
    using wt_open_ok [OF _ jl] o j by blast+
  have u: "deliver app c e = e\<lparr>ws_conn := c\<rparr>" using w(1) by (intro quiet_deliver) (simp add: conn)
  have "reserved = Some k \<Longrightarrow> k = i" for k using d by (simp add: open_done_def Let_def)
  then have r: "if ws_admission s then reserved = Some i \<and> i < length (ws_streams s) \<and> st_refs (ws_streams s ! i) = 0
        \<and> e\<lparr>ws_conn := c\<rparr> = (upd_st i (\<lambda>_. stream_fresh None bidi True WTQ_STREAM_ID_UNKNOWN) ?e)\<lparr>ws_conn := c\<rparr>
      else reserved = None \<and> e\<lparr>ws_conn := c\<rparr> = ?e\<lparr>ws_conn := c\<rparr>"
    using e slot by (auto split: if_splits)
  note l = open_done_linked [OF d [unfolded u] r]
  have x: "s' = t\<lparr>ws_cb_depth := ws_cb_depth s\<rparr>"
    using assms(2) l unfolding s' by (auto simp: session_exit_def Let_def)
  have "es_user (peer (ws_conn s') ! j) = Some i" "es_kind (peer (ws_conn s') ! j) = ES_WT"
    "es_id (peer (ws_conn s') ! j) = es_id (peer c ! j)" "es_ds (peer (ws_conn s') ! j) = es_ds (peer c ! j)"
    using jl w(2,3) l unfolding x by (simp_all add: wtq_estream_set_user_def peer_upd_es)
  then show ?thesis
    using l by (intro exI [of _ j]) (simp add: x handle_of_def valid_stream_def opened_handle_def Let_def)
qed

lemma server_peer: "length (peer server_established) = 16"
  by code_simp

theorem open_links_handle_witness:
  "\<exists>i j s'. wtq_session_open_uni (\<lambda>s. s) plain_up = (WTQ_OK, Some i, s') \<and> handle_of s' j = Some i"
proof -
  have r: "replicate 16 stream_zero = stream_zero # replicate 15 stream_zero" by (simp add: numeral_eq_Suc)
  have p: "reachable (ws_conn plain_up)" "\<not> ws_admission plain_up" "ws_refs plain_up \<noteq> 0"
    "ws_streams plain_up = stream_zero # replicate 15 stream_zero"
    using server_reachable(6) r by (simp_all add: plain_up_def up_state_def plain_session_eq session_zero_def)
  have "(case wtq_conn_wt_open_uni server_established of (rc, es, c) \<Rightarrow> (rc, es)) = (WTQ_OK, Some 2)" by code_simp
  then obtain c where c: "wtq_conn_wt_open_uni server_established = (WTQ_OK, Some 2, c)"
    by (cases "wtq_conn_wt_open_uni server_established") simp
  let ?e = "session_enter plain_up"
  have e: "ws_conn ?e = server_established" "\<not> ws_terminal_fired ?e" "\<not> ws_admission ?e" "\<not> ws_budgeted ?e"
    by (simp_all add: session_enter_def plain_up_def up_state_def plain_session_eq session_zero_def)
  have "wt_open False server_established = (WTQ_OK, Some 2, c)" using c by (simp add: wtq_conn_wt_open_uni_def)
  moreover have "2 < length (peer server_established)" by (simp add: server_peer)
  ultimately have "list_all unheard (new_events server_established c)" by (rule wt_open_ok)
  then have d: "deliver (\<lambda>s. s) c ?e = ?e\<lparr>ws_conn := c\<rparr>" by (intro quiet_deliver) (use e(1) in simp)
  have "[0..<16] = 0 # [1..<16]" by (simp add: upt_conv_Cons)
  then have "\<exists>s'. stream_acquire (Some 2) False True (wtq_estream_id (Some 2) c) (?e\<lparr>ws_conn := c\<rparr>) = (Some 0, s')"
    using p(4) e(4) by (simp add: stream_acquire_def acquire_range_def acquire_free_def Let_def) (simp add: stream_zero_def)
  then obtain i s' where s: "session_open (\<lambda>s. s) False plain_up = (WTQ_OK, Some i, s')"
    using e c d by (auto simp: session_open_def open_with_def open_done_def Let_def)
  from open_links_handle [OF p(1) disjI1 [OF p(3)] s] show ?thesis using s unfolding wtq_session_open_uni_def by blast
qed

end
