(* ===== verification/Api_Theorems.thy ===== *)
theory Api_Theorems
  imports Api_Functional Engine_Theorems
begin

text \<open>
  The properties of the session layer: over every reachable session of every
  application whose callbacks nest finitely deep, and of the functions on structs,
  slots and closes.
\<close>

section \<open>Every reachable session\<close>

lemma reachable_rested: "session_reachable (react plan n) s \<Longrightarrow> length (ws_log s) < 2 ^ 28 \<Longrightarrow> rested s"
  using session_reachable_rested [OF react_application] by (simp add: small_def)

lemma rested_told: "rested s \<Longrightarrow> told_right s"
  by (auto simp: rested_def resting_def gone_def)

lemma rested_good: "rested s \<Longrightarrow> \<not> ws_freed s \<Longrightarrow> good root_frame (session_enter s)"
  by (simp add: rested_def gone_def resting_def)

text \<open>
  C4. A session's memory is released exactly when its reference count is zero at a
  root, once, and nothing happens afterwards: no callback, no call of the provider.
\<close>

theorem session_released_once:
  assumes "session_reachable (react plan n) s" "length (ws_log s) < 2 ^ 28"
  shows "(ws_freed s \<longleftrightarrow> ws_refs s = 0) \<and> filter (\<lambda>e. e = SESSION_FREED) (ws_log s) = (if ws_freed s then [SESSION_FREED] else [])
    \<and> (ws_freed s \<longrightarrow> last (ws_log s) = SESSION_FREED)"
proof -
  have none: "SESSION_FREED \<notin> set l \<Longrightarrow> filter (\<lambda>e. e = SESSION_FREED) l = []" for l
    by (induction l) auto
  from reachable_rested [OF assms] show ?thesis
    unfolding rested_def
  proof
    assume "resting s"
    then show ?thesis using none by (simp add: resting_def good_def session_enter_def)
  next
    assume "gone s"
    then show ?thesis using none by (auto simp: gone_def)
  qed
qed

theorem session_released_once_witness:
  "ws_freed (perform (react pinning 1) Session_release plain_session)
    \<and> last (ws_log (perform (react pinning 1) Session_release plain_session)) = SESSION_FREED"
proof -
  let ?s = "perform (react pinning 1) Session_release plain_session"
  have f: "\<not> ws_freed plain_session" by (simp add: plain_session_eq session_zero_def)
  have s: "?s = session_destroy (plain_session\<lparr>ws_log := [CALL Session_release], ws_refs := 0\<rparr>)"
    by (simp add: plain_session_eq session_zero_def perform_def wtq_session_release_def session_unref_def log_event_def)
  have "session_reachable (react pinning 1) ?s" by (rule sreach_op [OF plain_reachable sop_call [OF f]])
  from session_released_once [OF this] show ?thesis
    unfolding s by (simp add: session_destroy_def log_event_def)
qed

text \<open>
  C3. Of the three terminal callbacks at most one is ever made, and none without the
  session being latched terminal; when the application has registered all three,
  exactly one is made to a latched session. A session whose engine has reported an
  outcome is latched.
\<close>

theorem session_terminal_once:
  assumes "session_reachable (react plan n) s" "length (ws_log s) < 2 ^ 28"
  shows "length (filter api_terminal (ws_log s)) \<le> (if ws_terminal_fired s then 1 else 0)
    \<and> (ws_ev s EV_refused \<and> ws_ev s EV_failed \<and> ws_ev s EV_closed \<longrightarrow>
         length (filter api_terminal (ws_log s)) = (if ws_terminal_fired s then 1 else 0))
    \<and> (list_ex outcome (trace (ws_conn s)) \<longrightarrow> ws_terminal_fired s)"
  using rested_told [OF reachable_rested [OF assms]]
  by (cases "ws_terminal_fired s") (auto simp: told_right_def terminals_def due_def told_def engine_ended_def)

lemma pinned_reachable: "session_reachable (react pinning 1) open_failed_session"
proof -
  have "\<not> ws_freed admission_up"
    by (simp add: admission_up_def up_state_def admission_session_eq session_zero_def)
  then show ?thesis
    unfolding open_failed_session_def
    by (rule sreach_op [OF admission_up_reachable [OF pinning_calm] sop_call])
qed

theorem session_terminal_once_witness:
  "length (filter api_terminal (ws_log open_failed_session)) = 1 \<and> ws_terminal_fired open_failed_session"
  using session_terminal_once [OF pinned_reachable] by (simp add: open_failed_state split: if_splits)

lemma closed_ended:
  assumes "reachable c" "closed c"
  shows "engine_ended c"
proof -
  have inv: "conn_inv c" using reachable_inv [OF assms(1)] by simp
  then have "session_run SS_IDLE (filter session_event (trace c)) (sess_state c)" "session_terminal c"
    using assms(2) conn_inv_session(1) by (simp_all add: conn_inv_def life_inv_def session_events_def)
  then have "length (filter outcome (filter session_event (trace c))) = 1" by (rule terminal_one_outcome)
  then have "filter outcome (filter session_event (trace c)) \<noteq> []"
    by (cases "filter outcome (filter session_event (trace c))") simp_all
  then show ?thesis by (auto simp: engine_ended_def filter_empty_conv list_ex_iff)
qed

text \<open>
  C5. The end of the connection reaches the application: whatever happened before,
  when the backend reports in a batch that the connection is gone, then after the
  batch the session is latched terminal and exactly one terminal callback has been
  made in its whole life, however the application reenters the library meanwhile.
\<close>

theorem connection_end_reaches_application:
  assumes "session_reachable (react plan n) s" "\<not> ws_freed s" "ws_ev s EV_refused" "ws_ev s EV_failed" "ws_ev s EV_closed"
    and t: "t = snd (wtq_api_session_leave (deliver (react plan n) (wtq_conn_on_conn_closed err remote (ws_conn s))
        (wtq_api_session_enter s)))"
    and small: "length (ws_log t) < 2 ^ 28"
  shows "ws_terminal_fired t \<and> length (filter api_terminal (ws_log t)) = 1"
proof -
  let ?c = "wtq_conn_on_conn_closed err remote (ws_conn s)" and ?e = "session_enter s"
  let ?y = "deliver (react plan n) ?c ?e"
  have op: "conn_op (ws_conn ?e) ?c" by (simp add: op_conn_closed)
  have "session_input (react plan n) ?e ?y" by (rule input_engine [OF op])
  then have so: "session_op (react plan n) s t"
    unfolding t wtq_api_session_enter_def by (intro sop_batch [OF assms(2)]) (auto simp: wtq_api_session_enter_def)
  have y: "t = session_exit ?y" unfolding t by (simp add: wtq_api_session_leave_def wtq_api_session_enter_def Let_def)
  have sm: "small ?y" using small reacts.small_exit unfolding y by (simp add: small_def)
  have run: "run root_frame root_frame ?e ?y" by (rule reacts.run_deliver) (use op in simp_all)
  have "mono_log s t" by (rule session_op_mono [OF react_application so])
  then have rs: "rested s" using small assms(1) reachable_rested by (simp add: mono_log_def)
  then have r: "resting s" and g: "good root_frame ?e" using assms(2) resting_live rested_good by blast+
  have rc: "reachable (ws_conn s)" using g by (simp add: good_def)
  then have e: "engine_ended ?c"
    using reach_op [OF rc op_conn_closed] conn_closed_closed reachable_inv by (blast intro: closed_ended)
  have "ws_terminal_fired ?y"
    by (rule reacts.fired_deliver [OF _ op g sm e]) (use r in \<open>simp_all add: resting_def told_right_def\<close>)
  then have f: "ws_terminal_fired t" unfolding y by simp
  have "ws_ev ?y = ws_ev ?e" using runD [OF run sm g] unfolding bal_defs by blast
  moreover have "ws_ev (session_exit y) = ws_ev y" "ws_ev (session_enter x) = ws_ev x" for x y
    by (simp_all add: session_enter_def session_exit_def session_destroy_def log_event_def Let_def)
  ultimately have "ws_ev t = ws_ev s" unfolding y by simp
  then have "told t" using assms(3-5) by (simp add: told_def)
  then show ?thesis
    using f rested_told [OF reachable_rested [OF sreach_op [OF assms(1) so] small]]
    by (auto simp: told_right_def terminals_def due_def)
qed

theorem connection_end_reaches_application_witness:
  "ws_terminal_fired (snd (wtq_api_session_leave (deliver (react pinning 0)
     (wtq_conn_on_conn_closed 7 True server_established) (wtq_api_session_enter plain_up))))"
proof -
  let ?t = "snd (wtq_api_session_leave (deliver (react pinning 0)
     (wtq_conn_on_conn_closed 7 True (ws_conn plain_up)) (wtq_api_session_enter plain_up)))"
  have c: "ws_conn plain_up = server_established" "ws_refs plain_up = 1" "ws_cb_depth plain_up = 0" "\<not> ws_freed plain_up"
    "\<And>m. ws_ev plain_up m"
    by (simp_all add: plain_up_def up_state_def plain_session_eq session_zero_def example_events)
  have ev: "new_events server_established (wtq_conn_on_conn_closed 7 True server_established)
      = [CB_session_closed 0 [] False, CB_conn_error 7]"
    by code_simp
  let ?u = "(session_enter plain_up)\<lparr>ws_conn := wtq_conn_on_conn_closed 7 True server_established\<rparr>"
  let ?v = "adapt_session_closed (\<lambda>s. s) 0 [] False ?u"
  have "filter (live ?u) [0..<length (ws_streams ?u)] = []"
    by (simp add: live_def plain_up_def up_state_def plain_session_eq session_zero_def session_enter_def stream_zero_def
        filter_empty_conv)
  then have v: "ws_log ?v = [ON_ESTABLISHED [], ON_CLOSED 0 [] False]" "ws_terminal_fired ?v" "ws_refs ?v \<noteq> 0"
    using close_silent [OF _ _ _ _ _ _ refl, of ?u 0 "[]" False]
    by (simp_all add: plain_up_def up_state_def plain_session_eq session_zero_def session_enter_def example_events)
  have id: "react pinning 0 = (\<lambda>s. s)" by (rule ext) simp
  have "adapt_conn_error (\<lambda>s. s) 7 ?v = ?v"
    using v(2,3) by (simp add: adapt_conn_error_def session_enter_def session_exit_def Let_def)
  then have "deliver (\<lambda>s. s) (wtq_conn_on_conn_closed 7 True server_established) (wtq_api_session_enter plain_up) = ?v"
    using ev c(1)
    by (simp add: deliver_def deliver_with_def new_events_def dispatch_def dispatch_held_def wtq_api_session_enter_def)
  then have "ws_log ?t = [ON_ESTABLISHED [], ON_CLOSED 0 [] False]"
    using v(1,3) unfolding id c(1) by (simp add: wtq_api_session_leave_def session_exit_def Let_def)
  then have "length (ws_log ?t) < 2 ^ 28" by simp
  then show ?thesis
    using connection_end_reaches_application [OF plain_up_reachable [OF pinning_calm] c(4,5,5,5), where t = ?t] unfolding c
    by simp
qed

text \<open>
  C18. The state of a session that is not released is well typed: its engine is in a
  state that the engine's own operations reach, and the engine stream of every
  handle lies in the engine's pool.
\<close>

theorem session_state_typed:
  assumes "session_reachable (react plan n) s" "length (ws_log s) < 2 ^ 28" "\<not> ws_freed s"
  shows "reachable (ws_conn s) \<and> ws_cb_depth s = 0 \<and> ws_commit_depth s = 0
    \<and> (\<forall>i < length (ws_streams s). \<forall>j. st_es (ws_streams s ! i) = Some j \<longrightarrow> j < length (peer (ws_conn s)))"
proof -
  have r: "rested s" by (rule reachable_rested [OF assms(1,2)])
  have "resting s" using resting_live [OF r assms(3)] .
  moreover have "es_ok (session_enter s)" "reachable (ws_conn s)"
    using rested_good [OF r assms(3)] by (simp_all add: good_def session_enter_def)
  ultimately show ?thesis by (simp add: resting_def es_ok_def session_enter_def)
qed

theorem session_state_typed_witness:
  "reachable (ws_conn open_failed_session) \<and> ws_commit_depth open_failed_session = 0"
  using session_state_typed [OF pinned_reachable] by (simp add: open_failed_state)

text \<open>
  C14. Every callback that was made is one that the application registered: no
  callback goes through a NULL member of the event table, the commit callback, which
  is made without a test, included.
\<close>

theorem callbacks_registered:
  assumes "session_reachable (react plan n) s" "length (ws_log s) < 2 ^ 28" "e \<in> set (ws_log s)"
    "ev_member_of e = Some m"
  shows "ws_ev s m"
proof -
  have "callbacks_ok s"
    using reachable_rested [OF assms(1,2)]
    by (auto simp: rested_def gone_def resting_def good_def session_enter_def callbacks_ok_def)
  then show ?thesis using assms(3,4) by (simp add: callbacks_ok_def)
qed

theorem callbacks_registered_witness: "ws_ev open_failed_session EV_stream_closed"
  by (rule callbacks_registered [OF pinned_reachable, of "ON_STREAM_CLOSED 0"]) (simp_all add: open_failed_state)

text \<open>
  C9. The reference counts of the stream handles of a session without an admission
  driver: the count of a slot is that of the application plus the library's own
  while the stream is alive, so that a slot is free for another stream exactly when
  its stream is over and the application holds no reference.
\<close>

theorem stream_references_exact:
  assumes "session_reachable (react plan n) s" "length (ws_log s) < 2 ^ 28" "\<not> ws_freed s"
    "ws_receive_quantum s = 0" "i < length (ws_streams s)"
  shows "let st = ws_streams s ! i
    in unat (st_refs st) = unat (st_app_refs st) + (if st_alive st then 1 else 0)
       \<and> (st_refs st = 0 \<longleftrightarrow> st_app_refs st = 0 \<and> \<not> st_alive st)"
proof -
  let ?st = "ws_streams s ! i"
  have "slots_acc (fr_holds root_frame) (session_enter s)"
    using rested_good [OF reachable_rested [OF assms(1,2)] assms(3)] assms(4) by (simp add: good_def session_enter_def)
  then have r: "unat (st_refs ?st) = unat (st_app_refs ?st) + (if st_alive ?st then 1 else 0)"
    using assms(5) by (simp add: slots_acc_def session_enter_def Let_def fr_holds_def)
  have "st_refs ?st = 0 \<longleftrightarrow> unat (st_refs ?st) = 0" "st_app_refs ?st = 0 \<longleftrightarrow> unat (st_app_refs ?st) = 0"
    by (simp_all add: unat_eq_0)
  then show ?thesis using r by (simp add: Let_def)
qed

theorem stream_references_exact_witness:
  "let st = ws_streams plain_up ! 3
    in unat (st_refs st) = unat (st_app_refs st) + (if st_alive st then 1 else 0)
       \<and> (st_refs st = 0 \<longleftrightarrow> st_app_refs st = 0 \<and> \<not> st_alive st)"
  by (rule stream_references_exact [OF plain_up_reachable [OF pinning_calm]])
    (simp_all add: plain_up_def up_state_def plain_session_eq session_zero_def)

text \<open>
  C10. With an admission driver this fails: the slot that an open reserves is given
  back twice when the engine's open ends the session. A kernel-checked run: the
  application is told the end of a stream that it was never handed, retains it as
  the header allows, and is left with a reference to a slot that counts none; its
  release makes the count wrap around.
\<close>

theorem reserved_slot_reference_lost:
  "session_reachable (react pinning 1) open_failed_session
    \<and> wtq_session_open_uni (react pinning 1) (log_event (CALL (Session_open False)) admission_up)
        = (WTQ_ERR_BACKEND, None, open_failed_session)
    \<and> ws_log open_failed_session = [ON_ESTABLISHED [], CALL (Session_open False), ON_STREAM_CLOSED 0,
        CALL (Stream_add_ref 0), ON_CLOSED 0 [] False]
    \<and> st_app_refs (ws_streams open_failed_session ! 0) = 1 \<and> st_refs (ws_streams open_failed_session ! 0) = 0
    \<and> st_refs (ws_streams (wtq_stream_release 0 open_failed_session) ! 0) = 2 ^ 32 - 1"
proof -
  have "st_refs (ws_streams (wtq_stream_release 0 open_failed_session) ! 0) = 2 ^ 32 - 1"
    using open_failed_state(3-8)
    by (simp add: wtq_stream_release_def valid_stream_def session_unref_def stream_credit_release_def Let_def upd_st_def)
  then show ?thesis using pinned_reachable open_failed_state by blast
qed

end
