(* ===== verification/Spec2Isabelle.thy ===== *)
theory Spec2Isabelle
  imports Engine_Theorems Engine_Loops Engine_Decisions Api_Theorems
begin

text \<open>
  A verification development for wtquic, a C library that runs WebTransport
  sessions over HTTP/3 on top of a QUIC backend (\<^verbatim>\<open>src/\<close> below is the repository's
  library directory).

  The program. \<^verbatim>\<open>src/proto/\<close> holds sans-I/O codecs: variable-length integers, HTTP/3
  frames, the preambles of WebTransport streams, capsules, SETTINGS with the
  selection of a WebTransport profile, QPACK with a static table and Huffman
  decoding, structured-field strings, the extended CONNECT request and response.
  \<^verbatim>\<open>src/engine/conn.c\<close> is the connection engine: it owns a pool of stream records,
  consumes what a backend reports (bytes, resets, closes, native ids), drives the
  session's state machine, and calls the backend through \<^verbatim>\<open>wtq_driver_ops_t\<close> and the
  layer above through \<^verbatim>\<open>wtq_conn_callbacks_t\<close>. \<^verbatim>\<open>src/api/session.c\<close> is the public
  API over one connection; \<^verbatim>\<open>src/backends/\<close> adapts msquic, Network.framework and
  picoquic.

  Codecs. \<open>Varint\<close>, \<open>H3_Frame\<close>, \<open>Preamble\<close> and \<open>Capsule\<close> model the one-shot and the
  incremental codecs; \<open>Chunked_Decoder\<close> is the contract of an incremental decoder
  (a locale with its laws, interpreted for all four), from which it follows that
  the way the transport splits the bytes does not change what is decoded.
  \<open>H3_Settings\<close>, \<open>Sf_String\<close>, \<open>Qpack_Tables\<close>, \<open>Qpack\<close>, \<open>Connect\<close>, \<open>Origin\<close>, \<open>Results\<close>
  and \<open>Stream_Budget\<close> model the file of that name (\<^verbatim>\<open>conn_origin_*\<close> are in
  \<^verbatim>\<open>conn.c\<close>, the error mapping is \<^verbatim>\<open>errmap.c\<close>, the plan is \<^verbatim>\<open>stream_budget.h\<close>
  with its use in \<^verbatim>\<open>session.c\<close>). Their theorems are round trips, exactness against
  a reference grammar, bounds, and the agreement of both peers on a profile.

  Engine. \<open>Engine_State\<close> has the connection as a record (\<^verbatim>\<open>struct wtq_conn\<close>), the
  pool as a list of records, and the functions every handler ends in.
  \<open>Engine_Session\<close> is establishment, \<open>Engine_Walk\<close> the byte walks, \<open>Engine_Input\<close>
  what a backend reports, \<open>Engine_Api\<close> what the layer above calls, with the
  admission of peer streams. A pointer to a stream is its index. The driver is a
  parameter: every call and every callback is appended to the trace of the state,
  and the driver's answers are functions of the trace, so it may answer in any
  way. \<open>walk\<close> is the common loop of the walks; its guard on the length of the rest
  makes it total, and \<open>Engine_Loops\<close> shows that the guard never decides anything.
  There is no fuel elsewhere: the remaining recursions are structural or have a
  measure.

  Proofs over the engine. \<open>Engine_Steps\<close> is a transition system with the guards
  under which the engine changes its state, and the session's life cycle as an
  abstract machine; \<open>Engine_Inv\<close> proves its invariants by rule induction, among them
  what the buffers hold and which halves a stream can have (\<open>wt_shape\<close>).
  \<open>Engine_Runs\<close>, \<open>Runs_Capsule\<close>, \<open>Runs_Request\<close>, \<open>Runs_Control\<close>, \<open>Runs_Input\<close> and
  \<open>Runs_Api\<close> show, function by function, that each operation of the engine is a run
  of that system. \<open>Engine_System\<close> closes the engine under all of its public
  functions (\<open>conn_op\<close>, \<open>reachable\<close>) and lifts the invariants. \<open>Engine_Orders\<close> has
  the locale \<open>engine_order\<close> for what only grows, interpreted for the life cycle and
  for the facts a connection never takes back. \<open>Engine_Theorems\<close>, \<open>Engine_Loops\<close> and
  \<open>Engine_Decisions\<close> state the properties; \<open>Engine_Example\<close> evaluates a concrete
  server run in the kernel, which serves as the witness and shows that the frame
  buffer of a request stream can be overrun.

  Session layer. \<open>Api_State\<close> has \<^verbatim>\<open>struct wtq_session\<close> and its slots as records, the
  caller-sized structs as bytes, and the budget's snapshot; \<open>Api_Session\<close> the
  reference counts, the slot pool and one adapter per engine callback; \<open>Api_Calls\<close>
  the constructors and the public calls; \<open>Api_System\<close> the queries and the layer as a
  whole. A stream handle is the index of its slot. What happens at the interface
  is appended to a history: the calls of the application, the callbacks to it, the
  leases at the provider, the release of the memory. The engine's callbacks are the
  new entries of its trace; \<open>deliver\<close> hands them to the adapters in order when the
  engine call is through. The application is a function that an adapter calls after
  each callback and that calls the library again; \<open>react plan n\<close> is one that makes
  the calls \<open>plan\<close> chooses from the history and nests at most \<open>n\<close> deep, for any
  \<open>plan\<close> and \<open>n\<close>. \<open>session_reachable\<close> closes a created session under calls of the
  application, batches of engine inputs, passes of the provider (which admit streams
  and feed the engine) and the backend's settings.

  Proofs over the session layer. \<open>Api_Frames\<close> has the invariant of a session relative
  to a frame: the slot references, brackets and terminal events that the calls under
  way still owe. \<open>Api_Runs\<close> states the contract of an application as the locale
  \<open>application\<close> (from a frame to the same frame) and proves it for every adapter;
  \<open>Api_Ops\<close> does so for every public call, and interprets the locale for \<open>react\<close> by
  induction on the depth. \<open>Api_Inv\<close> leads from one session at rest to the next.
  \<open>Api_Theorems\<close> has the properties: one release and nothing after it, one terminal
  callback, also when the connection ends, no callback through NULL, exact reference
  counts. \<open>Api_Functional\<close> has those of single functions, on struct copies, the close
  and the open. \<open>Api_Example\<close> evaluates two sessions; one shows that an open with an
  admission driver can release its reserved slot twice.

  Bounds. Histories are shorter than 2^28 entries in the properties of the session
  layer, so that no 32-bit reference count, which grows by a bounded number per entry,
  wraps around; without such a bound a long enough sequence of \<^verbatim>\<open>wtq_session_add_ref\<close>
  does. Buffers are the byte lists behind the C arrays; where the C code checks a
  capacity so does the model, and where it does not, nothing stops the list from
  growing, which is how the overrun shows. Machine integers keep their width
  except indices and lengths, which are naturals below the capacities the code
  checks.

  Not modelled. Callbacks that call back into the engine (\<^verbatim>\<open>conn.c\<close> tests a
  generation after each one) are not nested in the engine: in the model these calls,
  and the adapters of the session layer, follow the engine operation. Allocation is
  an argument of the constructors; NULL arguments of the engine's functions and the
  locks around a session (\<^verbatim>\<open>wtq_guard_t\<close>) are outside the model, and so is a provider
  that keeps a pointer to a released session. The backends are event handlers, locks
  and send contexts around QUIC stacks that are not in the repository: nearly every
  step of theirs is a call of such a stack, so that a model would be one of code that
  cannot be read here. They appear as the driver and as the inputs of the engine.
\<close>

end
